(* ===== verification/Pcp_Prelude.thy ===== *)
theory Pcp_Prelude
  imports
    Main
    "HOL-Library.Word"
    "HOL-Library.Monad_Syntax"
    "HOL-Library.Signed_Division"
begin

text \<open>
  The prelude of the development: the machine integer types of the C code, byte
  buffers with the packed struct access the message code relies on, the calculus of
  total option computations the pointer code is written in, and chains of pointers.

  \<^item> Machine integers are words of their C width. A field the code keeps in network byte
    order is represented by the number it denotes, so \<^verbatim>\<open>htonl\<close>, \<^verbatim>\<open>htons\<close>, \<^verbatim>\<open>ntohl\<close> and
    \<^verbatim>\<open>ntohs\<close> are the identity and the byte order shows only where a value is written to
    or read from a buffer (\<open>be16\<close>, \<open>be32\<close>).
  \<^item> A computation that dereferences pointers returns an option. The value \<open>None\<close> stands
    for undefined behaviour (a NULL or dangling pointer is dereferenced, an index is out
    of range) or for a loop that does not end. \<open>yields m P\<close> says that \<open>m\<close> returns and its
    result satisfies \<open>P\<close>, so a theorem of this shape is total correctness.
\<close>

unbundle bit_operations_syntax

type_synonym u8 = "8 word"
type_synonym u16 = "16 word"
type_synonym u32 = "32 word"
type_synonym u64 = "64 word"
type_synonym bytes = "u8 list"
type_synonym addr = nat
type_synonym 'a ptr = "addr option"

named_theorems buf_simps \<open>reads and writes of byte buffers\<close>
named_theorems yields_rules \<open>introduction rules of the total option calculus\<close>

section \<open>Total option computations\<close>

definition yields :: "'a option \<Rightarrow> ('a \<Rightarrow> bool) \<Rightarrow> bool" where
  "yields m P \<longleftrightarrow> (\<exists>x. m = Some x \<and> P x)"

lemma yieldsI: "m = Some x \<Longrightarrow> P x \<Longrightarrow> yields m P"
  by (auto simp: yields_def)

lemma yieldsE: "yields m P \<Longrightarrow> (\<And>x. m = Some x \<Longrightarrow> P x \<Longrightarrow> R) \<Longrightarrow> R"
  by (auto simp: yields_def)

lemma yields_Some [simp]: "yields (Some x) P \<longleftrightarrow> P x"
  by (auto simp: yields_def)

lemma yields_None [simp]: "\<not> yields None P"
  by (auto simp: yields_def)

lemma yields_mono: "yields m P \<Longrightarrow> (\<And>x. P x \<Longrightarrow> Q x) \<Longrightarrow> yields m Q"
  by (auto simp: yields_def)

lemma yields_conj: "yields m P \<Longrightarrow> yields m Q \<Longrightarrow> yields m (\<lambda>x. P x \<and> Q x)"
  by (auto simp: yields_def)

lemma yields_bind [yields_rules]:
  "yields m P \<Longrightarrow> (\<And>x. P x \<Longrightarrow> yields (k x) Q) \<Longrightarrow> yields (Option.bind m k) Q"
  by (auto simp: yields_def)

lemma yields_bind_iff: "yields (Option.bind m k) Q \<longleftrightarrow> yields m (\<lambda>x. yields (k x) Q)"
  by (auto simp: yields_def bind_eq_Some_conv)

lemma yields_bind2:
  "yields m P \<Longrightarrow> (\<And>a b. P (a, b) \<Longrightarrow> yields (k a b) Q) \<Longrightarrow>
    yields (Option.bind m (\<lambda>(a, b). k a b)) Q"
  by (erule yields_bind) auto

lemma yields_bind_stop:
  assumes "yields m (\<lambda>(a, b, stop). P a \<and> (if stop then S b a else I b a))"
    and "\<And>a b. P a \<Longrightarrow> S b a \<Longrightarrow> yields (h a b) Q"
    and "\<And>a b. P a \<Longrightarrow> I b a \<Longrightarrow> yields (k a b) Q"
  shows "yields (Option.bind m (\<lambda>(a, b, stop). if stop then h a b else k a b)) Q"
  using assms(1) by (rule yields_bind) (auto intro: assms(2,3) split: if_split_asm)

lemma yields_if [yields_rules]:
  "(b \<Longrightarrow> yields m P) \<Longrightarrow> (\<not> b \<Longrightarrow> yields n P) \<Longrightarrow> yields (if b then m else n) P"
  by auto

lemma yields_prod [yields_rules]:
  "(\<And>a b. p = (a, b) \<Longrightarrow> yields (k a b) Q) \<Longrightarrow> yields (case p of (a, b) \<Rightarrow> k a b) Q"
  by (cases p) auto

lemma yields_option [yields_rules]:
  "(p = None \<Longrightarrow> yields m Q) \<Longrightarrow> (\<And>a. p = Some a \<Longrightarrow> yields (k a) Q) \<Longrightarrow>
    yields (case p of None \<Rightarrow> m | Some a \<Rightarrow> k a) Q"
  by (cases p) auto

section \<open>Integers in network byte order\<close>

definition be16 :: "u16 \<Rightarrow> bytes" where
  "be16 w = [ucast (drop_bit 8 w), ucast w]"

definition of_be16 :: "u8 \<Rightarrow> u8 \<Rightarrow> u16" where
  "of_be16 a b = push_bit 8 (ucast a) OR ucast b"

definition be32 :: "u32 \<Rightarrow> bytes" where
  "be32 w = [ucast (drop_bit 24 w), ucast (drop_bit 16 w), ucast (drop_bit 8 w), ucast w]"

definition of_be32 :: "u8 \<Rightarrow> u8 \<Rightarrow> u8 \<Rightarrow> u8 \<Rightarrow> u32" where
  "of_be32 a b c d =
     push_bit 24 (ucast a) OR push_bit 16 (ucast b) OR push_bit 8 (ucast c) OR ucast d"

lemma length_be16 [simp]: "length (be16 w) = 2"
  by (simp add: be16_def)

lemma length_be32 [simp]: "length (be32 w) = 4"
  by (simp add: be32_def)

lemma of_be16_be16 [simp]: "of_be16 (ucast (drop_bit 8 w)) (ucast w) = w"
  by (rule bit_word_eqI) (auto simp: of_be16_def bit_simps)

lemma of_be32_be32 [simp]:
  "of_be32 (ucast (drop_bit 24 w)) (ucast (drop_bit 16 w)) (ucast (drop_bit 8 w)) (ucast w) = w"
proof (rule bit_word_eqI)
  fix n
  assume "n < LENGTH(32)"
  then consider "n < 8" | "8 \<le> n" "n < 16" | "16 \<le> n" "n < 24" | "24 \<le> n" "n < 32"
    by force
  then show "bit (of_be32 (ucast (drop_bit 24 w)) (ucast (drop_bit 16 w))
      (ucast (drop_bit 8 w)) (ucast w)) n = bit w n"
    by cases (auto simp: of_be32_def bit_simps)
qed

lemma bit_u8_out: "8 \<le> n \<Longrightarrow> \<not> bit (w :: u8) n"
  using bit_imp_le_length [of w n] by auto

lemma be16_of_be16 [simp]: "be16 (of_be16 a b) = [a, b]"
  by (auto simp: be16_def of_be16_def bit_simps bit_u8_out intro!: bit_word_eqI)

lemma be32_of_be32 [simp]: "be32 (of_be32 a b c d) = [a, b, c, d]"
  by (auto simp: be32_def of_be32_def bit_simps bit_u8_out intro!: bit_word_eqI)

lemma be16_inject [simp]: "be16 v = be16 w \<longleftrightarrow> v = w"
proof
  assume "be16 v = be16 w"
  then have "of_be16 (ucast (drop_bit 8 v)) (ucast v) = of_be16 (ucast (drop_bit 8 w)) (ucast w)"
    unfolding be16_def by (simp only: list.inject)
  then show "v = w" by (simp only: of_be16_be16)
qed simp

lemma be32_inject [simp]: "be32 v = be32 w \<longleftrightarrow> v = w"
proof
  assume "be32 v = be32 w"
  then have "of_be32 (ucast (drop_bit 24 v)) (ucast (drop_bit 16 v)) (ucast (drop_bit 8 v)) (ucast v)
      = of_be32 (ucast (drop_bit 24 w)) (ucast (drop_bit 16 w)) (ucast (drop_bit 8 w)) (ucast w)"
    unfolding be32_def by (simp only: list.inject)
  then show "v = w" by (simp only: of_be32_be32)
qed simp

section \<open>Byte buffers\<close>

text \<open>
  A write at offset \<open>off\<close> replaces the bytes there. A write that leaves the buffer makes
  the list longer, and no later write shortens it, so a buffer that still has its
  allocated length was never overrun.
\<close>

definition put_bytes :: "nat \<Rightarrow> bytes \<Rightarrow> bytes \<Rightarrow> bytes" where
  "put_bytes off bs buf = take off buf @ bs @ drop (off + length bs) buf"

definition get_bytes :: "nat \<Rightarrow> nat \<Rightarrow> bytes \<Rightarrow> bytes" where
  "get_bytes off n buf = take n (drop off buf)"

abbreviation put_u8 :: "nat \<Rightarrow> u8 \<Rightarrow> bytes \<Rightarrow> bytes" where
  "put_u8 off v \<equiv> put_bytes off [v]"

abbreviation put_u16 :: "nat \<Rightarrow> u16 \<Rightarrow> bytes \<Rightarrow> bytes" where
  "put_u16 off v \<equiv> put_bytes off (be16 v)"

abbreviation put_u32 :: "nat \<Rightarrow> u32 \<Rightarrow> bytes \<Rightarrow> bytes" where
  "put_u32 off v \<equiv> put_bytes off (be32 v)"

definition get_u8 :: "nat \<Rightarrow> bytes \<Rightarrow> u8" where
  "get_u8 off buf = buf ! off"

definition get_u16 :: "nat \<Rightarrow> bytes \<Rightarrow> u16" where
  "get_u16 off buf = of_be16 (buf ! off) (buf ! (off + 1))"

definition get_u32 :: "nat \<Rightarrow> bytes \<Rightarrow> u32" where
  "get_u32 off buf = of_be32 (buf ! off) (buf ! (off + 1)) (buf ! (off + 2)) (buf ! (off + 3))"

lemma length_put_bytes: "length buf \<le> length (put_bytes off bs buf) \<or> length buf < off"
  by (auto simp: put_bytes_def)

lemma length_put_bytes_in [buf_simps]:
  "off + length bs \<le> length buf \<Longrightarrow> length (put_bytes off bs buf) = length buf"
  by (simp add: put_bytes_def)

lemma put_bytes_overrun:
  "length buf < off + length bs \<Longrightarrow> off \<le> length buf \<Longrightarrow>
    length buf < length (put_bytes off bs buf)"
  by (simp add: put_bytes_def)

lemma nth_put_bytes [buf_simps]:
  "off + length bs \<le> length buf \<Longrightarrow>
    put_bytes off bs buf ! i =
      (if off \<le> i \<and> i < off + length bs then bs ! (i - off) else buf ! i)"
  by (auto simp: put_bytes_def nth_append)

lemma get_bytes_put_same [buf_simps]:
  "off + length bs \<le> length buf \<Longrightarrow> n = length bs \<Longrightarrow>
    get_bytes off n (put_bytes off bs buf) = bs"
  by (simp add: get_bytes_def put_bytes_def)

lemma get_bytes_put_other [buf_simps]:
  assumes "off + length bs \<le> length buf" and "o' + n \<le> off \<or> off + length bs \<le> o'"
  shows "get_bytes o' n (put_bytes off bs buf) = get_bytes o' n buf"
proof (rule nth_equalityI)
  show "length (get_bytes o' n (put_bytes off bs buf)) = length (get_bytes o' n buf)"
    using assms(1) by (simp add: get_bytes_def length_put_bytes_in)
next
  fix i
  assume "i < length (get_bytes o' n (put_bytes off bs buf))"
  then show "get_bytes o' n (put_bytes off bs buf) ! i = get_bytes o' n buf ! i"
    using assms by (auto simp: get_bytes_def length_put_bytes_in nth_put_bytes)
qed

lemma get_u8_put_same [buf_simps]:
  "off + 1 \<le> length buf \<Longrightarrow> get_u8 off (put_u8 off v buf) = v"
  by (simp add: get_u8_def nth_put_bytes)

lemma get_u16_put_same [buf_simps]:
  "off + 2 \<le> length buf \<Longrightarrow> get_u16 off (put_u16 off v buf) = v"
  by (simp add: get_u16_def nth_put_bytes be16_def)

lemma get_u32_put_same [buf_simps]:
  "off + 4 \<le> length buf \<Longrightarrow> get_u32 off (put_u32 off v buf) = v"
  by (simp add: get_u32_def nth_put_bytes be32_def)

lemma get_u8_put_other [buf_simps]:
  "off + length bs \<le> length buf \<Longrightarrow> o' + 1 \<le> off \<or> off + length bs \<le> o' \<Longrightarrow>
    get_u8 o' (put_bytes off bs buf) = get_u8 o' buf"
  by (auto simp: get_u8_def nth_put_bytes)

lemma get_u16_put_other [buf_simps]:
  "off + length bs \<le> length buf \<Longrightarrow> o' + 2 \<le> off \<or> off + length bs \<le> o' \<Longrightarrow>
    get_u16 o' (put_bytes off bs buf) = get_u16 o' buf"
  by (auto simp: get_u16_def nth_put_bytes)

lemma get_u32_put_other [buf_simps]:
  "off + length bs \<le> length buf \<Longrightarrow> o' + 4 \<le> off \<or> off + length bs \<le> o' \<Longrightarrow>
    get_u32 o' (put_bytes off bs buf) = get_u32 o' buf"
  by (auto simp: get_u32_def nth_put_bytes)

lemma get_bytes_take [buf_simps]:
  "off + n \<le> m \<Longrightarrow> get_bytes off n (take m buf) = get_bytes off n buf"
  by (simp add: get_bytes_def drop_take min_def)

lemma get_u8_take [buf_simps]: "off + 1 \<le> m \<Longrightarrow> get_u8 off (take m buf) = get_u8 off buf"
  by (simp add: get_u8_def)

lemma get_u16_take [buf_simps]: "off + 2 \<le> m \<Longrightarrow> get_u16 off (take m buf) = get_u16 off buf"
  by (simp add: get_u16_def)

lemma get_u32_take [buf_simps]: "off + 4 \<le> m \<Longrightarrow> get_u32 off (take m buf) = get_u32 off buf"
  by (simp add: get_u32_def)

section \<open>Chains of pointers\<close>

text \<open>
  \<open>Chain nx p xs q\<close>: following the link function \<open>nx\<close> from \<open>p\<close> visits exactly the
  addresses \<open>xs\<close> and arrives at \<open>q\<close>. The link function is partial: a dangling address
  has no link.
\<close>

fun Chain :: "(addr \<Rightarrow> addr option option) \<Rightarrow> addr option \<Rightarrow> addr list \<Rightarrow> addr option \<Rightarrow> bool" where
  "Chain nx p [] q \<longleftrightarrow> p = q"
| "Chain nx p (a # as) q \<longleftrightarrow> p = Some a \<and> (\<exists>r. nx a = Some r \<and> Chain nx r as q)"

lemma Chain_None [simp]: "Chain nx None xs q \<longleftrightarrow> xs = [] \<and> q = None"
  by (cases xs) auto

lemma Chain_Some_None:
  "Chain nx (Some a) xs None \<longleftrightarrow> (\<exists>ys r. xs = a # ys \<and> nx a = Some r \<and> Chain nx r ys None)"
  by (cases xs) auto

lemma Chain_append:
  "Chain nx p (xs @ ys) q \<longleftrightarrow> (\<exists>r. Chain nx p xs r \<and> Chain nx r ys q)"
  by (induction xs arbitrary: p) auto

lemma Chain_cong:
  "(\<And>a. a \<in> set xs \<Longrightarrow> nx a = ny a) \<Longrightarrow> Chain nx p xs q \<longleftrightarrow> Chain ny p xs q"
  by (induction xs arbitrary: p) auto

lemma Chain_unique: "Chain nx p xs None \<Longrightarrow> Chain nx p ys None \<Longrightarrow> xs = ys"
proof (induction xs arbitrary: p ys)
  case Nil
  then show ?case by simp
next
  case (Cons a xs)
  then show ?case by (cases ys) auto
qed

lemma Chain_suffix: "Chain nx p (xs @ a # ys) q \<Longrightarrow> Chain nx (Some a) (a # ys) q"
  by (auto simp: Chain_append)

lemma Chain_distinct: "Chain nx p xs None \<Longrightarrow> distinct xs"
proof (induction xs arbitrary: p)
  case Nil
  then show ?case by simp
next
  case (Cons a xs)
  then obtain r where r: "nx a = Some r" and ch: "Chain nx r xs None"
    by auto
  have "a \<notin> set xs"
  proof
    assume "a \<in> set xs"
    then obtain us vs where xs: "xs = us @ a # vs" by (auto dest: split_list)
    with ch have "Chain nx (Some a) (a # vs) None" by (blast intro: Chain_suffix)
    then have "Chain nx r vs None" using r by auto
    with ch have "vs = xs" by (blast intro: Chain_unique)
    then show False using xs by simp
  qed
  with ch show ?case using Cons.IH by auto
qed

lemma Chain_defined: "Chain nx p xs q \<Longrightarrow> a \<in> set xs \<Longrightarrow> nx a \<noteq> None"
  by (induction xs arbitrary: p) auto

lemma Chain_upd_other:
  "a \<notin> set xs \<Longrightarrow> Chain (nx(a := r)) p xs q \<longleftrightarrow> Chain nx p xs q"
  by (rule Chain_cong) auto

lemma Chain_snoc:
  assumes "Chain nx p xs None" and "a \<notin> set xs" and "nx a = Some None"
  shows "if xs = [] then Chain nx (Some a) [a] None
    else Chain (nx(last xs := Some (Some a))) p (xs @ [a]) None"
proof (cases xs rule: rev_cases)
  case Nil
  then show ?thesis using assms by simp
next
  case (snoc ys y)
  have "distinct xs" using assms(1) by (rule Chain_distinct)
  then have "y \<notin> set ys" "y \<noteq> a" using snoc assms(2) by auto
  moreover obtain r where "Chain nx p ys r" "r = Some y"
    using assms(1) snoc by (auto simp: Chain_append)
  ultimately show ?thesis
    using snoc assms(3) by (auto simp: Chain_append Chain_upd_other)
qed

lemma Chain_remove:
  assumes "Chain nx p (ys @ a # zs) None" and "nx a = Some r"
  shows "if ys = [] then p = Some a \<and> Chain nx r zs None
    else Chain (nx(last ys := Some r)) p (ys @ zs) None"
proof (cases ys rule: rev_cases)
  case Nil
  then show ?thesis using assms by auto
next
  case (snoc us y)
  have "distinct (ys @ a # zs)" using assms(1) by (rule Chain_distinct)
  then have "y \<notin> set us" "y \<notin> set zs" using snoc by auto
  moreover have "Chain nx p us (Some y)" "Chain nx r zs None"
    using assms snoc by (auto simp: Chain_append)
  ultimately show ?thesis
    using snoc by (auto simp: Chain_append Chain_upd_other)
qed

text \<open>The pointer to the first element of a chain.\<close>

definition hd_ptr :: "addr list \<Rightarrow> addr option" where
  "hd_ptr xs = (case xs of [] \<Rightarrow> None | a # _ \<Rightarrow> Some a)"

lemma hd_ptr_simps [simp]: "hd_ptr [] = None" "hd_ptr (a # xs) = Some a"
  by (simp_all add: hd_ptr_def)

lemma Chain_hd_ptr: "Chain nx p xs None \<Longrightarrow> p = hd_ptr xs"
  by (cases xs) auto

lemma Chain_next_hd_ptr: "Chain nx p (us @ a # xs) None \<Longrightarrow> nx a = Some (hd_ptr xs)"
  by (auto simp: Chain_append dest: Chain_hd_ptr)

end
