(* ===== verification/Pcp_Types.thy ===== *)
theory Pcp_Types
  imports Pcp_Prelude
begin

text \<open>
  The data of the client library: the constants of \<^verbatim>\<open>pcp_msg_structs.h\<close>, the
  enumerations of \<^verbatim>\<open>pcpnatpmp.h\<close> and \<^verbatim>\<open>pcp_event_handler.h\<close>, and the structures of
  \<^verbatim>\<open>pcp_client_db.h\<close> as records, one field per member.

  The build modelled is the one with every optional feature on (\<^verbatim>\<open>PCP_EXPERIMENTAL\<close>,
  \<^verbatim>\<open>PCP_FLOW_PRIORITY\<close>, \<^verbatim>\<open>PCP_SADSCP\<close>, NAT-PMP, \<^verbatim>\<open>PCP_USE_IPV6_SOCKET\<close>) and the
  numbers \<^verbatim>\<open>CMakeLists.txt\<close> passes, on a little-endian LP64 Linux target. A build
  without an option is the case in which the members of that option are never set.

  The prefix of a field names its structure: \<open>kd_\<close> for \<^verbatim>\<open>flow_key_data\<close>, \<open>f_\<close> for
  \<^verbatim>\<open>pcp_flow_s\<close>, \<open>s_\<close> for \<^verbatim>\<open>pcp_server\<close>, \<open>m_\<close> for \<^verbatim>\<open>pcp_recv_msg\<close> and \<open>c_\<close> for
  \<^verbatim>\<open>pcp_ctx_s\<close>. Members the code never reads (\<^verbatim>\<open>opt_flags\<close>, \<^verbatim>\<open>to_send_count\<close>,
  \<^verbatim>\<open>app_data\<close>, the printable server address) are left out.
\<close>

section \<open>Constants\<close>

abbreviation (input) PCP_MAX_LEN :: nat where "PCP_MAX_LEN \<equiv> 1100"

abbreviation (input) PCP_OPCODE_ANNOUNCE :: u8 where "PCP_OPCODE_ANNOUNCE \<equiv> 0"
abbreviation (input) PCP_OPCODE_MAP :: u8 where "PCP_OPCODE_MAP \<equiv> 1"
abbreviation (input) PCP_OPCODE_PEER :: u8 where "PCP_OPCODE_PEER \<equiv> 2"
abbreviation (input) PCP_OPCODE_SADSCP :: u8 where "PCP_OPCODE_SADSCP \<equiv> 3"
abbreviation (input) NATPMP_OPCODE_ANNOUNCE :: u8 where "NATPMP_OPCODE_ANNOUNCE \<equiv> 0"
abbreviation (input) NATPMP_OPCODE_MAP_UDP :: u8 where "NATPMP_OPCODE_MAP_UDP \<equiv> 1"
abbreviation (input) NATPMP_OPCODE_MAP_TCP :: u8 where "NATPMP_OPCODE_MAP_TCP \<equiv> 2"

abbreviation (input) PCP_RES_SUCCESS :: u32 where "PCP_RES_SUCCESS \<equiv> 0"
abbreviation (input) PCP_RES_UNSUPP_VERSION :: u32 where "PCP_RES_UNSUPP_VERSION \<equiv> 1"
abbreviation (input) PCP_RES_NOT_AUTHORIZED :: u32 where "PCP_RES_NOT_AUTHORIZED \<equiv> 2"
abbreviation (input) PCP_RES_MALFORMED_REQUEST :: u32 where "PCP_RES_MALFORMED_REQUEST \<equiv> 3"
abbreviation (input) PCP_RES_UNSUPP_OPCODE :: u32 where "PCP_RES_UNSUPP_OPCODE \<equiv> 4"
abbreviation (input) PCP_RES_UNSUPP_OPTION :: u32 where "PCP_RES_UNSUPP_OPTION \<equiv> 5"
abbreviation (input) PCP_RES_MALFORMED_OPTION :: u32 where "PCP_RES_MALFORMED_OPTION \<equiv> 6"
abbreviation (input) PCP_RES_NETWORK_FAILURE :: u32 where "PCP_RES_NETWORK_FAILURE \<equiv> 7"
abbreviation (input) PCP_RES_NO_RESOURCES :: u32 where "PCP_RES_NO_RESOURCES \<equiv> 8"
abbreviation (input) PCP_RES_UNSUPP_PROTOCOL :: u32 where "PCP_RES_UNSUPP_PROTOCOL \<equiv> 9"
abbreviation (input) PCP_RES_USER_EX_QUOTA :: u32 where "PCP_RES_USER_EX_QUOTA \<equiv> 10"
abbreviation (input) PCP_RES_CANNOT_PROVIDE_EXTERNAL :: u32
  where "PCP_RES_CANNOT_PROVIDE_EXTERNAL \<equiv> 11"
abbreviation (input) PCP_RES_ADDRESS_MISMATCH :: u32 where "PCP_RES_ADDRESS_MISMATCH \<equiv> 12"
abbreviation (input) PCP_RES_EXCESSIVE_REMOTE_PEERS :: u32
  where "PCP_RES_EXCESSIVE_REMOTE_PEERS \<equiv> 13"

abbreviation (input) PCP_OPTION_3RD_PARTY :: u8 where "PCP_OPTION_3RD_PARTY \<equiv> 1"
abbreviation (input) PCP_OPTION_PREF_FAIL :: u8 where "PCP_OPTION_PREF_FAIL \<equiv> 2"
abbreviation (input) PCP_OPTION_FILTER :: u8 where "PCP_OPTION_FILTER \<equiv> 3"
abbreviation (input) PCP_OPTION_DEVICEID :: u8 where "PCP_OPTION_DEVICEID \<equiv> 96"
abbreviation (input) PCP_OPTION_LOCATION :: u8 where "PCP_OPTION_LOCATION \<equiv> 97"
abbreviation (input) PCP_OPTION_USERID :: u8 where "PCP_OPTION_USERID \<equiv> 98"
abbreviation (input) PCP_OPTION_FLOW_PRIORITY :: u8 where "PCP_OPTION_FLOW_PRIORITY \<equiv> 99"
abbreviation (input) PCP_OPTION_METADATA :: u8 where "PCP_OPTION_METADATA \<equiv> 100"

abbreviation (input) MAX_USER_ID :: nat where "MAX_USER_ID \<equiv> 512"
abbreviation (input) MAX_DEVICE_ID :: nat where "MAX_DEVICE_ID \<equiv> 32"
abbreviation (input) MAX_GEO_STR :: nat where "MAX_GEO_STR \<equiv> 32"
abbreviation (input) MD_VAL_MAX_LEN :: nat where "MD_VAL_MAX_LEN \<equiv> 24"

text \<open>Error codes are C integers: the code returns them where it also returns sizes,
  indices and protocol result codes.\<close>

type_synonym pcp_errno = int

abbreviation (input) PCP_ERR_SUCCESS :: pcp_errno where "PCP_ERR_SUCCESS \<equiv> 0"
abbreviation (input) PCP_ERR_MAX_SIZE :: pcp_errno where "PCP_ERR_MAX_SIZE \<equiv> - 1"
abbreviation (input) PCP_ERR_OPT_ALREADY_PRESENT :: pcp_errno where "PCP_ERR_OPT_ALREADY_PRESENT \<equiv> - 2"
abbreviation (input) PCP_ERR_BAD_AFINET :: pcp_errno where "PCP_ERR_BAD_AFINET \<equiv> - 3"
abbreviation (input) PCP_ERR_SEND_FAILED :: pcp_errno where "PCP_ERR_SEND_FAILED \<equiv> - 4"
abbreviation (input) PCP_ERR_RECV_FAILED :: pcp_errno where "PCP_ERR_RECV_FAILED \<equiv> - 5"
abbreviation (input) PCP_ERR_UNSUP_VERSION :: pcp_errno where "PCP_ERR_UNSUP_VERSION \<equiv> - 6"
abbreviation (input) PCP_ERR_NO_MEM :: pcp_errno where "PCP_ERR_NO_MEM \<equiv> - 7"
abbreviation (input) PCP_ERR_BAD_ARGS :: pcp_errno where "PCP_ERR_BAD_ARGS \<equiv> - 8"
abbreviation (input) PCP_ERR_UNKNOWN :: pcp_errno where "PCP_ERR_UNKNOWN \<equiv> - 9"
abbreviation (input) PCP_ERR_SHORT_LIFETIME_ERR :: pcp_errno where "PCP_ERR_SHORT_LIFETIME_ERR \<equiv> - 10"
abbreviation (input) PCP_ERR_TIMEOUT :: pcp_errno where "PCP_ERR_TIMEOUT \<equiv> - 11"
abbreviation (input) PCP_ERR_NOT_FOUND :: pcp_errno where "PCP_ERR_NOT_FOUND \<equiv> - 12"
abbreviation (input) PCP_ERR_WOULDBLOCK :: pcp_errno where "PCP_ERR_WOULDBLOCK \<equiv> - 13"
abbreviation (input) PCP_ERR_ADDRINUSE :: pcp_errno where "PCP_ERR_ADDRINUSE \<equiv> - 14"

text \<open>The numbers the build passes to the compiler.\<close>

abbreviation (input) PCP_MAX_SUPPORTED_VERSION :: u8 where "PCP_MAX_SUPPORTED_VERSION \<equiv> 2"
abbreviation (input) PCP_SERVER_PORT :: u16 where "PCP_SERVER_PORT \<equiv> 5351"
abbreviation (input) PCP_MAX_PING_COUNT :: u32 where "PCP_MAX_PING_COUNT \<equiv> 3"
abbreviation (input) PCP_SERVER_DISCOVERY_RETRY_DELAY :: int
  where "PCP_SERVER_DISCOVERY_RETRY_DELAY \<equiv> 3600"
abbreviation (input) PCP_RETX_IRT :: u32 where "PCP_RETX_IRT \<equiv> 3000"
abbreviation (input) PCP_RETX_MRC :: u32 where "PCP_RETX_MRC \<equiv> 3"
abbreviation (input) PCP_RETX_MRT :: u32 where "PCP_RETX_MRT \<equiv> 1024000"

abbreviation (input) IPPROTO_TCP :: u8 where "IPPROTO_TCP \<equiv> 6"
abbreviation (input) IPPROTO_UDP :: u8 where "IPPROTO_UDP \<equiv> 17"
abbreviation (input) LONG_MAX :: int where "LONG_MAX \<equiv> 9223372036854775807"

abbreviation (input) PCP_INV_SERVER :: u32 where "PCP_INV_SERVER \<equiv> 0xFFFFFFFF"
abbreviation (input) EMPTY :: u32 where "EMPTY \<equiv> 0xFFFFFFFF"
abbreviation (input) FLOW_HASH_BITS :: nat where "FLOW_HASH_BITS \<equiv> 5"
abbreviation (input) FLOW_HASH_SIZE :: nat where "FLOW_HASH_SIZE \<equiv> 64"
abbreviation (input) PCP_INIT_SERVER_COUNT :: nat where "PCP_INIT_SERVER_COUNT \<equiv> 5"

section \<open>Enumerations\<close>

datatype pcp_fstate_e =
    pcp_state_processing
  | pcp_state_succeeded
  | pcp_state_partial_result
  | pcp_state_short_lifetime_error
  | pcp_state_failed

datatype pcp_flow_state_e =
    pfs_any
  | pfs_idle
  | pfs_wait_for_server_init
  | pfs_send
  | pfs_wait_resp
  | pfs_wait_after_short_life_error
  | pfs_wait_for_lifetime_renew
  | pfs_send_renew
  | pfs_failed

datatype pcp_event_e = pcpe_any | pcpe_timeout | pcpe_io_event | pcpe_terminate

text \<open>
  The flow events. A response is turned into the event \<open>FEV_RES_BEGIN + recv_result\<close>; a
  result code beyond the last named one gives a value the enumeration does not name,
  here \<open>fev_res_other\<close>.
\<close>

datatype pcp_flow_event_e =
    fev_flow_timedout
  | fev_server_initialized
  | fev_send
  | fev_msg_sent
  | fev_failed
  | fev_none
  | fev_server_restarted
  | fev_ignored
  | fev_res_success
  | fev_res_unsupp_version
  | fev_res_not_authorized
  | fev_res_malformed_request
  | fev_res_unsupp_opcode
  | fev_res_unsupp_option
  | fev_res_malformed_option
  | fev_res_network_failure
  | fev_res_no_resources
  | fev_res_unsupp_protocol
  | fev_res_user_ex_quota
  | fev_res_cant_provide_ext
  | fev_res_address_mismatch
  | fev_res_exc_remote_peers
  | fev_res_other u32

definition fev_of_result :: "u32 \<Rightarrow> pcp_flow_event_e" where
  "fev_of_result r =
     (if r = PCP_RES_SUCCESS then fev_res_success
      else if r = PCP_RES_UNSUPP_VERSION then fev_res_unsupp_version
      else if r = PCP_RES_NOT_AUTHORIZED then fev_res_not_authorized
      else if r = PCP_RES_MALFORMED_REQUEST then fev_res_malformed_request
      else if r = PCP_RES_UNSUPP_OPCODE then fev_res_unsupp_opcode
      else if r = PCP_RES_UNSUPP_OPTION then fev_res_unsupp_option
      else if r = PCP_RES_MALFORMED_OPTION then fev_res_malformed_option
      else if r = PCP_RES_NETWORK_FAILURE then fev_res_network_failure
      else if r = PCP_RES_NO_RESOURCES then fev_res_no_resources
      else if r = PCP_RES_UNSUPP_PROTOCOL then fev_res_unsupp_protocol
      else if r = PCP_RES_USER_EX_QUOTA then fev_res_user_ex_quota
      else if r = PCP_RES_CANNOT_PROVIDE_EXTERNAL then fev_res_cant_provide_ext
      else if r = PCP_RES_ADDRESS_MISMATCH then fev_res_address_mismatch
      else if r = PCP_RES_EXCESSIVE_REMOTE_PEERS then fev_res_exc_remote_peers
      else fev_res_other r)"

datatype pcp_server_state_e =
    pss_any
  | pss_unitialized
  | pss_allocated
  | pss_ping
  | pss_wait_ping_resp
  | pss_version_negotiation
  | pss_send_all_msgs
  | pss_wait_io
  | pss_wait_io_calc_nearest_timeout
  | pss_server_restart
  | pss_server_reping
  | pss_set_not_working
  | pss_not_working

section \<open>Addresses and times\<close>

text \<open>An IPv6 address as its four 32-bit groups (\<^verbatim>\<open>S6_ADDR32\<close>), in network byte order.\<close>

datatype in6_addr = In6 (s6_0: u32) (s6_1: u32) (s6_2: u32) (s6_3: u32)

datatype pcp_nonce = Nonce (nonce_0: u32) (nonce_1: u32) (nonce_2: u32)

text \<open>A socket address, told apart by its family: \<^verbatim>\<open>sockaddr_in\<close>, \<^verbatim>\<open>sockaddr_in6\<close>, or
  an address of any other family.\<close>

datatype sockaddr =
    Sockaddr_in (sin_addr: u32) (sin_port: u16)
  | Sockaddr_in6 (sin6_addr: in6_addr) (sin6_port: u16) (sin6_scope_id: u32)
  | Sockaddr_other nat

text \<open>\<^verbatim>\<open>struct timeval\<close>; \<^verbatim>\<open>time_t\<close> and \<^verbatim>\<open>suseconds_t\<close> are signed 64-bit numbers, whose
  range the code leaves only where it checks for it, so they are integers here.\<close>

datatype timeval = Timeval (tv_sec: int) (tv_usec: int)

instantiation timeval :: linorder
begin

definition less_eq_timeval :: "timeval \<Rightarrow> timeval \<Rightarrow> bool" where
  "less_eq_timeval x y \<longleftrightarrow> tv_sec x < tv_sec y \<or> tv_sec x = tv_sec y \<and> tv_usec x \<le> tv_usec y"

definition less_timeval :: "timeval \<Rightarrow> timeval \<Rightarrow> bool" where
  "less_timeval x y \<longleftrightarrow> tv_sec x < tv_sec y \<or> tv_sec x = tv_sec y \<and> tv_usec x < tv_usec y"

instance
  by standard (auto simp: less_eq_timeval_def less_timeval_def timeval.expand)

end

end
