(* ===== verification/Pcp_State.thy ===== *)
theory Pcp_State
  imports Pcp_Types
begin

text \<open>
  The structures of \<^verbatim>\<open>pcp_client_db.h\<close> and the environment of the library.

  Flows are linked by pointers (hash chains, children of a MAP flow, the ping flow of a
  server), so they live in an explicit heap \<open>c_heap\<close> from addresses to flows, which is a
  part of the context here. A server is referred to by its position in the array
  \<open>c_pcp_servers\<close>; the array pointer is NULL exactly when the list is empty.

  What the code obtains from the system is a parameter of the operations: the record
  \<open>env\<close> of oracles. The counter \<open>c_tick\<close> of the context numbers the calls, and the
  \<open>n\<close>-th call returns what the oracle says for \<open>n\<close>, so nothing is assumed of two calls
  in a row. What the code hands to the system or to the application is recorded in the
  order in which it happens: \<open>c_sent\<close> holds the datagrams and \<open>c_notes\<close> the calls of the
  flow change callback.
\<close>

section \<open>Flows\<close>

record flow_key_data =
  kd_operation :: u8
  kd_src_ip :: in6_addr
  kd_pcp_server_ip :: in6_addr
  kd_scope_id :: u32
  kd_nonce :: pcp_nonce
  kd_protocol :: u8
  kd_src_port :: u16
  kd_dst_ip :: in6_addr
  kd_dst_port :: u16

text \<open>The union of \<^verbatim>\<open>pcp_flow_s\<close>: the two members share their bytes, and the views read
  the bytes of the one that was written as the other.\<close>

datatype flow_union =
    U_map_peer in6_addr u16
  | U_sadscp u8 u8 u8

fun u_ext_ip :: "flow_union \<Rightarrow> in6_addr" where
  "u_ext_ip (U_map_peer ip port) = ip"
| "u_ext_ip (U_sadscp toler len dscp) = In6 (of_be32 toler len dscp 0) 0 0 0"

fun u_ext_port :: "flow_union \<Rightarrow> u16" where
  "u_ext_port (U_map_peer ip port) = port"
| "u_ext_port (U_sadscp toler len dscp) = 0"

fun u_toler_fields :: "flow_union \<Rightarrow> u8" where
  "u_toler_fields (U_map_peer ip port) = be32 (s6_0 ip) ! 0"
| "u_toler_fields (U_sadscp toler len dscp) = toler"

fun u_app_name_length :: "flow_union \<Rightarrow> u8" where
  "u_app_name_length (U_map_peer ip port) = be32 (s6_0 ip) ! 1"
| "u_app_name_length (U_sadscp toler len dscp) = len"

fun u_learned_dscp :: "flow_union \<Rightarrow> u8" where
  "u_learned_dscp (U_map_peer ip port) = be32 (s6_0 ip) ! 2"
| "u_learned_dscp (U_sadscp toler len dscp) = dscp"

record md_val =
  md_id :: u16
  md_val_buf :: bytes

record pcp_flow =
  f_kd :: flow_key_data
  f_key_bucket :: u32
  f_lifetime :: u32
  f_u :: flow_union
  f_sadscp_app_name :: "bytes option"
  f_recv_lifetime :: int
  f_recv_result :: u32
  f_next :: "addr option"
  f_next_child :: "addr option"
  f_pcp_server_indx :: u32
  f_state :: pcp_flow_state_e
  f_resend_timeout :: u32
  f_retry_count :: u32
  f_timeout :: timeval
  f_userid :: bytes
  f_location :: bytes
  f_deviceid :: bytes
  f_flowp_option_present :: bool
  f_flowp_dscp_up :: u8
  f_flowp_dscp_down :: u8
  f_pfailure_option_present :: bool
  f_filter_option_present :: bool
  f_filter_prefix :: u8
  f_filter_port :: u16
  f_filter_ip :: in6_addr
  f_third_party_option_present :: bool
  f_third_party_ip :: in6_addr
  f_md_vals :: "md_val list"
  f_pcp_msg_len :: u32
  f_pcp_msg_buffer :: "bytes option"
  f_user_data :: "nat option"

section \<open>Servers, messages and the context\<close>

record pcp_server =
  s_pcp_ip :: in6_addr
  s_pcp_port :: u16
  s_pcp_scope_id :: u32
  s_src_ip :: in6_addr
  s_pcp_server_saddr :: sockaddr
  s_pcp_version :: u8
  s_next_version :: u8
  s_server_state :: pcp_server_state_e
  s_epoch :: u32
  s_cepoch :: int
  s_nonce :: pcp_nonce
  s_index :: u32
  s_ping_flow_msg :: "addr option"
  s_restart_flow_msg :: "addr option"
  s_ping_count :: u32
  s_next_timeout :: timeval
  s_natpmp_ext_addr :: u32

record pcp_recv_msg =
  m_kd :: flow_key_data
  m_assigned_ext_ip :: in6_addr
  m_assigned_ext_port :: u16
  m_recv_dscp :: u8
  m_recv_version :: u32
  m_recv_epoch :: u32
  m_recv_lifetime :: u32
  m_recv_result :: u32
  m_received_time :: int
  m_pcp_server_indx :: u32
  m_rcvd_from_addr :: sockaddr
  m_rcvd_to_addr :: sockaddr
  m_pcp_msg_len :: u32
  m_pcp_msg_buffer :: bytes

text \<open>A call of the flow change callback: the flow, its source address, its external
  address and the state reported.\<close>

datatype flow_note = Flow_note addr sockaddr sockaddr pcp_fstate_e

record pcp_ctx =
  c_pcp_servers :: "pcp_server list"
  c_flow_cnt :: u64
  c_flows :: "addr option list"
  c_flow_change_cb :: bool
  c_msg :: pcp_recv_msg
  c_heap :: "addr \<Rightarrow> pcp_flow option"
  c_tick :: nat
  c_sent :: "(sockaddr \<times> bytes) list"
  c_notes :: "flow_note list"

section \<open>The environment\<close>

text \<open>What a receive call returns: the error code \<open>- 1 - n\<close>, or a datagram with the addresses it
  came from and went to.\<close>

datatype recv_outcome = Recv_error nat | Recv_data bytes sockaddr sockaddr

text \<open>\<open>env_connect_src\<close> is the local address the system picks for a datagram socket connected to
  the given address, if all of the calls succeed; \<open>env_gateways\<close> are the addresses and scopes that
  \<^verbatim>\<open>getgateways\<close> finds in the routing table; \<open>env_socket\<close> tells whether a socket can be created.\<close>

record env =
  env_gettimeofday :: "nat \<Rightarrow> timeval"
  env_time :: "nat \<Rightarrow> int"
  env_rand :: "nat \<Rightarrow> u32"
  env_malloc :: "nat \<Rightarrow> addr option"
  env_sendto :: "nat \<Rightarrow> bytes \<Rightarrow> int"
  env_recvfrom :: "nat \<Rightarrow> recv_outcome"
  env_connect_src :: "nat \<Rightarrow> sockaddr \<Rightarrow> sockaddr option"
  env_gateways :: "nat \<Rightarrow> (in6_addr \<times> u32) list"
  env_socket :: "nat \<Rightarrow> bool"

definition tick :: "pcp_ctx \<Rightarrow> pcp_ctx" where
  "tick c = c\<lparr>c_tick := Suc (c_tick c)\<rparr>"

lemma tick_sel [simp]:
  "c_pcp_servers (tick c) = c_pcp_servers c" "c_flow_cnt (tick c) = c_flow_cnt c"
  "c_flows (tick c) = c_flows c" "c_flow_change_cb (tick c) = c_flow_change_cb c"
  "c_msg (tick c) = c_msg c" "c_heap (tick c) = c_heap c" "c_tick (tick c) = Suc (c_tick c)"
  "c_sent (tick c) = c_sent c" "c_notes (tick c) = c_notes c"
  by (simp_all add: tick_def)

definition gettimeofday :: "env \<Rightarrow> pcp_ctx \<Rightarrow> timeval" where
  "gettimeofday E c = env_gettimeofday E (c_tick c)"

text \<open>An allocation returns NULL or an address that is not in use.\<close>

definition calloc_flow :: "env \<Rightarrow> pcp_ctx \<Rightarrow> addr option" where
  "calloc_flow E c =
     (case env_malloc E (c_tick c) of
        None \<Rightarrow> None
      | Some a \<Rightarrow> (if c_heap c a = None then Some a else None))"

definition calloc_buf :: "env \<Rightarrow> pcp_ctx \<Rightarrow> bool" where
  "calloc_buf E c \<longleftrightarrow> env_malloc E (c_tick c) \<noteq> None"

lemma calloc_flow_fresh: "calloc_flow E c = Some a \<Longrightarrow> c_heap c a = None"
  by (auto simp: calloc_flow_def split: option.splits if_splits)

section \<open>Reading and writing flows and servers\<close>

text \<open>Writing a member of a flow through a pointer: undefined for a dangling address.\<close>

definition upd_flow :: "addr \<Rightarrow> (pcp_flow \<Rightarrow> pcp_flow) \<Rightarrow> pcp_ctx \<Rightarrow> pcp_ctx option" where
  "upd_flow a g c =
     (case c_heap c a of
        None \<Rightarrow> None
      | Some f \<Rightarrow> Some (c\<lparr>c_heap := (c_heap c)(a \<mapsto> g f)\<rparr>))"

definition server_at :: "pcp_ctx \<Rightarrow> nat \<Rightarrow> pcp_server option" where
  "server_at c i = (if i < length (c_pcp_servers c) then Some (c_pcp_servers c ! i) else None)"

definition upd_server :: "nat \<Rightarrow> (pcp_server \<Rightarrow> pcp_server) \<Rightarrow> pcp_ctx \<Rightarrow> pcp_ctx option" where
  "upd_server i g c =
     (if i < length (c_pcp_servers c)
      then Some (c\<lparr>c_pcp_servers := (c_pcp_servers c)[i := g (c_pcp_servers c ! i)]\<rparr>)
      else None)"

text \<open>All-zero contents, as \<^verbatim>\<open>calloc\<close> and \<^verbatim>\<open>memset\<close> give.\<close>

definition in6_zero :: in6_addr where "in6_zero = In6 0 0 0 0"

definition nonce_zero :: pcp_nonce where "nonce_zero = Nonce 0 0 0"

definition tv_zero :: timeval where "tv_zero = Timeval 0 0"

definition zero_kd :: flow_key_data where
  "zero_kd = \<lparr>kd_operation = 0, kd_src_ip = in6_zero, kd_pcp_server_ip = in6_zero,
     kd_scope_id = 0, kd_nonce = nonce_zero, kd_protocol = 0, kd_src_port = 0,
     kd_dst_ip = in6_zero, kd_dst_port = 0\<rparr>"

definition zero_flow :: pcp_flow where
  "zero_flow = \<lparr>f_kd = zero_kd, f_key_bucket = 0, f_lifetime = 0, f_u = U_map_peer in6_zero 0,
     f_sadscp_app_name = None, f_recv_lifetime = 0, f_recv_result = 0, f_next = None,
     f_next_child = None, f_pcp_server_indx = 0, f_state = pfs_idle, f_resend_timeout = 0,
     f_retry_count = 0, f_timeout = tv_zero, f_userid = replicate MAX_USER_ID 0,
     f_location = replicate MAX_GEO_STR 0, f_deviceid = replicate MAX_DEVICE_ID 0,
     f_flowp_option_present = False, f_flowp_dscp_up = 0, f_flowp_dscp_down = 0,
     f_pfailure_option_present = False, f_filter_option_present = False, f_filter_prefix = 0,
     f_filter_port = 0, f_filter_ip = in6_zero, f_third_party_option_present = False,
     f_third_party_ip = in6_zero, f_md_vals = [], f_pcp_msg_len = 0, f_pcp_msg_buffer = None,
     f_user_data = None\<rparr>"

definition zero_server :: pcp_server where
  "zero_server = \<lparr>s_pcp_ip = in6_zero, s_pcp_port = 0, s_pcp_scope_id = 0, s_src_ip = in6_zero,
     s_pcp_server_saddr = Sockaddr_other 0, s_pcp_version = 0, s_next_version = 0,
     s_server_state = pss_unitialized, s_epoch = 0, s_cepoch = 0, s_nonce = nonce_zero,
     s_index = 0, s_ping_flow_msg = None, s_restart_flow_msg = None, s_ping_count = 0,
     s_next_timeout = tv_zero, s_natpmp_ext_addr = 0\<rparr>"

definition zero_msg :: pcp_recv_msg where
  "zero_msg = \<lparr>m_kd = zero_kd, m_assigned_ext_ip = in6_zero, m_assigned_ext_port = 0,
     m_recv_dscp = 0, m_recv_version = 0, m_recv_epoch = 0, m_recv_lifetime = 0,
     m_recv_result = 0, m_received_time = 0, m_pcp_server_indx = 0,
     m_rcvd_from_addr = Sockaddr_other 0, m_rcvd_to_addr = Sockaddr_other 0,
     m_pcp_msg_len = 0, m_pcp_msg_buffer = replicate PCP_MAX_LEN 0\<rparr>"

definition zero_ctx :: pcp_ctx where
  "zero_ctx = \<lparr>c_pcp_servers = [], c_flow_cnt = 0, c_flows = replicate FLOW_HASH_SIZE None,
     c_flow_change_cb = False, c_msg = zero_msg, c_heap = (\<lambda>_. None), c_tick = 0, c_sent = [],
     c_notes = []\<rparr>"

text \<open>A concrete environment for evaluations: a clock that stands still, an allocator that never
  fails, a socket that sends everything and receives nothing.\<close>

definition demo_env :: env where
  "demo_env = \<lparr>env_gettimeofday = (\<lambda>n. Timeval 1000 0), env_time = (\<lambda>n. 1000), env_rand = (\<lambda>n. 7),
     env_malloc = (\<lambda>n. Some (100 + n)), env_sendto = (\<lambda>n b. int (length b)),
     env_recvfrom = (\<lambda>n. Recv_error 12),
     env_connect_src = (\<lambda>n to. Some (Sockaddr_in6 (In6 0 0 0xFFFF 0x0A000002) 1024 0)),
     env_gateways = (\<lambda>n. [(In6 0 0 0xFFFF 0x0A000001, 0)]), env_socket = (\<lambda>n. True)\<rparr>"

lemma upd_flow_Some:
  "upd_flow a g c = Some c' \<longleftrightarrow>
    (\<exists>f. c_heap c a = Some f \<and> c' = c\<lparr>c_heap := (c_heap c)(a \<mapsto> g f)\<rparr>)"
  by (auto simp: upd_flow_def split: option.splits)

lemma upd_flow_heap [simp]:
  "c_heap c a = Some f \<Longrightarrow> upd_flow a g c = Some (c\<lparr>c_heap := (c_heap c)(a \<mapsto> g f)\<rparr>)"
  by (simp add: upd_flow_def)

lemma upd_server_in [simp]:
  "i < length (c_pcp_servers c) \<Longrightarrow>
    upd_server i g c = Some (c\<lparr>c_pcp_servers := (c_pcp_servers c)[i := g (c_pcp_servers c ! i)]\<rparr>)"
  by (simp add: upd_server_def)

lemma server_at_in [simp]:
  "i < length (c_pcp_servers c) \<Longrightarrow> server_at c i = Some (c_pcp_servers c ! i)"
  by (simp add: server_at_def)

end
