(* ===== verification/Pcp_Utils.thy ===== *)
theory Pcp_Utils
  imports Pcp_State
begin

text \<open>
  The inline helpers of \<^verbatim>\<open>pcp_utils.h\<close> (time arithmetic, the epoch comparison that
  detects a restarted server, nonces, address tests) and the address conversions of
  \<^verbatim>\<open>net/pcp_socket.c\<close>. The lemmas give each helper its meaning: \<open>tv_us\<close> reads a time as
  microseconds and the time helpers compute on it exactly; \<open>compare_epochs\<close> is the
  validity rule of the protocol wherever its 32-bit arithmetic does not wrap.
\<close>

section \<open>Times\<close>

text \<open>C division and remainder truncate towards zero: \<open>sdiv\<close> and \<open>smod\<close>.\<close>

definition timeval_align :: "timeval \<Rightarrow> timeval" where
  "timeval_align x =
     (let sec = tv_sec x + tv_usec x sdiv 1000000;
          usec = tv_usec x smod 1000000
      in if usec < 0 then Timeval (sec - 1) (1000000 + usec) else Timeval sec usec)"

text \<open>\<^verbatim>\<open>timeval_comp\<close> aligns both arguments in place: the result carries them with the
  value returned.\<close>

definition timeval_comp :: "timeval \<Rightarrow> timeval \<Rightarrow> timeval \<times> timeval \<times> int" where
  "timeval_comp x y =
     (let x = timeval_align x; y = timeval_align y in
      (x, y,
       if tv_sec x < tv_sec y then - 1
       else if tv_sec x > tv_sec y then 1
       else if tv_usec x < tv_usec y then - 1
       else if tv_usec x > tv_usec y then 1
       else 0))"

text \<open>\<open>timeval_subtract x y\<close> is \<open>(result, x', ret)\<close>. The callers pass for \<^verbatim>\<open>result\<close>
  either a variable of its own or \<^verbatim>\<open>y\<close> itself; each member of \<^verbatim>\<open>y\<close> is read before the
  same member of \<^verbatim>\<open>result\<close> is written, and no caller uses \<^verbatim>\<open>y\<close> afterwards.\<close>

definition timeval_subtract :: "timeval \<Rightarrow> timeval \<Rightarrow> timeval \<times> timeval \<times> bool" where
  "timeval_subtract x y =
     (let (x, y, ret) = timeval_comp x y in
      if ret \<le> 0 then (Timeval 0 0, x, True)
      else
        let y = (if tv_usec x < tv_usec y
                 then let nsec = (tv_usec y - tv_usec x) sdiv 1000000 + 1
                      in Timeval (tv_sec y + nsec) (tv_usec y - 1000000 * nsec)
                 else y)
        in (timeval_align (Timeval (tv_sec x - tv_sec y) (tv_usec x - tv_usec y)), x, ret \<le> 0))"

definition tv_is_zero :: "timeval \<Rightarrow> bool" where
  "tv_is_zero t \<longleftrightarrow> tv_sec t = 0 \<and> tv_usec t = 0"

definition tv_us :: "timeval \<Rightarrow> int" where
  "tv_us t = tv_sec t * 1000000 + tv_usec t"

definition tv_normal :: "timeval \<Rightarrow> bool" where
  "tv_normal t \<longleftrightarrow> 0 \<le> tv_usec t \<and> tv_usec t < 1000000"

lemma sdiv_smod_million:
  fixes u :: int
  shows "u = (u sdiv 1000000) * 1000000 + u smod 1000000" and "\<bar>u smod 1000000\<bar> < 1000000"
proof -
  show "u = (u sdiv 1000000) * 1000000 + u smod 1000000"
    by (metis mult.commute add.commute smod_mult_sdiv_eq)
  show "\<bar>u smod 1000000\<bar> < 1000000"
    by (simp add: signed_modulo_int_def abs_mult abs_sgn_eq)
qed

lemma timeval_align_us: "tv_us (timeval_align x) = tv_us x"
  using sdiv_smod_million(1) [of "tv_usec x"]
  by (auto simp: timeval_align_def tv_us_def Let_def)

lemma timeval_align_normal: "tv_normal (timeval_align x)"
  using sdiv_smod_million(2) [of "tv_usec x"]
  by (auto simp: timeval_align_def tv_normal_def Let_def)

lemma tv_normal_div_mod:
  "tv_normal x \<Longrightarrow> tv_sec x = tv_us x div 1000000 \<and> tv_usec x = tv_us x mod 1000000"
  by (simp add: tv_us_def tv_normal_def)

lemma tv_us_inj: "tv_normal x \<Longrightarrow> tv_normal y \<Longrightarrow> tv_us x = tv_us y \<Longrightarrow> x = y"
  by (rule timeval.expand) (auto dest!: tv_normal_div_mod)

lemma tv_us_less_iff: "tv_normal x \<Longrightarrow> tv_normal y \<Longrightarrow> tv_us x < tv_us y \<longleftrightarrow> x < y"
  by (auto simp: tv_us_def tv_normal_def less_timeval_def)

lemma timeval_align_id: "tv_normal x \<Longrightarrow> timeval_align x = x"
  by (blast intro: tv_us_inj timeval_align_normal timeval_align_us)

lemma timeval_comp_sgn: "timeval_comp x y =
    (timeval_align x, timeval_align y, sgn (tv_us x - tv_us y))"
proof -
  let ?x = "timeval_align x" and ?y = "timeval_align y"
  have n: "tv_normal ?x" "tv_normal ?y" by (rule timeval_align_normal)+
  have "sgn (tv_us ?x - tv_us ?y) =
      (if tv_sec ?x < tv_sec ?y then - 1 else if tv_sec ?x > tv_sec ?y then 1
       else if tv_usec ?x < tv_usec ?y then - 1 else if tv_usec ?x > tv_usec ?y then 1 else 0)"
    using n by (auto simp: tv_us_def tv_normal_def sgn_if)
  then show ?thesis by (simp add: timeval_comp_def Let_def timeval_align_us)
qed

lemma timeval_subtract_past:
  "tv_us x \<le> tv_us y \<Longrightarrow> timeval_subtract x y = (Timeval 0 0, timeval_align x, True)"
  by (simp add: timeval_subtract_def timeval_comp_sgn sgn_if)

lemma timeval_subtract_future:
  assumes "tv_us y < tv_us x"
  obtains r where "timeval_subtract x y = (r, timeval_align x, False)"
    and "tv_normal r" and "tv_us r = tv_us x - tv_us y"
proof -
  let ?x = "timeval_align x" and ?y = "timeval_align y"
  let ?y' = "if tv_usec ?x < tv_usec ?y
     then let nsec = (tv_usec ?y - tv_usec ?x) sdiv 1000000 + 1
          in Timeval (tv_sec ?y + nsec) (tv_usec ?y - 1000000 * nsec) else ?y"
  have "tv_us ?y' = tv_us ?y" by (simp add: tv_us_def Let_def algebra_simps)
  then have "tv_us (Timeval (tv_sec ?x - tv_sec ?y') (tv_usec ?x - tv_usec ?y')) = tv_us x - tv_us y"
    using timeval_align_us [of x] timeval_align_us [of y] by (simp add: tv_us_def algebra_simps)
  then show ?thesis
    using assms that timeval_align_us timeval_align_normal
    by (simp add: timeval_subtract_def timeval_comp_sgn Let_def del: timeval.sel)
qed

section \<open>Epochs\<close>

text \<open>\<^verbatim>\<open>compare_epochs\<close> stores the first epoch it sees in the server, then compares how far
  the clocks of server and client have moved since.\<close>

definition c_delta_of :: "pcp_recv_msg \<Rightarrow> pcp_server \<Rightarrow> u32" where
  "c_delta_of f s = word_of_int (m_received_time f - s_cepoch s)"

definition s_delta_of :: "pcp_recv_msg \<Rightarrow> pcp_server \<Rightarrow> u32" where
  "s_delta_of f s = m_recv_epoch f - s_epoch s"

definition compare_epochs :: "pcp_recv_msg \<Rightarrow> pcp_server \<Rightarrow> pcp_server \<times> bool" where
  "compare_epochs f s =
     (let s = (if s_epoch s = 0xFFFFFFFF
               then s\<lparr>s_epoch := m_recv_epoch f, s_cepoch := m_received_time f\<rparr> else s);
          c_delta = c_delta_of f s;
          s_delta = s_delta_of f s
      in (s, c_delta + 2 < s_delta - drop_bit 4 s_delta \<or>
             s_delta + 2 < c_delta - drop_bit 4 c_delta))"

text \<open>The rule on numbers without a width: the clocks disagree by more than one part in
  sixteen and two seconds.\<close>

definition epoch_mismatch :: "nat \<Rightarrow> nat \<Rightarrow> bool" where
  "epoch_mismatch c s \<longleftrightarrow> c + 2 < s - s div 16 \<or> s + 2 < c - c div 16"

lemma unat_minus_sixteenth: "unat (w - drop_bit 4 w) = unat w - unat w div 16" for w :: u32
proof -
  have d: "unat (drop_bit 4 w) = unat w div 16"
    by (simp only: unat_drop_bit_eq) (simp add: drop_bit_eq_div)
  then have "drop_bit 4 w \<le> w"
    by (simp add: word_le_nat_alt del: unat_drop_bit_eq)
  with d show ?thesis by (simp only: unat_sub)
qed

lemma unat_plus_two: "unat w + 2 < 2 ^ 32 \<Longrightarrow> unat (w + 2) = unat w + 2" for w :: u32
  by (simp add: unat_word_ariths)

lemma compare_epochs_word:
  fixes c s :: u32
  assumes "unat c + 2 < 2 ^ 32" and "unat s + 2 < 2 ^ 32"
  shows "(c + 2 < s - drop_bit 4 s \<or> s + 2 < c - drop_bit 4 c) \<longleftrightarrow>
    epoch_mismatch (unat c) (unat s)"
  using assms by (simp add: epoch_mismatch_def word_less_nat_alt unat_minus_sixteenth unat_plus_two)

lemma epoch_mismatch_sym: "epoch_mismatch c s = epoch_mismatch s c"
  by (auto simp: epoch_mismatch_def)

lemma epoch_mismatch_refl: "\<not> epoch_mismatch c c"
  by (simp add: epoch_mismatch_def)

section \<open>Nonces\<close>

text \<open>Three calls of \<^verbatim>\<open>random\<close>, the last word first.\<close>

definition createNonce :: "env \<Rightarrow> pcp_ctx \<Rightarrow> pcp_ctx \<times> pcp_nonce" where
  "createNonce E c =
     (let n2 = env_rand E (c_tick c); c = tick c;
          n1 = env_rand E (c_tick c); c = tick c;
          n0 = env_rand E (c_tick c); c = tick c
      in (c, Nonce n0 n1 n2))"

section \<open>Addresses\<close>

definition IN6_IS_ADDR_UNSPECIFIED :: "in6_addr \<Rightarrow> bool" where
  "IN6_IS_ADDR_UNSPECIFIED a \<longleftrightarrow> s6_0 a = 0 \<and> s6_1 a = 0 \<and> s6_2 a = 0 \<and> s6_3 a = 0"

definition IN6_IS_ADDR_V4MAPPED :: "in6_addr \<Rightarrow> bool" where
  "IN6_IS_ADDR_V4MAPPED a \<longleftrightarrow> s6_0 a = 0 \<and> s6_1 a = 0 \<and> s6_2 a = 0xFFFF"

definition IN6_IS_ADDR_LINKLOCAL :: "in6_addr \<Rightarrow> bool" where
  "IN6_IS_ADDR_LINKLOCAL a \<longleftrightarrow> s6_0 a AND 0xFFC00000 = 0xFE800000"

definition IN6_IS_ADDR_LOOPBACK :: "in6_addr \<Rightarrow> bool" where
  "IN6_IS_ADDR_LOOPBACK a \<longleftrightarrow> s6_0 a = 0 \<and> s6_1 a = 0 \<and> s6_2 a = 0 \<and> s6_3 a = 1"

definition IPV6_IS_ADDR_ANY :: "in6_addr \<Rightarrow> bool" where
  "IPV6_IS_ADDR_ANY a \<longleftrightarrow>
     IN6_IS_ADDR_UNSPECIFIED a \<or> IN6_IS_ADDR_V4MAPPED a \<and> s6_3 a = 0"

definition v4mapped :: "u32 \<Rightarrow> in6_addr" where
  "v4mapped a = In6 0 0 0xFFFF a"

lemma v4mapped_V4MAPPED [simp]: "IN6_IS_ADDR_V4MAPPED (v4mapped a)"
  by (simp add: IN6_IS_ADDR_V4MAPPED_def v4mapped_def)

lemma V4MAPPED_iff: "IN6_IS_ADDR_V4MAPPED a \<longleftrightarrow> a = v4mapped (s6_3 a)"
  by (cases a) (auto simp: IN6_IS_ADDR_V4MAPPED_def v4mapped_def)

text \<open>\<^verbatim>\<open>pcp_fill_in6_addr\<close> writes the outputs the caller passes; the old values come in,
  because an address of another family leaves them untouched.\<close>

fun pcp_fill_in6_addr ::
  "in6_addr \<Rightarrow> u16 \<Rightarrow> u32 \<Rightarrow> sockaddr \<Rightarrow> in6_addr \<times> u16 \<times> u32" where
  "pcp_fill_in6_addr ip port scope (Sockaddr_in a p) = (v4mapped a, p, 0)"
| "pcp_fill_in6_addr ip port scope (Sockaddr_in6 a p sc) = (a, p, sc)"
| "pcp_fill_in6_addr ip port scope (Sockaddr_other n) = (ip, port, scope)"

definition pcp_fill_sockaddr :: "in6_addr \<Rightarrow> u16 \<Rightarrow> bool \<Rightarrow> u32 \<Rightarrow> sockaddr" where
  "pcp_fill_sockaddr sip sport ret_ipv6_mapped_ipv4 scope_id =
     (if \<not> ret_ipv6_mapped_ipv4 \<and> IN6_IS_ADDR_V4MAPPED sip
      then Sockaddr_in (s6_3 sip) sport
      else Sockaddr_in6 sip sport scope_id)"

section \<open>Properties\<close>

text \<open>\<^verbatim>\<open>timeval_subtract\<close> computes the exact difference. When \<open>x\<close> is later
  than \<open>y\<close> it returns 0 and a normalised result of exactly that many microseconds;
  otherwise it returns 1 and a zero result. The first argument is normalised in place and
  keeps its value.\<close>

theorem timeval_subtract_exact:
  "\<exists>r x' ret. timeval_subtract x y = (r, x', ret) \<and> (ret \<longleftrightarrow> tv_us x \<le> tv_us y) \<and>
     tv_us r = max 0 (tv_us x - tv_us y) \<and> tv_normal r \<and> tv_normal x' \<and> tv_us x' = tv_us x"
proof (cases "tv_us x \<le> tv_us y")
  case True
  then show ?thesis
    by (intro exI conjI, rule timeval_subtract_past)
      (simp_all add: timeval_align_us timeval_align_normal,
       simp_all add: tv_us_def tv_normal_def)
next
  case False
  then obtain r where "timeval_subtract x y = (r, timeval_align x, False)"
    and "tv_normal r" and "tv_us r = tv_us x - tv_us y"
    by (auto intro: timeval_subtract_future [of y x])
  with False show ?thesis
    by (intro exI [of _ r] exI [of _ "timeval_align x"] exI [of _ False])
      (simp add: timeval_align_us timeval_align_normal)
qed

text \<open>\<^verbatim>\<open>timeval_comp\<close> is the order of the times in microseconds, also for
  arguments that are not normalised, and agrees with the lexicographic order on the
  normalised ones it leaves behind.\<close>

theorem timeval_comp_order:
  "\<exists>x' y' r. timeval_comp x y = (x', y', r) \<and> tv_normal x' \<and> tv_normal y' \<and>
     tv_us x' = tv_us x \<and> tv_us y' = tv_us y \<and>
     (r < 0 \<longleftrightarrow> tv_us x < tv_us y) \<and> (r = 0 \<longleftrightarrow> tv_us x = tv_us y) \<and>
     (r < 0 \<longleftrightarrow> x' < y') \<and> (r = 0 \<longleftrightarrow> x' = y')"
proof -
  let ?x = "timeval_align x" and ?y = "timeval_align y"
  have n: "tv_normal ?x" "tv_normal ?y" by (rule timeval_align_normal)+
  have "?x = ?y \<longleftrightarrow> tv_us x = tv_us y"
    using tv_us_inj [OF n] timeval_align_us by metis
  moreover have "?x < ?y \<longleftrightarrow> tv_us x < tv_us y"
    using tv_us_less_iff [OF n] by (simp add: timeval_align_us)
  ultimately show ?thesis
    using n by (simp add: timeval_comp_sgn timeval_align_us sgn_if)
qed

text \<open>Property C13: the restart test of \<^verbatim>\<open>compare_epochs\<close>. The first response of a server
  (stored epoch \<open>~0\<close>) is accepted and becomes the reference; afterwards a restart is
  reported exactly when the deltas of the two clocks, read as numbers, differ by more than
  a sixteenth and two seconds, as long as neither is within two of \<open>2 ^ 32\<close>.\<close>

theorem compare_epochs_rule:
  assumes "unat (c_delta_of f s) + 2 < 2 ^ 32" and "unat (s_delta_of f s) + 2 < 2 ^ 32"
  shows "compare_epochs f s =
    (if s_epoch s = 0xFFFFFFFF
     then (s\<lparr>s_epoch := m_recv_epoch f, s_cepoch := m_received_time f\<rparr>, False)
     else (s, epoch_mismatch (unat (c_delta_of f s)) (unat (s_delta_of f s))))"
  using compare_epochs_word [OF assms]
  by (simp add: compare_epochs_def Let_def c_delta_of_def s_delta_of_def)

theorem compare_epochs_rule_witness:
  "compare_epochs (zero_msg\<lparr>m_recv_epoch := 100, m_received_time := 1060\<rparr>)
      (zero_server\<lparr>s_epoch := 200, s_cepoch := 1000\<rparr>) =
    (zero_server\<lparr>s_epoch := 200, s_cepoch := 1000\<rparr>, True)"
proof -
  let ?m = "zero_msg\<lparr>m_recv_epoch := 100, m_received_time := 1060\<rparr>"
  let ?s = "zero_server\<lparr>s_epoch := 200, s_cepoch := 1000\<rparr>"
  have d: "c_delta_of ?m ?s = 60" "s_delta_of ?m ?s = - 100"
    by (simp_all add: c_delta_of_def s_delta_of_def)
  have h: "unat (c_delta_of ?m ?s) + 2 < 2 ^ 32" "unat (s_delta_of ?m ?s) + 2 < 2 ^ 32"
    unfolding d by simp_all
  show ?thesis
    using compare_epochs_rule [OF h] unfolding d by (simp add: epoch_mismatch_def)
qed

text \<open>Converting an address to a socket address and back. With IPv4-mapped
  addresses turned into IPv4 ones the address and the port survive, and the scope survives
  unless the address was IPv4; asking for an IPv6 address keeps all three.\<close>

theorem pcp_fill_roundtrip:
  "pcp_fill_in6_addr ip0 port0 scope0 (pcp_fill_sockaddr ip port mapped scope) =
     (ip, port, if \<not> mapped \<and> IN6_IS_ADDR_V4MAPPED ip then 0 else scope)"
  using V4MAPPED_iff [of ip] by (auto simp: pcp_fill_sockaddr_def)

end
