(* ===== verification/Pcp_Client_Db.thy ===== *)
theory Pcp_Client_Db
  imports Pcp_Utils
begin

text \<open>
  The client database, \<^verbatim>\<open>pcp_client_db.c\<close>: a hash table of flows chained through their
  \<^verbatim>\<open>next\<close> pointers, and a growing array of servers.

  The operations are translated with their pointer walks: the \<^verbatim>\<open>pcp_flow_t **\<close> cursor of
  the loops is a \<open>link\<close> (the cell of a bucket or the \<^verbatim>\<open>next\<close> member of a flow) that is read
  and written. \<open>db_rep c bs\<close> relates the table of a context to the list of its chains, and
  the refinement lemmas state what each operation does on those lists. The locale
  \<open>flow_index\<close> is the contract of the table its clients rely on, \<open>table_walk\<close> the one of a
  callback of \<^verbatim>\<open>pcp_db_foreach_flow\<close>.
\<close>

section \<open>The hash of a key\<close>

definition in6_bytes :: "in6_addr \<Rightarrow> bytes" where
  "in6_bytes a = be32 (s6_0 a) @ be32 (s6_1 a) @ be32 (s6_2 a) @ be32 (s6_3 a)"

definition nonce_bytes :: "pcp_nonce \<Rightarrow> bytes" where
  "nonce_bytes n = be32 (nonce_0 n) @ be32 (nonce_1 n) @ be32 (nonce_2 n)"

text \<open>The 76 bytes of a \<^verbatim>\<open>struct flow_key_data\<close>. Padding is zero, because every key starts
  as zeroed memory; the scope id is the one member in host (little-endian) order.\<close>

definition kd_bytes :: "flow_key_data \<Rightarrow> bytes" where
  "kd_bytes kd =
     [kd_operation kd, 0, 0, 0] @ in6_bytes (kd_src_ip kd) @ in6_bytes (kd_pcp_server_ip kd) @
     rev (be32 (kd_scope_id kd)) @ nonce_bytes (kd_nonce kd) @
     [kd_protocol kd, 0] @ be16 (kd_src_port kd) @ in6_bytes (kd_dst_ip kd) @
     be16 (kd_dst_port kd) @ [0, 0]"

definition hash_byte :: "u8 \<Rightarrow> u32 \<Rightarrow> u32" where
  "hash_byte k h =
     (let ho = h AND 0xFF000000;
          h = push_bit 8 h;
          h = h XOR drop_bit 24 ho
      in h XOR ucast k)"

definition compute_flow_key :: "flow_key_data \<Rightarrow> u32" where
  "compute_flow_key kd =
     drop_bit (32 - FLOW_HASH_BITS) (fold hash_byte (rev (kd_bytes kd)) 0 * 0x9E3779B9)"

lemma length_in6_bytes [simp]: "length (in6_bytes a) = 16"
  by (simp add: in6_bytes_def)

lemma length_nonce_bytes [simp]: "length (nonce_bytes n) = 12"
  by (simp add: nonce_bytes_def)

lemma length_kd_bytes: "length (kd_bytes kd) = 76"
  by (simp add: kd_bytes_def)

lemma in6_bytes_inject [simp]: "in6_bytes a = in6_bytes b \<longleftrightarrow> a = b"
  by (cases a; cases b) (auto simp: in6_bytes_def)

lemma nonce_bytes_inject [simp]: "nonce_bytes a = nonce_bytes b \<longleftrightarrow> a = b"
  by (cases a; cases b) (auto simp: nonce_bytes_def)

text \<open>Equality of the bytes, what \<^verbatim>\<open>memcmp\<close> tests, is equality of the keys.\<close>

lemma kd_bytes_inject: "kd_bytes k = kd_bytes l \<longleftrightarrow> k = l"
proof
  assume e: "kd_bytes k = kd_bytes l"
  show "k = l"
    by (rule flow_key_data.equality)
      (use e in \<open>simp_all add: kd_bytes_def\<close>)
qed simp

lemma compute_flow_key_bound: "unat (compute_flow_key kd) < 32"
proof -
  have "unat w < 2 ^ 32" for w :: u32
    using unsigned_less [of w] by simp
  then have "unat (drop_bit 27 w) < 32" for w :: u32
    by (simp only: unat_drop_bit_eq) (simp add: drop_bit_eq_div less_mult_imp_div_less)
  then show ?thesis by (simp add: compute_flow_key_def)
qed

section \<open>Cursors\<close>

datatype link = L_bucket nat | L_next addr

fun link_read :: "pcp_ctx \<Rightarrow> link \<Rightarrow> addr option option" where
  "link_read c (L_bucket i) = (if i < length (c_flows c) then Some (c_flows c ! i) else None)"
| "link_read c (L_next a) = map_option f_next (c_heap c a)"

fun link_write :: "link \<Rightarrow> addr option \<Rightarrow> pcp_ctx \<Rightarrow> pcp_ctx option" where
  "link_write (L_bucket i) p c =
     (if i < length (c_flows c) then Some (c\<lparr>c_flows := (c_flows c)[i := p]\<rparr>) else None)"
| "link_write (L_next a) p c = upd_flow a (f_next_update (\<lambda>_. p)) c"

section \<open>Flows\<close>

definition pcp_create_flow ::
  "env \<Rightarrow> pcp_server \<Rightarrow> flow_key_data \<Rightarrow> pcp_ctx \<Rightarrow> pcp_ctx \<times> addr option" where
  "pcp_create_flow E s fkd c =
     (case calloc_flow E c of
        None \<Rightarrow> (tick c, None)
      | Some a \<Rightarrow>
          (tick (c\<lparr>c_heap := (c_heap c)(a \<mapsto>
             zero_flow\<lparr>f_pcp_msg_len := 0, f_pcp_server_indx := s_index s, f_kd := fkd,
               f_key_bucket := EMPTY\<rparr>)\<rparr>), Some a))"

definition pcp_flow_clear_msg_buf :: "addr option \<Rightarrow> pcp_ctx \<Rightarrow> pcp_ctx option" where
  "pcp_flow_clear_msg_buf p c =
     (case p of
        None \<Rightarrow> Some c
      | Some a \<Rightarrow> upd_flow a (\<lambda>f. f\<lparr>f_pcp_msg_buffer := None, f_pcp_msg_len := 0\<rparr>) c)"

text \<open>\<^verbatim>\<open>get_pcp_server\<close> takes a signed index; a server is returned by its position.\<close>

definition get_pcp_server :: "pcp_ctx \<Rightarrow> int \<Rightarrow> nat option" where
  "get_pcp_server c i =
     (if i < 0 \<or> int (length (c_pcp_servers c)) \<le> i then None
      else if s_server_state (c_pcp_servers c ! nat i) = pss_unitialized then None
      else Some (nat i))"

partial_function (option) add_flow_end :: "link \<Rightarrow> pcp_ctx \<Rightarrow> link option" where
  "add_flow_end fdb c =
     do { p \<leftarrow> link_read c fdb;
          case p of None \<Rightarrow> Some fdb | Some a \<Rightarrow> add_flow_end (L_next a) c }"

definition pcp_db_add_flow :: "addr option \<Rightarrow> pcp_ctx \<Rightarrow> (pcp_ctx \<times> pcp_errno) option" where
  "pcp_db_add_flow p c =
     (case p of
        None \<Rightarrow> Some (c, PCP_ERR_BAD_ARGS)
      | Some a \<Rightarrow>
          do { f \<leftarrow> c_heap c a;
               let indx = compute_flow_key (f_kd f);
               c \<leftarrow> upd_flow a (f_key_bucket_update (\<lambda>_. indx)) c;
               fdb \<leftarrow> add_flow_end (L_bucket (unat indx)) c;
               c \<leftarrow> link_write fdb (Some a) c;
               c \<leftarrow> upd_flow a (f_next_update (\<lambda>_. None)) c;
               Some (c\<lparr>c_flow_cnt := c_flow_cnt c + 1\<rparr>, PCP_ERR_SUCCESS) })"

partial_function (option) get_flow_loop ::
  "flow_key_data \<Rightarrow> u32 \<Rightarrow> link \<Rightarrow> pcp_ctx \<Rightarrow> addr option option" where
  "get_flow_loop fkd si fdb c =
     do { p \<leftarrow> link_read c fdb;
          case p of
            None \<Rightarrow> Some None
          | Some a \<Rightarrow>
              do { f \<leftarrow> c_heap c a;
                   if f_pcp_server_indx f = si \<and> kd_bytes fkd = kd_bytes (f_kd f)
                   then Some (Some a)
                   else get_flow_loop fkd si (L_next a) c } }"

definition pcp_get_flow ::
  "flow_key_data \<Rightarrow> pcp_server \<Rightarrow> pcp_ctx \<Rightarrow> addr option option" where
  "pcp_get_flow fkd s c =
     get_flow_loop fkd (s_index s) (L_bucket (unat (compute_flow_key fkd))) c"

partial_function (option) rem_flow_loop ::
  "addr \<Rightarrow> link \<Rightarrow> pcp_ctx \<Rightarrow> (pcp_ctx \<times> pcp_errno) option" where
  "rem_flow_loop f fdb c =
     do { p \<leftarrow> link_read c fdb;
          case p of
            None \<Rightarrow> Some (c, PCP_ERR_NOT_FOUND)
          | Some a \<Rightarrow>
              if a = f
              then do { c \<leftarrow> upd_flow a (f_key_bucket_update (\<lambda>_. EMPTY)) c;
                        n \<leftarrow> link_read c (L_next a);
                        c \<leftarrow> link_write fdb n c;
                        Some (c\<lparr>c_flow_cnt := c_flow_cnt c - 1\<rparr>, PCP_ERR_SUCCESS) }
              else rem_flow_loop f (L_next a) c }"

definition pcp_db_rem_flow :: "addr \<Rightarrow> pcp_ctx \<Rightarrow> (pcp_ctx \<times> pcp_errno) option" where
  "pcp_db_rem_flow a c =
     do { f \<leftarrow> c_heap c a;
          if f_key_bucket f = EMPTY then Some (c, PCP_ERR_NOT_FOUND)
          else rem_flow_loop a (L_bucket (unat (f_key_bucket f))) c }"

text \<open>The part of \<^verbatim>\<open>pcp_delete_flow_intern\<close> that takes the flow from its server.\<close>

definition clear_ping_flow :: "addr \<Rightarrow> pcp_flow \<Rightarrow> pcp_ctx \<Rightarrow> pcp_ctx option" where
  "clear_ping_flow a f c =
     (if f_pcp_server_indx f = PCP_INV_SERVER then Some c
      else case get_pcp_server c (sint (f_pcp_server_indx f)) of
        None \<Rightarrow> Some c
      | Some i \<Rightarrow>
          if s_ping_flow_msg (c_pcp_servers c ! i) = Some a
          then upd_server i (s_ping_flow_msg_update (\<lambda>_. None)) c
          else Some c)"

definition pcp_delete_flow_intern :: "addr \<Rightarrow> pcp_ctx \<Rightarrow> (pcp_ctx \<times> pcp_errno) option" where
  "pcp_delete_flow_intern a c =
     do { (c, _) \<leftarrow> pcp_db_rem_flow a c;
          f \<leftarrow> c_heap c a;
          c \<leftarrow> clear_ping_flow a f c;
          Some (c\<lparr>c_heap := (c_heap c)(a := None)\<rparr>, PCP_ERR_SUCCESS) }"

text \<open>The iteration over all flows. A callback gets the flow, its data and the context,
  and returns them with the value that stops the walk; the successor of a flow is read
  before the callback runs.\<close>

type_synonym 's flow_iterate = "addr \<Rightarrow> 's \<Rightarrow> pcp_ctx \<Rightarrow> (pcp_ctx \<times> 's \<times> bool) option"

partial_function (option) foreach_chain ::
  "'s flow_iterate \<Rightarrow> addr option \<Rightarrow> 's \<Rightarrow> pcp_ctx \<Rightarrow> (pcp_ctx \<times> 's \<times> bool) option" where
  "foreach_chain cb fdb data c =
     (case fdb of
        None \<Rightarrow> Some (c, data, False)
      | Some a \<Rightarrow>
          do { f \<leftarrow> c_heap c a;
               let fdb_next = f_next f;
               (c, data, stop) \<leftarrow> cb a data c;
               if stop then Some (c, data, True) else foreach_chain cb fdb_next data c })"

fun foreach_bucket ::
  "'s flow_iterate \<Rightarrow> nat list \<Rightarrow> 's \<Rightarrow> pcp_ctx \<Rightarrow> (pcp_ctx \<times> 's \<times> pcp_errno) option" where
  "foreach_bucket cb [] data c = Some (c, data, PCP_ERR_NOT_FOUND)"
| "foreach_bucket cb (indx # indxs) data c =
     do { fdb \<leftarrow> link_read c (L_bucket indx);
          (c, data, stop) \<leftarrow> foreach_chain cb fdb data c;
          if stop then Some (c, data, PCP_ERR_SUCCESS) else foreach_bucket cb indxs data c }"

definition pcp_db_foreach_flow ::
  "'s flow_iterate \<Rightarrow> 's \<Rightarrow> pcp_ctx \<Rightarrow> (pcp_ctx \<times> 's \<times> pcp_errno) option" where
  "pcp_db_foreach_flow cb data c = foreach_bucket cb [0..<FLOW_HASH_SIZE] data c"

text \<open>\<^verbatim>\<open>pcp_db_add_md\<close> on the array of a flow; \<open>mem\<close> tells whether the array can grow and the
  empty \<open>val\<close> stands for no value.\<close>

fun add_md :: "bool \<Rightarrow> u16 \<Rightarrow> bytes \<Rightarrow> md_val list \<Rightarrow> md_val list" where
  "add_md mem i val [] =
     (if mem then [\<lparr>md_id = i, md_val_buf = take MD_VAL_MAX_LEN val\<rparr>] else [])"
| "add_md mem i val (md # mds) =
     (if md_id md = i then md\<lparr>md_id := i, md_val_buf := take MD_VAL_MAX_LEN val\<rparr> # mds
      else md # add_md mem i val mds)"

definition pcp_db_add_md :: "env \<Rightarrow> addr \<Rightarrow> u16 \<Rightarrow> bytes \<Rightarrow> pcp_ctx \<Rightarrow> pcp_ctx option" where
  "pcp_db_add_md E a i val c =
     upd_flow a (\<lambda>f. f\<lparr>f_md_vals := add_md (calloc_buf E c) i val (f_md_vals f)\<rparr>) (tick c)"

section \<open>Servers\<close>

fun first_unused :: "pcp_server list \<Rightarrow> nat option" where
  "first_unused [] = None"
| "first_unused (s # ss) =
     (if s_server_state s = pss_unitialized then Some 0 else map_option Suc (first_unused ss))"

text \<open>The members \<^verbatim>\<open>pcp_new_server\<close> sets in the record it takes.\<close>

definition init_server :: "in6_addr \<Rightarrow> u16 \<Rightarrow> u32 \<Rightarrow> pcp_nonce \<Rightarrow> pcp_server \<Rightarrow> pcp_server" where
  "init_server ip port scope_id nonce s =
     s\<lparr>s_epoch := 0xFFFFFFFF, s_pcp_ip := ip, s_pcp_port := port,
       s_pcp_scope_id := (if IN6_IS_ADDR_LINKLOCAL ip then scope_id else 0),
       s_server_state := pss_allocated, s_pcp_version := PCP_MAX_SUPPORTED_VERSION,
       s_nonce := nonce\<rparr>"

text \<open>The servers array after the search for an unused record, with the record found;
  \<open>None\<close> when memory runs out.\<close>

definition new_server_slot :: "env \<Rightarrow> pcp_ctx \<Rightarrow> pcp_ctx \<times> nat option" where
  "new_server_slot E c =
     (let (c, ok) = (if c_pcp_servers c = []
            then (if calloc_buf E c
                  then (tick (c\<lparr>c_pcp_servers := replicate PCP_INIT_SERVER_COUNT zero_server\<rparr>), True)
                  else (tick c, False))
            else (c, True))
      in if \<not> ok then (c, None)
         else case first_unused (c_pcp_servers c) of
             Some i \<Rightarrow> (c, Some i)
           | None \<Rightarrow>
               let len = length (c_pcp_servers c) in
               if calloc_buf E c
               then (tick (c\<lparr>c_pcp_servers := c_pcp_servers c @ replicate len zero_server\<rparr>), Some len)
               else (tick c, None))"

definition pcp_new_server ::
  "env \<Rightarrow> in6_addr \<Rightarrow> u16 \<Rightarrow> u32 \<Rightarrow> pcp_ctx \<Rightarrow> (pcp_ctx \<times> int) option" where
  "pcp_new_server E ip port scope_id c =
     (case new_server_slot E c of
        (c, None) \<Rightarrow> Some (c, PCP_ERR_NO_MEM)
      | (c, Some i) \<Rightarrow>
          let (c, nonce) = createNonce E c in
          do { c \<leftarrow> upd_server i (init_server ip port scope_id nonce) c;
               if i > 2147483647
               then do { c \<leftarrow> upd_server i (s_index_update (\<lambda>_. - 1)) c; Some (c, - 1) }
               else do { c \<leftarrow> upd_server i (s_index_update (\<lambda>_. of_nat i)) c; Some (c, int i) } })"

type_synonym 's server_iterate = "nat \<Rightarrow> 's \<Rightarrow> pcp_ctx \<Rightarrow> (pcp_ctx \<times> 's \<times> bool) option"

partial_function (option) foreach_server_loop ::
  "'s server_iterate \<Rightarrow> nat \<Rightarrow> 's \<Rightarrow> pcp_ctx \<Rightarrow> (pcp_ctx \<times> 's \<times> pcp_errno) option" where
  "foreach_server_loop cb indx data c =
     (if indx < length (c_pcp_servers c)
      then if s_server_state (c_pcp_servers c ! indx) = pss_unitialized
        then foreach_server_loop cb (Suc indx) data c
        else do { (c, data, stop) \<leftarrow> cb indx data c;
                  if stop then Some (c, data, PCP_ERR_SUCCESS)
                  else foreach_server_loop cb (Suc indx) data c }
      else Some (c, data, PCP_ERR_MAX_SIZE))"

definition pcp_db_foreach_server ::
  "'s server_iterate \<Rightarrow> 's \<Rightarrow> pcp_ctx \<Rightarrow> (pcp_ctx \<times> 's \<times> pcp_errno) option" where
  "pcp_db_foreach_server cb data c = foreach_server_loop cb 0 data c"

record find_data =
  fd_ip :: in6_addr
  fd_scope_id :: u32
  fd_found_server :: "nat option"

definition find_ip :: "find_data server_iterate" where
  "find_ip i fd c =
     do { s \<leftarrow> server_at c i;
          if fd_ip fd = s_pcp_ip s \<and> fd_scope_id fd = s_pcp_scope_id s
          then Some (c, fd\<lparr>fd_found_server := Some i\<rparr>, True)
          else Some (c, fd, False) }"

definition get_pcp_server_by_ip :: "in6_addr \<Rightarrow> u32 \<Rightarrow> pcp_ctx \<Rightarrow> nat option option" where
  "get_pcp_server_by_ip ip scope_id c =
     do { (c, fd, _) \<leftarrow> pcp_db_foreach_server find_ip
            \<lparr>fd_ip = ip, fd_scope_id = (if IN6_IS_ADDR_LINKLOCAL ip then scope_id else 0),
             fd_found_server = None\<rparr> c;
          Some (fd_found_server fd) }"

section \<open>The table as lists\<close>

definition fnext :: "pcp_ctx \<Rightarrow> addr \<Rightarrow> addr option option" where
  "fnext c a = map_option f_next (c_heap c a)"

definition fbucket :: "pcp_ctx \<Rightarrow> addr \<Rightarrow> u32 option" where
  "fbucket c a = map_option f_key_bucket (c_heap c a)"

text \<open>\<open>db_rep c bs\<close>: the chain of bucket \<open>i\<close> visits exactly the flows \<open>bs ! i\<close>, each flow of
  the chain carries the number of its bucket, every flow in memory that carries a bucket
  number is in that chain, and the counter counts the flows.\<close>

definition db_rep :: "pcp_ctx \<Rightarrow> addr list list \<Rightarrow> bool" where
  "db_rep c bs \<longleftrightarrow>
     length bs = FLOW_HASH_SIZE \<and> length (c_flows c) = FLOW_HASH_SIZE \<and>
     (\<forall>i<FLOW_HASH_SIZE. Chain (fnext c) (c_flows c ! i) (bs ! i) None \<and>
        (\<forall>a\<in>set (bs ! i). fbucket c a = Some (of_nat i))) \<and>
     (\<forall>a b. fbucket c a = Some b \<longrightarrow> b \<noteq> EMPTY \<longrightarrow> unat b < FLOW_HASH_SIZE \<and> a \<in> set (bs ! unat b)) \<and>
     c_flow_cnt c = of_nat (length (concat bs))"

lemma db_rep_cong:
  assumes "fnext c' = fnext c" and "fbucket c' = fbucket c" and "c_flows c' = c_flows c"
    and "c_flow_cnt c' = c_flow_cnt c"
  shows "db_rep c' bs \<longleftrightarrow> db_rep c bs"
  by (simp add: db_rep_def assms)

lemma fnext_Some: "fnext c a = Some r \<longleftrightarrow> (\<exists>f. c_heap c a = Some f \<and> f_next f = r)"
  by (auto simp: fnext_def)

lemma fbucket_Some: "fbucket c a = Some r \<longleftrightarrow> (\<exists>f. c_heap c a = Some f \<and> f_key_bucket f = r)"
  by (auto simp: fbucket_def)

lemma link_read_next: "link_read c (L_next a) = fnext c a"
  by (simp add: fnext_def)

definition link_end :: "link \<Rightarrow> addr list \<Rightarrow> link" where
  "link_end l xs = (if xs = [] then l else L_next (last xs))"

lemma link_end_simps [simp]:
  "link_end l [] = l"
  "link_end l (a # xs) = link_end (L_next a) xs"
  by (simp_all add: link_end_def)

lemma add_flow_end_chain:
  assumes "Chain (fnext c) p xs None" and "link_read c l = Some p"
  shows "add_flow_end l c = Some (link_end l xs)"
  using assms
proof (induction xs arbitrary: p l)
  case Nil
  then show ?case by (simp add: add_flow_end.simps)
next
  case (Cons a xs)
  then have "link_read c (L_next a) = fnext c a" by (simp only: link_read_next)
  with Cons show ?case
    by (subst add_flow_end.simps) (auto simp del: link_read.simps)
qed

definition flow_matches :: "flow_key_data \<Rightarrow> u32 \<Rightarrow> pcp_ctx \<Rightarrow> addr \<Rightarrow> bool" where
  "flow_matches fkd si c a \<longleftrightarrow>
     (case c_heap c a of None \<Rightarrow> False | Some f \<Rightarrow> f_pcp_server_indx f = si \<and> f_kd f = fkd)"

lemma get_flow_loop_chain:
  assumes "Chain (fnext c) p xs None" and "link_read c l = Some p"
  shows "get_flow_loop fkd si l c = Some (find (flow_matches fkd si c) xs)"
  using assms
proof (induction xs arbitrary: p l)
  case Nil
  then show ?case by (simp add: get_flow_loop.simps)
next
  case (Cons a xs)
  then obtain r f where "c_heap c a = Some f" and "Chain (fnext c) r xs None" and "f_next f = r"
    by (auto simp: fnext_Some)
  moreover from this have "get_flow_loop fkd si (L_next a) c = Some (find (flow_matches fkd si c) xs)"
    by (intro Cons.IH) auto
  ultimately show ?case
    using Cons.prems by (subst get_flow_loop.simps) (auto simp: flow_matches_def kd_bytes_inject)
qed

lemma rem_flow_loop_chain:
  assumes "Chain (fnext c) p (ys @ a # zs) None" and "link_read c l = Some p"
    and "a \<notin> set ys" and "c_heap c a = Some f"
  shows "rem_flow_loop a l c =
    do { c \<leftarrow> upd_flow a (f_key_bucket_update (\<lambda>_. EMPTY)) c;
         c \<leftarrow> link_write (link_end l ys) (f_next f) c;
         Some (c\<lparr>c_flow_cnt := c_flow_cnt c - 1\<rparr>, PCP_ERR_SUCCESS) }"
  using assms
proof (induction ys arbitrary: p l)
  case Nil
  then show ?case by (subst rem_flow_loop.simps) simp
next
  case (Cons b ys)
  then obtain r where "fnext c b = Some r" and "Chain (fnext c) r (ys @ a # zs) None"
    by auto
  then have "rem_flow_loop a (L_next b) c =
    do { c \<leftarrow> upd_flow a (f_key_bucket_update (\<lambda>_. EMPTY)) c;
         c \<leftarrow> link_write (link_end (L_next b) ys) (f_next f) c;
         Some (c\<lparr>c_flow_cnt := c_flow_cnt c - 1\<rparr>, PCP_ERR_SUCCESS) }"
    using Cons by (intro Cons.IH) (auto simp: fnext_def)
  then show ?case
    using Cons.prems by (subst rem_flow_loop.simps) auto
qed

lemma db_rep_chain:
  "db_rep c bs \<Longrightarrow> i < FLOW_HASH_SIZE \<Longrightarrow> Chain (fnext c) (c_flows c ! i) (bs ! i) None"
  by (simp add: db_rep_def)

lemma db_rep_bucket:
  "db_rep c bs \<Longrightarrow> i < FLOW_HASH_SIZE \<Longrightarrow> a \<in> set (bs ! i) \<Longrightarrow> fbucket c a = Some (of_nat i)"
  by (simp add: db_rep_def)

lemma db_rep_distinct: "db_rep c bs \<Longrightarrow> i < FLOW_HASH_SIZE \<Longrightarrow> distinct (bs ! i)"
  by (auto simp: db_rep_def intro: Chain_distinct)

lemma unat_of_nat_bucket: "i < FLOW_HASH_SIZE \<Longrightarrow> unat (of_nat i :: u32) = i"
  by (simp add: unat_of_nat)

lemma db_rep_disjoint:
  assumes "db_rep c bs" and "i < FLOW_HASH_SIZE" and "j < FLOW_HASH_SIZE"
    and "a \<in> set (bs ! i)" and "a \<in> set (bs ! j)"
  shows "i = j"
proof -
  have "(of_nat i :: u32) = of_nat j"
    using assms db_rep_bucket by (metis option.inject)
  then show ?thesis using assms(2,3) unat_of_nat_bucket by metis
qed

lemma db_rep_linked:
  "db_rep c bs \<Longrightarrow> fbucket c a = Some b \<Longrightarrow> b \<noteq> EMPTY \<Longrightarrow>
    unat b < FLOW_HASH_SIZE \<and> a \<in> set (bs ! unat b)"
  by (simp add: db_rep_def)

lemma db_rep_unlinked:
  "db_rep c bs \<Longrightarrow> fbucket c a = Some EMPTY \<or> fbucket c a = None \<Longrightarrow> i < FLOW_HASH_SIZE \<Longrightarrow> a \<notin> set (bs ! i)"
  using unat_of_nat_bucket [of i] by (auto dest!: db_rep_bucket)

lemma db_rep_length: "db_rep c bs \<Longrightarrow> length bs = FLOW_HASH_SIZE"
  by (simp add: db_rep_def)

lemma db_rep_concat:
  assumes "db_rep c bs"
  shows "a \<in> set (concat bs) \<longleftrightarrow> (\<exists>i<FLOW_HASH_SIZE. a \<in> set (bs ! i))"
  by (simp add: set_conv_nth [of bs] db_rep_length [OF assms]) blast

lemma db_rep_heap: "db_rep c bs \<Longrightarrow> a \<in> set (concat bs) \<Longrightarrow> \<exists>f. c_heap c a = Some f"
  using db_rep_bucket [of c bs _ a] by (auto simp: db_rep_concat fbucket_Some simp del: set_concat)

lemma db_rep_unique: "db_rep c bs \<Longrightarrow> db_rep c bs' \<Longrightarrow> bs = bs'"
  by (rule nth_equalityI) (auto simp: db_rep_def intro: Chain_unique)

text \<open>What the table operations leave alone: everything but the two link members of the
  flows, the buckets and the counter.\<close>

definition flow_body :: "pcp_flow \<Rightarrow> pcp_flow" where
  "flow_body f = f\<lparr>f_next := None, f_key_bucket := 0\<rparr>"

definition db_frame :: "pcp_ctx \<Rightarrow> pcp_ctx \<Rightarrow> bool" where
  "db_frame c c' \<longleftrightarrow>
     (\<forall>a. map_option flow_body (c_heap c' a) = map_option flow_body (c_heap c a)) \<and>
     c_pcp_servers c' = c_pcp_servers c \<and> c_flow_change_cb c' = c_flow_change_cb c \<and>
     c_msg c' = c_msg c \<and> c_tick c' = c_tick c \<and> c_sent c' = c_sent c \<and> c_notes c' = c_notes c"

lemma length_concat_update:
  "i < length bs \<Longrightarrow> length (concat (bs[i := xs])) + length (bs ! i) = length (concat bs) + length xs"
  by (induction bs arbitrary: i) (auto simp: nth_Cons' split: nat.splits)

lemma fnext_heap_upd [simp]:
  "fnext (c\<lparr>c_heap := (c_heap c)(a \<mapsto> f)\<rparr>) = (fnext c)(a \<mapsto> f_next f)"
  by (auto simp: fnext_def)

lemma fbucket_heap_upd [simp]:
  "fbucket (c\<lparr>c_heap := (c_heap c)(a \<mapsto> f)\<rparr>) = (fbucket c)(a \<mapsto> f_key_bucket f)"
  by (auto simp: fbucket_def)

lemma fnext_other [simp]:
  "fnext (c\<lparr>c_flows := x\<rparr>) = fnext c" "fnext (c\<lparr>c_flow_cnt := y\<rparr>) = fnext c"
  "fbucket (c\<lparr>c_flows := x\<rparr>) = fbucket c" "fbucket (c\<lparr>c_flow_cnt := y\<rparr>) = fbucket c"
  by (auto simp: fnext_def fbucket_def)

lemma db_frame_refl [simp]: "db_frame c c"
  by (simp add: db_frame_def)

lemma db_frame_trans: "db_frame c d \<Longrightarrow> db_frame d e \<Longrightarrow> db_frame c e"
  by (simp add: db_frame_def)

lemma db_frame_upd_flow:
  "upd_flow a g c = Some c' \<Longrightarrow> (\<And>f. flow_body (g f) = flow_body f) \<Longrightarrow> db_frame c c'"
  by (auto simp: db_frame_def upd_flow_Some)

lemma db_frame_link_write: "link_write l p c = Some c' \<Longrightarrow> db_frame c c'"
  by (cases l) (auto simp: db_frame_def upd_flow_Some flow_body_def split: if_splits)

text \<open>The one-bucket update all three operations are instances of.\<close>

lemma db_rep_update:
  assumes rep: "db_rep c bs" and i: "i < FLOW_HASH_SIZE"
    and fl: "length (c_flows c') = FLOW_HASH_SIZE"
      "\<And>j. j < FLOW_HASH_SIZE \<Longrightarrow> j \<noteq> i \<Longrightarrow> c_flows c' ! j = c_flows c ! j"
    and out: "\<And>b. b \<notin> insert a (set (bs ! i)) \<Longrightarrow> fnext c' b = fnext c b \<and> fbucket c' b = fbucket c b"
    and a: "\<And>j. j < FLOW_HASH_SIZE \<Longrightarrow> j \<noteq> i \<Longrightarrow> a \<notin> set (bs ! j)"
    and ch: "Chain (fnext c') (c_flows c' ! i) ys None"
    and ys: "\<And>b. b \<in> set ys \<Longrightarrow> fbucket c' b = Some (of_nat i)"
    and gone: "\<And>b. b \<in> insert a (set (bs ! i)) \<Longrightarrow> b \<notin> set ys \<Longrightarrow>
      fbucket c' b = Some EMPTY \<or> fbucket c' b = None"
    and cnt: "c_flow_cnt c' + of_nat (length (bs ! i)) = c_flow_cnt c + of_nat (length ys)"
  shows "db_rep c' (bs[i := ys])"
proof -
  have len: "length bs = FLOW_HASH_SIZE" using rep by (rule db_rep_length)
  have out': "fnext c' b = fnext c b \<and> fbucket c' b = fbucket c b"
    if "j < FLOW_HASH_SIZE" "j \<noteq> i" "b \<in> set (bs ! j)" for j b
    using that a [of j] i db_rep_disjoint [OF rep, of j i b] by (intro out) auto
  have "Chain (fnext c') (c_flows c' ! j) (bs ! j) None" if "j < FLOW_HASH_SIZE" "j \<noteq> i" for j
  proof -
    have "Chain (fnext c) (c_flows c' ! j) (bs ! j) None"
      using rep fl(2) that by (simp add: db_rep_def)
    then show ?thesis using out' [OF that] by (subst Chain_cong [of _ _ "fnext c"]) auto
  qed
  moreover have "fbucket c' b = Some (of_nat j)"
    if "j < FLOW_HASH_SIZE" "j \<noteq> i" "b \<in> set (bs ! j)" for j b
    using out' [OF that] db_rep_bucket [OF rep that(1,3)] by simp
  moreover have "unat w < FLOW_HASH_SIZE \<and> b \<in> set (bs[i := ys] ! unat w)"
    if w: "fbucket c' b = Some w" "w \<noteq> EMPTY" for b w
  proof (cases "b \<in> insert a (set (bs ! i))")
    case True
    then have "b \<in> set ys" using gone w by fastforce
    then show ?thesis using ys w i len unat_of_nat_bucket [OF i] by auto
  next
    case False
    then have "fbucket c b = Some w" using out w by auto
    then have "unat w < FLOW_HASH_SIZE \<and> b \<in> set (bs ! unat w)"
      using rep w by (auto simp: db_rep_def)
    then show ?thesis using False len by (cases "unat w = i") auto
  qed
  moreover have "c_flow_cnt c' = of_nat (length (concat (bs[i := ys])))"
  proof -
    have "(of_nat (length (concat (bs[i := ys])) + length (bs ! i)) :: u64) =
        of_nat (length (concat bs) + length ys)"
      using length_concat_update [of i bs ys] i len by simp
    moreover have "c_flow_cnt c = of_nat (length (concat bs))"
      using rep by (simp add: db_rep_def)
    ultimately show ?thesis using cnt by (metis add_right_cancel of_nat_add)
  qed
  ultimately show ?thesis
    using len fl(1) ch ys i by (auto simp: db_rep_def nth_list_update)
qed

lemma pcp_db_add_flow_refines:
  assumes rep: "db_rep c bs" and f: "c_heap c a = Some f" and e: "f_key_bucket f = EMPTY"
  defines "i \<equiv> unat (compute_flow_key (f_kd f))"
  shows "yields (pcp_db_add_flow (Some a) c) (\<lambda>(c', r). r = PCP_ERR_SUCCESS \<and>
    db_rep c' (bs[i := bs ! i @ [a]]) \<and> db_frame c c')"
proof -
  have i: "i < FLOW_HASH_SIZE" using compute_flow_key_bound [of "f_kd f"] by (simp add: i_def)
  have fl: "length (c_flows c) = FLOW_HASH_SIZE" using rep by (simp add: db_rep_def)
  let ?b = "compute_flow_key (f_kd f)"
  let ?xs = "bs ! i"
  let ?c1 = "c\<lparr>c_heap := (c_heap c)(a \<mapsto> f\<lparr>f_key_bucket := ?b\<rparr>)\<rparr>"
  let ?l = "link_end (L_bucket i) ?xs"
  have u: "a \<notin> set (bs ! j)" if "j < FLOW_HASH_SIZE" for j
    using rep f e that by (intro db_rep_unlinked [of c bs a j]) (auto simp: fbucket_def)
  have ch: "Chain (fnext c) (c_flows c ! i) ?xs None" using rep i by (simp add: db_rep_def)
  then have "Chain (fnext ?c1) (c_flows c ! i) ?xs None"
    using u [OF i] by (simp add: Chain_upd_other del: fun_upd_apply)
  then have endl: "add_flow_end (L_bucket i) ?c1 = Some ?l"
    by (rule add_flow_end_chain) (use i fl in simp)
  have la: "last ?xs \<noteq> a \<and> c_heap c (last ?xs) \<noteq> None" if "?xs \<noteq> []"
    using that u [OF i] Chain_defined [OF ch, of "last ?xs"] last_in_set [OF that]
    by (auto simp: fnext_def)
  then obtain c2 where w: "link_write ?l (Some a) ?c1 = Some c2"
    and c2: "fnext c2 = (if ?xs = [] then fnext ?c1 else (fnext ?c1)(last ?xs \<mapsto> Some a))"
      "fbucket c2 = fbucket ?c1" "c_heap c2 a = Some (f\<lparr>f_key_bucket := ?b\<rparr>)"
      "c_flows c2 = (if ?xs = [] then (c_flows c)[i := Some a] else c_flows c)"
      "c_flow_cnt c2 = c_flow_cnt c"
    using i fl by (cases "?xs = []") (auto simp: link_end_def fun_eq_iff fbucket_def fnext_def)
  let ?c3 = "c2\<lparr>c_heap := (c_heap c2)(a \<mapsto> f\<lparr>f_key_bucket := ?b, f_next := None\<rparr>),
     c_flow_cnt := c_flow_cnt c2 + 1\<rparr>"
  have run: "pcp_db_add_flow (Some a) c = Some (?c3, PCP_ERR_SUCCESS)"
    using f endl w c2(3) by (simp add: pcp_db_add_flow_def i_def [symmetric])
  have "Chain ((fnext c)(a \<mapsto> None)) (c_flows c ! i) ?xs None"
    using ch u [OF i] by (simp add: Chain_upd_other del: fun_upd_apply)
  from Chain_snoc [OF this u [OF i]]
  have "Chain (fnext ?c3) (c_flows c2 ! i) (?xs @ [a]) None"
    using i fl la
    by (cases "?xs = []") (simp_all add: c2 fun_upd_twist [of "last ?xs" a])
  then have "db_rep ?c3 (bs[i := ?xs @ [a]])"
    using i fl u db_rep_bucket [OF rep i]
    by (intro db_rep_update [OF rep i, where a = a])
       (auto simp: c2 i_def fbucket_def)
  moreover have "db_frame c ?c3"
    using db_frame_link_write [OF w] f c2(3)
    by (auto simp: db_frame_def flow_body_def intro: trans)
  ultimately show ?thesis using run by simp
qed

lemma pcp_db_rem_flow_refines:
  assumes rep: "db_rep c bs" and i: "i < FLOW_HASH_SIZE" and a: "a \<in> set (bs ! i)"
  shows "yields (pcp_db_rem_flow a c) (\<lambda>(c', r). r = PCP_ERR_SUCCESS \<and>
    db_rep c' (bs[i := remove1 a (bs ! i)]) \<and> db_frame c c' \<and> fbucket c' a = Some EMPTY)"
proof -
  have fl: "length (c_flows c) = FLOW_HASH_SIZE" using rep by (simp add: db_rep_def)
  obtain f where f: "c_heap c a = Some f" and b: "f_key_bucket f = of_nat i"
    using db_rep_bucket [OF rep i a] by (auto simp: fbucket_Some)
  obtain ys zs where xs: "bs ! i = ys @ a # zs" and ny: "a \<notin> set ys"
    using split_list_first [OF a] by blast
  have d: "distinct (bs ! i)" using rep i by (rule db_rep_distinct)
  then have rm: "remove1 a (bs ! i) = ys @ zs" and nz: "a \<notin> set zs"
    using xs ny by (auto simp: remove1_append)
  have ch: "Chain (fnext c) (c_flows c ! i) (ys @ a # zs) None"
    using db_rep_chain [OF rep i] by (simp only: xs)
  let ?c1 = "c\<lparr>c_heap := (c_heap c)(a \<mapsto> f\<lparr>f_key_bucket := EMPTY\<rparr>)\<rparr>"
  have la: "last ys \<noteq> a \<and> c_heap c (last ys) \<noteq> None" if "ys \<noteq> []"
    using that ny last_in_set [OF that] Chain_defined [OF ch, of "last ys"] by (auto simp: fnext_def)
  then obtain c2 where w: "link_write (link_end (L_bucket i) ys) (f_next f) ?c1 = Some c2"
    and c2: "fnext c2 = (if ys = [] then fnext ?c1 else (fnext ?c1)(last ys \<mapsto> f_next f))"
      "fbucket c2 = fbucket ?c1"
      "c_flows c2 = (if ys = [] then (c_flows c)[i := f_next f] else c_flows c)"
      "c_flow_cnt c2 = c_flow_cnt c"
    using i fl by (cases "ys = []") (auto simp: link_end_def fun_eq_iff fbucket_def fnext_def)
  let ?c3 = "c2\<lparr>c_flow_cnt := c_flow_cnt c2 - 1\<rparr>"
  have "f_key_bucket f \<noteq> EMPTY" using b i unat_of_nat_bucket [OF i] by auto
  then have run: "pcp_db_rem_flow a c = Some (?c3, PCP_ERR_SUCCESS)"
    using f w rem_flow_loop_chain [OF ch _ ny f, of "L_bucket i"] i fl unat_of_nat_bucket [OF i]
    by (simp add: pcp_db_rem_flow_def b)
  have fa: "fnext c a = Some (f_next f)" using f by (simp add: fnext_def)
  then have "fnext ?c1 = fnext c" by (auto simp: fun_eq_iff)
  with Chain_remove [OF ch fa] have "Chain (fnext ?c3) (c_flows c2 ! i) (ys @ zs) None"
    using i fl by (cases "ys = []") (simp_all add: c2)
  then have "db_rep ?c3 (bs[i := ys @ zs])"
  proof (intro db_rep_update [OF rep i, where a = a])
    have s: "set (bs ! i) = insert a (set ys \<union> set zs)" by (simp add: xs)
    fix b
    show "fnext ?c3 b = fnext c b \<and> fbucket ?c3 b = fbucket c b"
      if "b \<notin> insert a (set (bs ! i))"
      using that fa last_in_set [of ys] unfolding s by (auto simp: c2)
    show "fbucket ?c3 b = Some (of_nat i)" if "b \<in> set (ys @ zs)"
      using that ny nz db_rep_bucket [OF rep i, of b] unfolding s by (auto simp: c2)
    show "fbucket ?c3 b = Some EMPTY \<or> fbucket ?c3 b = None"
      if "b \<in> insert a (set (bs ! i))" "b \<notin> set (ys @ zs)"
      using that unfolding s by (auto simp: c2)
    show "a \<notin> set (bs ! j)" if "j < FLOW_HASH_SIZE" "j \<noteq> i" for j
      using db_rep_disjoint [OF rep i that(1) a] that(2) by auto
  qed (use i fl in \<open>simp_all add: c2 xs\<close>)
  moreover have "db_frame c ?c3"
    using db_frame_link_write [OF w] f by (auto simp: db_frame_def flow_body_def intro: trans)
  ultimately show ?thesis using run rm by (simp add: c2)
qed

lemma pcp_db_rem_flow_unlinked:
  "c_heap c a = Some f \<Longrightarrow> f_key_bucket f = EMPTY \<Longrightarrow>
    pcp_db_rem_flow a c = Some (c, PCP_ERR_NOT_FOUND)"
  by (simp add: pcp_db_rem_flow_def)

text \<open>A lookup depends on the server only through its index.\<close>

definition lookup_flow :: "flow_key_data \<times> u32 \<Rightarrow> pcp_ctx \<Rightarrow> addr option option" where
  "lookup_flow k c =
     get_flow_loop (fst k) (snd k) (L_bucket (unat (compute_flow_key (fst k)))) c"

lemma pcp_get_flow_lookup: "pcp_get_flow fkd s c = lookup_flow (fkd, s_index s) c"
  by (simp add: pcp_get_flow_def lookup_flow_def)

lemma lookup_flow_refines:
  assumes rep: "db_rep c bs"
  shows "lookup_flow (fkd, si) c =
    Some (find (flow_matches fkd si c) (bs ! unat (compute_flow_key fkd)))"
proof -
  have i: "unat (compute_flow_key fkd) < FLOW_HASH_SIZE"
    using compute_flow_key_bound [of fkd] by simp
  then have "Chain (fnext c) (c_flows c ! unat (compute_flow_key fkd))
      (bs ! unat (compute_flow_key fkd)) None" and "length (c_flows c) = FLOW_HASH_SIZE"
    using rep by (auto simp: db_rep_def)
  with i show ?thesis
    unfolding lookup_flow_def fst_conv snd_conv by (intro get_flow_loop_chain) auto
qed

lemma pcp_get_flow_refines:
  "db_rep c bs \<Longrightarrow> pcp_get_flow fkd s c =
    Some (find (flow_matches fkd (s_index s) c) (bs ! unat (compute_flow_key fkd)))"
  by (simp add: pcp_get_flow_lookup lookup_flow_refines)

lemma flow_matches_frame: "db_frame c c' \<Longrightarrow> flow_matches k si c' = flow_matches k si c"
proof
  fix a
  assume "db_frame c c'"
  then have "map_option flow_body (c_heap c' a) = map_option flow_body (c_heap c a)"
    by (simp add: db_frame_def)
  then show "flow_matches k si c' a = flow_matches k si c a"
    by (cases "c_heap c' a"; cases "c_heap c a")
      (auto simp: flow_matches_def flow_body_def dest: arg_cong [of _ _ f_kd] arg_cong [of _ _ f_pcp_server_indx])
qed

section \<open>The contract of the table\<close>

text \<open>A table that files entries under keys in the order in which they were added: a lookup
  returns the oldest entry under the key.\<close>

locale flow_index =
  fixes rep :: "'c \<Rightarrow> ('k \<Rightarrow> 'v list) \<Rightarrow> bool"
    and addable :: "'c \<Rightarrow> 'v \<Rightarrow> 'k \<Rightarrow> bool"
    and stored :: "'c \<Rightarrow> 'v \<Rightarrow> bool"
    and add :: "'v \<Rightarrow> 'c \<Rightarrow> ('c \<times> int) option"
    and rem :: "'v \<Rightarrow> 'c \<Rightarrow> ('c \<times> int) option"
    and get :: "'k \<Rightarrow> 'c \<Rightarrow> 'v option option"
  assumes get_law: "rep c m \<Longrightarrow> get k c = Some (case m k of [] \<Rightarrow> None | a # _ \<Rightarrow> Some a)"
    and add_law: "rep c m \<Longrightarrow> addable c a k \<Longrightarrow>
      yields (add a c) (\<lambda>(c', r). r = 0 \<and> stored c' a \<and> rep c' (m(k := m k @ [a])))"
    and add_new: "rep c m \<Longrightarrow> addable c a k \<Longrightarrow> a \<notin> set (m k')"
    and rem_law: "rep c m \<Longrightarrow> stored c a \<Longrightarrow>
      yields (rem a c) (\<lambda>(c', r). r = 0 \<and> \<not> stored c' a \<and> rep c' (\<lambda>k. removeAll a (m k)))"
begin

lemma get_after_add:
  assumes "rep c m" and "addable c a k"
  shows "yields (add a c) (\<lambda>(c', r). r = 0 \<and>
    get k c' = (case m k of [] \<Rightarrow> Some (Some a) | _ \<Rightarrow> get k c) \<and>
    (\<forall>k'. k' \<noteq> k \<longrightarrow> get k' c' = get k' c))"
  using add_law [OF assms] by (rule yields_mono) (auto simp: get_law get_law [OF assms(1)] split: list.splits)

lemma get_after_rem:
  assumes "rep c m" and "stored c a"
  shows "yields (rem a c) (\<lambda>(c', r). r = 0 \<and> (\<forall>k. get k c' \<noteq> Some (Some a)) \<and>
    (\<forall>k. get k c \<noteq> Some (Some a) \<longrightarrow> get k c' = get k c))"
  using rem_law [OF assms]
proof (rule yields_mono)
  fix x
  assume "case x of (c', r) \<Rightarrow> r = 0 \<and> \<not> stored c' a \<and> rep c' (\<lambda>k. removeAll a (m k))"
  then obtain c' where x: "x = (c', 0)" and c': "rep c' (\<lambda>k. removeAll a (m k))" by (cases x) auto
  have "removeAll a (m k) \<noteq> a # xs" for k xs
    using set_removeAll [of a "m k"] by (metis DiffE insertI1 list.set(2) singletonI)
  then have "get k c' \<noteq> Some (Some a)" for k
    using get_law [OF c', of k] by (auto split: list.splits)
  moreover have "get k c' = get k c" if "get k c \<noteq> Some (Some a)" for k
    using that get_law [OF c', of k] get_law [OF assms(1), of k] by (auto split: list.splits)
  ultimately show "case x of (c', r) \<Rightarrow> r = 0 \<and> (\<forall>k. get k c' \<noteq> Some (Some a)) \<and>
      (\<forall>k. get k c \<noteq> Some (Some a) \<longrightarrow> get k c' = get k c)"
    using x by simp
qed

lemma rem_after_add:
  assumes "rep c m" and "addable c a k"
  shows "yields (do { (c, _) \<leftarrow> add a c; rem a c }) (\<lambda>(c', r). r = 0 \<and> rep c' m)"
proof -
  have "removeAll a ((m(k := m k @ [a])) k') = m k'" for k'
    using add_new [OF assms] by (auto simp: removeAll_id)
  then have e: "(\<lambda>k'. removeAll a ((m(k := m k @ [a])) k')) = m" by (rule ext)
  show ?thesis
  proof (rule yields_bind [OF add_law [OF assms]])
    fix x
    assume "case x of (c', r) \<Rightarrow> r = 0 \<and> stored c' a \<and> rep c' (m(k := m k @ [a]))"
    then obtain c' where x: "x = (c', 0)" and c': "stored c' a" "rep c' (m(k := m k @ [a]))"
      by (cases x) auto
    show "yields (case x of (c, _) \<Rightarrow> rem a c) (\<lambda>(c', r). r = 0 \<and> rep c' m)"
      using rem_law [OF c'(2,1)] unfolding x e by (auto elim: yields_mono)
  qed
qed

end

text \<open>The hash table keeps the contract, with the pair of a flow's key data and its server
  index as key.\<close>

definition table_rep :: "pcp_ctx \<Rightarrow> (flow_key_data \<times> u32 \<Rightarrow> addr list) \<Rightarrow> bool" where
  "table_rep c m \<longleftrightarrow> (\<exists>bs. db_rep c bs \<and>
     m = (\<lambda>(k, si). filter (flow_matches k si c) (bs ! unat (compute_flow_key k))))"

definition unlinked :: "pcp_ctx \<Rightarrow> addr \<Rightarrow> flow_key_data \<times> u32 \<Rightarrow> bool" where
  "unlinked c a k \<longleftrightarrow> (\<exists>f. c_heap c a = Some f \<and> f_key_bucket f = EMPTY \<and>
     k = (f_kd f, f_pcp_server_indx f))"

definition linked :: "pcp_ctx \<Rightarrow> addr \<Rightarrow> bool" where
  "linked c a \<longleftrightarrow> (\<exists>f. c_heap c a = Some f \<and> f_key_bucket f \<noteq> EMPTY)"

lemma hash_in_table: "unat (compute_flow_key k) < FLOW_HASH_SIZE"
  using compute_flow_key_bound [of k] by simp

lemma find_filter: "find P xs = (case filter P xs of [] \<Rightarrow> None | x # _ \<Rightarrow> Some x)"
  by (induction xs) auto

interpretation flow_table: flow_index table_rep unlinked linked
  "\<lambda>a. pcp_db_add_flow (Some a)" pcp_db_rem_flow
  lookup_flow
proof
  fix c m and k :: "flow_key_data \<times> u32"
  assume "table_rep c m"
  then show "lookup_flow k c = Some (case m k of [] \<Rightarrow> None | a # _ \<Rightarrow> Some a)"
    by (cases k) (auto simp: table_rep_def lookup_flow_refines find_filter)
next
  fix c m a k
  assume "table_rep c m" and "unlinked c a k"
  then obtain bs f where rep: "db_rep c bs"
    and m: "m = (\<lambda>(k, si). filter (flow_matches k si c) (bs ! unat (compute_flow_key k)))"
    and f: "c_heap c a = Some f" "f_key_bucket f = EMPTY"
    and k: "k = (f_kd f, f_pcp_server_indx f)"
    by (auto simp: table_rep_def unlinked_def)
  have ma: "flow_matches k' si c a \<longleftrightarrow> k' = f_kd f \<and> si = f_pcp_server_indx f" for k' si
    using f by (auto simp: flow_matches_def)
  show "yields (pcp_db_add_flow (Some a) c) (\<lambda>(c', r). r = 0 \<and> linked c' a \<and>
      table_rep c' (m(k := m k @ [a])))"
    using pcp_db_add_flow_refines [OF rep f]
  proof (rule yields_mono, safe)
    fix c' r
    let ?i = "unat (compute_flow_key (f_kd f))"
    assume r: "db_rep c' (bs[?i := bs ! ?i @ [a]])" and fr: "db_frame c c'"
    have "m(k := m k @ [a]) =
        (\<lambda>(k, si). filter (flow_matches k si c') (bs[?i := bs ! ?i @ [a]] ! unat (compute_flow_key k)))"
    proof (rule ext, clarify)
      fix k' si
      have "bs[?i := bs ! ?i @ [a]] ! unat (compute_flow_key k') =
          (if unat (compute_flow_key k') = ?i then bs ! unat (compute_flow_key k') @ [a]
           else bs ! unat (compute_flow_key k'))"
        using hash_in_table [of "f_kd f"] db_rep_length [OF rep] by (simp add: nth_list_update)
      then show "(m(k := m k @ [a])) (k', si) =
          filter (flow_matches k' si c') (bs[?i := bs ! ?i @ [a]] ! unat (compute_flow_key k'))"
        by (cases "(k', si) = k") (auto simp: m k flow_matches_frame [OF fr] ma)
    qed
    then show "table_rep c' (m(k := m k @ [a]))" using r by (auto simp: table_rep_def)
    have "fbucket c' a = Some (of_nat ?i)"
      using r hash_in_table [of "f_kd f"] db_rep_length [OF rep]
      by (intro db_rep_bucket [OF r]) auto
    then show "linked c' a"
      using hash_in_table [of "f_kd f"] by (auto simp: linked_def fbucket_Some)
  qed
next
  fix c m a k k'
  assume "table_rep c m" and "unlinked c a k"
  then show "a \<notin> set (m k')"
    using db_rep_unlinked [of c _ a] hash_in_table
    by (cases k') (fastforce simp: table_rep_def unlinked_def fbucket_def)
next
  fix c m a
  assume "table_rep c m" and "linked c a"
  then obtain bs f where rep: "db_rep c bs"
    and m: "m = (\<lambda>(k, si). filter (flow_matches k si c) (bs ! unat (compute_flow_key k)))"
    and f: "c_heap c a = Some f" "f_key_bucket f \<noteq> EMPTY"
    by (auto simp: table_rep_def linked_def)
  let ?i = "unat (f_key_bucket f)"
  have i: "?i < FLOW_HASH_SIZE" and a: "a \<in> set (bs ! ?i)"
    using db_rep_linked [OF rep _ f(2)] f(1) by (auto simp: fbucket_def)
  show "yields (pcp_db_rem_flow a c) (\<lambda>(c', r). r = 0 \<and> \<not> linked c' a \<and>
      table_rep c' (\<lambda>k. removeAll a (m k)))"
    using pcp_db_rem_flow_refines [OF rep i a]
  proof (rule yields_mono, safe)
    fix c' r
    assume r: "db_rep c' (bs[?i := remove1 a (bs ! ?i)])" and fr: "db_frame c c'"
      and e: "fbucket c' a = Some EMPTY"
    have "(\<lambda>k. removeAll a (m k)) = (\<lambda>(k, si). filter (flow_matches k si c')
        (bs[?i := remove1 a (bs ! ?i)] ! unat (compute_flow_key k)))"
    proof (rule ext, clarify)
      fix k si
      let ?j = "unat (compute_flow_key k)"
      show "removeAll a (m (k, si)) =
          filter (flow_matches k si c') (bs[?i := remove1 a (bs ! ?i)] ! ?j)"
      proof (cases "?j = ?i")
        case True
        then show ?thesis
          using i db_rep_length [OF rep] db_rep_distinct [OF rep i]
          by (simp add: m flow_matches_frame [OF fr] distinct_remove1_removeAll
              removeAll_filter_not_eq conj_commute)
      next
        case False
        then have "a \<notin> set (bs ! ?j)"
          using db_rep_disjoint [OF rep i hash_in_table a, of k] by auto
        with False show ?thesis by (simp add: m flow_matches_frame [OF fr])
      qed
    qed
    then show "table_rep c' (\<lambda>k. removeAll a (m k))" using r by (auto simp: table_rep_def)
    assume "linked c' a"
    then show False using e by (auto simp: linked_def fbucket_Some)
  qed
qed

section \<open>Walks over the table\<close>

lemma concat_split_nth:
  "i < length bs \<Longrightarrow> concat bs = concat (take i bs) @ bs ! i @ concat (drop (Suc i) bs)"
  by (simp add: id_take_nth_drop [of i bs, THEN arg_cong [of _ _ concat]])

text \<open>A callback that keeps the table in place, with an invariant over the flows already
  visited: the walk visits every flow in the order of the chains until it is stopped.\<close>

locale table_walk =
  fixes cb :: "'s flow_iterate"
    and bs :: "addr list list"
    and Inv :: "addr list \<Rightarrow> 's \<Rightarrow> pcp_ctx \<Rightarrow> bool"
    and Stop :: "'s \<Rightarrow> pcp_ctx \<Rightarrow> bool"
  assumes step: "db_rep c bs \<Longrightarrow> Inv done d c \<Longrightarrow> concat bs = done @ a # rest \<Longrightarrow>
    yields (cb a d c) (\<lambda>(c', d', stop). db_rep c' bs \<and>
      (if stop then Stop d' c' else Inv (done @ [a]) d' c'))"
begin

lemma walk_chain:
  assumes "db_rep c bs" and "i < FLOW_HASH_SIZE" and "bs ! i = us @ xs"
    and "Inv (concat (take i bs) @ us) d c"
  shows "yields (foreach_chain cb (hd_ptr xs) d c) (\<lambda>(c', d', stop). db_rep c' bs \<and>
    (if stop then Stop d' c' else Inv (concat (take (Suc i) bs)) d' c'))"
  using assms
proof (induction xs arbitrary: us d c)
  case Nil
  have "concat (take (Suc i) bs) = concat (take i bs) @ bs ! i"
    using Nil.prems(2) db_rep_length [OF Nil.prems(1)] by (simp add: take_Suc_conv_app_nth)
  then show ?case using Nil.prems by (simp add: foreach_chain.simps)
next
  case (Cons a xs)
  have len: "length bs = FLOW_HASH_SIZE" using Cons.prems(1) by (rule db_rep_length)
  have "Chain (fnext c) (c_flows c ! i) (us @ a # xs) None"
    using db_rep_chain [OF Cons.prems(1,2)] by (simp only: Cons.prems(3))
  then obtain f where f: "c_heap c a = Some f" "f_next f = hd_ptr xs"
    by (auto dest!: Chain_next_hd_ptr simp: fnext_Some)
  have sp: "concat bs = (concat (take i bs) @ us) @ a # (xs @ concat (drop (Suc i) bs))"
    using concat_split_nth [of i bs] Cons.prems(2,3) len by simp
  have "yields (cb a d c \<bind> (\<lambda>(c, d, stop). if stop then Some (c, d, True)
      else foreach_chain cb (hd_ptr xs) d c)) (\<lambda>(c', d', stop). db_rep c' bs \<and>
    (if stop then Stop d' c' else Inv (concat (take (Suc i) bs)) d' c'))"
    by (rule yields_bind_stop [OF step [OF Cons.prems(1,4) sp]])
       (use Cons.IH [of _ "us @ [a]"] Cons.prems(2,3) in simp_all)
  then show ?case using f(1) unfolding f(2) [symmetric] by (subst foreach_chain.simps) (simp split del: if_split)
qed

lemma walk_buckets:
  assumes "db_rep c bs" and "i \<le> FLOW_HASH_SIZE" and "Inv (concat (take i bs)) d c"
  shows "yields (foreach_bucket cb [i..<FLOW_HASH_SIZE] d c) (\<lambda>(c', d', r). db_rep c' bs \<and>
    (r = PCP_ERR_SUCCESS \<and> Stop d' c' \<or> r = PCP_ERR_NOT_FOUND \<and> Inv (concat bs) d' c'))"
  using assms
proof (induction "FLOW_HASH_SIZE - i" arbitrary: i d c)
  case 0
  then show ?case using db_rep_length [OF 0(2)] by simp
next
  case (Suc n)
  then have i: "i < FLOW_HASH_SIZE" by simp
  then have up: "[i..<FLOW_HASH_SIZE] = i # [Suc i..<FLOW_HASH_SIZE]" by (rule upt_conv_Cons)
  have l: "link_read c (L_bucket i) = Some (hd_ptr (bs ! i))"
    using Chain_hd_ptr [OF db_rep_chain [OF Suc.prems(1) i]] i Suc.prems(1)
    by (simp add: db_rep_def)
  have "yields (foreach_chain cb (hd_ptr (bs ! i)) d c) (\<lambda>(c', d', stop). db_rep c' bs \<and>
      (if stop then Stop d' c' else Inv (concat (take (Suc i) bs)) d' c'))"
    using Suc.prems i by (intro walk_chain [where us = "[]"]) auto
  then show ?case
    unfolding up foreach_bucket.simps l bind.bind_lunit
    by (rule yields_bind_stop) (use Suc.hyps(1) [of "Suc i"] Suc.hyps(2) i in simp_all)
qed

lemma walk:
  assumes "db_rep c bs" and "Inv [] d c"
  shows "yields (pcp_db_foreach_flow cb d c) (\<lambda>(c', d', r). db_rep c' bs \<and>
    (r = PCP_ERR_SUCCESS \<and> Stop d' c' \<or> r = PCP_ERR_NOT_FOUND \<and> Inv (concat bs) d' c'))"
  unfolding pcp_db_foreach_flow_def by (rule walk_buckets) (use assms in auto)

end

section \<open>Servers\<close>

lemma first_unused_Some:
  "first_unused ss = Some i \<Longrightarrow> i < length ss \<and> s_server_state (ss ! i) = pss_unitialized \<and>
    (\<forall>j<i. s_server_state (ss ! j) \<noteq> pss_unitialized)"
  by (induction ss arbitrary: i) (auto simp: nth_Cons' less_Suc_eq_0_disj split: if_splits)

lemma first_unused_None:
  "first_unused ss = None \<longleftrightarrow> (\<forall>s\<in>set ss. s_server_state s \<noteq> pss_unitialized)"
  by (induction ss) auto

definition server_matches :: "in6_addr \<Rightarrow> u32 \<Rightarrow> pcp_server \<Rightarrow> bool" where
  "server_matches ip scope s \<longleftrightarrow> s_server_state s \<noteq> pss_unitialized \<and> s_pcp_ip s = ip \<and>
     s_pcp_scope_id s = scope"

lemma find_ip_loop:
  assumes "i \<le> length (c_pcp_servers c)" and "fd_found_server fd = None"
  shows "foreach_server_loop find_ip i fd c =
    (case find (\<lambda>j. server_matches (fd_ip fd) (fd_scope_id fd) (c_pcp_servers c ! j))
        [i..<length (c_pcp_servers c)] of
       None \<Rightarrow> Some (c, fd, PCP_ERR_MAX_SIZE)
     | Some j \<Rightarrow> Some (c, fd\<lparr>fd_found_server := Some j\<rparr>, PCP_ERR_SUCCESS))"
  using assms
proof (induction "length (c_pcp_servers c) - i" arbitrary: i)
  case 0
  then show ?case by (subst foreach_server_loop.simps) simp
next
  case (Suc n)
  then have i: "i < length (c_pcp_servers c)" by simp
  then have up: "[i..<length (c_pcp_servers c)] = i # [Suc i..<length (c_pcp_servers c)]"
    by (rule upt_conv_Cons)
  show ?case
    using i Suc.hyps Suc.prems unfolding up
    by (subst foreach_server_loop.simps) (auto simp: find_ip_def server_matches_def)
qed

lemma get_pcp_server_by_ip_find:
  "get_pcp_server_by_ip ip scope c =
    Some (find (\<lambda>j. server_matches ip (if IN6_IS_ADDR_LINKLOCAL ip then scope else 0)
      (c_pcp_servers c ! j)) [0..<length (c_pcp_servers c)])"
  by (auto simp: get_pcp_server_by_ip_def pcp_db_foreach_server_def find_ip_loop split: option.splits)

section \<open>Well-formed contexts\<close>

definition fchild :: "pcp_ctx \<Rightarrow> addr \<Rightarrow> addr option option" where
  "fchild c a = map_option f_next_child (c_heap c a)"

text \<open>A server record in use knows its position, and its ping flow is a flow in memory that
  belongs to it.\<close>

definition server_ok :: "pcp_ctx \<Rightarrow> nat \<Rightarrow> bool" where
  "server_ok c i \<longleftrightarrow>
     (let s = c_pcp_servers c ! i in
      (s_server_state s \<noteq> pss_unitialized \<longrightarrow> s_index s = of_nat i) \<and>
      (\<forall>a. s_ping_flow_msg s = Some a \<longrightarrow> s_server_state s \<noteq> pss_unitialized \<and>
         (\<exists>f. c_heap c a = Some f \<and> f_pcp_server_indx f = of_nat i)))"

definition servers_wf :: "pcp_ctx \<Rightarrow> bool" where
  "servers_wf c \<longleftrightarrow> length (c_pcp_servers c) \<le> 2 ^ 31 \<and>
     (\<forall>i<length (c_pcp_servers c). server_ok c i)"

definition children_wf :: "pcp_ctx \<Rightarrow> bool" where
  "children_wf c \<longleftrightarrow> (\<forall>a f. c_heap c a = Some f \<longrightarrow> (\<exists>xs. Chain (fchild c) (Some a) xs None))"

text \<open>The arrays of a flow have their declared sizes and a message buffer the size it is
  allocated with.\<close>

definition flow_wf :: "pcp_flow \<Rightarrow> bool" where
  "flow_wf f \<longleftrightarrow>
     (\<forall>b. f_pcp_msg_buffer f = Some b \<longrightarrow> length b = PCP_MAX_LEN) \<and>
     unat (f_pcp_msg_len f) \<le> PCP_MAX_LEN \<and>
     length (f_userid f) = MAX_USER_ID \<and> length (f_location f) = MAX_GEO_STR \<and>
     length (f_deviceid f) = MAX_DEVICE_ID \<and>
     (\<forall>md\<in>set (f_md_vals f). length (md_val_buf md) \<le> MD_VAL_MAX_LEN)"

definition ctx_wf :: "pcp_ctx \<Rightarrow> bool" where
  "ctx_wf c \<longleftrightarrow> (\<exists>bs. db_rep c bs) \<and> servers_wf c \<and> children_wf c \<and>
     (\<forall>a f. c_heap c a = Some f \<longrightarrow> flow_wf f) \<and>
     length (m_pcp_msg_buffer (c_msg c)) = PCP_MAX_LEN"

lemma servers_wfD: "servers_wf c \<Longrightarrow> i < length (c_pcp_servers c) \<Longrightarrow> server_ok c i"
  by (simp add: servers_wf_def)

lemma unat_of_nat_index: "i < 2 ^ 31 \<Longrightarrow> unat (of_nat i :: u32) = i"
  by (simp add: unat_of_nat)

lemma sint_of_nat_index:
  assumes "i < 2 ^ 31" shows "sint (of_nat i :: u32) = int i"
  using assms by (simp add: signed_of_nat signed_take_bit_int_eq_self)

lemma get_pcp_server_index:
  assumes "servers_wf c" and "i < length (c_pcp_servers c)"
  shows "get_pcp_server c (sint (of_nat i :: u32)) =
    (if s_server_state (c_pcp_servers c ! i) = pss_unitialized then None else Some i)"
  using assms sint_of_nat_index [of i] by (simp add: get_pcp_server_def servers_wf_def)

lemma get_pcp_server_SomeD:
  "get_pcp_server c k = Some i \<Longrightarrow> i < length (c_pcp_servers c) \<and> k = int i \<and>
    s_server_state (c_pcp_servers c ! i) \<noteq> pss_unitialized"
  by (auto simp: get_pcp_server_def split: if_splits)

lemma map_removeAll_update:
  assumes rep: "db_rep c bs" and i: "i < FLOW_HASH_SIZE" and a: "a \<in> set (bs ! i)"
  shows "bs[i := remove1 a (bs ! i)] = map (removeAll a) bs"
proof (rule nth_equalityI)
  fix j
  assume "j < length (bs[i := remove1 a (bs ! i)])"
  then have j: "j < FLOW_HASH_SIZE" using db_rep_length [OF rep] by simp
  show "bs[i := remove1 a (bs ! i)] ! j = map (removeAll a) bs ! j"
  proof (cases "j = i")
    case True
    then show ?thesis
      using j db_rep_length [OF rep] db_rep_distinct [OF rep i]
      by (simp add: distinct_remove1_removeAll)
  next
    case False
    then have "a \<notin> set (bs ! j)" using db_rep_disjoint [OF rep i j a] by auto
    then show ?thesis using False j db_rep_length [OF rep] by simp
  qed
qed simp

lemma map_removeAll_unlinked:
  "db_rep c bs \<Longrightarrow> fbucket c a = Some EMPTY \<Longrightarrow> map (removeAll a) bs = bs"
  by (rule nth_equalityI) (auto simp: db_rep_length db_rep_unlinked)

lemma pcp_db_rem_flow_any:
  assumes rep: "db_rep c bs" and f: "c_heap c a = Some f"
  shows "yields (pcp_db_rem_flow a c) (\<lambda>(c', r). db_rep c' (map (removeAll a) bs) \<and>
    db_frame c c' \<and> fbucket c' a = Some EMPTY)"
proof (cases "f_key_bucket f = EMPTY")
  case True
  then show ?thesis
    using rep f map_removeAll_unlinked [OF rep, of a]
    by (simp add: pcp_db_rem_flow_unlinked fbucket_def)
next
  case False
  then have "unat (f_key_bucket f) < FLOW_HASH_SIZE" "a \<in> set (bs ! unat (f_key_bucket f))"
    using db_rep_linked [OF rep _ False, of a] f by (auto simp: fbucket_def)
  from pcp_db_rem_flow_refines [OF rep this] map_removeAll_update [OF rep this]
  show ?thesis by (auto elim: yields_mono)
qed

lemma db_rep_free:
  assumes rep: "db_rep c bs" and e: "fbucket c a = Some EMPTY"
  shows "db_rep (c\<lparr>c_heap := (c_heap c)(a := None)\<rparr>) bs"
proof -
  let ?c = "c\<lparr>c_heap := (c_heap c)(a := None)\<rparr>"
  have n: "fnext ?c b = fnext c b" "fbucket ?c b = fbucket c b" if "b \<noteq> a" for b
    using that by (auto simp: fnext_def fbucket_def)
  have b: "fbucket ?c a = None" by (simp add: fbucket_def)
  have u: "b \<noteq> a" if "b \<in> set (bs ! i)" "i < FLOW_HASH_SIZE" for b i
    using that db_rep_unlinked [OF rep, of a i] e by auto
  have "Chain (fnext ?c) (c_flows c ! i) (bs ! i) None" if "i < FLOW_HASH_SIZE" for i
    using db_rep_chain [OF rep that] u that n(1) by (subst Chain_cong [of _ _ "fnext c"]) auto
  moreover have "fbucket ?c b = Some (of_nat i)" if "b \<in> set (bs ! i)" "i < FLOW_HASH_SIZE" for b i
    using n(2) u [OF that] db_rep_bucket [OF rep that(2,1)] by simp
  moreover have "unat w < FLOW_HASH_SIZE \<and> d \<in> set (bs ! unat w)"
    if "fbucket ?c d = Some w" "w \<noteq> EMPTY" for d w
    using that n(2) [of d] b db_rep_linked [OF rep, of d w] by (cases "d = a") auto
  ultimately show ?thesis using rep by (simp add: db_rep_def)
qed

lemma db_frame_heap:
  "db_frame c c' \<Longrightarrow> map_option flow_body (c_heap c' a) = map_option flow_body (c_heap c a)"
  by (simp add: db_frame_def)

lemma flow_body_eqD:
  assumes "flow_body g = flow_body f"
  shows "f_pcp_server_indx g = f_pcp_server_indx f" "f_next_child g = f_next_child f"
    "f_kd g = f_kd f" "flow_wf g \<longleftrightarrow> flow_wf f"
proof -
  have sel: "h g = h f" if "\<And>x. h (flow_body x) = h x" for h :: "pcp_flow \<Rightarrow> 'b"
    using arg_cong [OF assms, of h] that by simp
  show "f_pcp_server_indx g = f_pcp_server_indx f" "f_next_child g = f_next_child f" "f_kd g = f_kd f"
    by (rule sel, simp add: flow_body_def)+
  show "flow_wf g \<longleftrightarrow> flow_wf f"
    by (rule sel) (simp add: flow_body_def flow_wf_def)
qed

lemma db_frame_flow:
  assumes "db_frame c c'" and "c_heap c a = Some f"
  obtains g where "c_heap c' a = Some g" and "flow_body g = flow_body f"
  using db_frame_heap [OF assms(1), of a] assms(2) by auto

lemma db_frame_servers: "db_frame c c' \<Longrightarrow> c_pcp_servers c' = c_pcp_servers c"
  by (simp add: db_frame_def)

lemma servers_wf_cong:
  assumes "servers_wf c" and "c_pcp_servers c' = c_pcp_servers c"
    and "\<And>a f. c_heap c a = Some f \<Longrightarrow>
      \<exists>g. c_heap c' a = Some g \<and> f_pcp_server_indx g = f_pcp_server_indx f"
  shows "servers_wf c'"
  using assms unfolding servers_wf_def server_ok_def Let_def by metis

lemma servers_wf_frame: "db_frame c c' \<Longrightarrow> servers_wf c \<Longrightarrow> servers_wf c'"
  by (rule servers_wf_cong [of c])
    (blast intro: db_frame_servers elim: db_frame_flow dest: flow_body_eqD(1))+

lemma ping_owner:
  assumes "servers_wf c" and "i < length (c_pcp_servers c)"
    and "s_ping_flow_msg (c_pcp_servers c ! i) = Some a" and "c_heap c a = Some f"
  shows "f_pcp_server_indx f = of_nat i" and "get_pcp_server c (sint (f_pcp_server_indx f)) = Some i"
    and "f_pcp_server_indx f \<noteq> PCP_INV_SERVER"
proof -
  have ok: "server_ok c i" and len: "i < 2 ^ 31" using assms(1,2) by (auto simp: servers_wf_def)
  then show idx: "f_pcp_server_indx f = of_nat i"
    using assms(3,4) by (auto simp: server_ok_def Let_def)
  show "get_pcp_server c (sint (f_pcp_server_indx f)) = Some i"
    using ok assms(3) get_pcp_server_index [OF assms(1,2)] by (auto simp: idx server_ok_def Let_def)
  show "f_pcp_server_indx f \<noteq> PCP_INV_SERVER"
    using unat_of_nat_index [OF len] len by (auto simp: idx)
qed

lemma servers_wf_free:
  assumes wf: "servers_wf c"
    and "\<And>i. i < length (c_pcp_servers c) \<Longrightarrow> s_ping_flow_msg (c_pcp_servers c ! i) \<noteq> Some a"
  shows "servers_wf (c\<lparr>c_heap := (c_heap c)(a := None)\<rparr>)"
  unfolding servers_wf_def
proof (intro conjI allI impI)
  fix i
  assume "i < length (c_pcp_servers (c\<lparr>c_heap := (c_heap c)(a := None)\<rparr>))"
  then have i: "i < length (c_pcp_servers c)" by simp
  from servers_wfD [OF wf i] assms(2) [OF i]
  show "server_ok (c\<lparr>c_heap := (c_heap c)(a := None)\<rparr>) i"
    by (auto simp: server_ok_def Let_def)
qed (use wf in \<open>simp add: servers_wf_def\<close>)

lemma servers_wf_upd_server:
  assumes wf: "servers_wf c" and i: "i < length (c_pcp_servers c)"
    and ok: "server_ok (c\<lparr>c_pcp_servers := (c_pcp_servers c)[i := s]\<rparr>) i"
  shows "servers_wf (c\<lparr>c_pcp_servers := (c_pcp_servers c)[i := s]\<rparr>)"
  unfolding servers_wf_def
proof (intro conjI allI impI)
  fix j
  assume "j < length (c_pcp_servers (c\<lparr>c_pcp_servers := (c_pcp_servers c)[i := s]\<rparr>))"
  then have "j < length (c_pcp_servers c)" by simp
  from servers_wfD [OF wf this] ok
  show "server_ok (c\<lparr>c_pcp_servers := (c_pcp_servers c)[i := s]\<rparr>) j"
    by (cases "j = i") (auto simp: server_ok_def Let_def)
qed (use wf in \<open>simp add: servers_wf_def\<close>)

text \<open>What deleting the flow \<open>a\<close> does to a server.\<close>

definition forget_ping :: "addr \<Rightarrow> pcp_server \<Rightarrow> pcp_server" where
  "forget_ping a s = (if s_ping_flow_msg s = Some a then s\<lparr>s_ping_flow_msg := None\<rparr> else s)"

lemma clear_ping_flow_wf:
  assumes wf: "servers_wf c" and f: "c_heap c a = Some f"
  shows "yields (clear_ping_flow a f c) (\<lambda>c'. servers_wf c' \<and>
    c_pcp_servers c' = map (forget_ping a) (c_pcp_servers c) \<and>
    c_heap c' = c_heap c \<and> c_flows c' = c_flows c \<and> c_flow_cnt c' = c_flow_cnt c)"
proof (cases "\<exists>i<length (c_pcp_servers c). s_ping_flow_msg (c_pcp_servers c ! i) = Some a")
  case True
  then obtain i where i: "i < length (c_pcp_servers c)"
    and p: "s_ping_flow_msg (c_pcp_servers c ! i) = Some a" by blast
  note o = ping_owner [OF wf i p f]
  have "s_ping_flow_msg (c_pcp_servers c ! j) \<noteq> Some a"
    if "j < length (c_pcp_servers c)" "j \<noteq> i" for j
    using ping_owner(2) [OF wf that(1) _ f] o(2) that(2) by auto
  then have "(c_pcp_servers c)[i := (c_pcp_servers c ! i)\<lparr>s_ping_flow_msg := None\<rparr>] ! j = forget_ping a (c_pcp_servers c ! j)"
    if "j < length (c_pcp_servers c)" for j
    using that p by (cases "j = i") (simp_all add: forget_ping_def)
  then have m: "map (forget_ping a) (c_pcp_servers c) = (c_pcp_servers c)[i := (c_pcp_servers c ! i)\<lparr>s_ping_flow_msg := None\<rparr>]"
    by (simp add: list_eq_iff_nth_eq)
  show ?thesis
    unfolding m using o(2,3) i p servers_wf_upd_server [OF wf i] servers_wfD [OF wf i]
    by (auto simp: clear_ping_flow_def nth_list_update server_ok_def Let_def)
next
  case False
  then have "map (forget_ping a) (c_pcp_servers c) = c_pcp_servers c"
    by (auto simp: forget_ping_def in_set_conv_nth intro!: map_idI)
  moreover have "clear_ping_flow a f c = Some c"
    using False by (auto simp: clear_ping_flow_def split: option.splits dest: get_pcp_server_SomeD)
  ultimately show ?thesis using wf by simp
qed

lemma forget_ping_gone: "s \<in> set (map (forget_ping a) ss) \<Longrightarrow> s_ping_flow_msg s \<noteq> Some a"
  by (auto simp: forget_ping_def)

lemma pcp_delete_flow_intern_refines:
  assumes rep: "db_rep c bs" and wf: "servers_wf c" and f: "c_heap c a = Some f"
  shows "yields (pcp_delete_flow_intern a c) (\<lambda>(c', r). r = PCP_ERR_SUCCESS \<and>
    db_rep c' (map (removeAll a) bs) \<and> servers_wf c' \<and> c_pcp_servers c' = map (forget_ping a) (c_pcp_servers c) \<and> c_heap c' a = None \<and>
    (\<forall>b. b \<noteq> a \<longrightarrow> map_option flow_body (c_heap c' b) = map_option flow_body (c_heap c b)))"
    (is "yields _ ?P")
  unfolding pcp_delete_flow_intern_def
proof (rule yields_bind2 [OF pcp_db_rem_flow_any [OF rep f]])
  fix c1 :: pcp_ctx and r :: int
  assume "case (c1, r) of (c', r) \<Rightarrow> db_rep c' (map (removeAll a) bs) \<and> db_frame c c' \<and>
    fbucket c' a = Some EMPTY"
  then have r1: "db_rep c1 (map (removeAll a) bs)" and fr: "db_frame c c1"
    and e: "fbucket c1 a = Some EMPTY" by auto
  obtain g where g: "c_heap c1 a = Some g" using fr f by (rule db_frame_flow)
  have sv: "c_pcp_servers c1 = c_pcp_servers c" using fr by (simp add: db_frame_def)
  have "yields (clear_ping_flow a g c1 \<bind>
      (\<lambda>c. Some (c\<lparr>c_heap := (c_heap c)(a := None)\<rparr>, PCP_ERR_SUCCESS))) ?P"
    using clear_ping_flow_wf [OF servers_wf_frame [OF fr wf] g]
  proof (rule yields_bind)
    fix c2
    assume c2: "servers_wf c2 \<and> c_pcp_servers c2 = map (forget_ping a) (c_pcp_servers c1) \<and>
      c_heap c2 = c_heap c1 \<and> c_flows c2 = c_flows c1 \<and> c_flow_cnt c2 = c_flow_cnt c1"
    then have "db_rep c2 (map (removeAll a) bs)" "fbucket c2 a = Some EMPTY"
      using r1 e db_rep_cong [of c2 c1] by (auto simp: fnext_def fbucket_def fun_eq_iff)
    moreover have "\<forall>i<length (c_pcp_servers c2). s_ping_flow_msg (c_pcp_servers c2 ! i) \<noteq> Some a"
      using c2 forget_ping_gone by (metis nth_mem)
    ultimately show "yields (Some (c2\<lparr>c_heap := (c_heap c2)(a := None)\<rparr>, PCP_ERR_SUCCESS)) ?P"
      using c2 sv servers_wf_free [of c2 a] db_rep_free [of c2 _ a] db_frame_heap [OF fr] by auto
  qed
  then show "yields (c_heap c1 a \<bind> (\<lambda>f. clear_ping_flow a f c1 \<bind>
      (\<lambda>c. Some (c\<lparr>c_heap := (c_heap c)(a := None)\<rparr>, PCP_ERR_SUCCESS)))) ?P"
    by (simp add: g)
qed

lemma zero_server_unused [simp]:
  "s_server_state zero_server = pss_unitialized" "s_ping_flow_msg zero_server = None"
  by (simp_all add: zero_server_def)

lemma first_unused_zero: "0 < n \<Longrightarrow> first_unused (replicate n zero_server) = Some 0"
  by (cases n) auto

text \<open>The array after the search: the old records, then zeroed ones.\<close>

lemma new_server_slot_ok:
  assumes "new_server_slot E c = (c', Some i)"
  obtains n where "c_pcp_servers c' = c_pcp_servers c @ replicate n zero_server"
    and "i < length (c_pcp_servers c')"
    and "s_server_state (c_pcp_servers c' ! i) = pss_unitialized"
    and "length (c_pcp_servers c') \<le> max PCP_INIT_SERVER_COUNT (2 * length (c_pcp_servers c))"
    and "c_heap c' = c_heap c" and "c_flows c' = c_flows c" and "c_flow_cnt c' = c_flow_cnt c"
proof (cases "c_pcp_servers c = []")
  case True
  then show ?thesis
    using assms that [of PCP_INIT_SERVER_COUNT]
    by (auto simp: new_server_slot_def Let_def tick_def first_unused_zero
        split: if_splits)
next
  case False
  show ?thesis
  proof (cases "first_unused (c_pcp_servers c)")
    case None
    then show ?thesis
      using assms False that [of "length (c_pcp_servers c)"]
      by (auto simp: new_server_slot_def Let_def tick_def nth_append split: if_splits)
  next
    case (Some j)
    then show ?thesis
      using assms False that [of 0] first_unused_Some [OF Some]
      by (auto simp: new_server_slot_def Let_def)
  qed
qed

lemma new_server_slot_none: "new_server_slot E c = (c', None) \<Longrightarrow> c' = tick c"
  by (auto simp: new_server_slot_def Let_def first_unused_zero split: if_splits option.splits)

lemma server_ok_grow:
  assumes wf: "servers_wf c" and "c_pcp_servers c' = c_pcp_servers c @ replicate n zero_server"
    and "c_heap c' = c_heap c" and "j < length (c_pcp_servers c')"
  shows "server_ok c' j"
  using servers_wfD [OF wf, of j] assms(2-)
  by (cases "j < length (c_pcp_servers c)") (auto simp: server_ok_def Let_def nth_append)

text \<open>Small contexts the properties are tried on: one flow in memory, outside and inside the
  table.\<close>

definition demo_ctx :: pcp_ctx where
  "demo_ctx = zero_ctx\<lparr>c_heap := [1 \<mapsto> zero_flow\<lparr>f_key_bucket := EMPTY\<rparr>]\<rparr>"

definition demo_linked :: pcp_ctx where
  "demo_linked = zero_ctx\<lparr>c_heap := [1 \<mapsto> zero_flow], c_flows := (c_flows zero_ctx)[0 := Some 1],
     c_flow_cnt := 1\<rparr>"

lemma zero_flow_links [simp]:
  "f_next zero_flow = None" "f_key_bucket zero_flow = 0" "f_pcp_server_indx zero_flow = 0"
  "f_next_child zero_flow = None" "f_kd zero_flow = zero_kd" "f_state zero_flow = pfs_idle"
  by (simp_all add: zero_flow_def)

lemma zero_ctx_sel [simp]:
  "c_flows zero_ctx = replicate FLOW_HASH_SIZE None" "c_flow_cnt zero_ctx = 0"
  "c_pcp_servers zero_ctx = []" "c_heap zero_ctx = (\<lambda>_. None)"
  by (simp_all add: zero_ctx_def)

lemma db_rep_unlinked_only:
  assumes "c_flows c = replicate FLOW_HASH_SIZE None" and "c_flow_cnt c = 0"
    and "\<And>a f. c_heap c a = Some f \<Longrightarrow> f_key_bucket f = EMPTY"
  shows "db_rep c (replicate FLOW_HASH_SIZE [])"
  using assms(3) by (auto simp: db_rep_def assms(1,2) fbucket_Some)

lemma demo_ctx_rep: "db_rep demo_ctx (replicate FLOW_HASH_SIZE [])"
  by (rule db_rep_unlinked_only) (auto simp: demo_ctx_def split: if_splits)

lemma demo_linked_rep: "db_rep demo_linked ((replicate FLOW_HASH_SIZE [])[0 := [1]])"
proof -
  have len: "length (concat ((replicate FLOW_HASH_SIZE [])[0 := [1 :: nat]])) = 1"
    using length_concat_update [of 0 "replicate FLOW_HASH_SIZE []" "[1 :: nat]"] by simp
  show ?thesis
    unfolding db_rep_def len
    by (auto simp: demo_linked_def fnext_def fbucket_def nth_list_update)
qed

section \<open>Properties\<close>

text \<open>The flow table finds what was added. After \<^verbatim>\<open>pcp_db_add_flow\<close> of a flow that
  is in no chain, \<^verbatim>\<open>pcp_get_flow\<close> with the flow's key and server returns it, unless an
  older flow with the same key was there, which it goes on returning; every other lookup
  returns what it returned before. The call terminates and dereferences no bad pointer.\<close>

theorem pcp_db_add_then_get:
  assumes "db_rep c bs" and "c_heap c a = Some f" and "f_key_bucket f = EMPTY"
    and "s_index s = f_pcp_server_indx f"
  shows "yields (pcp_db_add_flow (Some a) c) (\<lambda>(c', r). r = PCP_ERR_SUCCESS \<and>
    pcp_get_flow (f_kd f) s c' =
      (if pcp_get_flow (f_kd f) s c = Some None then Some (Some a) else pcp_get_flow (f_kd f) s c) \<and>
    (\<forall>k t. (k, s_index t) \<noteq> (f_kd f, f_pcp_server_indx f) \<longrightarrow>
       pcp_get_flow k t c' = pcp_get_flow k t c))"
proof -
  define m where "m = (\<lambda>(k, si). filter (flow_matches k si c) (bs ! unat (compute_flow_key k)))"
  have rep: "table_rep c m" using assms(1) by (auto simp: table_rep_def m_def)
  have un: "unlinked c a (f_kd f, s_index s)" using assms by (auto simp: unlinked_def)
  have g: "lookup_flow k c = Some None \<longleftrightarrow> m k = []" for k
    using flow_table.get_law [OF rep, of k] by (simp split: list.splits)
  show ?thesis
    using flow_table.get_after_add [OF rep un]
    by (rule yields_mono) (auto simp: pcp_get_flow_lookup g assms(4) split: list.splits)
qed

theorem pcp_db_add_then_get_witness:
  "yields (pcp_db_add_flow (Some 1) demo_ctx) (\<lambda>(c', r).
     pcp_get_flow zero_kd zero_server c' = Some (Some 1))"
proof -
  let ?f = "zero_flow\<lparr>f_key_bucket := EMPTY\<rparr>"
  have "pcp_get_flow (f_kd ?f) zero_server demo_ctx = Some None"
    using hash_in_table by (simp add: pcp_get_flow_refines [OF demo_ctx_rep])
  then show ?thesis
    using pcp_db_add_then_get [OF demo_ctx_rep, of 1 ?f zero_server]
    by (auto simp: demo_ctx_def zero_server_def elim!: yields_mono)
qed

text \<open>The flow table forgets what was removed. After \<^verbatim>\<open>pcp_db_rem_flow\<close> of a flow that
  is in the table no lookup returns it, and a lookup that returned something else still
  does.\<close>

theorem pcp_db_rem_then_get:
  assumes "db_rep c bs" and "a \<in> set (concat bs)"
  shows "yields (pcp_db_rem_flow a c) (\<lambda>(c', r). r = PCP_ERR_SUCCESS \<and>
    (\<forall>k s. pcp_get_flow k s c' \<noteq> Some (Some a)) \<and>
    (\<forall>k s. pcp_get_flow k s c \<noteq> Some (Some a) \<longrightarrow> pcp_get_flow k s c' = pcp_get_flow k s c))"
proof -
  have rep: "table_rep c (\<lambda>(k, si). filter (flow_matches k si c) (bs ! unat (compute_flow_key k)))"
    using assms(1) by (auto simp: table_rep_def)
  obtain i where i: "i < FLOW_HASH_SIZE" "a \<in> set (bs ! i)"
    using assms(2) db_rep_concat [OF assms(1)] by blast
  then have "linked c a"
    using db_rep_bucket [OF assms(1) i] unat_of_nat_bucket [of i]
    by (auto simp: linked_def fbucket_Some)
  from flow_table.get_after_rem [OF rep this] show ?thesis
    by (rule yields_mono) (auto simp: pcp_get_flow_lookup)
qed

theorem pcp_db_rem_then_get_witness:
  "yields (pcp_db_rem_flow 1 demo_linked) (\<lambda>(c', r). r = PCP_ERR_SUCCESS \<and>
     (\<forall>k s. pcp_get_flow k s c' \<noteq> Some (Some 1)))"
proof -
  have "1 \<in> set (concat ((replicate FLOW_HASH_SIZE [])[0 := [1]]))"
    by (auto intro!: bexI [OF _ set_update_memI])
  from pcp_db_rem_then_get [OF demo_linked_rep this] show ?thesis
    by (auto elim!: yields_mono)
qed


text \<open>A flow its server waits for, and whose response has shown that the server was restarted.\<close>

definition demo_pinged :: pcp_ctx where
  "demo_pinged = demo_linked\<lparr>c_pcp_servers := [zero_server\<lparr>s_server_state := pss_server_restart,
     s_ping_flow_msg := Some 1, s_restart_flow_msg := Some 1\<rparr>]\<rparr>"


lemma pcp_new_server_spec:
  assumes wf: "servers_wf c" and len: "length (c_pcp_servers c) \<le> 2 ^ 30"
  shows "yields (pcp_new_server E ip port scope c) (\<lambda>(c', r).
    r = PCP_ERR_NO_MEM \<and> c' = tick c \<or>
    (\<exists>i s. r = int i \<and> get_pcp_server c r = None \<and> get_pcp_server c' r = Some i \<and>
       c_pcp_servers c' ! i = s \<and> s_index s = of_nat i \<and>
       s_pcp_scope_id s = (if IN6_IS_ADDR_LINKLOCAL ip then scope else 0) \<and> s_pcp_ip s = ip \<and> s_pcp_port s = port \<and>
       s_pcp_version s = PCP_MAX_SUPPORTED_VERSION \<and> s_server_state s = pss_allocated \<and>
       (\<forall>j. get_pcp_server c (int j) = Some j \<longrightarrow> get_pcp_server c' (int j) = Some j \<and>
          c_pcp_servers c' ! j = c_pcp_servers c ! j) \<and>
       servers_wf c' \<and> c_heap c' = c_heap c))"
proof (cases "new_server_slot E c")
  case (Pair c1 slot)
  show ?thesis
  proof (cases slot)
    case None
    then show ?thesis using new_server_slot_none Pair by (simp add: pcp_new_server_def)
  next
    case (Some i)
    then obtain n where sv: "c_pcp_servers c1 = c_pcp_servers c @ replicate n zero_server"
      and i: "i < length (c_pcp_servers c1)"
      and un: "s_server_state (c_pcp_servers c1 ! i) = pss_unitialized"
      and le: "length (c_pcp_servers c1) \<le> max PCP_INIT_SERVER_COUNT (2 * length (c_pcp_servers c))"
      and hp: "c_heap c1 = c_heap c"
      using Pair new_server_slot_ok by metis
    obtain c2 nonce where c2: "createNonce E c1 = (c2, nonce)" by (cases "createNonce E c1")
    then have c2s: "c_pcp_servers c2 = c_pcp_servers c1" "c_heap c2 = c_heap c1"
      by (auto simp: createNonce_def tick_def Let_def)
    let ?s = "(init_server ip port scope nonce (c_pcp_servers c1 ! i))\<lparr>s_index := of_nat i\<rparr>"
    let ?c = "c2\<lparr>c_pcp_servers := (c_pcp_servers c1)[i := ?s]\<rparr>"
    have i31: "i < 2 ^ 31" "length (c_pcp_servers c1) \<le> 2 ^ 31" using i le len by auto
    have run: "pcp_new_server E ip port scope c = Some (?c, int i)"
      using Pair Some c2 c2s i i31 by (simp add: pcp_new_server_def)
    have ok1: "server_ok c1 j" if "j < length (c_pcp_servers c1)" for j
      using server_ok_grow [OF wf sv hp that] .
    have "server_ok ?c j" if "j < length (c_pcp_servers c1)" for j
      using ok1 [OF that] ok1 [OF i] that un
      by (cases "j = i") (auto simp: server_ok_def Let_def c2s init_server_def)
    then have wf': "servers_wf ?c" using i31 by (simp add: servers_wf_def)
    have old: "get_pcp_server c (int i) = None"
      using un sv by (cases "i < length (c_pcp_servers c)") (auto simp: get_pcp_server_def nth_append)
    have "get_pcp_server ?c (int j) = Some j \<and> c_pcp_servers ?c ! j = c_pcp_servers c ! j"
      if "get_pcp_server c (int j) = Some j" for j
      using that old get_pcp_server_SomeD [OF that] sv
      by (auto simp: get_pcp_server_def nth_append nth_list_update)
    moreover have "get_pcp_server ?c (int i) = Some i"
      using i by (simp add: get_pcp_server_def init_server_def)
    ultimately show ?thesis
      using run wf' old i hp c2s by (auto simp: init_server_def)
  qed
qed


lemma pcp_new_server_frame:
  assumes "pcp_new_server E ip port scope c = Some (c', r)"
  shows "c_flows c' = c_flows c \<and> c_flow_cnt c' = c_flow_cnt c \<and> c_heap c' = c_heap c \<and> c_msg c' = c_msg c"
  using assms
  by (auto simp: pcp_new_server_def new_server_slot_def createNonce_def upd_server_def Let_def
      split: if_splits option.splits prod.splits)

text \<open>Every record of the array is taken, or there is no array yet.\<close>

definition array_full :: "pcp_ctx \<Rightarrow> bool" where
  "array_full c \<longleftrightarrow> (\<forall>s\<in>set (c_pcp_servers c). s_server_state s \<noteq> pss_unitialized)"

lemma new_server_slot_exact:
  "if array_full c \<and> \<not> calloc_buf E c then new_server_slot E c = (tick c, None)
   else \<exists>i n. new_server_slot E c = ((if array_full c then tick c else c)\<lparr>c_pcp_servers := c_pcp_servers c @ replicate n zero_server\<rparr>, Some i) \<and>
     (if array_full c then i = length (c_pcp_servers c) \<and> n = (if i = 0 then PCP_INIT_SERVER_COUNT else i)
      else n = 0 \<and> i < length (c_pcp_servers c) \<and> s_server_state (c_pcp_servers c ! i) = pss_unitialized \<and>
        (\<forall>j<i. s_server_state (c_pcp_servers c ! j) \<noteq> pss_unitialized))"
proof (cases "c_pcp_servers c = []")
  case True
  then show ?thesis by (auto simp: new_server_slot_def array_full_def first_unused_zero tick_def Let_def)
next
  case False
  show ?thesis
  proof (cases "first_unused (c_pcp_servers c)")
    case None
    then have "array_full c" by (simp add: first_unused_None array_full_def)
    then show ?thesis using False None by (auto simp: new_server_slot_def tick_def Let_def)
  next
    case (Some i)
    then have "\<not> array_full c" using first_unused_None [of "c_pcp_servers c"] by (simp add: array_full_def)
    then show ?thesis using False Some first_unused_Some [OF Some] by (auto simp: new_server_slot_def Let_def)
  qed
qed

lemma pcp_new_server_exact:
  assumes len: "length (c_pcp_servers c) \<le> 2 ^ 30"
  shows "if array_full c \<and> \<not> calloc_buf E c then pcp_new_server E ip port scope c = Some (tick c, PCP_ERR_NO_MEM)
   else \<exists>i n c'. pcp_new_server E ip port scope c = Some (c', int i) \<and>
     (if array_full c then i = length (c_pcp_servers c) \<and> n = (if i = 0 then PCP_INIT_SERVER_COUNT else i)
      else n = 0 \<and> i < length (c_pcp_servers c) \<and> s_server_state (c_pcp_servers c ! i) = pss_unitialized \<and>
        (\<forall>j<i. s_server_state (c_pcp_servers c ! j) \<noteq> pss_unitialized)) \<and>
     c_pcp_servers c' = (c_pcp_servers c @ replicate n zero_server)
       [i := (init_server ip port scope (snd (createNonce E (if array_full c then tick c else c)))
                (if i < length (c_pcp_servers c) then c_pcp_servers c ! i else zero_server))\<lparr>s_index := of_nat i\<rparr>]"
proof (cases "array_full c \<and> \<not> calloc_buf E c")
  case True
  then show ?thesis using new_server_slot_exact [of c E] by (simp add: pcp_new_server_def)
next
  case False
  let ?d = "\<lambda>n. (if array_full c then tick c else c)\<lparr>c_pcp_servers := c_pcp_servers c @ replicate n zero_server\<rparr>"
  obtain i n where s: "new_server_slot E c = (?d n, Some i)" and i: "if array_full c then i = length (c_pcp_servers c) \<and> n = (if i = 0 then PCP_INIT_SERVER_COUNT else i)
      else n = 0 \<and> i < length (c_pcp_servers c) \<and> s_server_state (c_pcp_servers c ! i) = pss_unitialized \<and>
        (\<forall>j<i. s_server_state (c_pcp_servers c ! j) \<noteq> pss_unitialized)"
    using False new_server_slot_exact [of c E] by auto
  let ?sv = "(c_pcp_servers c @ replicate n zero_server)
       [i := (init_server ip port scope (snd (createNonce E (if array_full c then tick c else c)))
                (if i < length (c_pcp_servers c) then c_pcp_servers c ! i else zero_server))\<lparr>s_index := of_nat i\<rparr>]"
  have b: "i < length (c_pcp_servers c) + n" "\<not> i > 2147483647" using i len by (auto split: if_splits)
  have o: "(c_pcp_servers c @ replicate n zero_server) ! i = (if i < length (c_pcp_servers c) then c_pcp_servers c ! i else zero_server)"
    using b by (simp add: nth_append)
  have nonce: "snd (createNonce E (?d n)) = snd (createNonce E (if array_full c then tick c else c))"
    by (simp add: createNonce_def tick_def)
  have sv: "c_pcp_servers (fst (createNonce E x)) = c_pcp_servers x" for x by (simp add: createNonce_def tick_def Let_def)
  define c2 where "c2 = fst (createNonce E (?d n))"
  then have c2: "createNonce E (?d n) = (c2, snd (createNonce E (?d n)))" by simp
  have "c_pcp_servers c2 = c_pcp_servers c @ replicate n zero_server" using sv [of "?d n"] by (simp add: c2_def)
  then have run: "pcp_new_server E ip port scope c = Some (c2\<lparr>c_pcp_servers := ?sv\<rparr>, int i)"
    using b o by (subst pcp_new_server_def, subst s, simp only: prod.case option.case, subst c2) (simp add: nonce upd_server_def)
  show ?thesis
    unfolding if_not_P [OF False] by (rule exI [of _ i], rule exI [of _ n], rule exI [of _ "c2\<lparr>c_pcp_servers := ?sv\<rparr>"]) (use run i in simp)
qed

text \<open>Property C12: \<^verbatim>\<open>pcp_new_server\<close>. Memory is asked for exactly when no record is unused; if it is refused the result
  is \<^verbatim>\<open>PCP_ERR_NO_MEM\<close> and nothing changes. Otherwise the index of the first unused record is returned, or of the first new one when
  the array was made or doubled. This record alone changes: it gets the address and port given, the scope if the address is
  link-local, the highest version, an unknown epoch, a fresh nonce and its index. The array stays well-formed. The
  size bound keeps the doubled array below the range of the signed index.\<close>

theorem pcp_new_server_ok:
  assumes wf: "servers_wf c" and len: "length (c_pcp_servers c) \<le> 2 ^ 30"
  shows "if array_full c \<and> env_malloc E (c_tick c) = None then pcp_new_server E ip port scope c = Some (tick c, PCP_ERR_NO_MEM)
   else \<exists>i n c'. pcp_new_server E ip port scope c = Some (c', int i) \<and> servers_wf c' \<and> c_heap c' = c_heap c \<and>
     get_pcp_server c (int i) = None \<and> get_pcp_server c' (int i) = Some i \<and>
     (if array_full c then i = length (c_pcp_servers c) \<and> n = (if i = 0 then PCP_INIT_SERVER_COUNT else i)
      else n = 0 \<and> i < length (c_pcp_servers c) \<and> s_server_state (c_pcp_servers c ! i) = pss_unitialized \<and>
        (\<forall>j<i. s_server_state (c_pcp_servers c ! j) \<noteq> pss_unitialized)) \<and>
     c_pcp_servers c' = (c_pcp_servers c @ replicate n zero_server)
       [i := (if i < length (c_pcp_servers c) then c_pcp_servers c ! i else zero_server)\<lparr>
          s_epoch := 0xFFFFFFFF, s_pcp_ip := ip, s_pcp_port := port,
          s_pcp_scope_id := (if IN6_IS_ADDR_LINKLOCAL ip then scope else 0), s_server_state := pss_allocated,
          s_pcp_version := PCP_MAX_SUPPORTED_VERSION,
          s_nonce := (let t = c_tick c + (if array_full c then 1 else 0) in Nonce (env_rand E (t + 2)) (env_rand E (t + 1)) (env_rand E t)),
          s_index := of_nat i\<rparr>]"
proof (cases "array_full c \<and> \<not> calloc_buf E c")
  case True
  then show ?thesis using pcp_new_server_exact [OF len, of E ip port scope] by (simp add: calloc_buf_def)
next
  case False
  then obtain i n c' where r: "pcp_new_server E ip port scope c = Some (c', int i)"
    "if array_full c then i = length (c_pcp_servers c) \<and> n = (if i = 0 then PCP_INIT_SERVER_COUNT else i)
      else n = 0 \<and> i < length (c_pcp_servers c) \<and> s_server_state (c_pcp_servers c ! i) = pss_unitialized \<and>
        (\<forall>j<i. s_server_state (c_pcp_servers c ! j) \<noteq> pss_unitialized)"
    "c_pcp_servers c' = (c_pcp_servers c @ replicate n zero_server)
       [i := (init_server ip port scope (snd (createNonce E (if array_full c then tick c else c)))
                (if i < length (c_pcp_servers c) then c_pcp_servers c ! i else zero_server))\<lparr>s_index := of_nat i\<rparr>]"
    using pcp_new_server_exact [OF len, of E ip port scope] by auto
  have "servers_wf c' \<and> c_heap c' = c_heap c \<and> get_pcp_server c (int i) = None \<and> get_pcp_server c' (int i) = Some i"
    using pcp_new_server_spec [OF assms, of E ip port scope] r(1) by auto
  moreover have "\<not> (array_full c \<and> env_malloc E (c_tick c) = None)" using False by (simp add: calloc_buf_def)
  moreover have "snd (createNonce E (if array_full c then tick c else c)) =
      (let t = c_tick c + (if array_full c then 1 else 0) in Nonce (env_rand E (t + 2)) (env_rand E (t + 1)) (env_rand E t))"
    by (simp add: createNonce_def tick_def Let_def)
  moreover note r
  ultimately show ?thesis
    by (simp only: if_False) (rule exI [of _ i], rule exI [of _ n], rule exI [of _ c'], simp add: init_server_def)
qed

theorem pcp_new_server_ok_witness:
  "\<exists>c'. pcp_new_server demo_env (v4mapped 0x0A000001) PCP_SERVER_PORT 0 zero_ctx = Some (c', 0) \<and> get_pcp_server c' 0 = Some 0 \<and>
     s_pcp_ip (c_pcp_servers c' ! 0) = v4mapped 0x0A000001 \<and> s_server_state (c_pcp_servers c' ! 0) = pss_allocated"
  using pcp_new_server_ok [of zero_ctx demo_env "v4mapped 0x0A000001" PCP_SERVER_PORT 0]
  by (auto simp: servers_wf_def array_full_def demo_env_def split: if_splits)

section \<open>Sequences of operations\<close>

text \<open>Any program that adds and removes flows, seen as changes of a function from keys to lists of
  flows; \<open>u\<close> is the key of every flow in memory.\<close>

datatype table_op = Op_add addr | Op_rem addr

fun run_op :: "table_op \<Rightarrow> pcp_ctx \<Rightarrow> pcp_ctx option" where
  "run_op (Op_add a) c = map_option fst (pcp_db_add_flow (Some a) c)"
| "run_op (Op_rem a) c = map_option fst (pcp_db_rem_flow a c)"

fun run_ops :: "table_op list \<Rightarrow> pcp_ctx \<Rightarrow> pcp_ctx option" where
  "run_ops [] c = Some c"
| "run_ops (x # xs) c = do { c \<leftarrow> run_op x c; run_ops xs c }"

fun spec_op :: "(addr \<Rightarrow> 'k option) \<Rightarrow> table_op \<Rightarrow> ('k \<Rightarrow> addr list) \<Rightarrow> 'k \<Rightarrow> addr list" where
  "spec_op u (Op_add a) m = (case u a of None \<Rightarrow> m | Some k \<Rightarrow> m(k := m k @ [a]))"
| "spec_op u (Op_rem a) m = (\<lambda>k. removeAll a (m k))"

text \<open>A flow may be added when it exists and is not in the table; \<open>l\<close> is the set of the flows in it.\<close>

fun ops_allowed :: "addr set \<Rightarrow> addr set \<Rightarrow> table_op list \<Rightarrow> bool" where
  "ops_allowed d l [] \<longleftrightarrow> True"
| "ops_allowed d l (Op_add a # xs) \<longleftrightarrow> a \<in> d \<and> a \<notin> l \<and> ops_allowed d (insert a l) xs"
| "ops_allowed d l (Op_rem a # xs) \<longleftrightarrow> a \<in> d \<and> ops_allowed d (l - {a}) xs"

definition flow_key_of :: "pcp_ctx \<Rightarrow> addr \<Rightarrow> (flow_key_data \<times> u32) option" where
  "flow_key_of c a = map_option (\<lambda>f. (f_kd f, f_pcp_server_indx f)) (c_heap c a)"

lemma flow_key_of_frame: "db_frame c c' \<Longrightarrow> flow_key_of c' = flow_key_of c"
proof
  fix a
  assume "db_frame c c'"
  then have b: "map_option flow_body (c_heap c' a) = map_option flow_body (c_heap c a)" by (rule db_frame_heap)
  show "flow_key_of c' a = flow_key_of c a"
  proof (cases "c_heap c' a")
    case None
    then show ?thesis using b by (simp add: flow_key_of_def)
  next
    case (Some g)
    then obtain f where f: "c_heap c a = Some f" "flow_body g = flow_body f" using b by (cases "c_heap c a") auto
    then show ?thesis using Some flow_body_eqD(1,3) [OF f(2)] by (simp add: flow_key_of_def)
  qed
qed

lemma fbucket_member:
  assumes rep: "db_rep c bs" and k: "k \<noteq> EMPTY"
  shows "fbucket c b = Some k \<longleftrightarrow> unat k < FLOW_HASH_SIZE \<and> b \<in> set (bs ! unat k)"
proof
  assume "fbucket c b = Some k"
  then show "unat k < FLOW_HASH_SIZE \<and> b \<in> set (bs ! unat k)" using rep k unfolding db_rep_def by blast
next
  assume "unat k < FLOW_HASH_SIZE \<and> b \<in> set (bs ! unat k)"
  then have "fbucket c b = Some (of_nat (unat k))" using rep unfolding db_rep_def by blast
  then show "fbucket c b = Some k" by simp
qed

lemma linked_in_table:
  assumes rep: "db_rep c bs"
  shows "linked c a \<longleftrightarrow> a \<in> set (concat bs)"
proof
  assume "linked c a"
  then obtain k where "fbucket c a = Some k" "k \<noteq> EMPTY" by (auto simp: linked_def fbucket_def)
  then show "a \<in> set (concat bs)" using fbucket_member [OF rep, of k a] db_rep_length [OF rep] by auto
next
  assume "a \<in> set (concat bs)"
  then obtain i where i: "i < FLOW_HASH_SIZE" "a \<in> set (bs ! i)"
    using db_rep_length [OF rep] by (metis (no_types, lifting) in_set_conv_nth set_concat UN_E)
  then have "fbucket c a = Some (of_nat i)" by (rule db_rep_bucket [OF rep])
  moreover have "(of_nat i :: u32) \<noteq> EMPTY"
  proof
    assume "(of_nat i :: u32) = EMPTY"
    then have "unat (of_nat i :: u32) = unat EMPTY" by simp
    then show False using i(1) by (simp add: unat_of_nat)
  qed
  ultimately show "linked c a" by (auto simp: linked_def fbucket_def)
qed

lemma set_concat_extend: "i < length bs \<Longrightarrow> set (concat (bs[i := bs ! i @ xs])) = set xs \<union> set (concat bs)"
  by (induction bs arbitrary: i) (auto split: nat.splits)

lemma run_op_refines:
  assumes t: "table_rep c m" and ok: "ops_allowed (dom (flow_key_of c)) (Collect (linked c)) (x # xs)"
  shows "yields (run_op x c) (\<lambda>c'. table_rep c' (spec_op (flow_key_of c) x m) \<and> flow_key_of c' = flow_key_of c \<and>
    ops_allowed (dom (flow_key_of c)) (Collect (linked c')) xs)"
proof -
  obtain bs where rep: "db_rep c bs" using t by (auto simp: table_rep_def)
  note lc = linked_in_table [OF rep]
  show ?thesis
  proof (cases x)
    case (Op_add a)
    then obtain f where f: "c_heap c a = Some f" and n: "\<not> linked c a" using ok by (auto simp: flow_key_of_def)
    then have e: "f_key_bucket f = EMPTY" by (simp add: linked_def)
    let ?i = "unat (compute_flow_key (f_kd f))"
    obtain d r where d: "pcp_db_add_flow (Some a) c = Some (d, r)" "db_rep d (bs[?i := bs ! ?i @ [a]])" "db_frame c d"
      using pcp_db_add_flow_refines [OF rep f e] by (auto elim!: yieldsE)
    have "unlinked c a (f_kd f, f_pcp_server_indx f)" using f e by (simp add: unlinked_def)
    from flow_table.add_law [OF t this] d(1)
    have "table_rep d (spec_op (flow_key_of c) x m)" using f Op_add by (simp add: flow_key_of_def)
    moreover have "?i < length bs" using hash_in_table [of "f_kd f"] db_rep_length [OF rep] by simp
    then have "set (concat (bs[?i := bs ! ?i @ [a]])) = insert a (set (concat bs))" using set_concat_extend [of ?i bs "[a]"] by simp
    then have "Collect (linked d) = insert a (Collect (linked c))" using linked_in_table [OF d(2)] lc by auto
    ultimately show ?thesis using Op_add d(1) ok flow_key_of_frame [OF d(3)] by simp
  next
    case (Op_rem a)
    then obtain f where f: "c_heap c a = Some f" using ok by (auto simp: flow_key_of_def)
    obtain d r where d: "pcp_db_rem_flow a c = Some (d, r)" "db_rep d (map (removeAll a) bs)" "db_frame c d"
      using pcp_db_rem_flow_any [OF rep f] by (auto elim!: yieldsE)
    have "table_rep d (\<lambda>k. removeAll a (m k))"
    proof (cases "linked c a")
      case True
      from flow_table.rem_law [OF t this] d(1) show ?thesis by simp
    next
      case False
      then have e: "f_key_bucket f = EMPTY" using f by (simp add: linked_def)
      then have "d = c" using d(1) pcp_db_rem_flow_unlinked [OF f] by simp
      moreover have "a \<notin> set (m k)" for k using flow_table.add_new [OF t] f e by (auto simp: unlinked_def)
      ultimately show ?thesis using t by (simp add: removeAll_id)
    qed
    moreover have "Collect (linked d) = Collect (linked c) - {a}" using linked_in_table [OF d(2)] lc by auto
    ultimately show ?thesis using Op_rem d(1) ok flow_key_of_frame [OF d(3)] by simp
  qed
qed

text \<open>Property C4: the flow table refines a map. Whatever sequence of additions and removals a program
  performs, adding only flows that are not in the table, the operations succeed and the hash table then
  represents the function from keys to flows that the same operations, read as changes of that
  function, produce; a lookup returns the oldest flow filed under its key.\<close>

theorem flow_table_refines:
  assumes "table_rep c m" and "ops_allowed (dom (flow_key_of c)) (Collect (linked c)) ops"
  shows "\<exists>c'. run_ops ops c = Some c' \<and> table_rep c' (fold (spec_op (flow_key_of c)) ops m) \<and>
    (\<forall>k s. pcp_get_flow k s c' =
       Some (case fold (spec_op (flow_key_of c)) ops m (k, s_index s) of [] \<Rightarrow> None | a # _ \<Rightarrow> Some a))"
proof -
  have "yields (run_ops ops c) (\<lambda>c'. table_rep c' (fold (spec_op (flow_key_of c)) ops m))"
    using assms
  proof (induction ops arbitrary: c m)
    case (Cons x xs)
    obtain d where d: "run_op x c = Some d" "table_rep d (spec_op (flow_key_of c) x m)" "flow_key_of d = flow_key_of c"
      "ops_allowed (dom (flow_key_of c)) (Collect (linked d)) xs"
      using run_op_refines [OF Cons.prems] by (auto elim!: yieldsE)
    then show ?case using Cons.IH [of d "spec_op (flow_key_of c) x m"] by simp
  qed simp
  then obtain d where d: "run_ops ops c = Some d" "table_rep d (fold (spec_op (flow_key_of c)) ops m)" by (auto elim: yieldsE)
  then show ?thesis using flow_table.get_law [OF d(2)] by (simp add: pcp_get_flow_lookup)
qed

theorem flow_table_refines_witness:
  "\<exists>c'. run_ops [Op_add 1, Op_rem 1, Op_add 1] demo_ctx = Some c' \<and> pcp_get_flow zero_kd zero_server c' = Some (Some 1)"
proof -
  have "table_rep demo_ctx (\<lambda>_. [])"
    using demo_ctx_rep hash_in_table by (auto simp: table_rep_def fun_eq_iff intro!: exI [of _ "replicate FLOW_HASH_SIZE []"])
  moreover have "ops_allowed (dom (flow_key_of demo_ctx)) (Collect (linked demo_ctx)) [Op_add 1, Op_rem 1, Op_add 1]"
    by (auto simp: demo_ctx_def linked_def flow_key_of_def)
  ultimately show ?thesis using flow_table_refines by (fastforce simp: flow_key_of_def demo_ctx_def zero_server_def)
qed

end
