(* ===== verification/Pcp_Msg.thy ===== *)
theory Pcp_Msg
  imports Pcp_Client_Db
begin

text \<open>
  Messages, \<^verbatim>\<open>pcp_msg.c\<close>: building requests in the buffer of a flow and parsing the
  responses of a server.

  The packed structures of \<^verbatim>\<open>pcp_msg_structs.h\<close> appear as offsets: a write of a member is
  a \<open>put_bytes\<close> at the offset of the member, a read is a \<open>get_u8\<close>, \<open>get_u16\<close> or \<open>get_u32\<close>
  there. A builder takes the buffer with the cursor \<^verbatim>\<open>cur\<close> as an offset into it and returns
  both. The reference encoding \<open>pcp_request\<close> describes a request as a concatenation of its
  header, its opcode data and its options; the builder is proved to write exactly that.
\<close>

section \<open>Addresses and nonces in a buffer\<close>

definition get_in6 :: "nat \<Rightarrow> bytes \<Rightarrow> in6_addr" where
  "get_in6 off b =
     In6 (get_u32 off b) (get_u32 (off + 4) b) (get_u32 (off + 8) b) (get_u32 (off + 12) b)"

definition get_nonce :: "nat \<Rightarrow> bytes \<Rightarrow> pcp_nonce" where
  "get_nonce off b = Nonce (get_u32 off b) (get_u32 (off + 4) b) (get_u32 (off + 8) b)"

section \<open>Options\<close>

type_synonym cursor = "bytes \<times> nat"

definition add_filter_option :: "pcp_flow \<Rightarrow> cursor \<Rightarrow> cursor" where
  "add_filter_option f = (\<lambda>(buf, cur).
     let buf = put_u8 cur PCP_OPTION_FILTER buf;
         buf = put_u8 (cur + 1) 0 buf;
         buf = put_u16 (cur + 2) (24 - 4) buf;
         buf = put_u8 (cur + 4) 0 buf;
         buf = put_u8 (cur + 5) (f_filter_prefix f) buf;
         buf = put_u16 (cur + 6) (f_filter_port f) buf;
         buf = put_bytes (cur + 8) (in6_bytes (f_filter_ip f)) buf
     in (buf, cur + 24))"

definition add_prefer_failure_option :: "cursor \<Rightarrow> cursor" where
  "add_prefer_failure_option = (\<lambda>(buf, cur).
     let buf = put_u8 cur PCP_OPTION_PREF_FAIL buf;
         buf = put_u8 (cur + 1) 0 buf;
         buf = put_u16 (cur + 2) (4 - 4) buf
     in (buf, cur + 4))"

definition add_third_party_option :: "pcp_flow \<Rightarrow> cursor \<Rightarrow> cursor" where
  "add_third_party_option f = (\<lambda>(buf, cur).
     let buf = put_u8 cur PCP_OPTION_3RD_PARTY buf;
         buf = put_u8 (cur + 1) 0 buf;
         buf = put_bytes (cur + 4) (in6_bytes (f_third_party_ip f)) buf;
         buf = put_u16 (cur + 2) (20 - 4) buf
     in (buf, cur + 20))"

definition add_userid_option :: "pcp_flow \<Rightarrow> cursor \<Rightarrow> cursor" where
  "add_userid_option f = (\<lambda>(buf, cur).
     let buf = put_u8 cur PCP_OPTION_USERID buf;
         buf = put_u16 (cur + 2) (516 - 4) buf;
         buf = put_bytes (cur + 4) (f_userid f) buf
     in (buf, cur + 516))"

definition add_location_option :: "pcp_flow \<Rightarrow> cursor \<Rightarrow> cursor" where
  "add_location_option f = (\<lambda>(buf, cur).
     let buf = put_u8 cur PCP_OPTION_LOCATION buf;
         buf = put_u16 (cur + 2) (36 - 4) buf;
         buf = put_bytes (cur + 4) (f_location f) buf
     in (buf, cur + 36))"

definition add_deviceid_option :: "pcp_flow \<Rightarrow> cursor \<Rightarrow> cursor" where
  "add_deviceid_option f = (\<lambda>(buf, cur).
     let buf = put_u8 cur PCP_OPTION_DEVICEID buf;
         buf = put_u16 (cur + 2) (36 - 4) buf;
         buf = put_bytes (cur + 4) (f_deviceid f) buf
     in (buf, cur + 36))"

definition add_flowp_option :: "pcp_flow \<Rightarrow> cursor \<Rightarrow> cursor" where
  "add_flowp_option f = (\<lambda>(buf, cur).
     let buf = put_u8 cur PCP_OPTION_FLOW_PRIORITY buf;
         buf = put_u16 (cur + 2) (8 - 4) buf;
         buf = put_u8 (cur + 4) (f_flowp_dscp_up f) buf;
         buf = put_u8 (cur + 5) (f_flowp_dscp_down f) buf
     in (buf, cur + 8))"

definition md_padding :: "nat \<Rightarrow> nat" where
  "md_padding len_md = (4 - len_md mod 4) mod 4"

definition add_md_option :: "md_val \<Rightarrow> cursor \<Rightarrow> cursor" where
  "add_md_option md = (\<lambda>(buf, cur).
     let len_md = length (md_val_buf md);
         padding = md_padding len_md
     in if cur + (8 + len_md + padding) > PCP_MAX_LEN then (buf, cur)
        else
          let buf = put_u8 cur PCP_OPTION_METADATA buf;
              buf = put_u32 (cur + 4) (ucast (md_id md)) buf;
              buf = put_bytes (cur + 8) (md_val_buf md) buf;
              buf = put_u16 (cur + 2) (of_nat (8 - 4 + len_md + padding)) buf
          in (buf, cur + 8 + len_md + padding))"

fun add_md_options :: "md_val list \<Rightarrow> cursor \<Rightarrow> cursor" where
  "add_md_options [] k = k"
| "add_md_options (md # mds) k =
     add_md_options mds (if md_val_buf md \<noteq> [] then add_md_option md k else k)"

text \<open>The builders of a message return the buffer, the value of \<^verbatim>\<open>pcp_msg_len\<close> and the error
  code.\<close>

definition build_pcp_options :: "pcp_flow \<Rightarrow> u32 \<Rightarrow> cursor \<Rightarrow> bytes \<times> u32 \<times> pcp_errno" where
  "build_pcp_options flow len k =
     (let k = (if f_flowp_option_present flow then add_flowp_option flow k else k);
          k = (if f_filter_option_present flow then add_filter_option flow k else k);
          k = (if f_pfailure_option_present flow then add_prefer_failure_option k else k);
          k = (if f_third_party_option_present flow then add_third_party_option flow k else k);
          k = (if f_deviceid flow ! 0 \<noteq> 0 then add_deviceid_option flow k else k);
          k = (if f_userid flow ! 0 \<noteq> 0 then add_userid_option flow k else k);
          k = (if f_location flow ! 0 \<noteq> 0 then add_location_option flow k else k);
          (buf, cur) = (if f_md_vals flow \<noteq> [] then add_md_options (f_md_vals flow) k else k)
      in if cur > 4294967295 then (buf, len, PCP_ERR_NO_MEM)
         else (buf, of_nat cur, PCP_ERR_SUCCESS))"

section \<open>Opcode data\<close>

definition build_pcp_peer :: "pcp_server \<Rightarrow> pcp_flow \<Rightarrow> u32 \<Rightarrow> cursor \<Rightarrow> bytes \<times> u32 \<times> pcp_errno" where
  "build_pcp_peer server flow len = (\<lambda>(buf, loc).
     if s_pcp_version server = 1 then
       let buf = put_u8 loc (kd_protocol (f_kd flow)) buf;
           buf = put_u16 (loc + 4) (kd_src_port (f_kd flow)) buf;
           buf = put_u16 (loc + 6) (u_ext_port (f_u flow)) buf;
           buf = put_u16 (loc + 24) (kd_dst_port (f_kd flow)) buf;
           buf = put_bytes (loc + 8) (in6_bytes (u_ext_ip (f_u flow))) buf;
           buf = put_bytes (loc + 28) (in6_bytes (kd_dst_ip (f_kd flow))) buf
       in build_pcp_options flow len (buf, loc + 44)
     else if s_pcp_version server = 2 then
       let buf = put_u8 (loc + 12) (kd_protocol (f_kd flow)) buf;
           buf = put_u16 (loc + 16) (kd_src_port (f_kd flow)) buf;
           buf = put_u16 (loc + 18) (u_ext_port (f_u flow)) buf;
           buf = put_u16 (loc + 36) (kd_dst_port (f_kd flow)) buf;
           buf = put_bytes (loc + 20) (in6_bytes (u_ext_ip (f_u flow))) buf;
           buf = put_bytes (loc + 40) (in6_bytes (kd_dst_ip (f_kd flow))) buf;
           buf = put_bytes loc (nonce_bytes (kd_nonce (f_kd flow))) buf
       in build_pcp_options flow len (buf, loc + 56)
     else (buf, len, PCP_ERR_UNSUP_VERSION))"

definition build_pcp_map :: "pcp_server \<Rightarrow> pcp_flow \<Rightarrow> u32 \<Rightarrow> cursor \<Rightarrow> bytes \<times> u32 \<times> pcp_errno" where
  "build_pcp_map server flow len = (\<lambda>(buf, loc).
     if s_pcp_version server = 1 then
       let buf = put_u8 loc (kd_protocol (f_kd flow)) buf;
           buf = put_u16 (loc + 4) (kd_src_port (f_kd flow)) buf;
           buf = put_u16 (loc + 6) (u_ext_port (f_u flow)) buf;
           buf = put_bytes (loc + 8) (in6_bytes (u_ext_ip (f_u flow))) buf
       in build_pcp_options flow len (buf, loc + 24)
     else if s_pcp_version server = 2 then
       let buf = put_u8 (loc + 12) (kd_protocol (f_kd flow)) buf;
           buf = put_u16 (loc + 16) (kd_src_port (f_kd flow)) buf;
           buf = put_u16 (loc + 18) (u_ext_port (f_u flow)) buf;
           buf = put_bytes (loc + 20) (in6_bytes (u_ext_ip (f_u flow))) buf;
           buf = put_bytes loc (nonce_bytes (kd_nonce (f_kd flow))) buf
       in build_pcp_options flow len (buf, loc + 36)
     else (buf, len, PCP_ERR_UNSUP_VERSION))"

text \<open>The length of the padded application name goes through an 8-bit member, which is also
  what the position of the options is computed from.\<close>

definition build_pcp_sadscp ::
  "pcp_server \<Rightarrow> pcp_flow \<Rightarrow> u32 \<Rightarrow> cursor \<Rightarrow> bytes \<times> u32 \<times> pcp_errno" where
  "build_pcp_sadscp server flow len = (\<lambda>(buf, loc).
     if s_pcp_version server = 1 then (buf, len, PCP_ERR_UNSUP_VERSION)
     else if s_pcp_version server = 2 then
       let app_name_length = u_app_name_length (f_u flow);
           buf = put_bytes loc (nonce_bytes (kd_nonce (f_kd flow))) buf;
           buf = put_u8 (loc + 12) (u_toler_fields (f_u flow)) buf;
           fill_len = (4 - (unat app_name_length + 2) mod 4) mod 4;
           msg_app_name_length = (of_nat (unat app_name_length + fill_len) :: u8);
           buf = put_u8 (loc + 13) msg_app_name_length buf;
           buf = (case f_sadscp_app_name flow of
                    Some name \<Rightarrow> put_bytes (loc + 14) (take (unat app_name_length) name) buf
                  | None \<Rightarrow> put_bytes (loc + 14) (replicate (unat app_name_length) 0) buf)
       in build_pcp_options flow len (buf, loc + 14 + unat msg_app_name_length)
     else (buf, len, PCP_ERR_UNSUP_VERSION))"

text \<open>The NAT-PMP builder returns result codes of the protocol.\<close>

definition build_natpmp_msg :: "pcp_flow \<Rightarrow> u32 \<Rightarrow> bytes \<Rightarrow> bytes \<times> u32 \<times> u32" where
  "build_natpmp_msg flow len buf =
     (if kd_operation (f_kd flow) = PCP_OPCODE_ANNOUNCE then
        let buf = put_u8 0 0 buf;
            buf = put_u8 1 NATPMP_OPCODE_ANNOUNCE buf
        in (buf, 2, PCP_RES_SUCCESS)
      else if kd_operation (f_kd flow) = PCP_OPCODE_MAP then
        if kd_protocol (f_kd flow) \<noteq> IPPROTO_TCP \<and> kd_protocol (f_kd flow) \<noteq> IPPROTO_UDP
        then (buf, len, PCP_RES_UNSUPP_PROTOCOL)
        else
          let buf = put_u8 1 (if kd_protocol (f_kd flow) = IPPROTO_TCP then NATPMP_OPCODE_MAP_TCP
                              else NATPMP_OPCODE_MAP_UDP) buf;
              buf = put_u8 0 0 buf;
              buf = put_u32 8 (f_lifetime flow) buf;
              buf = put_u16 4 (kd_src_port (f_kd flow)) buf;
              buf = put_u16 6 (u_ext_port (f_u flow)) buf
          in (buf, 12, PCP_RES_SUCCESS)
      else (buf, len, PCP_RES_UNSUPP_OPCODE))"

section \<open>Requests\<close>

text \<open>The header of a request and the data of its opcode, in the buffer of the flow; an
  operation without a case leaves the value \<open>- 1\<close> of \<^verbatim>\<open>ret\<close>.\<close>

definition build_request :: "pcp_server \<Rightarrow> pcp_flow \<Rightarrow> bytes \<Rightarrow> bytes \<times> u32 \<times> int" where
  "build_request server flow buf =
     (if s_pcp_version server = 0 then
        let (buf, len, ret) = build_natpmp_msg flow (f_pcp_msg_len flow) buf
        in (buf, len, uint ret)
      else
        let buf = put_u8 0 (s_pcp_version server) buf;
            buf = put_u8 1 (get_u8 1 buf OR (kd_operation (f_kd flow) AND 0x7F)) buf;
            buf = put_u32 4 (f_lifetime flow) buf;
            buf = put_bytes 8 (in6_bytes (kd_src_ip (f_kd flow))) buf;
            len = 24
        in if kd_operation (f_kd flow) = PCP_OPCODE_PEER
             then build_pcp_peer server flow len (buf, 24)
           else if kd_operation (f_kd flow) = PCP_OPCODE_MAP
             then build_pcp_map server flow len (buf, 24)
           else if kd_operation (f_kd flow) = PCP_OPCODE_SADSCP
             then build_pcp_sadscp server flow len (buf, 24)
           else if kd_operation (f_kd flow) = PCP_OPCODE_ANNOUNCE then (buf, len, 0)
           else (buf, len, - 1))"

text \<open>\<^verbatim>\<open>build_pcp_msg\<close>: the result tells whether a request was built (the pointer returned is
  not NULL).\<close>

definition build_pcp_msg :: "env \<Rightarrow> addr \<Rightarrow> pcp_ctx \<Rightarrow> (pcp_ctx \<times> bool) option" where
  "build_pcp_msg E a c =
     do { flow \<leftarrow> c_heap c a;
          case get_pcp_server c (sint (f_pcp_server_indx flow)) of
            None \<Rightarrow> Some (c, False)
          | Some i \<Rightarrow>
              let (c, mem) = (case f_pcp_msg_buffer flow of
                  Some buf \<Rightarrow> (c, Some buf)
                | None \<Rightarrow> (tick c, if calloc_buf E c then Some (replicate PCP_MAX_LEN 0) else None))
              in case mem of
                  None \<Rightarrow> Some (c, False)
                | Some buf \<Rightarrow>
                    let (buf, len, ret) = build_request (c_pcp_servers c ! i) flow buf in
                    if ret < 0
                    then do { c \<leftarrow> upd_flow a (\<lambda>f. f\<lparr>f_pcp_msg_buffer := None, f_pcp_msg_len := 0\<rparr>) c;
                              Some (c, False) }
                    else do { c \<leftarrow> upd_flow a (\<lambda>f. f\<lparr>f_pcp_msg_buffer := Some buf, f_pcp_msg_len := len\<rparr>) c;
                              Some (c, True) } }"

section \<open>Responses\<close>

definition validate_pcp_msg :: "pcp_recv_msg \<Rightarrow> bool" where
  "validate_pcp_msg f =
     (if m_pcp_msg_len f AND 3 \<noteq> 0 \<or> m_pcp_msg_len f < 4 \<or> unat (m_pcp_msg_len f) > PCP_MAX_LEN
      then False
      else if get_u8 0 (m_pcp_msg_buffer f) \<noteq> 0 \<and> get_u8 1 (m_pcp_msg_buffer f) AND 0x80 = 0
      then False
      else if get_u8 0 (m_pcp_msg_buffer f) > PCP_MAX_SUPPORTED_VERSION then False
      else True)"

text \<open>The parsers take the offset of the data they read. The size of the rest is computed in
  the unsigned type of its variable.\<close>

definition rest_size :: "pcp_recv_msg \<Rightarrow> nat \<Rightarrow> u64" where
  "rest_size f r = ucast (m_pcp_msg_len f) - of_nat r"

definition parse_options :: "pcp_recv_msg \<Rightarrow> nat \<Rightarrow> pcp_recv_msg \<times> pcp_errno" where
  "parse_options f r = (f, PCP_ERR_SUCCESS)"

definition parse_v1_map :: "pcp_recv_msg \<Rightarrow> nat \<Rightarrow> pcp_recv_msg \<times> pcp_errno" where
  "parse_v1_map f r =
     (if rest_size f r < 24 then (f, PCP_ERR_RECV_FAILED)
      else
        let b = m_pcp_msg_buffer f;
            f = f\<lparr>m_kd := (m_kd f)\<lparr>kd_src_port := get_u16 (r + 4) b, kd_protocol := get_u8 r b\<rparr>,
                  m_assigned_ext_port := get_u16 (r + 6) b,
                  m_assigned_ext_ip := get_in6 (r + 8) b\<rparr>
        in if rest_size f r > 24 then parse_options f (r + 24) else (f, PCP_ERR_SUCCESS))"

definition parse_v2_map :: "pcp_recv_msg \<Rightarrow> nat \<Rightarrow> pcp_recv_msg \<times> pcp_errno" where
  "parse_v2_map f r =
     (if rest_size f r < 36 then (f, PCP_ERR_RECV_FAILED)
      else
        let b = m_pcp_msg_buffer f;
            f = f\<lparr>m_kd := (m_kd f)\<lparr>kd_nonce := get_nonce r b, kd_src_port := get_u16 (r + 16) b,
                     kd_protocol := get_u8 (r + 12) b\<rparr>,
                  m_assigned_ext_port := get_u16 (r + 18) b,
                  m_assigned_ext_ip := get_in6 (r + 20) b\<rparr>
        in if rest_size f r > 36 then parse_options f (r + 36) else (f, PCP_ERR_SUCCESS))"

definition parse_v1_peer :: "pcp_recv_msg \<Rightarrow> nat \<Rightarrow> pcp_recv_msg \<times> pcp_errno" where
  "parse_v1_peer f r =
     (if rest_size f r < 44 then (f, PCP_ERR_RECV_FAILED)
      else
        let b = m_pcp_msg_buffer f;
            f = f\<lparr>m_kd := (m_kd f)\<lparr>kd_src_port := get_u16 (r + 4) b, kd_protocol := get_u8 r b,
                     kd_dst_port := get_u16 (r + 24) b, kd_dst_ip := get_in6 (r + 28) b\<rparr>,
                  m_assigned_ext_port := get_u16 (r + 6) b,
                  m_assigned_ext_ip := get_in6 (r + 8) b\<rparr>
        in if rest_size f r > 44 then parse_options f (r + 44) else (f, PCP_ERR_SUCCESS))"

definition parse_v2_peer :: "pcp_recv_msg \<Rightarrow> nat \<Rightarrow> pcp_recv_msg \<times> pcp_errno" where
  "parse_v2_peer f r =
     (if rest_size f r < 56 then (f, PCP_ERR_RECV_FAILED)
      else
        let b = m_pcp_msg_buffer f;
            f = f\<lparr>m_kd := (m_kd f)\<lparr>kd_nonce := get_nonce r b, kd_src_port := get_u16 (r + 16) b,
                     kd_protocol := get_u8 (r + 12) b, kd_dst_port := get_u16 (r + 36) b,
                     kd_dst_ip := get_in6 (r + 40) b\<rparr>,
                  m_assigned_ext_port := get_u16 (r + 18) b,
                  m_assigned_ext_ip := get_in6 (r + 20) b\<rparr>
        in if rest_size f r > 56 then parse_options f (r + 56) else (f, PCP_ERR_SUCCESS))"

definition parse_sadscp :: "pcp_recv_msg \<Rightarrow> nat \<Rightarrow> pcp_recv_msg \<times> pcp_errno" where
  "parse_sadscp f r =
     (if rest_size f r < 16 then (f, PCP_ERR_RECV_FAILED)
      else
        let b = m_pcp_msg_buffer f in
        (f\<lparr>m_kd := (m_kd f)\<lparr>kd_nonce := get_nonce r b\<rparr>,
           m_recv_dscp := get_u8 (r + 12) b AND 0x3F\<rparr>, PCP_ERR_SUCCESS))"

definition parse_v0_resp :: "pcp_recv_msg \<Rightarrow> pcp_recv_msg \<times> pcp_errno" where
  "parse_v0_resp f =
     (let b = m_pcp_msg_buffer f; oper = kd_operation (m_kd f) in
      if oper = PCP_OPCODE_ANNOUNCE \<and> m_pcp_msg_len f = 12 then
        (f\<lparr>m_recv_epoch := get_u32 4 b, m_assigned_ext_ip := In6 0 0 0xFFFF (get_u32 8 b)\<rparr>,
         PCP_ERR_SUCCESS)
      else if (oper = NATPMP_OPCODE_MAP_TCP \<or> oper = NATPMP_OPCODE_MAP_UDP) \<and> m_pcp_msg_len f = 16
      then
        (f\<lparr>m_assigned_ext_port := get_u16 10 b, m_recv_epoch := get_u32 4 b,
           m_recv_lifetime := get_u32 12 b, m_recv_result := ucast (get_u16 2 b),
           m_kd := (m_kd f)\<lparr>kd_src_port := get_u16 8 b,
             kd_protocol := (if oper = NATPMP_OPCODE_MAP_TCP then IPPROTO_TCP else IPPROTO_UDP),
             kd_operation := PCP_OPCODE_MAP\<rparr>\<rparr>,
         PCP_ERR_SUCCESS)
      else if m_pcp_msg_len f = 8 then
        (f\<lparr>m_recv_result := ucast (get_u16 2 b), m_recv_epoch := get_u32 4 b\<rparr>, PCP_ERR_SUCCESS)
      else (f, PCP_ERR_RECV_FAILED))"

definition parse_v1_resp :: "pcp_recv_msg \<Rightarrow> pcp_recv_msg \<times> pcp_errno" where
  "parse_v1_resp f =
     (if m_pcp_msg_len f < 24 then (f, PCP_ERR_RECV_FAILED)
      else
        let b = m_pcp_msg_buffer f;
            f = f\<lparr>m_recv_lifetime := get_u32 4 b, m_recv_epoch := get_u32 8 b\<rparr>;
            oper = kd_operation (m_kd f)
        in if oper = PCP_OPCODE_ANNOUNCE then (f, PCP_ERR_SUCCESS)
           else if oper = PCP_OPCODE_MAP then parse_v1_map f 24
           else if oper = PCP_OPCODE_PEER then parse_v1_peer f 24
           else (f, PCP_ERR_RECV_FAILED))"

definition parse_v2_resp :: "pcp_recv_msg \<Rightarrow> pcp_recv_msg \<times> pcp_errno" where
  "parse_v2_resp f =
     (if m_pcp_msg_len f < 24 then (f, PCP_ERR_RECV_FAILED)
      else
        let b = m_pcp_msg_buffer f;
            f = f\<lparr>m_recv_lifetime := get_u32 4 b, m_recv_epoch := get_u32 8 b\<rparr>;
            oper = kd_operation (m_kd f)
        in if oper = PCP_OPCODE_ANNOUNCE then (f, PCP_ERR_SUCCESS)
           else if oper = PCP_OPCODE_MAP then parse_v2_map f 24
           else if oper = PCP_OPCODE_PEER then parse_v2_peer f 24
           else if oper = PCP_OPCODE_SADSCP then parse_sadscp f 24
           else (f, PCP_ERR_RECV_FAILED))"

definition parse_response :: "pcp_recv_msg \<Rightarrow> pcp_recv_msg \<times> pcp_errno" where
  "parse_response f =
     (let b = m_pcp_msg_buffer f;
          f = f\<lparr>m_recv_version := ucast (get_u8 0 b), m_recv_result := ucast (get_u8 3 b),
                m_kd := zero_kd\<lparr>kd_operation := get_u8 1 b AND 0x7F\<rparr>\<rparr>
      in if m_recv_version f = 0 then parse_v0_resp f
         else if m_recv_version f = 1 then parse_v1_resp f
         else if m_recv_version f = 2 then parse_v2_resp f
         else (f, PCP_ERR_UNSUP_VERSION))"

section \<open>Writing behind a prefix\<close>

text \<open>A buffer is seen as a sequence of cells; a write at the start of a cell of its size
  replaces the cell.\<close>

lemma put_append:
  "length a \<le> k \<Longrightarrow> put_bytes k bs (a @ r) = a @ put_bytes (k - length a) bs r"
  by (simp add: put_bytes_def)

lemma put_cons: "0 < k \<Longrightarrow> put_bytes k bs (x # r) = x # put_bytes (k - 1) bs r"
  using put_append [of "[x]" k bs r] by simp

lemma put_cell: "length bs = length z \<Longrightarrow> put_bytes 0 bs (z @ r) = bs @ r"
  by (simp add: put_bytes_def)

lemma put_cell_1: "put_bytes 0 [v] (x # r) = v # r"
  by (simp add: put_bytes_def)

lemma put_cell_end: "length bs = length z \<Longrightarrow> put_bytes 0 bs z = bs"
  by (simp add: put_bytes_def)

lemmas put_cells = put_append put_cons put_cell put_cell_1 put_cell_end

text \<open>\<open>writes w bs\<close>: on a buffer that is zero from the cursor on and has room, \<open>w\<close> appends \<open>bs\<close>.\<close>

definition writes :: "(cursor \<Rightarrow> cursor) \<Rightarrow> bytes \<Rightarrow> bool" where
  "writes w bs \<longleftrightarrow> (\<forall>pre n. length bs \<le> n \<longrightarrow>
     w (pre @ replicate n 0, length pre) =
       (pre @ bs @ replicate (n - length bs) 0, length pre + length bs))"

lemma writes_id: "writes (\<lambda>k. k) []"
  by (simp add: writes_def)

lemma writes_comp:
  assumes "writes v bs" and "writes w ds"
  shows "writes (\<lambda>k. w (v k)) (bs @ ds)"
  unfolding writes_def
proof (intro allI impI)
  fix pre :: bytes and n
  assume n: "length (bs @ ds) \<le> n"
  have "w ((pre @ bs) @ replicate (n - length bs) 0, length (pre @ bs)) =
      ((pre @ bs) @ ds @ replicate (n - length bs - length ds) 0, length (pre @ bs) + length ds)"
    using assms(2) [unfolded writes_def, rule_format, of "n - length bs" "pre @ bs"] n by simp
  moreover have "v (pre @ replicate n 0, length pre) =
      (pre @ bs @ replicate (n - length bs) 0, length pre + length bs)"
    using assms(1) n by (auto simp: writes_def)
  ultimately show "w (v (pre @ replicate n 0, length pre)) =
      (pre @ (bs @ ds) @ replicate (n - length (bs @ ds)) 0, length pre + length (bs @ ds))"
    by simp
qed

lemma writesI:
  assumes "\<And>pre r. w (pre @ replicate (length bs) 0 @ r, length pre) = (pre @ bs @ r, length pre + length bs)"
  shows "writes w bs"
  unfolding writes_def
proof (intro allI impI)
  fix pre :: bytes and n
  assume "length bs \<le> n"
  then have "replicate n 0 = replicate (length bs) (0 :: u8) @ replicate (n - length bs) 0"
    by (simp flip: replicate_add)
  then show "w (pre @ replicate n 0, length pre) =
      (pre @ bs @ replicate (n - length bs) 0, length pre + length bs)"
    using assms by metis
qed

text \<open>An option: its code, a reserved byte, the length of its data and the data.\<close>

definition tlv :: "u8 \<Rightarrow> bytes \<Rightarrow> bytes" where
  "tlv code payload = [code, 0] @ be16 (of_nat (length payload)) @ payload"

lemma length_tlv [simp]: "length (tlv code payload) = 4 + length payload"
  by (simp add: tlv_def)

locale option_writer =
  fixes w :: "pcp_flow \<Rightarrow> cursor \<Rightarrow> cursor"
    and code :: u8
    and payload :: "pcp_flow \<Rightarrow> bytes"
  assumes w_writes: "flow_wf f \<Longrightarrow> writes (w f) (tlv code (payload f))"
    and w_aligned: "flow_wf f \<Longrightarrow> length (payload f) mod 4 = 0"
begin

lemma writes_if:
  "flow_wf f \<Longrightarrow> writes (\<lambda>k. if b then w f k else k) (if b then tlv code (payload f) else [])"
  by (auto simp: w_writes writes_id)

end

lemma zero_cells:
  "replicate 4 (0 :: u8) = [0, 0] @ replicate 2 0"
  "replicate 8 (0 :: u8) = [0, 0] @ replicate 2 0 @ [0, 0, 0, 0]"
  "replicate 20 (0 :: u8) = [0, 0] @ replicate 2 0 @ replicate 16 0"
  "replicate 24 (0 :: u8) = [0, 0] @ replicate 2 0 @ [0, 0] @ replicate 2 0 @ replicate 16 0"
  by (simp_all add: eval_nat_numeral)

lemma zero_header_cells: "replicate (4 + n) (0 :: u8) = [0, 0] @ replicate 2 0 @ replicate n 0"
  by (simp add: eval_nat_numeral)

interpretation filter_opt: option_writer add_filter_option PCP_OPTION_FILTER
  "\<lambda>f. [0, f_filter_prefix f] @ be16 (f_filter_port f) @ in6_bytes (f_filter_ip f)"
proof
  fix f
  show "writes (add_filter_option f) (tlv PCP_OPTION_FILTER
      ([0, f_filter_prefix f] @ be16 (f_filter_port f) @ in6_bytes (f_filter_ip f)))"
    by (rule writesI) (simp add: add_filter_option_def tlv_def Let_def put_cells zero_cells)
qed simp

interpretation prefer_failure_opt: option_writer "\<lambda>f. add_prefer_failure_option" PCP_OPTION_PREF_FAIL
  "\<lambda>f. []"
proof
  show "writes add_prefer_failure_option (tlv PCP_OPTION_PREF_FAIL [])"
    by (rule writesI) (simp add: add_prefer_failure_option_def tlv_def Let_def put_cells zero_cells)
qed simp

interpretation third_party_opt: option_writer add_third_party_option PCP_OPTION_3RD_PARTY
  "\<lambda>f. in6_bytes (f_third_party_ip f)"
proof
  fix f
  show "writes (add_third_party_option f) (tlv PCP_OPTION_3RD_PARTY (in6_bytes (f_third_party_ip f)))"
    by (rule writesI) (simp add: add_third_party_option_def tlv_def Let_def put_cells zero_cells)
qed simp

interpretation flowp_opt: option_writer add_flowp_option PCP_OPTION_FLOW_PRIORITY
  "\<lambda>f. [f_flowp_dscp_up f, f_flowp_dscp_down f, 0, 0]"
proof
  fix f
  show "writes (add_flowp_option f)
      (tlv PCP_OPTION_FLOW_PRIORITY [f_flowp_dscp_up f, f_flowp_dscp_down f, 0, 0])"
    by (rule writesI) (simp add: add_flowp_option_def tlv_def Let_def put_cells zero_cells)
qed simp

interpretation userid_opt: option_writer add_userid_option PCP_OPTION_USERID f_userid
proof
  fix f
  assume "flow_wf f"
  then have l: "length (f_userid f) = MAX_USER_ID" by (simp add: flow_wf_def)
  show "writes (add_userid_option f) (tlv PCP_OPTION_USERID (f_userid f))"
    by (rule writesI, simp only: length_tlv zero_header_cells)
      (simp add: add_userid_option_def tlv_def Let_def put_cells l)
  show "length (f_userid f) mod 4 = 0" by (simp add: l)
qed

interpretation location_opt: option_writer add_location_option PCP_OPTION_LOCATION f_location
proof
  fix f
  assume "flow_wf f"
  then have l: "length (f_location f) = MAX_GEO_STR" by (simp add: flow_wf_def)
  show "writes (add_location_option f) (tlv PCP_OPTION_LOCATION (f_location f))"
    by (rule writesI, simp only: length_tlv zero_header_cells)
      (simp add: add_location_option_def tlv_def Let_def put_cells l)
  show "length (f_location f) mod 4 = 0" by (simp add: l)
qed

interpretation deviceid_opt: option_writer add_deviceid_option PCP_OPTION_DEVICEID f_deviceid
proof
  fix f
  assume "flow_wf f"
  then have l: "length (f_deviceid f) = MAX_DEVICE_ID" by (simp add: flow_wf_def)
  show "writes (add_deviceid_option f) (tlv PCP_OPTION_DEVICEID (f_deviceid f))"
    by (rule writesI, simp only: length_tlv zero_header_cells)
      (simp add: add_deviceid_option_def tlv_def Let_def put_cells l)
  show "length (f_deviceid f) mod 4 = 0" by (simp add: l)
qed

text \<open>Metadata: each value is padded to a multiple of four; a value for which there is no room
  is left out.\<close>

definition md_payload :: "md_val \<Rightarrow> bytes" where
  "md_payload md = be32 (ucast (md_id md)) @ md_val_buf md @
     replicate (md_padding (length (md_val_buf md))) 0"

fun md_fit :: "nat \<Rightarrow> md_val list \<Rightarrow> (u8 \<times> bytes) list" where
  "md_fit pos [] = []"
| "md_fit pos (md # mds) =
     (if md_val_buf md = [] \<or> pos + (4 + length (md_payload md)) > PCP_MAX_LEN then md_fit pos mds
      else (PCP_OPTION_METADATA, md_payload md) # md_fit (pos + (4 + length (md_payload md))) mds)"

abbreviation tlvs :: "(u8 \<times> bytes) list \<Rightarrow> bytes" where
  "tlvs opts \<equiv> concat (map (\<lambda>(code, payload). tlv code payload) opts)"

lemma md_aligned: "length (md_payload md) mod 4 = 0"
proof -
  have "(n + (4 - n mod 4) mod 4) mod 4 = 0" for n :: nat
  proof -
    have "n mod 4 = 0 \<or> n mod 4 = 1 \<or> n mod 4 = 2 \<or> n mod 4 = 3" by linarith
    then have "(n mod 4 + (4 - n mod 4) mod 4) mod 4 = 0" by auto
    then show ?thesis by (simp only: mod_add_left_eq)
  qed
  then show ?thesis by (simp add: md_payload_def md_padding_def mod_add_right_eq)
qed

lemma add_md_option_writes:
  assumes "length pre + (4 + length (md_payload md)) \<le> PCP_MAX_LEN"
  shows "add_md_option md (pre @ replicate (PCP_MAX_LEN - length pre) 0, length pre) =
    (pre @ tlv PCP_OPTION_METADATA (md_payload md) @
       replicate (PCP_MAX_LEN - (length pre + (4 + length (md_payload md)))) 0,
     length pre + (4 + length (md_payload md)))"
proof -
  let ?l = "length (md_val_buf md)" and ?p = "md_padding (length (md_val_buf md))"
  have len: "length (md_payload md) = 4 + ?l + ?p" by (simp add: md_payload_def)
  have z: "replicate (PCP_MAX_LEN - length pre) (0 :: u8) =
      [0, 0] @ replicate 2 0 @ replicate 4 0 @ replicate ?l 0 @ replicate ?p 0 @
      replicate (PCP_MAX_LEN - (length pre + (4 + length (md_payload md)))) 0"
  proof -
    have "PCP_MAX_LEN - length pre = 2 + (2 + (4 + (?l + (?p +
        (PCP_MAX_LEN - (length pre + (4 + length (md_payload md))))))))"
      using assms len by simp
    moreover have "replicate 2 (0 :: u8) = [0, 0]" by (simp add: eval_nat_numeral)
    ultimately show ?thesis by (simp only: replicate_add)
  qed
  show ?thesis
    using assms unfolding z
    by (simp add: add_md_option_def tlv_def md_payload_def Let_def put_cells)
qed

lemma add_md_options_writes:
  assumes "length pre \<le> PCP_MAX_LEN"
  shows "add_md_options mds (pre @ replicate (PCP_MAX_LEN - length pre) 0, length pre) =
    (pre @ tlvs (md_fit (length pre) mds) @
       replicate (PCP_MAX_LEN - (length pre + length (tlvs (md_fit (length pre) mds)))) 0,
     length pre + length (tlvs (md_fit (length pre) mds)))"
  using assms
proof (induction mds arbitrary: pre)
  case Nil
  then show ?case by simp
next
  case (Cons md mds)
  show ?case
  proof (cases "md_val_buf md = [] \<or> length pre + (4 + length (md_payload md)) > PCP_MAX_LEN")
    case True
    have "add_md_option md (b, length pre) = (b, length pre)"
      if "length pre + (4 + length (md_payload md)) > PCP_MAX_LEN" for b
      using that by (simp add: add_md_option_def md_payload_def Let_def)
    with True show ?thesis using Cons by auto
  next
    case False
    let ?pre = "pre @ tlv PCP_OPTION_METADATA (md_payload md)"
    have "length ?pre \<le> PCP_MAX_LEN" using False by simp
    from Cons.IH [OF this] False show ?thesis
      by (simp add: add_md_option_writes add.assoc)
  qed
qed

section \<open>The reference encoding of a request\<close>

definition opt_if :: "bool \<Rightarrow> u8 \<Rightarrow> bytes \<Rightarrow> (u8 \<times> bytes) list" where
  "opt_if b code payload = (if b then [(code, payload)] else [])"

definition fixed_options :: "pcp_flow \<Rightarrow> (u8 \<times> bytes) list" where
  "fixed_options f =
     opt_if (f_flowp_option_present f) PCP_OPTION_FLOW_PRIORITY
       [f_flowp_dscp_up f, f_flowp_dscp_down f, 0, 0] @
     opt_if (f_filter_option_present f) PCP_OPTION_FILTER
       ([0, f_filter_prefix f] @ be16 (f_filter_port f) @ in6_bytes (f_filter_ip f)) @
     opt_if (f_pfailure_option_present f) PCP_OPTION_PREF_FAIL [] @
     opt_if (f_third_party_option_present f) PCP_OPTION_3RD_PARTY (in6_bytes (f_third_party_ip f)) @
     opt_if (f_deviceid f ! 0 \<noteq> 0) PCP_OPTION_DEVICEID (f_deviceid f) @
     opt_if (f_userid f ! 0 \<noteq> 0) PCP_OPTION_USERID (f_userid f) @
     opt_if (f_location f ! 0 \<noteq> 0) PCP_OPTION_LOCATION (f_location f)"

text \<open>The options of a message whose other data ends at \<open>pos\<close>.\<close>

definition options_of :: "nat \<Rightarrow> pcp_flow \<Rightarrow> (u8 \<times> bytes) list" where
  "options_of pos f =
     fixed_options f @ md_fit (pos + length (tlvs (fixed_options f))) (f_md_vals f)"

definition request_header :: "u8 \<Rightarrow> pcp_flow \<Rightarrow> bytes" where
  "request_header v f =
     [v, kd_operation (f_kd f) AND 0x7F] @ [0, 0] @ be32 (f_lifetime f) @ in6_bytes (kd_src_ip (f_kd f))"

definition map_data :: "pcp_flow \<Rightarrow> bytes" where
  "map_data f = [kd_protocol (f_kd f), 0, 0, 0] @ be16 (kd_src_port (f_kd f)) @
     be16 (u_ext_port (f_u f)) @ in6_bytes (u_ext_ip (f_u f))"

definition peer_data :: "pcp_flow \<Rightarrow> bytes" where
  "peer_data f = map_data f @ be16 (kd_dst_port (f_kd f)) @ [0, 0] @ in6_bytes (kd_dst_ip (f_kd f))"

definition sadscp_fill :: "u8 \<Rightarrow> nat" where
  "sadscp_fill len = (4 - (unat len + 2) mod 4) mod 4"

definition sadscp_data :: "pcp_flow \<Rightarrow> bytes" where
  "sadscp_data f =
     (let len = u_app_name_length (f_u f) in
      [u_toler_fields (f_u f), len + of_nat (sadscp_fill len)] @
      (case f_sadscp_app_name f of Some name \<Rightarrow> take (unat len) name | None \<Rightarrow> replicate (unat len) 0) @
      replicate (sadscp_fill len) 0)"

definition nonce_if :: "u8 \<Rightarrow> pcp_flow \<Rightarrow> bytes" where
  "nonce_if v f = (if v = 2 then nonce_bytes (kd_nonce (f_kd f)) else [])"

text \<open>The data of the opcode; \<open>None\<close> where the protocol version has no such message.\<close>

definition opcode_data :: "u8 \<Rightarrow> pcp_flow \<Rightarrow> bytes option" where
  "opcode_data v f =
     (let oper = kd_operation (f_kd f) in
      if oper = PCP_OPCODE_MAP \<and> (v = 1 \<or> v = 2) then Some (nonce_if v f @ map_data f)
      else if oper = PCP_OPCODE_PEER \<and> (v = 1 \<or> v = 2) then Some (nonce_if v f @ peer_data f)
      else if oper = PCP_OPCODE_SADSCP \<and> v = 2 then Some (nonce_if v f @ sadscp_data f)
      else None)"

definition pcp_request :: "u8 \<Rightarrow> pcp_flow \<Rightarrow> bytes option" where
  "pcp_request v f =
     (if kd_operation (f_kd f) = PCP_OPCODE_ANNOUNCE then Some (request_header v f)
      else map_option (\<lambda>d. request_header v f @ d @ tlvs (options_of (24 + length d) f)) (opcode_data v f))"

definition natpmp_request :: "pcp_flow \<Rightarrow> bytes option" where
  "natpmp_request f =
     (if kd_operation (f_kd f) = PCP_OPCODE_ANNOUNCE then Some [0, NATPMP_OPCODE_ANNOUNCE]
      else if kd_operation (f_kd f) = PCP_OPCODE_MAP \<and> kd_protocol (f_kd f) \<in> {IPPROTO_TCP, IPPROTO_UDP}
      then Some ([0, if kd_protocol (f_kd f) = IPPROTO_TCP then NATPMP_OPCODE_MAP_TCP else NATPMP_OPCODE_MAP_UDP,
          0, 0] @ be16 (kd_src_port (f_kd f)) @ be16 (u_ext_port (f_u f)) @ be32 (f_lifetime f))
      else None)"

lemma length_header [simp]: "length (request_header v f) = 24"
  by (simp add: request_header_def)

lemma length_map_data [simp]: "length (map_data f) = 24"
  by (simp add: map_data_def)

lemma length_peer_data [simp]: "length (peer_data f) = 44"
  by (simp add: peer_data_def)

lemma length_nonce_if [simp]: "length (nonce_if v f) = (if v = 2 then 12 else 0)"
  by (simp add: nonce_if_def)

lemma tlvs_opt_if: "tlvs (opt_if b code payload) = (if b then tlv code payload else [])"
  by (simp add: opt_if_def)

lemma fixed_options_size:
  assumes "flow_wf f" shows "length (tlvs (fixed_options f)) \<le> 644"
  using assms by (simp add: fixed_options_def tlvs_opt_if flow_wf_def)

lemma md_fit_size: "pos \<le> PCP_MAX_LEN \<Longrightarrow> pos + length (tlvs (md_fit pos mds)) \<le> PCP_MAX_LEN"
  by (induction pos mds rule: md_fit.induct) (auto simp: add.assoc)

lemma options_size:
  "flow_wf f \<Longrightarrow> pos \<le> 456 \<Longrightarrow> pos + length (tlvs (options_of pos f)) \<le> PCP_MAX_LEN"
  using md_fit_size [of "pos + length (tlvs (fixed_options f))" "f_md_vals f"] fixed_options_size [of f]
  by (simp add: options_of_def)

text \<open>The options of fixed size, in the order in which the builder adds them.\<close>

definition write_fixed :: "pcp_flow \<Rightarrow> cursor \<Rightarrow> cursor" where
  "write_fixed f k =
     (let k = (if f_flowp_option_present f then add_flowp_option f k else k);
          k = (if f_filter_option_present f then add_filter_option f k else k);
          k = (if f_pfailure_option_present f then add_prefer_failure_option k else k);
          k = (if f_third_party_option_present f then add_third_party_option f k else k);
          k = (if f_deviceid f ! 0 \<noteq> 0 then add_deviceid_option f k else k);
          k = (if f_userid f ! 0 \<noteq> 0 then add_userid_option f k else k)
      in if f_location f ! 0 \<noteq> 0 then add_location_option f k else k)"

lemma write_fixed_writes:
  assumes wf: "flow_wf f" shows "writes (write_fixed f) (tlvs (fixed_options f))"
  unfolding fixed_options_def write_fixed_def Let_def map_append concat_append tlvs_opt_if
  by (intro writes_comp [OF flowp_opt.writes_if [OF wf]]
      writes_comp [OF filter_opt.writes_if [OF wf]]
      writes_comp [OF prefer_failure_opt.writes_if [OF wf]]
      writes_comp [OF third_party_opt.writes_if [OF wf]]
      writes_comp [OF deviceid_opt.writes_if [OF wf]]
      writes_comp [OF userid_opt.writes_if [OF wf]]
      location_opt.writes_if [OF wf])

lemma build_pcp_options_encodes:
  assumes wf: "flow_wf f" and pre: "length pre \<le> 456"
  shows "build_pcp_options f len (pre @ replicate (PCP_MAX_LEN - length pre) 0, length pre) =
    (let m = pre @ tlvs (options_of (length pre) f)
     in (m @ replicate (PCP_MAX_LEN - length m) 0, of_nat (length m), PCP_ERR_SUCCESS))"
proof -
  let ?fx = "tlvs (fixed_options f)" and ?md = "f_md_vals f"
  let ?pre = "pre @ ?fx"
  let ?all = "?pre @ tlvs (md_fit (length ?pre) ?md)"
  have fx: "length ?fx \<le> 644" using wf by (rule fixed_options_size)
  have "write_fixed f (pre @ replicate (PCP_MAX_LEN - length pre) 0, length pre) =
      (?pre @ replicate (PCP_MAX_LEN - length ?pre) 0, length ?pre)"
    using write_fixed_writes [OF wf, unfolded writes_def, rule_format, of "PCP_MAX_LEN - length pre" pre] fx pre
    by simp
  moreover have "add_md_options ?md (?pre @ replicate (PCP_MAX_LEN - length ?pre) 0, length ?pre) =
      (?all @ replicate (PCP_MAX_LEN - length ?all) 0, length ?all)"
    using add_md_options_writes [of ?pre ?md] fx pre by (simp add: add.assoc)
  moreover have "build_pcp_options f len k =
      (let (buf, cur) = add_md_options ?md (write_fixed f k)
       in if cur > 4294967295 then (buf, len, PCP_ERR_NO_MEM) else (buf, of_nat cur, PCP_ERR_SUCCESS))" for k
    by (cases "?md = []") (simp_all add: build_pcp_options_def write_fixed_def Let_def)
  moreover have "length ?all \<le> PCP_MAX_LEN"
    using md_fit_size [of "length ?pre" ?md] fx pre by simp
  ultimately show ?thesis
    unfolding options_of_def Let_def
    by (simp only: split_conv map_append concat_append append_assoc length_append) simp
qed

lemma zero_split: "k \<le> n \<Longrightarrow> replicate n (0 :: u8) = replicate k 0 @ replicate (n - k) 0"
  by (simp flip: replicate_add)

lemma zero_cells_data:
  "replicate 24 (0 :: u8) = [0, 0, 0, 0] @ replicate 2 0 @ replicate 2 0 @ replicate 16 0"
  "replicate 36 (0 :: u8) = replicate 12 0 @ [0, 0, 0, 0] @ replicate 2 0 @ replicate 2 0 @ replicate 16 0"
  "replicate 44 (0 :: u8) = [0, 0, 0, 0] @ replicate 2 0 @ replicate 2 0 @ replicate 16 0 @
     replicate 2 0 @ [0, 0] @ replicate 16 0"
  "replicate 56 (0 :: u8) = replicate 12 0 @ [0, 0, 0, 0] @ replicate 2 0 @ replicate 2 0 @
     replicate 16 0 @ replicate 2 0 @ [0, 0] @ replicate 16 0"
  by (simp_all add: eval_nat_numeral)

lemma build_pcp_map_encodes:
  assumes wf: "flow_wf f" and v: "s_pcp_version s = 1 \<or> s_pcp_version s = 2" and pre: "length pre = 24"
  shows "build_pcp_map s f len (pre @ replicate 1076 0, 24) =
    (let d = nonce_if (s_pcp_version s) f @ map_data f;
         m = pre @ d @ tlvs (options_of (24 + length d) f)
     in (m @ replicate (PCP_MAX_LEN - length m) 0, of_nat (length m), PCP_ERR_SUCCESS))"
  using v
proof
  assume v: "s_pcp_version s = 1"
  have "build_pcp_map s f len (pre @ replicate 1076 0, 24) =
      build_pcp_options f len ((pre @ map_data f) @ replicate (PCP_MAX_LEN - length (pre @ map_data f)) 0,
        length (pre @ map_data f))"
    by (simp add: build_pcp_map_def v pre put_cells zero_split [of 24 1076] zero_cells_data(1) map_data_def)
  then show ?thesis
    using build_pcp_options_encodes [OF wf, of "pre @ map_data f" len]
    by (simp add: pre v nonce_if_def Let_def)
next
  assume v: "s_pcp_version s = 2"
  let ?p = "pre @ nonce_bytes (kd_nonce (f_kd f)) @ map_data f"
  have "build_pcp_map s f len (pre @ replicate 1076 0, 24) =
      build_pcp_options f len (?p @ replicate (PCP_MAX_LEN - length ?p) 0, length ?p)"
    by (simp add: build_pcp_map_def v pre put_cells zero_split [of 36 1076] zero_cells_data(2) map_data_def)
  then show ?thesis
    using build_pcp_options_encodes [OF wf, of ?p len] by (simp add: pre v nonce_if_def Let_def)
qed

lemma build_pcp_peer_encodes:
  assumes wf: "flow_wf f" and v: "s_pcp_version s = 1 \<or> s_pcp_version s = 2" and pre: "length pre = 24"
  shows "build_pcp_peer s f len (pre @ replicate 1076 0, 24) =
    (let d = nonce_if (s_pcp_version s) f @ peer_data f;
         m = pre @ d @ tlvs (options_of (24 + length d) f)
     in (m @ replicate (PCP_MAX_LEN - length m) 0, of_nat (length m), PCP_ERR_SUCCESS))"
  using v
proof
  assume v: "s_pcp_version s = 1"
  have "build_pcp_peer s f len (pre @ replicate 1076 0, 24) =
      build_pcp_options f len ((pre @ peer_data f) @ replicate (PCP_MAX_LEN - length (pre @ peer_data f)) 0,
        length (pre @ peer_data f))"
    by (simp add: build_pcp_peer_def v pre put_cells zero_split [of 44 1076] zero_cells_data(3)
        peer_data_def map_data_def)
  then show ?thesis
    using build_pcp_options_encodes [OF wf, of "pre @ peer_data f" len]
    by (simp add: pre v nonce_if_def Let_def)
next
  assume v: "s_pcp_version s = 2"
  let ?p = "pre @ nonce_bytes (kd_nonce (f_kd f)) @ peer_data f"
  have "build_pcp_peer s f len (pre @ replicate 1076 0, 24) =
      build_pcp_options f len (?p @ replicate (PCP_MAX_LEN - length ?p) 0, length ?p)"
    by (simp add: build_pcp_peer_def v pre put_cells zero_split [of 56 1076] zero_cells_data(4)
        peer_data_def map_data_def)
  then show ?thesis
    using build_pcp_options_encodes [OF wf, of ?p len] by (simp add: pre v nonce_if_def Let_def)
qed

text \<open>A SADSCP flow has an application name short enough for its padded length to fit the
  8-bit member, and the string is as long as the flow says.\<close>

definition sadscp_ok :: "pcp_flow \<Rightarrow> bool" where
  "sadscp_ok f \<longleftrightarrow> u_app_name_length (f_u f) \<noteq> 255 \<and>
     (\<forall>name. f_sadscp_app_name f = Some name \<longrightarrow> unat (u_app_name_length (f_u f)) \<le> length name)"

lemma sadscp_fill_bound:
  assumes "len \<noteq> 255" shows "unat len + sadscp_fill len \<le> 254"
proof -
  have "unat len < 256" using unsigned_less [of len] by simp
  moreover have "unat len \<noteq> 255"
  proof
    assume "unat len = 255"
    then have "of_nat (unat len) = (255 :: u8)" by simp
    then show False using assms by simp
  qed
  ultimately have n: "unat len \<le> 254" by simp
  have "n + (4 - (n + 2) mod 4) mod 4 \<le> 254" if "n \<le> 254" for n :: nat
  proof (cases "n \<le> 251")
    case True
    have "(4 - (n + 2) mod 4) mod 4 \<le> 3" by simp
    then show ?thesis using True by linarith
  next
    case False
    then have "n = 252 \<or> n = 253 \<or> n = 254" using that by auto
    then show ?thesis by auto
  qed
  then show ?thesis using n by (simp add: sadscp_fill_def)
qed

lemma build_pcp_sadscp_encodes:
  assumes wf: "flow_wf f" and ok: "sadscp_ok f" and v: "s_pcp_version s = 2" and pre: "length pre = 24"
  shows "build_pcp_sadscp s f len (pre @ replicate 1076 0, 24) =
    (let d = nonce_if 2 f @ sadscp_data f;
         m = pre @ d @ tlvs (options_of (24 + length d) f)
     in (m @ replicate (PCP_MAX_LEN - length m) 0, of_nat (length m), PCP_ERR_SUCCESS))"
proof -
  let ?n = "u_app_name_length (f_u f)"
  let ?l = "unat ?n" and ?fill = "sadscp_fill ?n"
  let ?name = "case f_sadscp_app_name f of Some name \<Rightarrow> take ?l name | None \<Rightarrow> replicate ?l 0"
  have b: "?l + ?fill \<le> 254" using ok by (intro sadscp_fill_bound) (simp add: sadscp_ok_def)
  then have w: "unat (of_nat (?l + ?fill) :: u8) = ?l + ?fill"
    by (simp only: unat_of_nat) simp
  have nm: "length ?name = ?l" using ok by (auto simp: sadscp_ok_def split: option.splits)
  let ?p = "pre @ nonce_bytes (kd_nonce (f_kd f)) @ sadscp_data f"
  have lp: "length ?p = 38 + ?l + ?fill" using nm by (simp add: sadscp_data_def Let_def pre)
  have z: "replicate 1076 (0 :: u8) = replicate 12 0 @ [0, 0] @ replicate ?l 0 @ replicate ?fill 0 @
      replicate (PCP_MAX_LEN - length ?p) 0"
  proof -
    have "1076 = 12 + (2 + (?l + (?fill + (PCP_MAX_LEN - length ?p))))" using b lp by simp
    moreover have "replicate 2 (0 :: u8) = [0, 0]" by (simp add: eval_nat_numeral)
    ultimately show ?thesis by (metis replicate_add)
  qed
  have "build_pcp_sadscp s f len (pre @ replicate 1076 0, 24) =
      build_pcp_options f len
        (put_bytes (24 + 14) ?name (put_u8 (24 + 13) (of_nat (?l + ?fill))
          (put_u8 (24 + 12) (u_toler_fields (f_u f))
            (put_bytes 24 (nonce_bytes (kd_nonce (f_kd f))) (pre @ replicate 1076 0)))),
         38 + ?l + ?fill)"
    using w by (auto simp: build_pcp_sadscp_def v sadscp_fill_def Let_def add.assoc split: option.splits)
  also have "\<dots> = build_pcp_options f len (?p @ replicate (PCP_MAX_LEN - length ?p) 0, length ?p)"
    unfolding z lp using nm
    by (simp add: pre put_cells sadscp_data_def Let_def)
  finally show ?thesis
    using build_pcp_options_encodes [OF wf, of ?p len] b lp
    by (simp add: pre nonce_if_def Let_def add.assoc)
qed

lemma header_writes:
  "put_bytes 8 (in6_bytes (kd_src_ip (f_kd f))) (put_u32 4 (f_lifetime f)
     (put_u8 1 (get_u8 1 (put_u8 0 v (replicate PCP_MAX_LEN 0)) OR (kd_operation (f_kd f) AND 0x7F))
       (put_u8 0 v (replicate PCP_MAX_LEN 0)))) = request_header v f @ replicate 1076 0"
proof -
  have z: "replicate 1100 (0 :: u8) = [0, 0] @ [0, 0] @ replicate 4 0 @ replicate 16 0 @ replicate 1076 0"
    using replicate_add [of 4 1096 "0 :: u8"] replicate_add [of 4 1092 "0 :: u8"]
      replicate_add [of 16 1076 "0 :: u8"]
    by (simp add: eval_nat_numeral replicate_add [of 4 1096 "0 :: u8", simplified])
  show ?thesis
    by (simp add: z put_cells get_u8_def request_header_def)
qed

lemma build_request_pcp:
  assumes "s_pcp_version s \<noteq> 0"
  shows "build_request s f (replicate PCP_MAX_LEN 0) =
    (let k = (request_header (s_pcp_version s) f @ replicate 1076 0, 24);
         oper = kd_operation (f_kd f)
     in if oper = PCP_OPCODE_PEER then build_pcp_peer s f 24 k
        else if oper = PCP_OPCODE_MAP then build_pcp_map s f 24 k
        else if oper = PCP_OPCODE_SADSCP then build_pcp_sadscp s f 24 k
        else if oper = PCP_OPCODE_ANNOUNCE then (fst k, 24, 0)
        else (fst k, 24, - 1))"
  by (simp only: build_request_def header_writes Let_def fst_conv assms if_False)

lemma pcp_request_size:
  assumes wf: "flow_wf f" and m: "pcp_request v f = Some m" and sp: "kd_operation (f_kd f) = PCP_OPCODE_SADSCP \<longrightarrow> sadscp_ok f"
  shows "length m \<le> PCP_MAX_LEN"
proof (cases "opcode_data v f")
  case None
  then show ?thesis using m by (auto simp: pcp_request_def split: if_splits)
next
  case (Some d)
  have nm: "length (case f_sadscp_app_name f of Some name \<Rightarrow> take (unat n) name | None \<Rightarrow> replicate (unat n) 0) \<le> unat n" for n :: u8
    by (cases "f_sadscp_app_name f") auto
  have "length d \<le> 300"
    using Some sp sadscp_fill_bound [of "u_app_name_length (f_u f)"] nm [of "u_app_name_length (f_u f)"]
    by (auto simp: opcode_data_def sadscp_data_def sadscp_ok_def Let_def split: if_splits)
  then have "24 + length d + length (tlvs (options_of (24 + length d) f)) \<le> PCP_MAX_LEN"
    by (intro options_size [OF wf]) simp
  then show ?thesis using m Some by (auto simp: pcp_request_def split: if_splits)
qed

lemma build_request_encoded:
  assumes wf: "flow_wf f" and v: "s_pcp_version s = 1 \<or> s_pcp_version s = 2"
    and sp: "kd_operation (f_kd f) = PCP_OPCODE_SADSCP \<longrightarrow> sadscp_ok f"
  shows "case pcp_request (s_pcp_version s) f of
      Some m \<Rightarrow> length m \<le> PCP_MAX_LEN \<and> build_request s f (replicate PCP_MAX_LEN 0) =
        (m @ replicate (PCP_MAX_LEN - length m) 0, of_nat (length m), 0)
    | None \<Rightarrow> snd (snd (build_request s f (replicate PCP_MAX_LEN 0))) < 0"
proof -
  have nz: "s_pcp_version s \<noteq> 0" using v by auto
  let ?h = "request_header (s_pcp_version s) f"
  have uns: "snd (snd (build_pcp_sadscp s f len k)) < 0" if "s_pcp_version s = 1" for len k
    using that by (cases k) (simp add: build_pcp_sadscp_def)
  show ?thesis
  proof (cases "pcp_request (s_pcp_version s) f")
    case None
    then show ?thesis
      using v uns by (auto simp: build_request_pcp [OF nz] pcp_request_def opcode_data_def Let_def split: if_splits)
  next
    case (Some m)
    have sz: "length m \<le> PCP_MAX_LEN" using pcp_request_size [OF wf Some sp] .
    have "build_request s f (replicate PCP_MAX_LEN 0) =
        (m @ replicate (PCP_MAX_LEN - length m) 0, of_nat (length m), 0)"
      using Some v sp
      by (auto simp: build_request_pcp [OF nz] pcp_request_def opcode_data_def Let_def
          build_pcp_map_encodes [OF wf v] build_pcp_peer_encodes [OF wf v]
          build_pcp_sadscp_encodes [OF wf] split: if_splits)
    then show ?thesis using Some sz by simp
  qed
qed

text \<open>Property C7: the builder of a PCP request implements the reference encoding. In a fresh
  buffer it writes the header, the data of the opcode and the options as a sequence of
  type-length-value records, sets \<^verbatim>\<open>pcp_msg_len\<close> to the length of the message, leaves the
  rest of the buffer zero and never writes past its end; where the protocol version has no
  such message it fails.\<close>

theorem build_request_encodes:
  assumes wf: "flow_wf f" and v: "s_pcp_version s = 1 \<or> s_pcp_version s = 2"
    and sp: "kd_operation (f_kd f) = PCP_OPCODE_SADSCP \<longrightarrow> sadscp_ok f"
  shows "case pcp_request (s_pcp_version s) f of
      Some m \<Rightarrow> length m \<le> PCP_MAX_LEN \<and> build_request s f (replicate PCP_MAX_LEN 0) =
        (m @ replicate (PCP_MAX_LEN - length m) 0, of_nat (length m), 0)
    | None \<Rightarrow> snd (snd (build_request s f (replicate PCP_MAX_LEN 0))) < 0"
  by (rule build_request_encoded [OF assms])

section \<open>Reading a sequence of cells\<close>

lemma get_u8_cells:
  "get_u8 0 (x # r) = x"
  "0 < k \<Longrightarrow> get_u8 k (x # r) = get_u8 (k - 1) r"
  "length a \<le> k \<Longrightarrow> get_u8 k (a @ r) = get_u8 (k - length a) r"
  by (simp_all add: get_u8_def nth_append nth_Cons')

lemma get_u16_cells:
  "get_u16 0 (be16 w @ r) = w"
  "0 < k \<Longrightarrow> get_u16 k (x # r) = get_u16 (k - 1) r"
  "length a \<le> k \<Longrightarrow> get_u16 k (a @ r) = get_u16 (k - length a) r"
  by (simp_all add: get_u16_def nth_append be16_def nth_Cons' Suc_diff_le)

lemma get_u32_cells:
  "get_u32 0 (be32 w @ r) = w"
  "0 < k \<Longrightarrow> get_u32 k (x # r) = get_u32 (k - 1) r"
  "length a \<le> k \<Longrightarrow> get_u32 k (a @ r) = get_u32 (k - length a) r"
  by (simp_all add: get_u32_def nth_append be32_def nth_Cons' Suc_diff_le le_SucI numeral_3_eq_3)

lemma get_in6_cells:
  "get_in6 0 (in6_bytes a @ r) = a"
  "0 < k \<Longrightarrow> get_in6 k (x # r) = get_in6 (k - 1) r"
  "length b \<le> k \<Longrightarrow> get_in6 k (b @ r) = get_in6 (k - length b) r"
  by (cases a) (simp_all add: get_in6_def in6_bytes_def get_u32_cells)

lemma get_nonce_cells:
  "get_nonce 0 (nonce_bytes n @ r) = n"
  "0 < k \<Longrightarrow> get_nonce k (x # r) = get_nonce (k - 1) r"
  "length b \<le> k \<Longrightarrow> get_nonce k (b @ r) = get_nonce (k - length b) r"
  by (cases n) (simp_all add: get_nonce_def nonce_bytes_def get_u32_cells)

lemmas get_cells = get_u8_cells get_u16_cells get_u32_cells get_in6_cells get_nonce_cells

section \<open>Properties of NAT-PMP requests and of responses\<close>

lemma zero_cells_natpmp:
  "replicate 2 (0 :: u8) = [0, 0]"
  "replicate 12 (0 :: u8) = [0, 0, 0, 0] @ replicate 2 0 @ replicate 2 0 @ replicate 4 0"
  by (simp_all add: eval_nat_numeral)

text \<open>Property C18: the builder of a NAT-PMP request. It writes the announce or the mapping request
  of the protocol. For an operation or a protocol NAT-PMP does not have it writes nothing,
  and the value it returns is positive, which \<^verbatim>\<open>build_pcp_msg\<close> does not take for a failure.\<close>

theorem build_request_natpmp:
  assumes "s_pcp_version s = 0"
  shows "case natpmp_request f of
      Some m \<Rightarrow> build_request s f (replicate PCP_MAX_LEN 0) =
        (m @ replicate (PCP_MAX_LEN - length m) 0, of_nat (length m), 0)
    | None \<Rightarrow> (\<exists>ret>0. build_request s f buf = (buf, f_pcp_msg_len f, ret))"
proof -
  have "put_u8 1 0 (put_u8 0 0 (replicate PCP_MAX_LEN 0)) = [0, 0] @ replicate 1098 0"
    by (simp add: zero_split [of 2 1100] zero_cells_natpmp(1) put_cells)
  moreover have "put_u16 6 p (put_u16 4 q (put_u32 8 l (put_u8 0 0 (put_u8 1 oper (replicate PCP_MAX_LEN 0))))) =
      [0, oper, 0, 0] @ be16 q @ be16 p @ be32 l @ replicate 1088 0" for p q l oper
    by (simp add: zero_split [of 12 1100] zero_cells_natpmp(2) put_cells)
  ultimately show ?thesis
    using assms by (auto simp: natpmp_request_def build_request_def build_natpmp_msg_def)
qed

theorem build_request_natpmp_witness:
  "build_request (zero_server\<lparr>s_pcp_version := 0\<rparr>)
      (zero_flow\<lparr>f_kd := zero_kd\<lparr>kd_operation := PCP_OPCODE_ANNOUNCE\<rparr>\<rparr>) (replicate PCP_MAX_LEN 0) =
    ([0, 0] @ replicate (PCP_MAX_LEN - 2) 0, 2, 0)"
  using build_request_natpmp [of "zero_server\<lparr>s_pcp_version := 0\<rparr>"
      "zero_flow\<lparr>f_kd := zero_kd\<lparr>kd_operation := PCP_OPCODE_ANNOUNCE\<rparr>\<rparr>" "[]"]
  by (simp add: natpmp_request_def)

text \<open>A response on the wire: the header, the data of the opcode and whatever follows.\<close>

definition pcp_response :: "u8 \<Rightarrow> u8 \<Rightarrow> u8 \<Rightarrow> u32 \<Rightarrow> u32 \<Rightarrow> bytes \<Rightarrow> bytes" where
  "pcp_response v oper res lifetime epoch data =
     [v, oper OR 0x80, 0, res] @ be32 lifetime @ be32 epoch @ replicate 12 0 @ data"

definition response_kd :: "u8 \<Rightarrow> pcp_flow \<Rightarrow> flow_key_data" where
  "response_kd v f =
     (let kd = f_kd f;
          k = zero_kd\<lparr>kd_operation := kd_operation kd, kd_protocol := kd_protocol kd,
                kd_src_port := kd_src_port kd,
                kd_nonce := (if v = 2 then kd_nonce kd else nonce_zero)\<rparr>
      in if kd_operation kd = PCP_OPCODE_PEER
         then k\<lparr>kd_dst_ip := kd_dst_ip kd, kd_dst_port := kd_dst_port kd\<rparr> else k)"

lemma rest_size_24: "24 \<le> unat (m_pcp_msg_len m) \<Longrightarrow> unat (rest_size m 24) = unat (m_pcp_msg_len m) - 24"
proof -
  assume a: "24 \<le> unat (m_pcp_msg_len m)"
  have u: "unat (ucast (m_pcp_msg_len m) :: u64) = unat (m_pcp_msg_len m)"
  proof -
    have "unat (m_pcp_msg_len m) < 2 ^ 32" using unsigned_less [of "m_pcp_msg_len m"] by simp
    then show ?thesis by (simp add: unsigned_ucast_eq take_bit_nat_eq_self)
  qed
  then have "(24 :: u64) \<le> ucast (m_pcp_msg_len m)" using a by (simp add: word_le_nat_alt)
  then show ?thesis using u by (simp add: rest_size_def unat_sub)
qed

lemma response_decoded:
  assumes v: "v = 1 \<or> v = 2"
    and d: "kd_operation (f_kd f) = PCP_OPCODE_MAP \<and> data = map_data f \<or>
      kd_operation (f_kd f) = PCP_OPCODE_PEER \<and> data = peer_data f"
    and b: "m_pcp_msg_buffer m = pcp_response v (kd_operation (f_kd f)) res lifetime epoch
      (nonce_if v f @ data @ rest)"
    and len: "24 + length (nonce_if v f @ data) \<le> unat (m_pcp_msg_len m)"
  shows "parse_response m =
    (m\<lparr>m_recv_version := ucast v, m_recv_result := ucast res, m_recv_lifetime := lifetime,
       m_recv_epoch := epoch, m_kd := response_kd v f,
       m_assigned_ext_ip := u_ext_ip (f_u f), m_assigned_ext_port := u_ext_port (f_u f)\<rparr>,
     PCP_ERR_SUCCESS)"
proof -
  let ?r = "rest_size m 24"
  have l24: "24 \<le> unat (m_pcp_msg_len m)" using len by simp
  have nl: "\<not> m_pcp_msg_len m < 24" using l24 by (simp add: word_less_nat_alt)
  have r: "\<not> ucast (m_pcp_msg_len m) - 24 < (of_nat n :: u64)"
    if "24 + n \<le> unat (m_pcp_msg_len m)" "n < 100" for n
    using that rest_size_24 [OF l24] by (simp add: word_less_nat_alt unat_of_nat rest_size_def)
  note rs = r [of 24, simplified] r [of 36, simplified] r [of 44, simplified] r [of 56, simplified]
  note defs = parse_response_def parse_v1_resp_def parse_v2_resp_def parse_v1_map_def parse_v2_map_def
    parse_v1_peer_def parse_v2_peer_def parse_options_def rest_size_def Let_def
  show ?thesis
    using v d
  proof (elim disjE conjE)
    assume c: "v = 1" "kd_operation (f_kd f) = PCP_OPCODE_MAP" "data = map_data f"
    then show ?thesis using len
      by (simp add: defs b pcp_response_def get_cells nl rs nonce_if_def map_data_def response_kd_def zero_kd_def)
  next
    assume c: "v = 1" "kd_operation (f_kd f) = PCP_OPCODE_PEER" "data = peer_data f"
    then show ?thesis using len
      by (simp add: defs b pcp_response_def get_cells nl rs nonce_if_def map_data_def peer_data_def response_kd_def zero_kd_def)
  next
    assume c: "v = 2" "kd_operation (f_kd f) = PCP_OPCODE_MAP" "data = map_data f"
    then show ?thesis using len
      by (simp add: defs b pcp_response_def get_cells nl rs nonce_if_def map_data_def response_kd_def zero_kd_def)
  next
    assume c: "v = 2" "kd_operation (f_kd f) = PCP_OPCODE_PEER" "data = peer_data f"
    then show ?thesis using len
      by (simp add: defs b pcp_response_def get_cells nl rs nonce_if_def map_data_def peer_data_def response_kd_def zero_kd_def)
  qed
qed

text \<open>Property C9: the parser reads back what the protocol puts on the wire. A MAP or PEER response that
  carries a mapping, whatever options follow it, is decoded into the result, lifetime and
  epoch of its header, the external address and port, and the key of the flow it answers.\<close>

theorem parse_response_decodes:
  assumes v: "v = 1 \<or> v = 2"
    and d: "kd_operation (f_kd f) = PCP_OPCODE_MAP \<and> data = map_data f \<or>
      kd_operation (f_kd f) = PCP_OPCODE_PEER \<and> data = peer_data f"
    and b: "m_pcp_msg_buffer m = pcp_response v (kd_operation (f_kd f)) res lifetime epoch
      (nonce_if v f @ data @ rest)"
    and len: "24 + length (nonce_if v f @ data) \<le> unat (m_pcp_msg_len m)"
  shows "parse_response m =
    (m\<lparr>m_recv_version := ucast v, m_recv_result := ucast res, m_recv_lifetime := lifetime,
       m_recv_epoch := epoch, m_kd := response_kd v f,
       m_assigned_ext_ip := u_ext_ip (f_u f), m_assigned_ext_port := u_ext_port (f_u f)\<rparr>,
     PCP_ERR_SUCCESS)"
  by (rule response_decoded [OF assms])

definition demo_map_flow :: pcp_flow where
  "demo_map_flow = zero_flow\<lparr>f_kd := zero_kd\<lparr>kd_operation := PCP_OPCODE_MAP, kd_protocol := IPPROTO_TCP,
     kd_src_port := 80, kd_nonce := Nonce 1 2 3\<rparr>, f_u := U_map_peer (v4mapped 0x01020304) 8080\<rparr>"

definition demo_response :: pcp_recv_msg where
  "demo_response = zero_msg\<lparr>m_pcp_msg_len := 60, m_pcp_msg_buffer :=
     pcp_response 2 PCP_OPCODE_MAP 0 3600 17 (nonce_if 2 demo_map_flow @ map_data demo_map_flow @ replicate 1040 0)\<rparr>"

lemma demo_map_flow_sel [simp]:
  "kd_operation (f_kd demo_map_flow) = PCP_OPCODE_MAP" "kd_nonce (f_kd demo_map_flow) = Nonce 1 2 3"
  by (simp_all add: demo_map_flow_def)

theorem parse_response_decodes_witness:
  "\<exists>m. parse_response demo_response = (m, PCP_ERR_SUCCESS) \<and> kd_nonce (m_kd m) = Nonce 1 2 3 \<and>
     m_recv_lifetime m = 3600"
  using parse_response_decodes [of 2 demo_map_flow "map_data demo_map_flow" demo_response 0 3600 17 "replicate 1040 0"]
  by (simp add: demo_response_def response_kd_def Let_def)

text \<open>Two buffers that agree on the bytes received, which is all a parser may look at.\<close>

definition with_buffer :: "bytes \<Rightarrow> pcp_recv_msg \<times> pcp_errno \<Rightarrow> pcp_recv_msg \<times> pcp_errno" where
  "with_buffer b = (\<lambda>(m, r). (m\<lparr>m_pcp_msg_buffer := b\<rparr>, r))"

lemma with_buffer_pair [simp]: "with_buffer b (m, r) = (m\<lparr>m_pcp_msg_buffer := b\<rparr>, r)"
  by (simp add: with_buffer_def)

lemma get_agree:
  assumes "take l b = take l b'"
  shows "off + 1 \<le> l \<Longrightarrow> get_u8 off b = get_u8 off b'"
    and "off + 2 \<le> l \<Longrightarrow> get_u16 off b = get_u16 off b'"
    and "off + 4 \<le> l \<Longrightarrow> get_u32 off b = get_u32 off b'"
    and "off + 16 \<le> l \<Longrightarrow> get_in6 off b = get_in6 off b'"
    and "off + 12 \<le> l \<Longrightarrow> get_nonce off b = get_nonce off b'"
proof -
  show u8: "off + 1 \<le> l \<Longrightarrow> get_u8 off b = get_u8 off b'" for off
    using get_u8_take [of off l b] get_u8_take [of off l b'] assms by simp
  show "off + 2 \<le> l \<Longrightarrow> get_u16 off b = get_u16 off b'" for off
    using get_u16_take [of off l b] get_u16_take [of off l b'] assms by simp
  have u32: "off + 4 \<le> l \<Longrightarrow> get_u32 off b = get_u32 off b'" for off
    using get_u32_take [of off l b] get_u32_take [of off l b'] assms by simp
  then show "off + 4 \<le> l \<Longrightarrow> get_u32 off b = get_u32 off b'" .
  show "off + 16 \<le> l \<Longrightarrow> get_in6 off b = get_in6 off b'"
    using u32 by (simp add: get_in6_def)
  show "off + 12 \<le> l \<Longrightarrow> get_nonce off b = get_nonce off b'"
    using u32 by (simp add: get_nonce_def)
qed

lemma rest_size_buffer: "rest_size (m\<lparr>m_pcp_msg_buffer := b\<rparr>) r = rest_size m r"
  by (simp add: rest_size_def)

lemma rest_size_bound:
  "24 \<le> unat (m_pcp_msg_len m) \<Longrightarrow> \<not> rest_size m 24 < k \<Longrightarrow> 24 + unat k \<le> unat (m_pcp_msg_len m)"
  using rest_size_24 [of m] by (simp add: word_less_nat_alt)

lemma parse_data_agree:
  assumes "take (unat (m_pcp_msg_len m)) b = take (unat (m_pcp_msg_len m)) (m_pcp_msg_buffer m)"
    and "24 \<le> unat (m_pcp_msg_len m)"
  shows "parse_v1_map (m\<lparr>m_pcp_msg_buffer := b\<rparr>) 24 = with_buffer b (parse_v1_map m 24)"
    and "parse_v2_map (m\<lparr>m_pcp_msg_buffer := b\<rparr>) 24 = with_buffer b (parse_v2_map m 24)"
    and "parse_v1_peer (m\<lparr>m_pcp_msg_buffer := b\<rparr>) 24 = with_buffer b (parse_v1_peer m 24)"
    and "parse_v2_peer (m\<lparr>m_pcp_msg_buffer := b\<rparr>) 24 = with_buffer b (parse_v2_peer m 24)"
    and "parse_sadscp (m\<lparr>m_pcp_msg_buffer := b\<rparr>) 24 = with_buffer b (parse_sadscp m 24)"
proof -
  note defs = parse_options_def rest_size_buffer with_buffer_def Let_def get_agree [OF assms(1)]
    rest_size_def [of "m\<lparr>m_kd := k, m_assigned_ext_port := p, m_assigned_ext_ip := i\<rparr>" for k p i]
    rest_size_def [of "m\<lparr>m_pcp_msg_buffer := b, m_kd := k, m_assigned_ext_port := p, m_assigned_ext_ip := i\<rparr>" for k p i]
  show "parse_v1_map (m\<lparr>m_pcp_msg_buffer := b\<rparr>) 24 = with_buffer b (parse_v1_map m 24)"
    using rest_size_bound [OF assms(2), of 24]
    by (cases "rest_size m 24 < 24") (simp_all add: parse_v1_map_def defs)
  show "parse_v2_map (m\<lparr>m_pcp_msg_buffer := b\<rparr>) 24 = with_buffer b (parse_v2_map m 24)"
    using rest_size_bound [OF assms(2), of 36]
    by (cases "rest_size m 24 < 36") (simp_all add: parse_v2_map_def defs)
  show "parse_v1_peer (m\<lparr>m_pcp_msg_buffer := b\<rparr>) 24 = with_buffer b (parse_v1_peer m 24)"
    using rest_size_bound [OF assms(2), of 44]
    by (cases "rest_size m 24 < 44") (simp_all add: parse_v1_peer_def defs)
  show "parse_v2_peer (m\<lparr>m_pcp_msg_buffer := b\<rparr>) 24 = with_buffer b (parse_v2_peer m 24)"
    using rest_size_bound [OF assms(2), of 56]
    by (cases "rest_size m 24 < 56") (simp_all add: parse_v2_peer_def defs)
  show "parse_sadscp (m\<lparr>m_pcp_msg_buffer := b\<rparr>) 24 = with_buffer b (parse_sadscp m 24)"
    using rest_size_bound [OF assms(2), of 16]
    by (cases "rest_size m 24 < 16") (simp_all add: parse_sadscp_def defs)
qed

lemma parse_resp_agree:
  assumes "take (unat (m_pcp_msg_len m)) b = take (unat (m_pcp_msg_len m)) (m_pcp_msg_buffer m)"
  shows "parse_v0_resp (m\<lparr>m_pcp_msg_buffer := b\<rparr>) = with_buffer b (parse_v0_resp m)"
    and "parse_v1_resp (m\<lparr>m_pcp_msg_buffer := b\<rparr>) = with_buffer b (parse_v1_resp m)"
    and "parse_v2_resp (m\<lparr>m_pcp_msg_buffer := b\<rparr>) = with_buffer b (parse_v2_resp m)"
proof -
  note g = get_agree [OF assms]
  have upd: "m\<lparr>m_pcp_msg_buffer := b, m_recv_lifetime := x, m_recv_epoch := y\<rparr> =
      m\<lparr>m_recv_lifetime := x, m_recv_epoch := y\<rparr>\<lparr>m_pcp_msg_buffer := b\<rparr>" for x y
    by simp
  show "parse_v0_resp (m\<lparr>m_pcp_msg_buffer := b\<rparr>) = with_buffer b (parse_v0_resp m)"
    by (auto simp: parse_v0_resp_def with_buffer_def Let_def g)
  have l: "24 \<le> unat (m_pcp_msg_len m)" if "\<not> m_pcp_msg_len m < 24"
    using that by (simp add: word_less_nat_alt)
  have d: "take (unat (m_pcp_msg_len (m\<lparr>m_recv_lifetime := x, m_recv_epoch := y\<rparr>))) b =
      take (unat (m_pcp_msg_len (m\<lparr>m_recv_lifetime := x, m_recv_epoch := y\<rparr>)))
        (m_pcp_msg_buffer (m\<lparr>m_recv_lifetime := x, m_recv_epoch := y\<rparr>))" for x y
    using assms by simp
  show "parse_v1_resp (m\<lparr>m_pcp_msg_buffer := b\<rparr>) = with_buffer b (parse_v1_resp m)"
    "parse_v2_resp (m\<lparr>m_pcp_msg_buffer := b\<rparr>) = with_buffer b (parse_v2_resp m)"
    using l by (auto simp: parse_v1_resp_def parse_v2_resp_def Let_def g upd parse_data_agree [OF d])
qed

text \<open>Property C15: no read past the received data. On a message \<^verbatim>\<open>validate_pcp_msg\<close> accepts, what
  \<^verbatim>\<open>validate_pcp_msg\<close> and \<^verbatim>\<open>parse_response\<close> return depends on the first \<^verbatim>\<open>pcp_msg_len\<close> bytes of
  the buffer only: any other contents of the rest give the same result.\<close>

theorem parse_response_reads_received:
  assumes valid: "validate_pcp_msg m"
    and agree: "take (unat (m_pcp_msg_len m)) b = take (unat (m_pcp_msg_len m)) (m_pcp_msg_buffer m)"
  shows "validate_pcp_msg (m\<lparr>m_pcp_msg_buffer := b\<rparr>) \<and>
    parse_response (m\<lparr>m_pcp_msg_buffer := b\<rparr>) = with_buffer b (parse_response m)"
proof -
  have "4 \<le> unat (m_pcp_msg_len m)"
    using valid by (simp add: validate_pcp_msg_def word_less_nat_alt split: if_splits)
  with get_agree(1) [OF agree]
  have g: "get_u8 0 b = get_u8 0 (m_pcp_msg_buffer m)" "get_u8 1 b = get_u8 1 (m_pcp_msg_buffer m)"
    "get_u8 3 b = get_u8 3 (m_pcp_msg_buffer m)" by simp_all
  let ?m = "m\<lparr>m_recv_version := ucast (get_u8 0 b), m_recv_result := ucast (get_u8 3 b),
                m_kd := zero_kd\<lparr>kd_operation := get_u8 1 b AND 0x7F\<rparr>\<rparr>"
  have a: "take (unat (m_pcp_msg_len ?m)) b = take (unat (m_pcp_msg_len ?m)) (m_pcp_msg_buffer ?m)"
    using agree by simp
  let ?parse = "\<lambda>m. if m_recv_version m = 0 then parse_v0_resp m else if m_recv_version m = 1 then parse_v1_resp m
    else if m_recv_version m = 2 then parse_v2_resp m else (m, PCP_ERR_UNSUP_VERSION)"
  have sel: "m_pcp_msg_buffer (m\<lparr>m_pcp_msg_buffer := b\<rparr>) = b" by simp
  have upd: "m\<lparr>m_pcp_msg_buffer := b, m_recv_version := ucast (get_u8 0 b), m_recv_result := ucast (get_u8 3 b),
      m_kd := zero_kd\<lparr>kd_operation := get_u8 1 b AND 0x7F\<rparr>\<rparr> = ?m\<lparr>m_pcp_msg_buffer := b\<rparr>"
    by simp
  have "parse_response (m\<lparr>m_pcp_msg_buffer := b\<rparr>) = ?parse (?m\<lparr>m_pcp_msg_buffer := b\<rparr>)"
    by (simp only: parse_response_def Let_def sel upd)
  also have "\<dots> = with_buffer b (?parse ?m)"
    unfolding parse_resp_agree [OF a] by (simp add: with_buffer_def)
  also have "?parse ?m = parse_response m"
    by (simp only: parse_response_def Let_def g)
  finally have "parse_response (m\<lparr>m_pcp_msg_buffer := b\<rparr>) = with_buffer b (parse_response m)" .
  moreover have "validate_pcp_msg (m\<lparr>m_pcp_msg_buffer := b\<rparr>)"
    using valid g by (simp add: validate_pcp_msg_def split: if_splits)
  ultimately show ?thesis by simp
qed

theorem parse_response_reads_received_witness:
  "validate_pcp_msg demo_response \<and>
   parse_response (demo_response\<lparr>m_pcp_msg_buffer := take 60 (m_pcp_msg_buffer demo_response) @ replicate 1040 9\<rparr>) =
     with_buffer (take 60 (m_pcp_msg_buffer demo_response) @ replicate 1040 9) (parse_response demo_response)"
proof -
  have v: "validate_pcp_msg demo_response"
    by (simp add: validate_pcp_msg_def demo_response_def pcp_response_def get_u8_def)
  have l: "unat (m_pcp_msg_len demo_response) = 60" "length (m_pcp_msg_buffer demo_response) = 1100"
    by (simp_all add: demo_response_def pcp_response_def)
  show ?thesis
    using parse_response_reads_received [OF v,
        of "take 60 (m_pcp_msg_buffer demo_response) @ replicate 1040 9"] v l by simp
qed

section \<open>No write past the buffer\<close>

text \<open>\<open>stays w n\<close>: as long as there is room for \<open>n\<close> bytes, \<open>w\<close> keeps the size of the buffer,
  whatever its contents, and moves the cursor by \<open>n\<close> at most.\<close>

definition stays :: "(cursor \<Rightarrow> cursor) \<Rightarrow> nat \<Rightarrow> bool" where
  "stays w n \<longleftrightarrow> (\<forall>buf cur. cur + n \<le> length buf \<longrightarrow>
     length (fst (w (buf, cur))) = length buf \<and> snd (w (buf, cur)) \<le> cur + n)"

lemma staysD:
  assumes "stays w n" and "w (buf, cur) = (b, k)" and "cur + n \<le> length buf"
  shows "length b = length buf" and "k \<le> cur + n"
  using assms(1) [unfolded stays_def, rule_format, OF assms(3)] by (simp_all add: assms(2))

lemma stays_comp:
  assumes "stays v m" and "stays w n" shows "stays (\<lambda>k. w (v k)) (m + n)"
  unfolding stays_def
proof (intro allI impI)
  fix buf :: bytes and cur
  assume c: "cur + (m + n) \<le> length buf"
  obtain b k where bk: "v (buf, cur) = (b, k)" by fastforce
  then have "length b = length buf" "k \<le> cur + m"
    using staysD [OF assms(1) bk] c by simp_all
  then show "length (fst (w (v (buf, cur)))) = length buf \<and> snd (w (v (buf, cur))) \<le> cur + (m + n)"
    using staysD [OF assms(2), of b k] c unfolding bk by (cases "w (b, k)") fastforce
qed

lemma stays_if: "stays w n \<Longrightarrow> stays (\<lambda>k. if b then w k else k) n"
  by (auto simp: stays_def)

lemma option_stays:
  assumes "flow_wf f"
  shows "stays (add_flowp_option f) 8" "stays (add_filter_option f) 24" "stays add_prefer_failure_option 4"
    "stays (add_third_party_option f) 20" "stays (add_deviceid_option f) 36"
    "stays (add_userid_option f) 516" "stays (add_location_option f) 36"
  using assms
  by (simp_all add: stays_def flow_wf_def add_flowp_option_def add_filter_option_def
      add_prefer_failure_option_def add_third_party_option_def add_deviceid_option_def
      add_userid_option_def add_location_option_def Let_def length_put_bytes_in)

lemma write_fixed_stays:
  assumes "flow_wf f" shows "stays (write_fixed f) 644"
proof -
  have "stays (write_fixed f) (8 + (24 + (4 + (20 + (36 + (516 + 36))))))"
    unfolding write_fixed_def Let_def
    by (intro stays_comp [where v = "\<lambda>k. if f_flowp_option_present f then add_flowp_option f k else k"]
        stays_comp [where v = "\<lambda>k. if f_filter_option_present f then add_filter_option f k else k"]
        stays_comp [where v = "\<lambda>k. if f_pfailure_option_present f then add_prefer_failure_option k else k"]
        stays_comp [where v = "\<lambda>k. if f_third_party_option_present f then add_third_party_option f k else k"]
        stays_comp [where v = "\<lambda>k. if f_deviceid f ! 0 \<noteq> 0 then add_deviceid_option f k else k"]
        stays_comp [where v = "\<lambda>k. if f_userid f ! 0 \<noteq> 0 then add_userid_option f k else k"]
        stays_if option_stays [OF assms])
  then show ?thesis by simp
qed

lemma add_md_options_stays:
  "cur \<le> PCP_MAX_LEN \<Longrightarrow> length buf = PCP_MAX_LEN \<Longrightarrow>
    length (fst (add_md_options mds (buf, cur))) = PCP_MAX_LEN \<and> snd (add_md_options mds (buf, cur)) \<le> PCP_MAX_LEN"
proof (induction mds arbitrary: buf cur)
  case Nil
  then show ?case by simp
next
  case (Cons md mds)
  obtain b k where bk: "add_md_option md (buf, cur) = (b, k)" by fastforce
  have "k \<le> PCP_MAX_LEN \<and> length b = PCP_MAX_LEN"
    using bk Cons.prems
    by (auto simp: add_md_option_def Let_def length_put_bytes_in split: if_splits)
  then show ?case using Cons.IH Cons.prems bk by simp
qed

lemma build_pcp_options_stays:
  assumes wf: "flow_wf f" and "length buf = PCP_MAX_LEN" and "cur \<le> 456"
  shows "length (fst (build_pcp_options f len (buf, cur))) = PCP_MAX_LEN \<and>
    unat (fst (snd (build_pcp_options f len (buf, cur)))) \<le> PCP_MAX_LEN"
proof -
  let ?md = "f_md_vals f"
  obtain b k where bk: "write_fixed f (buf, cur) = (b, k)" by fastforce
  then have "length b = PCP_MAX_LEN" "k \<le> PCP_MAX_LEN"
    using staysD [OF write_fixed_stays [OF wf] bk] assms(2,3) by simp_all
  then obtain b' k' where bk': "add_md_options ?md (b, k) = (b', k')" "length b' = PCP_MAX_LEN" "k' \<le> PCP_MAX_LEN"
    using add_md_options_stays [of k b ?md] by (cases "add_md_options ?md (b, k)") auto
  have "build_pcp_options f len (buf, cur) = (b', of_nat k', PCP_ERR_SUCCESS)"
    using bk bk' by (cases "?md = []") (auto simp: build_pcp_options_def write_fixed_def Let_def)
  then show ?thesis using bk' by (simp add: unat_of_nat)
qed

lemma build_request_bounds:
  assumes wf: "flow_wf f" and buf: "length buf = PCP_MAX_LEN"
  shows "length (fst (build_request s f buf)) = PCP_MAX_LEN \<and>
    unat (fst (snd (build_request s f buf))) \<le> PCP_MAX_LEN"
proof -
  have l: "unat (f_pcp_msg_len f) \<le> PCP_MAX_LEN" using wf by (simp add: flow_wf_def)
  note opts = build_pcp_options_stays [OF wf]
  note defs = length_put_bytes_in buf Let_def
  have mp: "length (fst (build_pcp_map s f 24 (b, 24))) = PCP_MAX_LEN \<and>
      unat (fst (snd (build_pcp_map s f 24 (b, 24)))) \<le> PCP_MAX_LEN" if "length b = PCP_MAX_LEN" for b
    using that by (auto simp: build_pcp_map_def defs intro!: opts)
  have pr: "length (fst (build_pcp_peer s f 24 (b, 24))) = PCP_MAX_LEN \<and>
      unat (fst (snd (build_pcp_peer s f 24 (b, 24)))) \<le> PCP_MAX_LEN" if "length b = PCP_MAX_LEN" for b
    using that by (auto simp: build_pcp_peer_def defs intro!: opts)
  have u8: "unat (w :: u8) < 256" for w using unsigned_less [of w] by simp
  have sd: "length (fst (build_pcp_sadscp s f 24 (b, 24))) = PCP_MAX_LEN \<and>
      unat (fst (snd (build_pcp_sadscp s f 24 (b, 24)))) \<le> PCP_MAX_LEN" if b: "length b = PCP_MAX_LEN" for b
  proof (cases "s_pcp_version s = 2")
    case True
    let ?n = "u_app_name_length (f_u f)"
    let ?k = "of_nat (unat ?n + (4 - (unat ?n + 2) mod 4) mod 4) :: u8"
    let ?nm = "case f_sadscp_app_name f of Some name \<Rightarrow> take (unat ?n) name | None \<Rightarrow> replicate (unat ?n) 0"
    define b1 where "b1 = put_u8 37 ?k
      (put_u8 36 (u_toler_fields (f_u f)) (put_bytes 24 (nonce_bytes (kd_nonce (f_kd f))) b))"
    have "length ?nm \<le> unat ?n" by (auto split: option.splits)
    then have "length (put_bytes 38 ?nm b1) = PCP_MAX_LEN"
      using b u8 [of ?n] by (subst length_put_bytes_in) (auto simp: b1_def length_put_bytes_in)
    moreover have "build_pcp_sadscp s f 24 (b, 24) =
        build_pcp_options f 24 (put_bytes 38 ?nm b1, 38 + unat ?k)"
      using True by (simp add: build_pcp_sadscp_def b1_def Let_def split: option.splits)
    ultimately show ?thesis
      using opts [of "put_bytes 38 ?nm b1" "38 + unat ?k"] u8 [of ?k] by simp
  qed (use b in \<open>simp_all add: build_pcp_sadscp_def\<close>)
  show ?thesis
    using l mp pr sd by (auto simp: build_request_def build_natpmp_msg_def defs)
qed

text \<open>Property C14: no buffer overflow. Whatever the version of the server, the operation and the
  options of the flow, and whatever the buffer held before, the builder writes within the
  \<^verbatim>\<open>PCP_MAX_LEN\<close> bytes allocated for it, and the length it stores does not exceed them.\<close>

theorem build_request_in_bounds:
  assumes wf: "flow_wf f" and buf: "length buf = PCP_MAX_LEN"
  shows "length (fst (build_request s f buf)) = PCP_MAX_LEN \<and>
    unat (fst (snd (build_request s f buf))) \<le> PCP_MAX_LEN"
  by (rule build_request_bounds [OF assms])

theorem build_request_in_bounds_witness:
  "length (fst (build_request (zero_server\<lparr>s_pcp_version := 2\<rparr>) demo_map_flow (replicate PCP_MAX_LEN 7))) =
     PCP_MAX_LEN"
  using build_request_in_bounds [of demo_map_flow "replicate PCP_MAX_LEN 7" "zero_server\<lparr>s_pcp_version := 2\<rparr>"]
  by (simp add: demo_map_flow_def flow_wf_def zero_flow_def)

theorem build_request_encodes_witness:
  "case pcp_request 2 demo_map_flow of
      Some m \<Rightarrow> build_request (zero_server\<lparr>s_pcp_version := 2\<rparr>) demo_map_flow (replicate PCP_MAX_LEN 0) =
        (m @ replicate (PCP_MAX_LEN - length m) 0, 60, 0)
    | None \<Rightarrow> False"
  using build_request_encodes [of demo_map_flow "zero_server\<lparr>s_pcp_version := 2\<rparr>"]
  by (simp add: flow_wf_def zero_flow_def demo_map_flow_def pcp_request_def opcode_data_def
      options_of_def fixed_options_def opt_if_def)

end
