(* ===== verification/Pcp_Flow_Sm.thy ===== *)
theory Pcp_Flow_Sm
  imports Pcp_Msg
begin

text \<open>
  The state machine of a flow, the first half of \<^verbatim>\<open>pcp_event_handler.c\<close>, with
  \<^verbatim>\<open>pcp_eval_flow_state\<close> of \<^verbatim>\<open>pcp_api.c\<close>, which it reports its results by.

  The two tables of the code are lists here, searched from the front as the code does, and
  the function pointers of the transition table are the constructors of \<open>fhandler\<close>. The
  loop of \<^verbatim>\<open>handle_flow_event\<close> is a partial function; that it ends within four handler
  calls, without a bad pointer, and changes nothing but the members of its flow that the
  state machine owns (\<open>flow_frame\<close>) is a theorem. The application's callback is
  recorded in \<open>c_notes\<close>; a callback that calls back into the library is outside the model.
\<close>

section \<open>The state of a chain of flows\<close>

text \<open>The loop over the children, with the counter and the flags of the code.\<close>

partial_function (option) eval_loop ::
  "addr option \<Rightarrow> int \<Rightarrow> bool \<Rightarrow> bool \<Rightarrow> bool \<Rightarrow> pcp_ctx \<Rightarrow> (int \<times> bool \<times> bool \<times> bool) option" where
  "eval_loop fiter nexit_states fpresent_no_exit_state fsuccess ffailed c =
     (case fiter of
        None \<Rightarrow> Some (nexit_states, fpresent_no_exit_state, fsuccess, ffailed)
      | Some a \<Rightarrow>
          do { f \<leftarrow> c_heap c a;
               if f_state f = pfs_wait_for_lifetime_renew
               then eval_loop (f_next_child f) (nexit_states + 1) fpresent_no_exit_state True ffailed c
               else if f_state f = pfs_failed
               then eval_loop (f_next_child f) (nexit_states + 1) fpresent_no_exit_state fsuccess True c
               else if f_state f = pfs_wait_after_short_life_error
               then eval_loop (f_next_child f) (nexit_states + 1) fpresent_no_exit_state fsuccess ffailed c
               else eval_loop (f_next_child f) nexit_states True fsuccess ffailed c })"

definition pcp_eval_flow_state :: "addr option \<Rightarrow> pcp_ctx \<Rightarrow> (int \<times> pcp_fstate_e) option" where
  "pcp_eval_flow_state flow c =
     do { (nexit_states, fpresent_no_exit_state, fsuccess, ffailed) \<leftarrow> eval_loop flow 0 False False False c;
          Some (nexit_states,
            if fpresent_no_exit_state
            then (if fsuccess then pcp_state_partial_result else pcp_state_processing)
            else if fsuccess then pcp_state_succeeded
            else if ffailed then pcp_state_failed
            else pcp_state_short_lifetime_error) }"

section \<open>Sending and receiving\<close>

text \<open>The loop of \<^verbatim>\<open>pcp_flow_send_msg\<close>: \<open>data\<close> is the message of length \<^verbatim>\<open>pcp_msg_len\<close>. A
  socket call that claims to have sent more than it was given makes the code read outside
  its buffer; so does a message length that exceeds the buffer.\<close>

partial_function (option) send_loop ::
  "env \<Rightarrow> sockaddr \<Rightarrow> bytes \<Rightarrow> nat \<Rightarrow> pcp_ctx \<Rightarrow> (pcp_ctx \<times> pcp_errno) option" where
  "send_loop E saddr data to_send_count c =
     (if to_send_count = 0 then Some (c, PCP_ERR_SUCCESS)
      else
        let rest = drop (length data - to_send_count) data;
            ret = env_sendto E (c_tick c) rest;
            c = tick c
        in if ret \<le> 0 then Some (c, PCP_ERR_SEND_FAILED)
           else if ret > int to_send_count then None
           else send_loop E saddr data (to_send_count - nat ret) (c\<lparr>c_sent := c_sent c @ [(saddr, rest)]\<rparr>))"

definition pcp_flow_send_msg :: "env \<Rightarrow> addr \<Rightarrow> nat \<Rightarrow> pcp_ctx \<Rightarrow> (pcp_ctx \<times> pcp_errno) option" where
  "pcp_flow_send_msg E a i c =
     do { flow \<leftarrow> c_heap c a;
          s \<leftarrow> server_at c i;
          c \<leftarrow> (if f_pcp_msg_buffer flow = None \<or> f_pcp_msg_len flow = 0
                then map_option fst (build_pcp_msg E a c) else Some c);
          flow \<leftarrow> c_heap c a;
          case f_pcp_msg_buffer flow of
            None \<Rightarrow> Some (c, PCP_ERR_SEND_FAILED)
          | Some buf \<Rightarrow>
              if unat (f_pcp_msg_len flow) > length buf then None
              else do { (c, r) \<leftarrow> send_loop E (s_pcp_server_saddr s) (take (unat (f_pcp_msg_len flow)) buf)
                     (unat (f_pcp_msg_len flow)) c;
                   if r \<noteq> PCP_ERR_SUCCESS then Some (c, PCP_ERR_SEND_FAILED)
                   else do { c \<leftarrow> pcp_flow_clear_msg_buf (Some a) c;
                             Some (c, PCP_ERR_SUCCESS) } } }"

text \<open>The datagram goes into the buffer of the message, cut off at its size.\<close>

definition read_msg :: "env \<Rightarrow> pcp_ctx \<Rightarrow> pcp_ctx \<times> pcp_errno" where
  "read_msg E c =
     (case env_recvfrom E (c_tick c) of
        Recv_error n \<Rightarrow> (tick (c\<lparr>c_msg := zero_msg\<rparr>), - 1 - int n)
      | Recv_data bs from to \<Rightarrow>
          let bs = take PCP_MAX_LEN bs in
          (tick (c\<lparr>c_msg := zero_msg\<lparr>m_pcp_msg_buffer := put_bytes 0 bs (replicate PCP_MAX_LEN 0),
             m_rcvd_from_addr := from, m_rcvd_to_addr := to, m_pcp_msg_len := of_nat (length bs)\<rparr>\<rparr>),
           PCP_ERR_SUCCESS))"

section \<open>Handlers\<close>

text \<open>A handler gets the message that caused the event, if there is one, and returns the next
  event.\<close>

type_synonym fhandler_fun =
  "env \<Rightarrow> addr \<Rightarrow> pcp_recv_msg option \<Rightarrow> pcp_ctx \<Rightarrow> (pcp_ctx \<times> pcp_flow_event_e) option"

definition tv_add_ms :: "timeval \<Rightarrow> u32 \<Rightarrow> timeval" where
  "tv_add_ms t ms = Timeval (tv_sec t + uint (ms div 1000)) (tv_usec t + uint (ms mod 1000 * 1000))"

text \<open>The macro \<^verbatim>\<open>PCP_RT\<close>, with the random number it draws; the product is a 32-bit number.\<close>

definition PCP_RT :: "u32 \<Rightarrow> u32 \<Rightarrow> u32" where
  "PCP_RT rnd rtprev =
     (let rt = push_bit 1 rtprev;
          rt = max rt PCP_RETX_IRT;
          rt = min rt PCP_RETX_MRT
      in drop_bit 13 ((8192 + (1024 - (rnd AND 2047))) * rt))"

definition fhndl_send :: fhandler_fun where
  "fhndl_send E a msg c =
     do { f \<leftarrow> c_heap c a;
          case get_pcp_server c (sint (f_pcp_server_indx f)) of
            None \<Rightarrow> Some (c, fev_failed)
          | Some i \<Rightarrow>
              if s_restart_flow_msg (c_pcp_servers c ! i) = Some a then Some (c, fev_ignored)
              else do { (c, r) \<leftarrow> pcp_flow_send_msg E a i c;
                        if r \<noteq> PCP_ERR_SUCCESS then Some (c, fev_failed)
                        else do { let now = gettimeofday E c;
                                  c \<leftarrow> upd_flow a (\<lambda>f. f\<lparr>f_resend_timeout := PCP_RETX_IRT,
                                         f_timeout := tv_add_ms now PCP_RETX_IRT\<rparr>) (tick c);
                                  Some (c, fev_msg_sent) } } }"

definition fhndl_resend :: fhandler_fun where
  "fhndl_resend E a msg c =
     do { f \<leftarrow> c_heap c a;
          case get_pcp_server c (sint (f_pcp_server_indx f)) of
            None \<Rightarrow> Some (c, fev_failed)
          | Some i \<Rightarrow>
              do { c \<leftarrow> upd_flow a (\<lambda>f. f\<lparr>f_retry_count := f_retry_count f + 1\<rparr>) c;
                   if f_retry_count f + 1 \<ge> PCP_RETX_MRC then Some (c, fev_failed)
                   else do { (c, r) \<leftarrow> pcp_flow_send_msg E a i c;
                             if r \<noteq> PCP_ERR_SUCCESS then Some (c, fev_failed)
                             else do { let rnd = env_rand E (c_tick c);
                                       let c = tick c;
                                       let now = gettimeofday E c;
                                       c \<leftarrow> upd_flow a (\<lambda>f. let rt = PCP_RT rnd (f_resend_timeout f) in
                                              f\<lparr>f_resend_timeout := rt, f_timeout := tv_add_ms now rt\<rparr>) (tick c);
                                       Some (c, fev_msg_sent) } } } }"

definition fhndl_shortlifeerror :: fhandler_fun where
  "fhndl_shortlifeerror E a msg c =
     do { m \<leftarrow> msg;
          let now = gettimeofday E c;
          c \<leftarrow> upd_flow a (\<lambda>f. f\<lparr>f_recv_result := m_recv_result m,
                 f_timeout := Timeval (tv_sec now + uint (m_recv_lifetime m)) (tv_usec now)\<rparr>) (tick c);
          Some (c, fev_none) }"

definition fhndl_received_success :: fhandler_fun where
  "fhndl_received_success E a msg c =
     do { m \<leftarrow> msg;
          let ctv = gettimeofday E c;
          let lifetime = (if uint (m_recv_lifetime m) > LONG_MAX - m_received_time m then LONG_MAX
                          else m_received_time m + uint (m_recv_lifetime m));
          c \<leftarrow> upd_flow a (\<lambda>f. f\<lparr>f_recv_lifetime := lifetime,
                 f_u := (if kd_operation (f_kd f) = PCP_OPCODE_MAP \<or> kd_operation (f_kd f) = PCP_OPCODE_PEER
                         then U_map_peer (m_assigned_ext_ip m) (m_assigned_ext_port m)
                         else if kd_operation (f_kd f) = PCP_OPCODE_SADSCP
                         then U_sadscp (u_toler_fields (f_u f)) (u_app_name_length (f_u f)) (m_recv_dscp m)
                         else f_u f),
                 f_recv_result := m_recv_result m,
                 f_timeout := (if m_recv_lifetime m = 0 then Timeval 0 0
                               else Timeval (tv_sec ctv + (lifetime - tv_sec ctv) div 2) (tv_usec ctv))\<rparr>) (tick c);
          Some (c, fev_none) }"

definition fhndl_send_renew :: fhandler_fun where
  "fhndl_send_renew E a msg c =
     do { f \<leftarrow> c_heap c a;
          case get_pcp_server c (sint (f_pcp_server_indx f)) of
            None \<Rightarrow> Some (c, fev_failed)
          | Some i \<Rightarrow>
              do { (c, r) \<leftarrow> pcp_flow_send_msg E a i c;
                   if r \<noteq> PCP_ERR_SUCCESS then Some (c, fev_failed)
                   else do { let now = gettimeofday E c;
                             c \<leftarrow> upd_flow a (\<lambda>f. f\<lparr>f_timeout := now\<rparr>) (tick c);
                             f \<leftarrow> c_heap c a;
                             let timeout_add = (f_recv_lifetime f - tv_sec now) div 2;
                             if timeout_add = 0 then Some (c, fev_failed)
                             else do { c \<leftarrow> upd_flow a (\<lambda>f. f\<lparr>f_timeout :=
                                              Timeval (tv_sec now + timeout_add) (tv_usec now)\<rparr>) c;
                                       Some (c, fev_msg_sent) } } } }"

definition fhndl_clear_timeouts :: fhandler_fun where
  "fhndl_clear_timeouts E a msg c =
     do { c \<leftarrow> (case msg of None \<Rightarrow> Some c
               | Some m \<Rightarrow> upd_flow a (\<lambda>f. f\<lparr>f_recv_result := m_recv_result m\<rparr>) c);
          c \<leftarrow> pcp_flow_clear_msg_buf (Some a) c;
          c \<leftarrow> upd_flow a (\<lambda>f. f\<lparr>f_timeout := Timeval 0 0\<rparr>) c;
          Some (c, fev_none) }"

definition fhndl_waitresp :: fhandler_fun where
  "fhndl_waitresp E a msg c =
     do { f \<leftarrow> c_heap c a;
          let (t, ctv, r) = timeval_comp (f_timeout f) (gettimeofday E c);
          c \<leftarrow> upd_flow a (\<lambda>f. f\<lparr>f_timeout := t\<rparr>) (tick c);
          Some (c, if r < 0 then fev_failed else fev_none) }"

section \<open>The tables\<close>

datatype fhandler =
    H_waitresp | H_resend | H_send | H_shortlifeerror | H_received_success | H_send_renew
  | H_clear_timeouts

fun run_fhandler :: "fhandler \<Rightarrow> fhandler_fun" where
  "run_fhandler H_waitresp = fhndl_waitresp"
| "run_fhandler H_resend = fhndl_resend"
| "run_fhandler H_send = fhndl_send"
| "run_fhandler H_shortlifeerror = fhndl_shortlifeerror"
| "run_fhandler H_received_success = fhndl_received_success"
| "run_fhandler H_send_renew = fhndl_send_renew"
| "run_fhandler H_clear_timeouts = fhndl_clear_timeouts"

definition flow_transitions :: "(pcp_flow_state_e \<times> pcp_flow_state_e \<times> fhandler) list" where
  "flow_transitions =
    [(pfs_any, pfs_wait_resp, H_waitresp),
     (pfs_wait_resp, pfs_send, H_resend),
     (pfs_any, pfs_send, H_send),
     (pfs_any, pfs_wait_after_short_life_error, H_shortlifeerror),
     (pfs_wait_resp, pfs_wait_for_lifetime_renew, H_received_success),
     (pfs_any, pfs_send_renew, H_send_renew),
     (pfs_wait_for_lifetime_renew, pfs_wait_for_lifetime_renew, H_received_success),
     (pfs_any, pfs_wait_for_server_init, H_clear_timeouts),
     (pfs_any, pfs_failed, H_clear_timeouts)]"

definition flow_events_sm :: "(pcp_flow_state_e \<times> pcp_flow_event_e \<times> pcp_flow_state_e) list" where
  "flow_events_sm =
    [(pfs_any, fev_send, pfs_send),
     (pfs_wait_for_server_init, fev_server_initialized, pfs_send),
     (pfs_wait_resp, fev_res_success, pfs_wait_for_lifetime_renew),
     (pfs_wait_resp, fev_res_unsupp_version, pfs_wait_for_server_init),
     (pfs_wait_resp, fev_res_network_failure, pfs_wait_after_short_life_error),
     (pfs_wait_resp, fev_res_no_resources, pfs_wait_after_short_life_error),
     (pfs_wait_resp, fev_res_exc_remote_peers, pfs_wait_after_short_life_error),
     (pfs_wait_resp, fev_res_user_ex_quota, pfs_wait_after_short_life_error),
     (pfs_wait_resp, fev_flow_timedout, pfs_send),
     (pfs_wait_resp, fev_server_initialized, pfs_send),
     (pfs_send, fev_server_initialized, pfs_send),
     (pfs_send, fev_msg_sent, pfs_wait_resp),
     (pfs_send, fev_flow_timedout, pfs_send),
     (pfs_wait_after_short_life_error, fev_flow_timedout, pfs_send),
     (pfs_wait_for_lifetime_renew, fev_flow_timedout, pfs_send_renew),
     (pfs_wait_for_lifetime_renew, fev_res_success, pfs_wait_for_lifetime_renew),
     (pfs_wait_for_lifetime_renew, fev_res_unsupp_version, pfs_wait_for_server_init),
     (pfs_wait_for_lifetime_renew, fev_res_network_failure, pfs_send_renew),
     (pfs_wait_for_lifetime_renew, fev_res_no_resources, pfs_send_renew),
     (pfs_wait_for_lifetime_renew, fev_res_exc_remote_peers, pfs_send_renew),
     (pfs_wait_for_lifetime_renew, fev_failed, pfs_send),
     (pfs_wait_for_lifetime_renew, fev_res_user_ex_quota, pfs_send_renew),
     (pfs_send_renew, fev_msg_sent, pfs_wait_for_lifetime_renew),
     (pfs_send_renew, fev_flow_timedout, pfs_send_renew),
     (pfs_send_renew, fev_failed, pfs_send),
     (pfs_send, fev_ignored, pfs_wait_for_lifetime_renew),
     (pfs_any, fev_server_restarted, pfs_send),
     (pfs_any, fev_failed, pfs_failed),
     (pfs_wait_resp, fev_res_not_authorized, pfs_failed),
     (pfs_wait_resp, fev_res_malformed_request, pfs_failed),
     (pfs_wait_resp, fev_res_unsupp_opcode, pfs_failed),
     (pfs_wait_resp, fev_res_unsupp_option, pfs_failed),
     (pfs_wait_resp, fev_res_unsupp_protocol, pfs_failed),
     (pfs_wait_resp, fev_res_cant_provide_ext, pfs_failed),
     (pfs_wait_resp, fev_res_address_mismatch, pfs_failed),
     (pfs_wait_for_lifetime_renew, fev_res_not_authorized, pfs_failed),
     (pfs_wait_for_lifetime_renew, fev_res_malformed_request, pfs_failed),
     (pfs_wait_for_lifetime_renew, fev_res_unsupp_opcode, pfs_failed),
     (pfs_wait_for_lifetime_renew, fev_res_unsupp_option, pfs_failed),
     (pfs_wait_for_lifetime_renew, fev_res_unsupp_protocol, pfs_failed),
     (pfs_wait_for_lifetime_renew, fev_res_cant_provide_ext, pfs_failed),
     (pfs_wait_for_lifetime_renew, fev_res_address_mismatch, pfs_failed)]"

definition next_flow_state :: "pcp_flow_state_e \<Rightarrow> pcp_flow_event_e \<Rightarrow> pcp_flow_state_e option" where
  "next_flow_state cur ev =
     map_option (snd \<circ> snd) (find (\<lambda>(s, e, _). (s = cur \<or> s = pfs_any) \<and> e = ev) flow_events_sm)"

definition flow_transition :: "pcp_flow_state_e \<Rightarrow> pcp_flow_state_e \<Rightarrow> fhandler option" where
  "flow_transition cur nxt =
     map_option (snd \<circ> snd) (find (\<lambda>(s, t, _). (s = cur \<or> s = pfs_any) \<and> t = nxt) flow_transitions)"

section \<open>Events\<close>

definition flow_change_notify :: "addr \<Rightarrow> pcp_fstate_e \<Rightarrow> pcp_ctx \<Rightarrow> pcp_ctx option" where
  "flow_change_notify a state c =
     do { flow \<leftarrow> c_heap c a;
          if c_flow_change_cb c
          then let src = pcp_fill_sockaddr (kd_src_ip (f_kd flow)) (kd_src_port (f_kd flow)) False
                           (kd_scope_id (f_kd flow));
                   ext = (if state = pcp_state_succeeded
                          then pcp_fill_sockaddr (u_ext_ip (f_u flow)) (u_ext_port (f_u flow)) False 0
                          else Sockaddr_in 0 0)
               in Some (c\<lparr>c_notes := c_notes c @ [Flow_note a src ext state]\<rparr>)
          else Some c }"

partial_function (option) flow_event_loop ::
  "env \<Rightarrow> addr \<Rightarrow> pcp_recv_msg option \<Rightarrow> pcp_flow_state_e \<Rightarrow> pcp_flow_event_e \<Rightarrow> pcp_ctx \<Rightarrow> pcp_ctx option" where
  "flow_event_loop E a r cur_state ev c =
     (case next_flow_state cur_state ev of
        None \<Rightarrow> Some c
      | Some next_state \<Rightarrow>
          do { c \<leftarrow> upd_flow a (f_state_update (\<lambda>_. next_state)) c;
               case flow_transition cur_state next_state of
                 None \<Rightarrow> Some c
               | Some h \<Rightarrow>
                   do { (c, ev) \<leftarrow> run_fhandler h E a r c;
                        if ev = fev_none then Some c
                        else flow_event_loop E a r next_state ev c } })"

definition handle_flow_event ::
  "env \<Rightarrow> addr \<Rightarrow> pcp_flow_event_e \<Rightarrow> pcp_recv_msg option \<Rightarrow> pcp_ctx \<Rightarrow> (pcp_ctx \<times> pcp_flow_state_e) option" where
  "handle_flow_event E a ev r c =
     do { f \<leftarrow> c_heap c a;
          (_, before) \<leftarrow> pcp_eval_flow_state (Some a) c;
          c \<leftarrow> flow_event_loop E a r (f_state f) ev c;
          (_, after) \<leftarrow> pcp_eval_flow_state (Some a) c;
          g \<leftarrow> c_heap c a;
          c \<leftarrow> (if before \<noteq> after \<or> u_ext_ip (f_u f) \<noteq> u_ext_ip (f_u g) \<or>
                   u_ext_port (f_u f) \<noteq> u_ext_port (f_u g)
                then flow_change_notify a after c else Some c);
          g \<leftarrow> c_heap c a;
          Some (c, f_state g) }"

section \<open>What the state machine of a flow may change\<close>

definition flow_static :: "pcp_flow \<Rightarrow> pcp_flow" where
  "flow_static f = f\<lparr>f_u := U_map_peer in6_zero 0, f_recv_lifetime := 0, f_recv_result := 0,
     f_state := pfs_idle, f_resend_timeout := 0, f_retry_count := 0, f_timeout := tv_zero,
     f_pcp_msg_len := 0, f_pcp_msg_buffer := None\<rparr>"

text \<open>\<open>flow_frame a c c'\<close>: going from \<open>c\<close> to \<open>c'\<close> changes the clock, the log of datagrams and
  notes, and in memory only the flow at \<open>a\<close>, which keeps its key, its links, its server and
  its options, and stays well-formed.\<close>

definition flow_frame :: "addr \<Rightarrow> pcp_ctx \<Rightarrow> pcp_ctx \<Rightarrow> bool" where
  "flow_frame a c c' \<longleftrightarrow>
     c_pcp_servers c' = c_pcp_servers c \<and> c_flow_cnt c' = c_flow_cnt c \<and> c_flows c' = c_flows c \<and>
     c_flow_change_cb c' = c_flow_change_cb c \<and> c_msg c' = c_msg c \<and>
     (\<forall>b. b \<noteq> a \<longrightarrow> c_heap c' b = c_heap c b) \<and>
     map_option flow_static (c_heap c' a) = map_option flow_static (c_heap c a) \<and>
     (pred_option flow_wf (c_heap c a) \<longrightarrow> pred_option flow_wf (c_heap c' a))"

lemma flow_frame_refl [simp]: "flow_frame a c c"
  by (simp add: flow_frame_def)

lemma flow_frame_trans: "flow_frame a c d \<Longrightarrow> flow_frame a d e \<Longrightarrow> flow_frame a c e"
  by (simp add: flow_frame_def)

lemma flow_frame_tick [simp]: "flow_frame a c (tick c')  \<longleftrightarrow> flow_frame a c c'"
  by (simp add: flow_frame_def)

lemma flow_frame_logs [simp]:
  "flow_frame a c (c'\<lparr>c_sent := x\<rparr>) \<longleftrightarrow> flow_frame a c c'"
  "flow_frame a c (c'\<lparr>c_notes := y\<rparr>) \<longleftrightarrow> flow_frame a c c'"
  by (simp_all add: flow_frame_def)

lemma flow_frame_heap:
  assumes "flow_frame a c c'" and "c_heap c a = Some f"
  obtains g where "c_heap c' a = Some g" and "flow_static g = flow_static f"
  using assms by (auto simp: flow_frame_def)

text \<open>The same, with no call of the application.\<close>

definition quiet_frame :: "addr \<Rightarrow> pcp_ctx \<Rightarrow> pcp_ctx \<Rightarrow> bool" where
  "quiet_frame a c c' \<longleftrightarrow> flow_frame a c c' \<and> c_notes c' = c_notes c"

lemma quiet_frame_refl [simp]: "quiet_frame a c c"
  by (simp add: quiet_frame_def)

lemma quiet_frame_tick [simp]: "quiet_frame a c (tick c')  \<longleftrightarrow> quiet_frame a c c'"
  by (simp add: quiet_frame_def)

lemma quiet_frame_sent [simp]: "quiet_frame a c (c'\<lparr>c_sent := x\<rparr>) \<longleftrightarrow> quiet_frame a c c'"
  by (simp add: quiet_frame_def)

lemma quiet_frame_heap:
  assumes "quiet_frame a c c'" and "c_heap c a = Some f"
  obtains g where "c_heap c' a = Some g" and "flow_static g = flow_static f"
  using assms by (auto simp: quiet_frame_def flow_frame_def)

lemma yields_upd_flow:
  assumes "quiet_frame a c0 c" and "c_heap c0 a \<noteq> None"
    and "\<And>f. flow_static (g f) = flow_static f"
    and "\<And>f. pred_option flow_wf (c_heap c0 a) \<Longrightarrow> flow_wf f \<Longrightarrow> flow_wf (g f)"
  shows "yields (upd_flow a g c) (\<lambda>c'. quiet_frame a c0 c')"
proof -
  obtain f where "c_heap c a = Some f" using assms(1,2) quiet_frame_heap by blast
  then show ?thesis using assms(1,3,4) by (auto simp: quiet_frame_def flow_frame_def)
qed

text \<open>The socket contract: a send call reports at most what it was given.\<close>

definition sendto_bounded :: "env \<Rightarrow> bool" where
  "sendto_bounded E \<longleftrightarrow> (\<forall>n b. env_sendto E n b \<le> int (length b))"

lemma send_loop_frame:
  assumes E: "sendto_bounded E" and "quiet_frame a c0 c" and "n \<le> length data"
  shows "yields (send_loop E sa data n c) (\<lambda>(c', r). quiet_frame a c0 c')"
  using assms(2,3)
proof (induction n arbitrary: c rule: less_induct)
  case (less n)
  let ?rest = "drop (length data - n) data"
  have "env_sendto E (c_tick c) ?rest \<le> int n"
    using E less.prems(2) by (metis diff_diff_cancel length_drop sendto_bounded_def)
  then show ?case
    using less by (subst send_loop.simps) (auto simp: Let_def)
qed

lemma build_pcp_msg_frame:
  assumes "quiet_frame a c0 c" and "c_heap c0 a \<noteq> None"
  shows "yields (build_pcp_msg E a c) (\<lambda>(c', r). quiet_frame a c0 c')"
proof -
  obtain f where f: "c_heap c a = Some f" using assms quiet_frame_heap by blast
  have fail: "yields (upd_flow a (\<lambda>f. f\<lparr>f_pcp_msg_buffer := None, f_pcp_msg_len := 0\<rparr>) d) (\<lambda>c'. quiet_frame a c0 c')"
    if "quiet_frame a c0 d" for d
    by (rule yields_upd_flow [OF that assms(2)]) (auto simp: flow_static_def flow_wf_def)
  have ok: "yields (upd_flow a (\<lambda>f. f\<lparr>f_pcp_msg_buffer := Some buf', f_pcp_msg_len := len\<rparr>) d) (\<lambda>c'. quiet_frame a c0 c')"
    if "quiet_frame a c0 d" "build_request s f buf = (buf', len, ret)" "flow_wf f \<Longrightarrow> length buf = PCP_MAX_LEN"
    for d s buf buf' len ret
  proof (rule yields_upd_flow [OF that(1) assms(2)])
    assume "pred_option flow_wf (c_heap c0 a)"
    then have "flow_wf f" using assms(1) f by (simp add: quiet_frame_def flow_frame_def)
    then have "length buf' = PCP_MAX_LEN" "unat len \<le> PCP_MAX_LEN"
      using build_request_bounds [of f buf s] that(2,3) by auto
    then show "flow_wf g \<Longrightarrow> flow_wf (g\<lparr>f_pcp_msg_buffer := Some buf', f_pcp_msg_len := len\<rparr>)" for g
      by (simp add: flow_wf_def)
  qed (simp add: flow_static_def)
  have fin: "yields (let (buf', len, ret) = build_request s f buf in
      if ret < 0 then do { c \<leftarrow> upd_flow a (\<lambda>f. f\<lparr>f_pcp_msg_buffer := None, f_pcp_msg_len := 0\<rparr>) d; Some (c, False) }
      else do { c \<leftarrow> upd_flow a (\<lambda>f. f\<lparr>f_pcp_msg_buffer := Some buf', f_pcp_msg_len := len\<rparr>) d; Some (c, True) })
    (\<lambda>(c', r). quiet_frame a c0 c')"
    if "quiet_frame a c0 d" "flow_wf f \<Longrightarrow> length buf = PCP_MAX_LEN" for d s buf
    using fail [OF that(1)] ok [OF that(1) _ that(2)]
    by (cases "build_request s f buf") (auto simp: yields_bind_iff)
  show ?thesis
  proof (cases "get_pcp_server c (sint (f_pcp_server_indx f))")
    case None
    then show ?thesis using f assms(1) by (simp add: build_pcp_msg_def)
  next
    case (Some i)
    show ?thesis
    proof (cases "f_pcp_msg_buffer f")
      case None
      then show ?thesis
        using fin [of "tick c" "replicate PCP_MAX_LEN 0" "c_pcp_servers c ! i"] f Some assms(1)
        by (cases "calloc_buf E c") (simp_all add: build_pcp_msg_def)
    next
      case (Some buf)
      then show ?thesis
        using fin [of c buf "c_pcp_servers c ! i"] f \<open>get_pcp_server c _ = Some i\<close> assms(1)
        by (simp add: build_pcp_msg_def flow_wf_def)
    qed
  qed
qed

lemma yields_case_pair: "yields m (\<lambda>(c, r). P c) \<longleftrightarrow> yields (map_option fst m) P"
  by (auto simp: yields_def)

lemma pcp_flow_clear_msg_buf_frame:
  assumes "quiet_frame a c0 c" and "c_heap c0 a \<noteq> None"
  shows "yields (pcp_flow_clear_msg_buf (Some a) c) (\<lambda>c'. quiet_frame a c0 c')"
  unfolding pcp_flow_clear_msg_buf_def option.case
  by (rule yields_upd_flow [OF assms]) (auto simp: flow_static_def flow_wf_def)

lemma pcp_flow_send_msg_frame:
  assumes E: "sendto_bounded E" and fr: "quiet_frame a c0 c" and f0: "c_heap c0 a = Some f0" and wf: "flow_wf f0"
    and i: "i < length (c_pcp_servers c)"
  shows "yields (pcp_flow_send_msg E a i c) (\<lambda>(c', r). quiet_frame a c0 c')"
proof -
  have h: "c_heap c0 a \<noteq> None" using f0 by simp
  obtain f where f: "c_heap c a = Some f" using fr f0 quiet_frame_heap by blast
  let ?b = "if f_pcp_msg_buffer f = None \<or> f_pcp_msg_len f = 0
    then map_option fst (build_pcp_msg E a c) else Some c"
  have b: "yields ?b (\<lambda>c1. quiet_frame a c0 c1)"
    using build_pcp_msg_frame [OF fr h] fr by (simp add: yields_case_pair)
  show ?thesis
    unfolding pcp_flow_send_msg_def f server_at_in [OF i] bind.bind_lunit
  proof (rule yields_bind [OF b])
    fix c1
    assume fr1: "quiet_frame a c0 c1"
    then obtain g where g: "c_heap c1 a = Some g" using f0 quiet_frame_heap by blast
    then have wfg: "flow_wf g" using fr1 f0 wf by (simp add: quiet_frame_def flow_frame_def)
    let ?n = "unat (f_pcp_msg_len g)"
    let ?k = "\<lambda>(c, r). if r \<noteq> PCP_ERR_SUCCESS then Some (c, PCP_ERR_SEND_FAILED)
      else pcp_flow_clear_msg_buf (Some a) c \<bind> (\<lambda>c. Some (c, PCP_ERR_SUCCESS))"
    have snd: "yields (send_loop E sa (take ?n buf) ?n c1 \<bind> ?k) (\<lambda>(c', r). quiet_frame a c0 c')"
      if "?n \<le> length buf" for sa buf
    proof (rule yields_bind2 [OF send_loop_frame [OF E fr1]])
      show "?n \<le> length (take ?n buf)" using that by simp
      show "yields (if r \<noteq> PCP_ERR_SUCCESS then Some (c, PCP_ERR_SEND_FAILED)
          else pcp_flow_clear_msg_buf (Some a) c \<bind> (\<lambda>c. Some (c, PCP_ERR_SUCCESS))) (\<lambda>(c', r). quiet_frame a c0 c')"
        if "case (c, r) of (c', r) \<Rightarrow> quiet_frame a c0 c'" for c and r :: int
        using that pcp_flow_clear_msg_buf_frame [OF _ h, of c] by (auto simp: yields_bind_iff)
    qed
    show "yields (c_heap c1 a \<bind> (\<lambda>flow. case f_pcp_msg_buffer flow of None \<Rightarrow> Some (c1, PCP_ERR_SEND_FAILED)
        | Some buf \<Rightarrow> if unat (f_pcp_msg_len flow) > length buf then None
           else send_loop E (s_pcp_server_saddr (c_pcp_servers c ! i)) (take (unat (f_pcp_msg_len flow)) buf)
            (unat (f_pcp_msg_len flow)) c1 \<bind> ?k)) (\<lambda>(c', r). quiet_frame a c0 c')"
      using wfg fr1 snd by (auto simp: g flow_wf_def split: option.splits)
  qed
qed

section \<open>The handlers\<close>

text \<open>The events a handler returns.\<close>

fun handler_events :: "fhandler \<Rightarrow> pcp_flow_event_e set" where
  "handler_events H_waitresp = {fev_failed, fev_none}"
| "handler_events H_resend = {fev_failed, fev_msg_sent}"
| "handler_events H_send = {fev_failed, fev_ignored, fev_msg_sent}"
| "handler_events H_send_renew = {fev_failed, fev_msg_sent}"
| "handler_events h = {fev_none}"

definition needs_msg :: "fhandler \<Rightarrow> bool" where
  "needs_msg h \<longleftrightarrow> h = H_shortlifeerror \<or> h = H_received_success"

lemma run_fhandler_frame:
  assumes E: "sendto_bounded E" and fr: "quiet_frame a c0 c" and f0: "c_heap c0 a = Some f0" and wf: "flow_wf f0"
    and m: "needs_msg h \<Longrightarrow> r \<noteq> None"
  shows "yields (run_fhandler h E a r c) (\<lambda>(c', ev). quiet_frame a c0 c' \<and> ev \<in> handler_events h)"
proof -
  have h: "c_heap c0 a \<noteq> None" using f0 by simp
  obtain f where f: "c_heap c a = Some f" using fr f0 quiet_frame_heap by blast
  have upd: "yields (upd_flow a g d) (\<lambda>c'. quiet_frame a c0 c')"
    if "quiet_frame a c0 d" "\<And>f. flow_static (g f) = flow_static f" "\<And>f. flow_wf f \<Longrightarrow> flow_wf (g f)" for g d
    using yields_upd_flow [OF that(1) h that(2)] that(3) by simp
  have send: "yields (pcp_flow_send_msg E a i d) (\<lambda>(c', r). quiet_frame a c0 c')"
    if "quiet_frame a c0 d" "get_pcp_server c k = Some i" for d i k
  proof -
    have "i < length (c_pcp_servers d)"
      using get_pcp_server_SomeD [OF that(2)] that(1) fr by (simp add: quiet_frame_def flow_frame_def)
    then show ?thesis by (rule pcp_flow_send_msg_frame [OF E that(1) f0 wf])
  qed
  have clr: "yields (pcp_flow_clear_msg_buf (Some a) d) (\<lambda>c'. quiet_frame a c0 c')" if "quiet_frame a c0 d" for d
    using pcp_flow_clear_msg_buf_frame [OF that h] .
  have rd: "yields (c_heap d a) (\<lambda>_. True)" if "quiet_frame a c0 d" for d
    using quiet_frame_heap [OF that f0] by (metis yieldsI)
  note steps = yields_bind2 [OF send] yields_bind [OF upd] yields_bind [OF clr] yields_bind [OF rd]
  note fields = flow_static_def flow_wf_def Let_def
  show ?thesis
  proof (cases h)
    case H_send
    then show ?thesis using fr
      by (auto simp: fhndl_send_def f fields split: option.split intro!: steps simp del: upd_flow_heap)
  next
    case H_resend
    then show ?thesis using fr
      by (auto simp: fhndl_resend_def f fields split: option.split intro!: steps simp del: upd_flow_heap)
  next
    case H_send_renew
    then show ?thesis using fr
      by (auto simp: fhndl_send_renew_def f fields split: option.split intro!: steps simp del: upd_flow_heap)
  next
    case H_waitresp
    then show ?thesis using fr
      by (auto simp: fhndl_waitresp_def f fields split: prod.split intro!: steps simp del: upd_flow_heap)
  next
    case H_shortlifeerror
    then show ?thesis using fr m
      by (auto simp: fhndl_shortlifeerror_def f fields needs_msg_def intro!: steps simp del: upd_flow_heap)
  next
    case H_received_success
    then show ?thesis using fr m
      by (auto simp: fhndl_received_success_def f fields needs_msg_def intro!: steps simp del: upd_flow_heap)
  next
    case H_clear_timeouts
    then show ?thesis using fr
      by (cases r) (auto simp: fhndl_clear_timeouts_def f fields intro!: steps simp del: upd_flow_heap)
  qed
qed

section \<open>The event loop\<close>

definition is_response :: "pcp_flow_event_e \<Rightarrow> bool" where
  "is_response ev \<longleftrightarrow> ev \<notin> {fev_flow_timedout, fev_server_initialized, fev_send, fev_msg_sent, fev_failed,
     fev_none, fev_server_restarted, fev_ignored}"

lemma find_SomeD: "find P xs = Some x \<Longrightarrow> x \<in> set xs \<and> P x"
  by (induction xs) (auto split: if_splits)

lemma next_flow_state_in:
  "next_flow_state cur ev = Some nx \<Longrightarrow> \<exists>s. (s = cur \<or> s = pfs_any) \<and> (s, ev, nx) \<in> set flow_events_sm"
  by (auto simp: next_flow_state_def dest!: find_SomeD)

lemma flow_transition_in:
  "flow_transition cur nx = Some h \<Longrightarrow> \<exists>s. (s = cur \<or> s = pfs_any) \<and> (s, nx, h) \<in> set flow_transitions"
  by (auto simp: flow_transition_def dest!: find_SomeD)

fun handler_target :: "fhandler \<Rightarrow> pcp_flow_state_e set" where
  "handler_target H_waitresp = {pfs_wait_resp}"
| "handler_target H_resend = {pfs_send}"
| "handler_target H_send = {pfs_send}"
| "handler_target H_shortlifeerror = {pfs_wait_after_short_life_error}"
| "handler_target H_received_success = {pfs_wait_for_lifetime_renew}"
| "handler_target H_send_renew = {pfs_send_renew}"
| "handler_target H_clear_timeouts = {pfs_wait_for_server_init, pfs_failed}"

lemma flow_transition_target: "flow_transition cur nx = Some h \<Longrightarrow> nx \<in> handler_target h"
  by (drule flow_transition_in) (auto simp: flow_transitions_def)

text \<open>A measure on the situation the loop is in: how many more handler calls there can be.\<close>

definition calls_left :: "pcp_flow_state_e \<Rightarrow> pcp_flow_event_e \<Rightarrow> nat" where
  "calls_left s ev =
     (if s = pfs_wait_resp \<and> ev = fev_failed then 1
      else if s = pfs_send \<and> (ev = fev_failed \<or> ev = fev_ignored) then 1
      else if s = pfs_send \<and> ev = fev_msg_sent then 2
      else if s = pfs_send_renew \<and> ev = fev_msg_sent then 1
      else if s = pfs_send_renew \<and> ev = fev_failed then 3
      else 4)"

lemma internal_steps:
  "next_flow_state pfs_wait_resp fev_failed = Some pfs_failed"
  "next_flow_state pfs_send fev_failed = Some pfs_failed"
  "next_flow_state pfs_send fev_ignored = Some pfs_wait_for_lifetime_renew"
  "next_flow_state pfs_send fev_msg_sent = Some pfs_wait_resp"
  "next_flow_state pfs_send_renew fev_msg_sent = Some pfs_wait_for_lifetime_renew"
  "next_flow_state pfs_send_renew fev_failed = Some pfs_send"
  "flow_transition pfs_send pfs_wait_for_lifetime_renew = None"
  "flow_transition pfs_send_renew pfs_wait_for_lifetime_renew = None"
  "flow_transition pfs_send pfs_wait_resp = Some H_waitresp"
  "flow_transition pfs_send_renew pfs_send = Some H_send"
  "flow_transition s pfs_failed = Some H_clear_timeouts"
  by (simp_all add: next_flow_state_def flow_events_sm_def flow_transition_def flow_transitions_def)

lemma calls_left_target:
  assumes "nx \<in> handler_target h" and "ev' \<in> handler_events h" and "ev' \<noteq> fev_none"
  shows "calls_left nx ev' \<le> 3"
  using assms by (cases h) (auto simp: calls_left_def)

lemma flow_step_calls:
  assumes n: "next_flow_state s ev = Some nx" and t: "flow_transition s nx = Some h"
    and e: "ev' \<in> handler_events h" "ev' \<noteq> fev_none"
  shows "calls_left nx ev' < calls_left s ev"
proof (cases "calls_left s ev = 4")
  case True
  then show ?thesis using calls_left_target [OF flow_transition_target [OF t] e] by simp
next
  case False
  then consider "s = pfs_wait_resp" "ev = fev_failed" | "s = pfs_send" "ev = fev_failed"
    | "s = pfs_send" "ev = fev_ignored" | "s = pfs_send" "ev = fev_msg_sent"
    | "s = pfs_send_renew" "ev = fev_msg_sent" | "s = pfs_send_renew" "ev = fev_failed"
    by (auto simp: calls_left_def split: if_splits)
  then show ?thesis
    by cases (use n t e in \<open>auto simp: internal_steps calls_left_def\<close>)
qed

lemma flow_step_msg:
  assumes n: "next_flow_state s ev = Some nx" and t: "flow_transition s nx = Some h" and "needs_msg h"
  shows "is_response ev"
proof -
  have nx: "nx = pfs_wait_after_short_life_error \<or> nx = pfs_wait_for_lifetime_renew"
    using flow_transition_target [OF t] assms(3) by (auto simp: needs_msg_def)
  have s: "s \<noteq> pfs_send" "s \<noteq> pfs_send_renew" if "nx = pfs_wait_for_lifetime_renew"
    using that t internal_steps by auto
  obtain s' where s': "s' = s \<or> s' = pfs_any" and "(s', ev, nx) \<in> set flow_events_sm"
    using next_flow_state_in [OF n] by blast
  with nx show ?thesis
    using s by (elim disjE; simp add: flow_events_sm_def; auto simp: is_response_def)
qed

lemma handler_events_no_response: "ev \<in> handler_events h \<Longrightarrow> \<not> is_response ev"
  by (cases h) (auto simp: is_response_def)

lemma flow_event_loop_frame:
  assumes E: "sendto_bounded E" and f0: "c_heap c0 a = Some f0" and wf: "flow_wf f0"
    and "quiet_frame a c0 c" and "is_response ev \<Longrightarrow> r \<noteq> None"
  shows "yields (flow_event_loop E a r s ev c) (\<lambda>c'. quiet_frame a c0 c')"
  using assms(4,5)
proof (induction "calls_left s ev" arbitrary: s ev c rule: less_induct)
  case less
  show ?case
  proof (cases "next_flow_state s ev")
    case None
    then show ?thesis using less.prems by (subst flow_event_loop.simps) simp
  next
    case (Some nx)
    have u: "yields (upd_flow a (f_state_update (\<lambda>_. nx)) c) (\<lambda>c'. quiet_frame a c0 c')"
      using f0 by (intro yields_upd_flow [OF less.prems(1)]) (auto simp: flow_static_def flow_wf_def)
    have "yields (case flow_transition s nx of None \<Rightarrow> Some d
        | Some h \<Rightarrow> run_fhandler h E a r d \<bind> (\<lambda>(c, ev). if ev = fev_none then Some c else flow_event_loop E a r nx ev c))
      (\<lambda>c'. quiet_frame a c0 c')" if d: "quiet_frame a c0 d" for d
    proof (cases "flow_transition s nx")
      case None
      then show ?thesis using d by simp
    next
      case h: (Some h)
      have "yields (run_fhandler h E a r d) (\<lambda>(c', ev). quiet_frame a c0 c' \<and> ev \<in> handler_events h)"
        using flow_step_msg [OF Some h] less.prems(2) by (intro run_fhandler_frame [OF E d f0 wf]) auto
      then have "yields (run_fhandler h E a r d \<bind>
          (\<lambda>(c, ev). if ev = fev_none then Some c else flow_event_loop E a r nx ev c)) (\<lambda>c'. quiet_frame a c0 c')"
      proof (rule yields_bind2)
        fix c1 ev1
        assume "case (c1, ev1) of (c', ev) \<Rightarrow> quiet_frame a c0 c' \<and> ev \<in> handler_events h"
        then show "yields (if ev1 = fev_none then Some c1 else flow_event_loop E a r nx ev1 c1) (\<lambda>c'. quiet_frame a c0 c')"
          using flow_step_calls [OF Some h, of ev1] handler_events_no_response [of ev1 h]
          by (auto intro!: less.hyps)
      qed
      then show ?thesis using h by simp
    qed
    then show ?thesis using u Some by (subst flow_event_loop.simps) (auto intro: yields_bind)
  qed
qed

section \<open>The state reported for a chain\<close>

definition flow_states :: "pcp_ctx \<Rightarrow> addr list \<Rightarrow> pcp_flow_state_e list" where
  "flow_states c xs = map (\<lambda>a. f_state (the (c_heap c a))) xs"

definition exit_state :: "pcp_flow_state_e \<Rightarrow> bool" where
  "exit_state s \<longleftrightarrow> s = pfs_wait_for_lifetime_renew \<or> s = pfs_failed \<or> s = pfs_wait_after_short_life_error"

text \<open>What the states of the flows of a chain mean together.\<close>

definition chain_fstate :: "pcp_flow_state_e list \<Rightarrow> pcp_fstate_e" where
  "chain_fstate ss =
     (if (\<forall>s\<in>set ss. exit_state s)
      then if pfs_wait_for_lifetime_renew \<in> set ss then pcp_state_succeeded
           else if pfs_failed \<in> set ss then pcp_state_failed
           else pcp_state_short_lifetime_error
      else if pfs_wait_for_lifetime_renew \<in> set ss then pcp_state_partial_result
      else pcp_state_processing)"

lemma exit_state_simps [simp]:
  "exit_state pfs_wait_for_lifetime_renew" "exit_state pfs_failed" "exit_state pfs_wait_after_short_life_error"
  "\<not> exit_state pfs_any" "\<not> exit_state pfs_idle" "\<not> exit_state pfs_wait_for_server_init"
  "\<not> exit_state pfs_send" "\<not> exit_state pfs_wait_resp" "\<not> exit_state pfs_send_renew"
  by (simp_all add: exit_state_def)

lemma flow_states_simps [simp]:
  "flow_states c [] = []" "flow_states c (a # xs) = f_state (the (c_heap c a)) # flow_states c xs"
  by (simp_all add: flow_states_def)

lemma fchild_Some: "fchild c a = Some r \<longleftrightarrow> (\<exists>f. c_heap c a = Some f \<and> f_next_child f = r)"
  by (auto simp: fchild_def)

lemma eval_loop_chain:
  assumes "Chain (fchild c) p xs None"
  shows "eval_loop p n ne su fa c =
    (let ss = flow_states c xs in
     Some (n + int (length (filter exit_state ss)), ne \<or> (\<exists>s\<in>set ss. \<not> exit_state s),
       su \<or> pfs_wait_for_lifetime_renew \<in> set ss, fa \<or> pfs_failed \<in> set ss))"
  using assms
proof (induction xs arbitrary: p n ne su fa)
  case Nil
  then show ?case by (subst eval_loop.simps) simp
next
  case (Cons a xs)
  then obtain f where "p = Some a" and f: "c_heap c a = Some f" and "Chain (fchild c) (f_next_child f) xs None"
    by (auto simp: fchild_Some)
  with Cons.IH [of "f_next_child f"] show ?case
    by (subst eval_loop.simps)
      (cases "f_state f"; simp add: f Let_def)
qed

lemma pcp_eval_flow_state_chain:
  "Chain (fchild c) p xs None \<Longrightarrow> pcp_eval_flow_state p c =
    Some (int (length (filter exit_state (flow_states c xs))), chain_fstate (flow_states c xs))"
  by (auto simp: pcp_eval_flow_state_def eval_loop_chain chain_fstate_def Let_def)

lemma flow_static_sel:
  assumes "flow_static g = flow_static f"
  shows "f_next_child g = f_next_child f" "f_next g = f_next f" "f_key_bucket g = f_key_bucket f"
    "f_kd g = f_kd f" "f_pcp_server_indx g = f_pcp_server_indx f"
proof -
  have sel: "h g = h f" if "\<And>x. h (flow_static x) = h x" for h :: "pcp_flow \<Rightarrow> 'b"
    using arg_cong [OF assms, of h] that by simp
  show "f_next_child g = f_next_child f" "f_next g = f_next f" "f_key_bucket g = f_key_bucket f"
    "f_kd g = f_kd f" "f_pcp_server_indx g = f_pcp_server_indx f"
    by (rule sel, simp add: flow_static_def)+
qed

lemma flow_frame_fields:
  assumes "flow_frame a c c'"
  shows "fchild c' = fchild c" "fnext c' = fnext c" "fbucket c' = fbucket c"
proof -
  have sel: "map_option h (c_heap c' b) = map_option h (c_heap c b)"
    if "\<And>x. h (flow_static x) = h x" for h :: "pcp_flow \<Rightarrow> 'b" and b
  proof (cases "b = a")
    case True
    have "map_option h (map_option flow_static (c_heap c' a)) = map_option h (map_option flow_static (c_heap c a))"
      using assms by (simp add: flow_frame_def)
    then show ?thesis using that True by (simp add: option.map_comp comp_def)
  next
    case False
    then show ?thesis using assms by (simp add: flow_frame_def)
  qed
  show "fchild c' = fchild c" unfolding fchild_def fun_eq_iff
    by (intro allI sel) (simp add: flow_static_def)
  show "fnext c' = fnext c" unfolding fnext_def fun_eq_iff
    by (intro allI sel) (simp add: flow_static_def)
  show "fbucket c' = fbucket c" unfolding fbucket_def fun_eq_iff
    by (intro allI sel) (simp add: flow_static_def)
qed

lemma flow_frame_db: "flow_frame a c c' \<Longrightarrow> db_rep c' bs \<longleftrightarrow> db_rep c bs"
  by (rule db_rep_cong) (simp_all only: flow_frame_fields, simp_all add: flow_frame_def)

lemma flow_change_notify_frame:
  assumes "flow_frame a c0 c" and "c_heap c0 a = Some f0"
  shows "yields (flow_change_notify a st c) (\<lambda>c'. flow_frame a c0 c' \<and> c_heap c' = c_heap c)"
proof -
  obtain g where "c_heap c a = Some g" using flow_frame_heap [OF assms] .
  then show ?thesis using assms(1) by (simp add: flow_change_notify_def Let_def)
qed

text \<open>What the application is told of a flow: its source, its state and, once that is a
  success, its external address.\<close>

definition note_of :: "addr \<Rightarrow> pcp_flow \<Rightarrow> pcp_fstate_e \<Rightarrow> flow_note" where
  "note_of a f st = Flow_note a
     (pcp_fill_sockaddr (kd_src_ip (f_kd f)) (kd_src_port (f_kd f)) False (kd_scope_id (f_kd f)))
     (if st = pcp_state_succeeded then pcp_fill_sockaddr (u_ext_ip (f_u f)) (u_ext_port (f_u f)) False 0
      else Sockaddr_in 0 0) st"

lemma flow_change_notify_note:
  "c_heap c a = Some f \<Longrightarrow> flow_change_notify a st c =
    Some (c\<lparr>c_notes := c_notes c @ (if c_flow_change_cb c then [note_of a f st] else [])\<rparr>)"
  by (simp add: flow_change_notify_def note_of_def Let_def)

text \<open>Whether the flow \<open>g\<close> with the chain state \<open>after\<close> differs from \<open>f\<close> and \<open>before\<close> in what the
  application sees.\<close>

definition seen_change :: "pcp_fstate_e \<Rightarrow> pcp_fstate_e \<Rightarrow> pcp_flow \<Rightarrow> pcp_flow \<Rightarrow> bool" where
  "seen_change before after f g \<longleftrightarrow> before \<noteq> after \<or> u_ext_ip (f_u f) \<noteq> u_ext_ip (f_u g) \<or>
     u_ext_port (f_u f) \<noteq> u_ext_port (f_u g)"

lemma flow_states_notes [simp]: "flow_states (c\<lparr>c_notes := x\<rparr>) xs = flow_states c xs"
  by (simp add: flow_states_def)

lemma handle_flow_event_frame:
  assumes E: "sendto_bounded E" and f: "c_heap c a = Some f" and wf: "flow_wf f"
    and ch: "Chain (fchild c) (Some a) xs None" and r: "is_response ev \<Longrightarrow> r \<noteq> None"
  shows "yields (handle_flow_event E a ev r c) (\<lambda>(c', st). flow_frame a c c' \<and>
    (\<exists>g. c_heap c' a = Some g \<and> f_state g = st \<and>
      c_notes c' = c_notes c @
        (if c_flow_change_cb c \<and> seen_change (chain_fstate (flow_states c xs)) (chain_fstate (flow_states c' xs)) f g
         then [note_of a g (chain_fstate (flow_states c' xs))] else [])))"
  unfolding handle_flow_event_def f bind.bind_lunit pcp_eval_flow_state_chain [OF ch] split_conv
proof (rule yields_bind [OF flow_event_loop_frame [OF E f wf quiet_frame_refl r]])
  fix c1
  assume q: "quiet_frame a c c1"
  then have fr: "flow_frame a c c1" and n: "c_notes c1 = c_notes c" "c_flow_change_cb c1 = c_flow_change_cb c"
    by (simp_all add: quiet_frame_def flow_frame_def)
  obtain g where g: "c_heap c1 a = Some g" using fr f by (rule flow_frame_heap)
  have ch1: "Chain (fchild c1) (Some a) xs None" using ch flow_frame_fields(1) [OF fr] by simp
  show "yields (pcp_eval_flow_state (Some a) c1 \<bind> (\<lambda>(_, after). c_heap c1 a \<bind>
      (\<lambda>g. (if chain_fstate (flow_states c xs) \<noteq> after \<or> u_ext_ip (f_u f) \<noteq> u_ext_ip (f_u g) \<or>
             u_ext_port (f_u f) \<noteq> u_ext_port (f_u g)
          then flow_change_notify a after c1 else Some c1) \<bind>
         (\<lambda>c. c_heap c a \<bind> (\<lambda>g. Some (c, f_state g)))))) (\<lambda>(c', st). flow_frame a c c' \<and>
    (\<exists>g. c_heap c' a = Some g \<and> f_state g = st \<and>
      c_notes c' = c_notes c @
        (if c_flow_change_cb c \<and> seen_change (chain_fstate (flow_states c xs)) (chain_fstate (flow_states c' xs)) f g
         then [note_of a g (chain_fstate (flow_states c' xs))] else [])))"
    unfolding pcp_eval_flow_state_chain [OF ch1] bind.bind_lunit split_conv g flow_change_notify_note [OF g]
      seen_change_def [symmetric]
    by (cases "seen_change (chain_fstate (flow_states c xs)) (chain_fstate (flow_states c1 xs)) f g")
      (use fr g n in simp_all)
qed

section \<open>Outcomes\<close>

text \<open>The result codes by what the client does about them: try again when the lifetime of the
  error has passed, give up, renegotiate the version; any other code is not handled.\<close>

definition short_life_codes :: "u32 list" where
  "short_life_codes = [7, 8, 10, 13]"

definition failure_codes :: "u32 list" where
  "failure_codes = [2, 3, 4, 5, 9, 11, 12]"

text \<open>The flow after a response to its request, at the time \<open>now\<close>.\<close>

definition on_response :: "timeval \<Rightarrow> pcp_recv_msg \<Rightarrow> pcp_flow \<Rightarrow> pcp_flow" where
  "on_response now m f =
     (if m_recv_result m = 0 then
        let expiry = min LONG_MAX (m_received_time m + uint (m_recv_lifetime m)) in
        f\<lparr>f_state := pfs_wait_for_lifetime_renew, f_recv_lifetime := expiry,
          f_u := (if kd_operation (f_kd f) = PCP_OPCODE_MAP \<or> kd_operation (f_kd f) = PCP_OPCODE_PEER
                  then U_map_peer (m_assigned_ext_ip m) (m_assigned_ext_port m)
                  else if kd_operation (f_kd f) = PCP_OPCODE_SADSCP
                  then U_sadscp (u_toler_fields (f_u f)) (u_app_name_length (f_u f)) (m_recv_dscp m)
                  else f_u f),
          f_recv_result := 0,
          f_timeout := (if m_recv_lifetime m = 0 then tv_zero
                        else Timeval (tv_sec now + (expiry - tv_sec now) div 2) (tv_usec now))\<rparr>
      else if m_recv_result m \<in> set short_life_codes then
        f\<lparr>f_state := pfs_wait_after_short_life_error, f_recv_result := m_recv_result m,
          f_timeout := Timeval (tv_sec now + uint (m_recv_lifetime m)) (tv_usec now)\<rparr>
      else if m_recv_result m = 1 \<or> m_recv_result m \<in> set failure_codes then
        f\<lparr>f_state := (if m_recv_result m = 1 then pfs_wait_for_server_init else pfs_failed),
          f_recv_result := m_recv_result m, f_pcp_msg_buffer := None, f_pcp_msg_len := 0,
          f_timeout := tv_zero\<rparr>
      else f)"

lemma response_next_state:
  "next_flow_state pfs_wait_resp (fev_of_result r) =
    (if r = 0 then Some pfs_wait_for_lifetime_renew
     else if r \<in> set short_life_codes then Some pfs_wait_after_short_life_error
     else if r = 1 then Some pfs_wait_for_server_init
     else if r \<in> set failure_codes then Some pfs_failed else None)"
  by (simp add: fev_of_result_def next_flow_state_def flow_events_sm_def short_life_codes_def failure_codes_def)

lemma wait_resp_handlers:
  "flow_transition pfs_wait_resp pfs_wait_for_lifetime_renew = Some H_received_success"
  "flow_transition pfs_wait_resp pfs_wait_after_short_life_error = Some H_shortlifeerror"
  "flow_transition pfs_wait_resp pfs_wait_for_server_init = Some H_clear_timeouts"
  "flow_transition pfs_wait_resp pfs_send = Some H_resend"
  by (simp_all add: flow_transition_def flow_transitions_def)

lemma response_loop:
  assumes f: "c_heap c a = Some f"
  shows "\<exists>n. flow_event_loop E a (Some m) pfs_wait_resp (fev_of_result (m_recv_result m)) c =
    Some (c\<lparr>c_heap := (c_heap c)(a \<mapsto> on_response (gettimeofday E c) m f), c_tick := n\<rparr>)"
proof -
  note defs = f on_response_def response_next_state wait_resp_handlers internal_steps tv_zero_def
    fhndl_received_success_def fhndl_shortlifeerror_def fhndl_clear_timeouts_def pcp_flow_clear_msg_buf_def
    gettimeofday_def tick_def Let_def
  consider "m_recv_result m = 0" | "m_recv_result m \<in> set short_life_codes" | "m_recv_result m = 1"
    | "m_recv_result m \<in> set failure_codes"
    | "m_recv_result m \<noteq> 0" "m_recv_result m \<notin> set short_life_codes" "m_recv_result m \<noteq> 1"
      "m_recv_result m \<notin> set failure_codes" by blast
  then show ?thesis
  proof cases
    case 1
    have "(if uint (m_recv_lifetime m) > LONG_MAX - m_received_time m then LONG_MAX
        else m_received_time m + uint (m_recv_lifetime m)) = min LONG_MAX (m_received_time m + uint (m_recv_lifetime m))"
      by (simp add: min_def)
    with 1 show ?thesis
      by (subst flow_event_loop.simps) (intro exI [of _ "Suc (c_tick c)"], simp add: defs)
  next
    case 2
    then have "m_recv_result m \<noteq> 0" by (auto simp: short_life_codes_def)
    then show ?thesis using 2
      by (subst flow_event_loop.simps) (intro exI [of _ "Suc (c_tick c)"], simp add: defs)
  next
    case 3
    then have "m_recv_result m \<notin> set short_life_codes" by (auto simp: short_life_codes_def)
    then show ?thesis using 3
      by (subst flow_event_loop.simps) (intro exI [of _ "c_tick c"], simp add: defs)
  next
    case 4
    then have "m_recv_result m \<noteq> 0" "m_recv_result m \<notin> set short_life_codes" "m_recv_result m \<noteq> 1"
      by (auto simp: short_life_codes_def failure_codes_def)
    then show ?thesis using 4
      by (subst flow_event_loop.simps) (intro exI [of _ "c_tick c"], simp add: defs)
  next
    case 5
    then show ?thesis using f
      by (subst flow_event_loop.simps) (intro exI [of _ "c_tick c"], simp add: defs fun_upd_idem)
  qed
qed

lemma on_response_child [simp]: "f_next_child (on_response now m f) = f_next_child f"
  by (simp add: on_response_def Let_def)

lemma Chain_same_child:
  assumes "c_heap c a = Some f" and "f_next_child g = f_next_child f"
  shows "Chain (fchild (c\<lparr>c_heap := (c_heap c)(a \<mapsto> g)\<rparr>)) p xs q = Chain (fchild c) p xs q"
proof -
  have "fchild (c\<lparr>c_heap := (c_heap c)(a \<mapsto> g)\<rparr>) = fchild c"
    using assms by (auto simp: fchild_def fun_eq_iff)
  then show ?thesis by simp
qed

lemma fchild_tick [simp]: "fchild (c\<lparr>c_tick := n\<rparr>) = fchild c" "fchild (tick c) = fchild c"
  by (simp_all add: fchild_def fun_eq_iff)

text \<open>The end of \<open>handle_flow_event\<close> does not touch the flows.\<close>

lemma handle_flow_event_loop:
  assumes f: "c_heap c a = Some f" and ch: "Chain (fchild c) (Some a) xs None"
    and l: "flow_event_loop E a r (f_state f) ev c = Some c1" and g: "c_heap c1 a = Some g"
    and ch1: "Chain (fchild c1) (Some a) xs None"
  shows "\<exists>ns. handle_flow_event E a ev r c = Some (c1\<lparr>c_notes := c_notes c1 @ ns\<rparr>, f_state g)"
proof -
  let ?st = "chain_fstate (flow_states c1 xs)"
  let ?ns = "if seen_change (chain_fstate (flow_states c xs)) ?st f g \<and> c_flow_change_cb c1
    then [note_of a g ?st] else []"
  have "handle_flow_event E a ev r c = Some (c1\<lparr>c_notes := c_notes c1 @ ?ns\<rparr>, f_state g)"
    unfolding handle_flow_event_def f bind.bind_lunit pcp_eval_flow_state_chain [OF ch] split_conv l
      pcp_eval_flow_state_chain [OF ch1] g flow_change_notify_note [OF g] seen_change_def [symmetric]
    using g by simp
  then show ?thesis by blast
qed

lemma handle_response:
  assumes f: "c_heap c a = Some f" "f_state f = pfs_wait_resp" and ch: "Chain (fchild c) (Some a) xs None"
  shows "\<exists>c'. handle_flow_event E a (fev_of_result (m_recv_result m)) (Some m) c =
      Some (c', f_state (on_response (gettimeofday E c) m f)) \<and>
    c_heap c' = (c_heap c)(a \<mapsto> on_response (gettimeofday E c) m f) \<and> c_sent c' = c_sent c"
proof -
  let ?g = "on_response (gettimeofday E c) m f"
  obtain n where "flow_event_loop E a (Some m) (f_state f) (fev_of_result (m_recv_result m)) c =
      Some (c\<lparr>c_heap := (c_heap c)(a \<mapsto> ?g), c_tick := n\<rparr>)"
    using response_loop [OF f(1), of E m] f(2) by auto
  then show ?thesis
    using handle_flow_event_loop [OF f(1) ch, where ?c1.0 = "c\<lparr>c_heap := (c_heap c)(a \<mapsto> ?g), c_tick := n\<rparr>"
        and g = ?g and r = "Some m" and E = E and ev = "fev_of_result (m_recv_result m)"]
      ch Chain_same_child [OF f(1), of ?g]
    by auto
qed

section \<open>Timeouts\<close>

text \<open>Sending changes the message buffer of the flow only.\<close>

definition flow_nomsg :: "pcp_flow \<Rightarrow> pcp_flow" where
  "flow_nomsg f = f\<lparr>f_pcp_msg_len := 0, f_pcp_msg_buffer := None\<rparr>"

lemma flow_nomsg_upd [simp]:
  "flow_nomsg (f\<lparr>f_pcp_msg_buffer := b, f_pcp_msg_len := n\<rparr>) = flow_nomsg f"
  by (simp add: flow_nomsg_def)

lemma flow_nomsg_eqD:
  assumes "flow_nomsg g = flow_nomsg f"
  shows "f_retry_count g = f_retry_count f" "f_state g = f_state f" "f_recv_lifetime g = f_recv_lifetime f"
    "f_resend_timeout g = f_resend_timeout f" "f_timeout g = f_timeout f" "f_next_child g = f_next_child f"
    "f_pcp_server_indx g = f_pcp_server_indx f" "f_u g = f_u f"
proof -
  have sel: "h g = h f" if "\<And>x. h (flow_nomsg x) = h x" for h :: "pcp_flow \<Rightarrow> 'b"
    using arg_cong [OF assms, of h] that by simp
  show "f_retry_count g = f_retry_count f" by (rule sel) (simp add: flow_nomsg_def)
  show "f_state g = f_state f" by (rule sel) (simp add: flow_nomsg_def)
  show "f_recv_lifetime g = f_recv_lifetime f" by (rule sel) (simp add: flow_nomsg_def)
  show "f_resend_timeout g = f_resend_timeout f" by (rule sel) (simp add: flow_nomsg_def)
  show "f_timeout g = f_timeout f" by (rule sel) (simp add: flow_nomsg_def)
  show "f_next_child g = f_next_child f" by (rule sel) (simp add: flow_nomsg_def)
  show "f_pcp_server_indx g = f_pcp_server_indx f" by (rule sel) (simp add: flow_nomsg_def)
  show "f_u g = f_u f" by (rule sel) (simp add: flow_nomsg_def)
qed

lemma send_loop_heap: "send_loop E sa d n c = Some (c', r) \<Longrightarrow> c_heap c' = c_heap c"
proof (induction n arbitrary: c rule: less_induct)
  case (less n)
  let ?r = "env_sendto E (c_tick c) (drop (length d - n) d)"
  show ?case
  proof (cases "n = 0 \<or> ?r \<le> 0 \<or> ?r > int n")
    case True
    then show ?thesis using less.prems by (subst (asm) send_loop.simps) (auto simp: Let_def split: if_split_asm)
  next
    case False
    then show ?thesis using less.prems less.IH [of "n - nat ?r"]
      by (subst (asm) send_loop.simps) (auto simp: Let_def)
  qed
qed

lemma build_pcp_msg_nomsg:
  "build_pcp_msg E a c = Some (c', r) \<Longrightarrow>
    map_option flow_nomsg (c_heap c' a) = map_option flow_nomsg (c_heap c a)"
  by (auto simp: build_pcp_msg_def Let_def upd_flow_Some bind_eq_Some_conv case_prod_unfold
      split: option.split_asm if_split_asm)

lemma pcp_flow_send_msg_nomsg:
  assumes "pcp_flow_send_msg E a i c = Some (c', r)"
  shows "map_option flow_nomsg (c_heap c' a) = map_option flow_nomsg (c_heap c a)"
proof -
  obtain f c1 where f: "c_heap c a = Some f" and b: "(if f_pcp_msg_buffer f = None \<or> f_pcp_msg_len f = 0
      then map_option fst (build_pcp_msg E a c) else Some c) = Some c1"
    using assms by (auto simp: pcp_flow_send_msg_def bind_eq_Some_conv)
  have c1: "map_option flow_nomsg (c_heap c1 a) = map_option flow_nomsg (c_heap c a)"
    using b build_pcp_msg_nomsg [of E a c c1] by (auto split: if_splits)
  then obtain g where g: "c_heap c1 a = Some g" using f by auto
  show ?thesis
  proof (cases "f_pcp_msg_buffer g")
    case None
    then show ?thesis using assms f b g c1 by (auto simp: pcp_flow_send_msg_def bind_eq_Some_conv)
  next
    case (Some buf)
    let ?n = "unat (f_pcp_msg_len g)"
    obtain sa c2 r2 where l: "send_loop E sa (take ?n buf) ?n c1 = Some (c2, r2)"
      and k: "(if r2 \<noteq> PCP_ERR_SUCCESS then Some (c2, PCP_ERR_SEND_FAILED)
        else pcp_flow_clear_msg_buf (Some a) c2 \<bind> (\<lambda>c. Some (c, PCP_ERR_SUCCESS))) = Some (c', r)"
      using assms f b g Some by (auto simp: pcp_flow_send_msg_def bind_eq_Some_conv split: if_split_asm)
    have "c_heap c2 = c_heap c1" using l by (rule send_loop_heap)
    then show ?thesis using k c1 g
      by (auto simp: pcp_flow_clear_msg_buf_def split: if_splits)
  qed
qed

lemma failed_loop:
  assumes "c_heap c a = Some f" and "s = pfs_send \<or> s = pfs_wait_resp"
  shows "yields (flow_event_loop E a r s fev_failed c) (\<lambda>c'. \<exists>g. c_heap c' a = Some g \<and> f_state g = pfs_failed)"
proof -
  have n: "next_flow_state s fev_failed = Some pfs_failed" using assms(2) internal_steps by auto
  show ?thesis
    using assms(1) by (subst flow_event_loop.simps)
      (cases r; simp add: n internal_steps fhndl_clear_timeouts_def pcp_flow_clear_msg_buf_def)
qed

lemma sent_loop:
  assumes f: "c_heap c a = Some f"
  shows "yields (flow_event_loop E a r pfs_send fev_msg_sent c) (\<lambda>c'. \<exists>g. c_heap c' a = Some g \<and>
    (f_state g = pfs_failed \<or> f_state g = pfs_wait_resp \<and> f_retry_count g = f_retry_count f))"
proof -
  obtain t ctv k where t: "timeval_comp (f_timeout f) (gettimeofday E c) = (t, ctv, k)"
    by (cases "timeval_comp (f_timeout f) (gettimeofday E c)")
  define c1 where "c1 = (tick c)\<lparr>c_heap := (c_heap c)(a \<mapsto> f\<lparr>f_state := pfs_wait_resp, f_timeout := t\<rparr>)\<rparr>"
  have h: "c_heap c1 a = Some (f\<lparr>f_state := pfs_wait_resp, f_timeout := t\<rparr>)" by (simp add: c1_def)
  have "flow_event_loop E a r pfs_send fev_msg_sent c =
      (if k < 0 then flow_event_loop E a r pfs_wait_resp fev_failed c1 else Some c1)"
    using f t by (subst flow_event_loop.simps)
      (simp add: internal_steps fhndl_waitresp_def gettimeofday_def tick_def c1_def)
  then show ?thesis
    using failed_loop [OF h, of pfs_wait_resp E r] h by (auto elim!: yields_mono)
qed

lemma timeout_loop:
  assumes E: "sendto_bounded E" and f: "c_heap c a = Some f" and wf: "flow_wf f"
  shows "yields (flow_event_loop E a r pfs_wait_resp fev_flow_timedout c) (\<lambda>c'. \<exists>g. c_heap c' a = Some g \<and>
    (f_state g = pfs_failed \<or> f_state g = pfs_wait_resp \<and> f_retry_count g = f_retry_count f + 1 \<and>
       f_retry_count f + 1 < PCP_RETX_MRC))"
proof -
  let ?c = "c\<lparr>c_heap := (c_heap c)(a \<mapsto> f\<lparr>f_state := pfs_send\<rparr>)\<rparr>"
  have "next_flow_state pfs_wait_resp fev_flow_timedout = Some pfs_send"
    by (simp add: next_flow_state_def flow_events_sm_def)
  then have u: "flow_event_loop E a r pfs_wait_resp fev_flow_timedout c = fhndl_resend E a r ?c \<bind>
      (\<lambda>(c, ev). if ev = fev_none then Some c else flow_event_loop E a r pfs_send ev c)"
    using f by (subst flow_event_loop.simps) (simp add: wait_resp_handlers)
  have r: "yields (fhndl_resend E a r ?c) (\<lambda>(c', ev). \<exists>g. c_heap c' a = Some g \<and> (ev = fev_failed \<or>
      ev = fev_msg_sent \<and> f_retry_count g = f_retry_count f + 1 \<and> f_retry_count f + 1 < PCP_RETX_MRC))"
  proof (cases "get_pcp_server ?c (sint (f_pcp_server_indx f))")
    case None
    then show ?thesis by (simp add: fhndl_resend_def)
  next
    case (Some i)
    let ?d = "?c\<lparr>c_heap := (c_heap ?c)(a \<mapsto> f\<lparr>f_state := pfs_send, f_retry_count := f_retry_count f + 1\<rparr>)\<rparr>"
    show ?thesis
    proof (cases "f_retry_count f + 1 \<ge> PCP_RETX_MRC")
      case True
      then show ?thesis using Some by (simp add: fhndl_resend_def)
    next
      case False
      have i: "i < length (c_pcp_servers ?d)" using get_pcp_server_SomeD [OF Some] by simp
      have d: "c_heap ?d a = Some (f\<lparr>f_state := pfs_send, f_retry_count := f_retry_count f + 1\<rparr>)"
        "flow_wf (f\<lparr>f_state := pfs_send, f_retry_count := f_retry_count f + 1\<rparr>)"
        using wf by (simp_all add: flow_wf_def)
      obtain c1 k where s: "pcp_flow_send_msg E a i ?d = Some (c1, k)"
        using pcp_flow_send_msg_frame [OF E quiet_frame_refl d i] by (auto elim: yieldsE)
      obtain g where g: "c_heap c1 a = Some g" "f_retry_count g = f_retry_count f + 1"
        using pcp_flow_send_msg_nomsg [OF s] d(1) by (auto dest!: flow_nomsg_eqD(1))
      show ?thesis using Some False s g by (simp add: fhndl_resend_def Let_def not_le)
    qed
  qed
  show ?thesis
    unfolding u
    by (rule yields_bind2 [OF r]) (use failed_loop sent_loop in \<open>auto elim!: yields_mono; fastforce elim: yields_mono\<close>)
qed

text \<open>A number of timeouts of one flow in a row, with no response in between.\<close>

fun timeouts_in_a_row :: "env \<Rightarrow> addr \<Rightarrow> nat \<Rightarrow> pcp_ctx \<Rightarrow> pcp_ctx option" where
  "timeouts_in_a_row E a 0 c = Some c"
| "timeouts_in_a_row E a (Suc n) c =
     do { (c, _) \<leftarrow> handle_flow_event E a fev_flow_timedout None c; timeouts_in_a_row E a n c }"

lemma handle_timeout:
  assumes E: "sendto_bounded E" and f: "c_heap c a = Some f" and wf: "flow_wf f"
    and ch: "Chain (fchild c) (Some a) xs None" and s: "f_state f = pfs_wait_resp \<or> f_state f = pfs_failed"
  shows "yields (handle_flow_event E a fev_flow_timedout None c) (\<lambda>(c', st). flow_frame a c c' \<and>
    (\<exists>g. c_heap c' a = Some g \<and> (f_state g = pfs_failed \<or> f_state f = pfs_wait_resp \<and>
       f_state g = pfs_wait_resp \<and> f_retry_count g = f_retry_count f + 1 \<and> f_retry_count f + 1 < PCP_RETX_MRC)))"
proof -
  have "next_flow_state pfs_failed fev_flow_timedout = None"
    by (simp add: next_flow_state_def flow_events_sm_def)
  then have "yields (flow_event_loop E a None (f_state f) fev_flow_timedout c) (\<lambda>c1. \<exists>g. c_heap c1 a = Some g \<and>
      (f_state g = pfs_failed \<or> f_state f = pfs_wait_resp \<and>
       f_state g = pfs_wait_resp \<and> f_retry_count g = f_retry_count f + 1 \<and> f_retry_count f + 1 < PCP_RETX_MRC))"
    using s timeout_loop [OF E f wf, of None] f by (auto simp: flow_event_loop.simps [of _ _ _ pfs_failed])
  then obtain c1 g where l: "flow_event_loop E a None (f_state f) fev_flow_timedout c = Some c1"
    and g: "c_heap c1 a = Some g" "f_state g = pfs_failed \<or> f_state f = pfs_wait_resp \<and>
       f_state g = pfs_wait_resp \<and> f_retry_count g = f_retry_count f + 1 \<and> f_retry_count f + 1 < PCP_RETX_MRC"
    by (auto elim!: yieldsE)
  have "quiet_frame a c c1"
    using flow_event_loop_frame [OF E f wf quiet_frame_refl, of fev_flow_timedout None "f_state f"] l
    by (auto simp: is_response_def)
  then have fr: "flow_frame a c c1" by (simp add: quiet_frame_def)
  have "Chain (fchild c1) (Some a) xs None" using ch flow_frame_fields(1) [OF fr] by simp
  then obtain ns where "handle_flow_event E a fev_flow_timedout None c = Some (c1\<lparr>c_notes := c_notes c1 @ ns\<rparr>, f_state g)"
    using handle_flow_event_loop [OF f ch l g(1)] by blast
  then show ?thesis using fr g by simp
qed

lemma timeouts_in_a_row_fail:
  assumes E: "sendto_bounded E" and f: "c_heap c a = Some f" and wf: "flow_wf f"
    and ch: "Chain (fchild c) (Some a) xs None"
    and s: "f_state f = pfs_failed \<or> f_state f = pfs_wait_resp \<and> 
      f_retry_count f < PCP_RETX_MRC \<and> unat (f_retry_count f) + n \<ge> 3"
  shows "yields (timeouts_in_a_row E a n c) (\<lambda>c'. \<exists>g. c_heap c' a = Some g \<and> f_state g = pfs_failed)"
  using f wf ch s
proof (induction n arbitrary: c f)
  case 0
  then show ?case by (auto simp: word_less_nat_alt)
next
  case (Suc n)
  have "yields (handle_flow_event E a fev_flow_timedout None c) (\<lambda>(c', st). flow_frame a c c' \<and>
    (\<exists>g. c_heap c' a = Some g \<and> (f_state g = pfs_failed \<or> f_state f = pfs_wait_resp \<and>
       f_state g = pfs_wait_resp \<and> f_retry_count g = f_retry_count f + 1 \<and> f_retry_count f + 1 < PCP_RETX_MRC)))"
    using Suc.prems by (intro handle_timeout [OF E]) auto
  then show ?case
    unfolding timeouts_in_a_row.simps
  proof (rule yields_bind2)
    fix c1 and st :: pcp_flow_state_e
    assume "case (c1, st) of (c', st) \<Rightarrow> flow_frame a c c' \<and> (\<exists>g. c_heap c' a = Some g \<and> (f_state g = pfs_failed \<or>
       f_state f = pfs_wait_resp \<and> f_state g = pfs_wait_resp \<and> f_retry_count g = f_retry_count f + 1 \<and>
       f_retry_count f + 1 < PCP_RETX_MRC))"
    then obtain g where fr: "flow_frame a c c1" and g: "c_heap c1 a = Some g" "f_state g = pfs_failed \<or>
       f_state f = pfs_wait_resp \<and> f_state g = pfs_wait_resp \<and> f_retry_count g = f_retry_count f + 1 \<and>
       f_retry_count f + 1 < PCP_RETX_MRC" by auto
    have ch1: "Chain (fchild c1) (Some a) xs None" using Suc.prems(3) flow_frame_fields(1) [OF fr] by simp
    have wf1: "flow_wf g" using fr g(1) Suc.prems(1,2) by (simp add: flow_frame_def)
    have "f_state g = pfs_failed \<or> f_state g = pfs_wait_resp \<and>
        f_retry_count g < PCP_RETX_MRC \<and> unat (f_retry_count g) + n \<ge> 3"
      using g(2) Suc.prems(4) by (auto simp: word_less_nat_alt unat_word_ariths)
    then show "yields (timeouts_in_a_row E a n c1) (\<lambda>c'. \<exists>g. c_heap c' a = Some g \<and> f_state g = pfs_failed)"
      by (rule Suc.IH [OF g(1) wf1 ch1])
  qed
qed

section \<open>Retransmission times\<close>

lemma PCP_RT_exact:
  assumes "2 * unat rt \<le> 466033"
  shows "unat (PCP_RT rnd rt) = (9216 - unat rnd mod 2048) * max 3000 (2 * unat rt) div 8192"
proof -
  let ?k = "rnd AND 2047"
  let ?t = "min (max (push_bit 1 rt) 3000) 1024000 :: u32"
  have "(2047 :: u32) = mask 11" by (simp add: mask_eq_exp_minus_1)
  then have "?k = take_bit 11 rnd" by (simp only: take_bit_eq_mask)
  then have k: "unat ?k = unat rnd mod 2048"
    by (simp only: unsigned_take_bit_eq) (simp add: take_bit_eq_mod)
  then have "?k \<le> 9216" by (simp add: word_le_nat_alt less_imp_le_nat order_trans [OF mod_less_eq_dividend])
  then have f: "unat (8192 + (1024 - ?k)) = 9216 - unat rnd mod 2048"
  proof -
    have "8192 + (1024 - ?k) = 9216 - ?k" by simp
    moreover have "unat (9216 - ?k) = unat (9216 :: u32) - unat ?k" using \<open>?k \<le> 9216\<close> by (rule unat_sub)
    ultimately show ?thesis using k by simp
  qed
  have "unat (push_bit 1 rt) = 2 * unat rt"
    using assms by (simp add: push_bit_eq_mult unat_word_ariths)
  then have t: "unat ?t = max 3000 (2 * unat rt)"
    using assms by (auto simp: min_def max_def word_le_nat_alt)
  have "(9216 - unat rnd mod 2048) * max 3000 (2 * unat rt) \<le> 9216 * 466033"
    using assms by (intro mult_le_mono) auto
  then have "unat ((8192 + (1024 - ?k)) * ?t) = (9216 - unat rnd mod 2048) * max 3000 (2 * unat rt)"
    unfolding unat_word_ariths(2) f t by simp
  then show ?thesis
    by (simp only: PCP_RT_def Let_def unat_drop_bit_eq) (simp add: drop_bit_eq_div)
qed

lemma PCP_RT_bounds:
  assumes "2 * unat rt \<le> 466033"
  shows "7 * max 3000 (2 * unat rt) \<le> 8 * (unat (PCP_RT rnd rt) + 1) \<and>
    8 * unat (PCP_RT rnd rt) \<le> 9 * max 3000 (2 * unat rt)"
proof -
  let ?T = "max 3000 (2 * unat rt)" and ?f = "9216 - unat rnd mod 2048"
  have "7 * 1024 \<le> ?f" "?f \<le> 9 * 1024" using mod_less_divisor [of 2048 "unat rnd"] by simp_all
  then have "7 * 1024 * ?T \<le> ?f * ?T" "?f * ?T \<le> 9 * 1024 * ?T" by (simp_all only: mult_le_mono1)
  moreover define p T where "p = ?f * ?T" and "T = ?T"
  ultimately have "7 * 1024 * T \<le> p" "p \<le> 9 * 1024 * T" by simp_all
  moreover obtain q m where "p div 8192 = q" "p = q * 8192 + m" "m < 8192"
    by (metis div_mult_mod_eq mod_less_divisor zero_less_numeral)
  ultimately have "7 * T \<le> 8 * (p div 8192 + 1)" "8 * (p div 8192) \<le> 9 * T" by simp_all
  then show ?thesis unfolding PCP_RT_exact [OF assms] p_def T_def by simp
qed

section \<open>Renewals\<close>

lemma fhndl_send_outcome:
  assumes E: "sendto_bounded E" and f: "c_heap c a = Some f" and wf: "flow_wf f"
    and r: "\<forall>s\<in>set (c_pcp_servers c). s_restart_flow_msg s \<noteq> Some a"
  shows "yields (fhndl_send E a m c) (\<lambda>(c', ev). (\<exists>g. c_heap c' a = Some g) \<and> (ev = fev_failed \<or> ev = fev_msg_sent))"
proof (cases "get_pcp_server c (sint (f_pcp_server_indx f))")
  case None
  then show ?thesis using f by (simp add: fhndl_send_def)
next
  case (Some i)
  then have i: "i < length (c_pcp_servers c)" by (auto dest: get_pcp_server_SomeD)
  then have "s_restart_flow_msg (c_pcp_servers c ! i) \<noteq> Some a" using r by simp
  moreover obtain c1 k where s: "pcp_flow_send_msg E a i c = Some (c1, k)"
    using pcp_flow_send_msg_frame [OF E quiet_frame_refl f wf i] by (auto elim: yieldsE)
  moreover obtain g where "c_heap c1 a = Some g" using pcp_flow_send_msg_nomsg [OF s] f by auto
  ultimately show ?thesis using f Some by (simp add: fhndl_send_def Let_def)
qed

text \<open>The time of the next renewal: half of the remaining lifetime ahead.\<close>

definition renewed_at :: "timeval \<Rightarrow> int \<Rightarrow> timeval" where
  "renewed_at now expiry = Timeval (tv_sec now + (expiry - tv_sec now) div 2) (tv_usec now)"

lemma fhndl_send_renew_outcome:
  assumes E: "sendto_bounded E" and f: "c_heap c a = Some f" and wf: "flow_wf f"
  shows "yields (fhndl_send_renew E a m c) (\<lambda>(c', ev). \<exists>g. c_heap c' a = Some g \<and> flow_wf g \<and>
    c_pcp_servers c' = c_pcp_servers c \<and> (ev = fev_failed \<or> ev = fev_msg_sent \<and>
      (\<exists>k. let now = env_gettimeofday E k in (f_recv_lifetime f - tv_sec now) div 2 \<noteq> 0 \<and>
        f_timeout g = renewed_at now (f_recv_lifetime f))))"
proof (cases "get_pcp_server c (sint (f_pcp_server_indx f))")
  case None
  then show ?thesis using f wf by (simp add: fhndl_send_renew_def)
next
  case (Some i)
  then have i: "i < length (c_pcp_servers c)" by (auto dest: get_pcp_server_SomeD)
  obtain c1 k where s: "pcp_flow_send_msg E a i c = Some (c1, k)" and q: "quiet_frame a c c1"
    using pcp_flow_send_msg_frame [OF E quiet_frame_refl f wf i] by (auto elim: yieldsE)
  obtain g where g: "c_heap c1 a = Some g" "f_recv_lifetime g = f_recv_lifetime f"
    using pcp_flow_send_msg_nomsg [OF s] f by (auto dest!: flow_nomsg_eqD(3))
  have "flow_wf g" "c_pcp_servers c1 = c_pcp_servers c"
    using q g(1) f wf by (simp_all add: quiet_frame_def flow_frame_def)
  then show ?thesis using f Some s g
    by (auto simp: fhndl_send_renew_def Let_def gettimeofday_def renewed_at_def flow_wf_def)
qed

lemma send_entry_loop:
  assumes E: "sendto_bounded E" and f: "c_heap c a = Some f" and wf: "flow_wf f"
    and r: "\<forall>s\<in>set (c_pcp_servers c). s_restart_flow_msg s \<noteq> Some a"
    and n: "next_flow_state s ev = Some pfs_send" "flow_transition s pfs_send = Some H_send"
  shows "yields (flow_event_loop E a m s ev c) (\<lambda>c'. \<exists>g. c_heap c' a = Some g \<and>
    (f_state g = pfs_failed \<or> f_state g = pfs_wait_resp))"
proof -
  let ?c = "c\<lparr>c_heap := (c_heap c)(a \<mapsto> f\<lparr>f_state := pfs_send\<rparr>)\<rparr>"
  have "yields (fhndl_send E a m ?c) (\<lambda>(c', ev). (\<exists>g. c_heap c' a = Some g) \<and> (ev = fev_failed \<or> ev = fev_msg_sent))"
    using fhndl_send_outcome [OF E, of ?c a "f\<lparr>f_state := pfs_send\<rparr>" m] wf r by (simp add: flow_wf_def)
  then have "yields (fhndl_send E a m ?c \<bind> (\<lambda>(c, ev). if ev = fev_none then Some c else
      flow_event_loop E a m pfs_send ev c)) (\<lambda>c'. \<exists>g. c_heap c' a = Some g \<and>
    (f_state g = pfs_failed \<or> f_state g = pfs_wait_resp))"
  proof (rule yields_bind2)
    fix c1 :: pcp_ctx and ev1
    assume "case (c1, ev1) of (c', ev) \<Rightarrow> (\<exists>g. c_heap c' a = Some g) \<and> (ev = fev_failed \<or> ev = fev_msg_sent)"
    then obtain g where g: "c_heap c1 a = Some g" and "ev1 = fev_failed \<or> ev1 = fev_msg_sent" by auto
    then show "yields (if ev1 = fev_none then Some c1 else flow_event_loop E a m pfs_send ev1 c1)
      (\<lambda>c'. \<exists>g. c_heap c' a = Some g \<and> (f_state g = pfs_failed \<or> f_state g = pfs_wait_resp))"
      using failed_loop [OF g, of pfs_send E m] sent_loop [OF g, of E m] by (auto elim!: yields_mono)
  qed
  then show ?thesis using f n by (subst flow_event_loop.simps) simp
qed

lemma renew_loop:
  assumes E: "sendto_bounded E" and f: "c_heap c a = Some f" and wf: "flow_wf f"
    and r: "\<forall>s\<in>set (c_pcp_servers c). s_restart_flow_msg s \<noteq> Some a"
  shows "yields (flow_event_loop E a m pfs_wait_for_lifetime_renew fev_flow_timedout c) (\<lambda>c'. \<exists>g.
    c_heap c' a = Some g \<and> (f_state g = pfs_failed \<or> f_state g = pfs_wait_resp \<or>
     f_state g = pfs_wait_for_lifetime_renew \<and>
      (\<exists>k. let now = env_gettimeofday E k in (f_recv_lifetime f - tv_sec now) div 2 \<noteq> 0 \<and>
        f_timeout g = renewed_at now (f_recv_lifetime f))))"
proof -
  let ?c = "c\<lparr>c_heap := (c_heap c)(a \<mapsto> f\<lparr>f_state := pfs_send_renew\<rparr>)\<rparr>"
  let ?Q = "\<lambda>g. \<exists>k. let now = env_gettimeofday E k in (f_recv_lifetime f - tv_sec now) div 2 \<noteq> 0 \<and>
        f_timeout g = renewed_at now (f_recv_lifetime f)"
  let ?P = "\<lambda>c'. \<exists>g. c_heap c' a = Some g \<and> (f_state g = pfs_failed \<or> f_state g = pfs_wait_resp \<or>
     f_state g = pfs_wait_for_lifetime_renew \<and> ?Q g)"
  have n: "next_flow_state pfs_wait_for_lifetime_renew fev_flow_timedout = Some pfs_send_renew"
    "flow_transition pfs_wait_for_lifetime_renew pfs_send_renew = Some H_send_renew"
    by (simp_all add: next_flow_state_def flow_events_sm_def flow_transition_def flow_transitions_def)
  have "yields (fhndl_send_renew E a m ?c) (\<lambda>(c', ev). \<exists>g. c_heap c' a = Some g \<and> flow_wf g \<and>
    c_pcp_servers c' = c_pcp_servers c \<and> (ev = fev_failed \<or> ev = fev_msg_sent \<and> ?Q g))"
    using fhndl_send_renew_outcome [OF E, of ?c a "f\<lparr>f_state := pfs_send_renew\<rparr>" m] wf
    by (simp add: flow_wf_def)
  then have "yields (fhndl_send_renew E a m ?c \<bind> (\<lambda>(c, ev). if ev = fev_none then Some c else
      flow_event_loop E a m pfs_send_renew ev c)) ?P"
  proof (rule yields_bind2)
    fix c1 :: pcp_ctx and ev1
    assume "case (c1, ev1) of (c', ev) \<Rightarrow> \<exists>g. c_heap c' a = Some g \<and> flow_wf g \<and>
      c_pcp_servers c' = c_pcp_servers c \<and> (ev = fev_failed \<or> ev = fev_msg_sent \<and> ?Q g)"
    then obtain g where g: "c_heap c1 a = Some g" and w: "flow_wf g" and s: "c_pcp_servers c1 = c_pcp_servers c"
      and ev: "ev1 = fev_failed \<or> ev1 = fev_msg_sent \<and> ?Q g" by auto
    from ev show "yields (if ev1 = fev_none then Some c1 else flow_event_loop E a m pfs_send_renew ev1 c1) ?P"
    proof
      assume "ev1 = fev_failed"
      then show ?thesis
        using send_entry_loop [OF E g w _ internal_steps(6,10), of m] r s by (auto elim!: yields_mono)
    next
      assume "ev1 = fev_msg_sent \<and> ?Q g"
      then show ?thesis using g by (subst flow_event_loop.simps) (simp add: internal_steps)
    qed
  qed
  then show ?thesis using f n by (subst flow_event_loop.simps) simp
qed

section \<open>Properties\<close>

text \<open>A flow that waits for the response of the only server, in a context that reports changes.\<close>

definition demo_waiting :: "pcp_flow_state_e \<Rightarrow> pcp_ctx" where
  "demo_waiting st = zero_ctx\<lparr>c_heap := [7 \<mapsto> zero_flow\<lparr>f_state := st, f_recv_lifetime := 2000,
       f_kd := zero_kd\<lparr>kd_operation := PCP_OPCODE_MAP\<rparr>\<rparr>],
     c_pcp_servers := [zero_server\<lparr>s_server_state := pss_wait_io, s_pcp_version := 2\<rparr>],
     c_flow_change_cb := True\<rparr>"

lemma zero_flow_wf: "flow_wf (zero_flow\<lparr>f_state := st, f_recv_lifetime := t, f_kd := k\<rparr>)"
  by (simp add: flow_wf_def zero_flow_def)

lemma demo_waiting_chain: "Chain (fchild (demo_waiting st)) (Some 7) [7] None"
  by (simp add: demo_waiting_def fchild_def)

lemma demo_env_bounded: "sendto_bounded demo_env"
  by (simp add: sendto_bounded_def demo_env_def)

lemma demo_waiting_heap: "c_heap (demo_waiting st) 7 =
    Some (zero_flow\<lparr>f_state := st, f_recv_lifetime := 2000, f_kd := zero_kd\<lparr>kd_operation := PCP_OPCODE_MAP\<rparr>\<rparr>)"
  by (simp add: demo_waiting_def)

text \<open>\<^verbatim>\<open>pcp_eval_flow_state\<close> of a chain of flows. It returns the number of flows
  that have a final answer, and the state: processing or partial result while some flow has
  none, depending on whether another succeeded; otherwise success if any flow succeeded,
  else failure if any failed, else a short lifetime error.\<close>

theorem pcp_eval_flow_state_meaning:
  assumes "Chain (fchild c) flow xs None"
  shows "pcp_eval_flow_state flow c =
    Some (int (length (filter exit_state (flow_states c xs))), chain_fstate (flow_states c xs))"
  using assms by (rule pcp_eval_flow_state_chain)

theorem pcp_eval_flow_state_meaning_witness:
  "pcp_eval_flow_state (Some 7) (demo_waiting pfs_failed) = Some (1, pcp_state_failed)"
  using pcp_eval_flow_state_meaning [OF demo_waiting_chain [of pfs_failed]]
  by (simp add: demo_waiting_heap chain_fstate_def)

text \<open>Property C6: \<^verbatim>\<open>handle_flow_event\<close> is safe and ends. Started on a well-formed flow, with a
  message whenever the event is a response, it returns; no bad pointer is followed; apart
  from the flow itself nothing in memory changes, and the flow keeps its key, links, server and
  options; the value returned is the new state of the flow. The application is called
  exactly once if the state of the chain or the external address changed, with the new
  state, and otherwise not at all.\<close>

theorem handle_flow_event_safe:
  assumes "sendto_bounded E" and "c_heap c a = Some f" and "flow_wf f"
    and "Chain (fchild c) (Some a) xs None" and "is_response ev \<Longrightarrow> r \<noteq> None"
  shows "\<exists>c' g. handle_flow_event E a ev r c = Some (c', f_state g) \<and> flow_frame a c c' \<and> c_heap c' a = Some g \<and>
      c_notes c' = c_notes c @
        (if c_flow_change_cb c \<and> seen_change (chain_fstate (flow_states c xs)) (chain_fstate (flow_states c' xs)) f g
         then [note_of a g (chain_fstate (flow_states c' xs))] else [])"
proof -
  have "yields (handle_flow_event E a ev r c) (\<lambda>(c', st). flow_frame a c c' \<and>
    (\<exists>g. c_heap c' a = Some g \<and> f_state g = st \<and> c_notes c' = c_notes c @
        (if c_flow_change_cb c \<and> seen_change (chain_fstate (flow_states c xs)) (chain_fstate (flow_states c' xs)) f g
         then [note_of a g (chain_fstate (flow_states c' xs))] else [])))"
    by (rule handle_flow_event_frame [OF assms(1-4)]) (rule assms(5))
  then show ?thesis unfolding yields_def by blast
qed

theorem handle_flow_event_safe_witness:
  "\<exists>c' g. handle_flow_event demo_env 7 fev_res_success (Some zero_msg) (demo_waiting pfs_wait_resp) =
    Some (c', f_state g) \<and> c_heap c' 7 = Some g"
  using handle_flow_event_safe [OF demo_env_bounded demo_waiting_heap zero_flow_wf demo_waiting_chain,
      of fev_res_success "Some zero_msg" pfs_wait_resp]
  by auto

text \<open>Property C16: what a flow does about the response it waits for. Success makes it wait for
  renewal, with the external address of the response and a timeout at half the granted
  lifetime; the codes 7, 8, 10 and 13 make it wait for the lifetime of the error; the codes
  2, 3, 4, 5, 9, 11 and 12 fail it; code 1 sends it back to wait for the server. Any other
  code, the protocol's \<^verbatim>\<open>MALFORMED_OPTION\<close> (6) among them, leaves it waiting. Nothing is
  sent.\<close>

theorem response_outcome:
  assumes "c_heap c a = Some f" and "f_state f = pfs_wait_resp" and "Chain (fchild c) (Some a) xs None"
  shows "\<exists>c'. handle_flow_event E a (fev_of_result (m_recv_result m)) (Some m) c =
      Some (c', f_state (on_response (gettimeofday E c) m f)) \<and>
    c_heap c' = (c_heap c)(a \<mapsto> on_response (gettimeofday E c) m f) \<and> c_sent c' = c_sent c"
  by (rule handle_response [OF assms])

theorem response_outcome_witness:
  "\<exists>c'. handle_flow_event demo_env 7 (fev_of_result 6) (Some (zero_msg\<lparr>m_recv_result := 6\<rparr>))
      (demo_waiting pfs_wait_resp) = Some (c', pfs_wait_resp)"
  using response_outcome [OF demo_waiting_heap _ demo_waiting_chain, of pfs_wait_resp demo_env
      "zero_msg\<lparr>m_recv_result := 6\<rparr>"]
  by (auto simp: on_response_def short_life_codes_def failure_codes_def)

text \<open>Property C17: retransmission is bounded. A flow that waits for a response with a fresh
  retry counter is failed after three timeouts without a response, whatever the clock, the
  socket and the allocator do, and stays failed.\<close>

theorem three_timeouts_fail:
  assumes "sendto_bounded E" and "c_heap c a = Some f" and "flow_wf f"
    and "Chain (fchild c) (Some a) xs None" and "f_state f = pfs_wait_resp" and "f_retry_count f = 0" and "3 \<le> n"
  shows "\<exists>c' g. timeouts_in_a_row E a n c = Some c' \<and> c_heap c' a = Some g \<and> f_state g = pfs_failed"
  using timeouts_in_a_row_fail [OF assms(1-4), of n] assms(5-7) by (auto elim!: yieldsE)

theorem three_timeouts_fail_witness:
  "\<exists>c' g. timeouts_in_a_row demo_env 7 3 (demo_waiting pfs_wait_resp) = Some c' \<and> c_heap c' 7 = Some g \<and>
    f_state g = pfs_failed"
  using three_timeouts_fail [OF demo_env_bounded demo_waiting_heap zero_flow_wf demo_waiting_chain,
      of pfs_wait_resp 3]
  by (auto simp: zero_flow_def)

text \<open>The retransmission time. As long as twice the previous time does not exceed
  466033 ms, the next one lies within an eighth of \<open>T\<close>, the doubled time but at least the
  initial 3 s. Above that bound the 32-bit product of the macro wraps around, well below the
  maximum of 1024 s that the macro allows for.\<close>

theorem PCP_RT_within:
  assumes "2 * unat rt \<le> 466033"
  shows "7 * max 3000 (2 * unat rt) \<le> 8 * (unat (PCP_RT rnd rt) + 1) \<and>
    8 * unat (PCP_RT rnd rt) \<le> 9 * max 3000 (2 * unat rt)"
  using assms by (rule PCP_RT_bounds)

theorem PCP_RT_within_witness:
  "8 * unat (PCP_RT 5 3000) \<le> 9 * 6000 \<and> unat (PCP_RT 0 512000) = 103424"
  using PCP_RT_within [of 3000 5] by (simp add: PCP_RT_def)

text \<open>Renewal. When the renewal time of a granted flow comes, the flow ends up failed,
  waiting for a response to a fresh request, or waiting for the next renewal, at half of
  what is left of the lifetime. That half is not zero, but it is negative once the lifetime has
  passed: then the new timeout lies in the past.\<close>

theorem renewal_timeout:
  assumes "sendto_bounded E" and "c_heap c a = Some f" and "flow_wf f" and "Chain (fchild c) (Some a) xs None"
    and "f_state f = pfs_wait_for_lifetime_renew"
    and "\<forall>s\<in>set (c_pcp_servers c). s_restart_flow_msg s \<noteq> Some a"
  shows "\<exists>c' g. handle_flow_event E a fev_flow_timedout None c = Some (c', f_state g) \<and> c_heap c' a = Some g \<and>
    (f_state g = pfs_failed \<or> f_state g = pfs_wait_resp \<or> f_state g = pfs_wait_for_lifetime_renew \<and>
      (\<exists>k. let now = env_gettimeofday E k in (f_recv_lifetime f - tv_sec now) div 2 \<noteq> 0 \<and>
        f_timeout g = renewed_at now (f_recv_lifetime f) \<and> (f_recv_lifetime f < tv_sec now \<longrightarrow> f_timeout g < now)))"
proof -
  obtain c1 g where l: "flow_event_loop E a None (f_state f) fev_flow_timedout c = Some c1"
    and g: "c_heap c1 a = Some g" "f_state g = pfs_failed \<or> f_state g = pfs_wait_resp \<or>
     f_state g = pfs_wait_for_lifetime_renew \<and> (\<exists>k. let now = env_gettimeofday E k in
       (f_recv_lifetime f - tv_sec now) div 2 \<noteq> 0 \<and> f_timeout g = renewed_at now (f_recv_lifetime f))"
    using renew_loop [OF assms(1-3,6), of None] assms(5) by (auto elim!: yieldsE)
  have "quiet_frame a c c1"
    using flow_event_loop_frame [OF assms(1-3) quiet_frame_refl, of fev_flow_timedout None "f_state f"] l
    by (auto simp: is_response_def)
  then have "Chain (fchild c1) (Some a) xs None"
    using assms(4) flow_frame_fields(1) [of a c c1] by (simp add: quiet_frame_def)
  then obtain ns where h: "handle_flow_event E a fev_flow_timedout None c =
      Some (c1\<lparr>c_notes := c_notes c1 @ ns\<rparr>, f_state g)"
    using handle_flow_event_loop [OF assms(2,4) l g(1)] by blast
  have "e < tv_sec now \<Longrightarrow> renewed_at now e < now" for e now
    by (simp add: renewed_at_def less_timeval_def)
  then show ?thesis using h g by (intro exI [of _ "c1\<lparr>c_notes := c_notes c1 @ ns\<rparr>"] exI [of _ g]) (auto simp: Let_def)
qed

theorem renewal_timeout_witness:
  "\<exists>c' g. handle_flow_event demo_env 7 fev_flow_timedout None (demo_waiting pfs_wait_for_lifetime_renew) =
      Some (c', f_state g) \<and> c_heap c' 7 = Some g"
proof -
  have "\<forall>s\<in>set (c_pcp_servers (demo_waiting pfs_wait_for_lifetime_renew)). s_restart_flow_msg s \<noteq> Some 7"
    by (simp add: demo_waiting_def zero_server_def)
  from renewal_timeout [OF demo_env_bounded demo_waiting_heap zero_flow_wf demo_waiting_chain _ this]
  show ?thesis by auto
qed

end
