(* ===== verification/Pcp_Server_Sm.thy ===== *)
theory Pcp_Server_Sm
  imports Pcp_Flow_Sm
begin

text \<open>
  The state machine of a server and the event loop, the second half of
  \<^verbatim>\<open>pcp_event_handler.c\<close>, with \<^verbatim>\<open>pcp_db_free_pcp_servers\<close> of \<^verbatim>\<open>pcp_client_db.c\<close>, which
  terminates the servers through it.

  A server is the position \<open>i\<close> of its record in the array. The message of the context,
  which the handlers reach through \<^verbatim>\<open>s->ctx->msg\<close>, is \<open>c_msg\<close>. The loops whose number of
  rounds depends on memory or on the clock are partial functions. The main theorem is that
  every handler runs without undefined behaviour and keeps the context well-formed, for any
  clock, socket and allocator; the walk of the flow table it rests on is the locale
  \<open>table_walk\<close>, interpreted here for each callback.
\<close>

section \<open>Responses\<close>

text \<open>The flow a response belongs to. A NAT-PMP response carries no external address, so
  the one the server announced is filled in.\<close>

definition find_response_flow :: "nat \<Rightarrow> pcp_ctx \<Rightarrow> (pcp_ctx \<times> addr option) option" where
  "find_response_flow i c =
     do { s \<leftarrow> server_at c i;
          let msg = c_msg c;
          if m_recv_version msg = 0
          then if kd_operation (m_kd msg) = NATPMP_OPCODE_ANNOUNCE
            then do { c \<leftarrow> upd_server i (s_natpmp_ext_addr_update (\<lambda>_. s6_3 (m_assigned_ext_ip msg))) c;
                      case s_ping_flow_msg s of
                        None \<Rightarrow> Some (c, None)
                      | Some a \<Rightarrow>
                          if s_pcp_version s = 0
                          then do { f \<leftarrow> c_heap c a;
                                    Some (c, if kd_operation (f_kd f) = PCP_OPCODE_ANNOUNCE then Some a else None) }
                          else Some (c, None) }
            else do { let c = c\<lparr>c_msg := msg\<lparr>m_assigned_ext_ip := In6 0 0 0xFFFF (s_natpmp_ext_addr s)\<rparr>\<rparr>;
                      f \<leftarrow> pcp_get_flow (m_kd msg) s c;
                      Some (c, f) }
          else do { f \<leftarrow> pcp_get_flow (m_kd msg) s c; Some (c, f) } }"

definition server_process_rcvd_pcp_msg :: "env \<Rightarrow> nat \<Rightarrow> pcp_ctx \<Rightarrow> (pcp_ctx \<times> addr option) option" where
  "server_process_rcvd_pcp_msg E i c =
     do { (c, f) \<leftarrow> find_response_flow i c;
          case f of
            None \<Rightarrow> Some (c, None)
          | Some a \<Rightarrow>
              do { (c, _) \<leftarrow> handle_flow_event E a (fev_of_result (m_recv_result (c_msg c))) (Some (c_msg c)) c;
                   Some (c, Some a) } }"

section \<open>Callbacks of the walk over the flows\<close>

text \<open>\<^verbatim>\<open>check_flow_timeout\<close> with the value of \<^verbatim>\<open>*timeout\<close> passed in and out. \<^verbatim>\<open>timeval_comp\<close> and
  \<^verbatim>\<open>timeval_subtract\<close> normalise the timeout of the flow in place.\<close>

definition check_flow_timeout :: "env \<Rightarrow> addr \<Rightarrow> timeval \<Rightarrow> pcp_ctx \<Rightarrow> (pcp_ctx \<times> timeval) option" where
  "check_flow_timeout E a tout c =
     do { f \<leftarrow> c_heap c a;
          if tv_is_zero (f_timeout f) then Some (c, tout)
          else do { let (t, ctv, r) = timeval_comp (f_timeout f) (gettimeofday E c);
                    c \<leftarrow> upd_flow a (f_timeout_update (\<lambda>_. t)) (tick c);
                    c \<leftarrow> (if r \<le> 0 then map_option fst (handle_flow_event E a fev_flow_timedout None c) else Some c);
                    f \<leftarrow> c_heap c a;
                    if tv_is_zero (f_timeout f) then Some (c, tout)
                    else do { let (ctv, t, _) = timeval_subtract (f_timeout f) ctv;
                              c \<leftarrow> upd_flow a (f_timeout_update (\<lambda>_. t)) c;
                              if tv_is_zero tout then Some (c, ctv)
                              else let (ctv, tout, r) = timeval_comp ctv tout
                                   in Some (c, if r < 0 then ctv else tout) } } }"

text \<open>The callback on \<^verbatim>\<open>&s->next_timeout\<close>.\<close>

definition check_server_flow_timeout :: "env \<Rightarrow> nat \<Rightarrow> unit flow_iterate" where
  "check_server_flow_timeout E i a u c =
     do { s \<leftarrow> server_at c i;
          (c, tout) \<leftarrow> check_flow_timeout E a (s_next_timeout s) c;
          c \<leftarrow> upd_server i (s_next_timeout_update (\<lambda>_. tout)) c;
          Some (c, u, False) }"

definition get_first_flow_iter :: "nat \<Rightarrow> addr option flow_iterate" where
  "get_first_flow_iter i a msg c =
     do { f \<leftarrow> c_heap c a;
          s \<leftarrow> server_at c i;
          if f_pcp_server_indx f \<noteq> s_index s then Some (c, msg, False)
          else if f_state f = pfs_idle \<or> f_state f = pfs_wait_for_server_init \<or> f_state f = pfs_send
          then Some (c, Some a, True)
          else Some (c, msg, False) }"

definition flow_send_event_iter :: "env \<Rightarrow> nat \<Rightarrow> pcp_flow_event_e \<Rightarrow> unit flow_iterate" where
  "flow_send_event_iter E i ev a u c =
     do { f \<leftarrow> c_heap c a;
          s \<leftarrow> server_at c i;
          if f_pcp_server_indx f = s_index s
          then do { (c, _) \<leftarrow> handle_flow_event E a ev None c; check_server_flow_timeout E i a u c }
          else Some (c, u, False) }"

definition create_natpmp_ann_msg :: "env \<Rightarrow> nat \<Rightarrow> pcp_ctx \<Rightarrow> (pcp_ctx \<times> addr option) option" where
  "create_natpmp_ann_msg E i c =
     do { s \<leftarrow> server_at c i;
          let kd = zero_kd\<lparr>kd_src_ip := s_src_ip s, kd_pcp_server_ip := s_pcp_ip s, kd_nonce := s_nonce s,
                kd_operation := NATPMP_OPCODE_ANNOUNCE\<rparr>;
          let (c, p) = pcp_create_flow E s kd c;
          c \<leftarrow> upd_server i (s_ping_flow_msg_update (\<lambda>_. p)) c;
          (c, _) \<leftarrow> pcp_db_add_flow p c;
          Some (c, p) }"

definition get_ping_msg :: "nat \<Rightarrow> pcp_ctx \<Rightarrow> (pcp_ctx \<times> addr option) option" where
  "get_ping_msg i c =
     do { (c, msg, _) \<leftarrow> pcp_db_foreach_flow (get_first_flow_iter i) None c;
          c \<leftarrow> upd_server i (s_ping_flow_msg_update (\<lambda>_. msg)) c;
          Some (c, msg) }"

section \<open>Handlers\<close>

text \<open>A handler returns the next state of the server.\<close>

type_synonym shandler_fun = "env \<Rightarrow> nat \<Rightarrow> pcp_ctx \<Rightarrow> (pcp_ctx \<times> pcp_server_state_e) option"

definition set_timeout :: "nat \<Rightarrow> timeval \<Rightarrow> pcp_server_state_e \<Rightarrow> pcp_ctx \<Rightarrow> (pcp_ctx \<times> pcp_server_state_e) option" where
  "set_timeout i t st c = do { c \<leftarrow> upd_server i (s_next_timeout_update (\<lambda>_. t)) c; Some (c, st) }"

partial_function (option) ping_loop :: shandler_fun where
  "ping_loop E i c =
     do { (c, msg) \<leftarrow> get_ping_msg i c;
          case msg of
            None \<Rightarrow> set_timeout i (Timeval 0 0) pss_ping c
          | Some a \<Rightarrow>
              do { c \<leftarrow> upd_flow a (f_retry_count_update (\<lambda>_. 0)) c;
                   (c, st) \<leftarrow> handle_flow_event E a fev_send None c;
                   if st \<noteq> pfs_failed
                   then do { f \<leftarrow> c_heap c a; set_timeout i (f_timeout f) pss_wait_ping_resp c }
                   else ping_loop E i c } }"

definition handle_server_ping :: shandler_fun where
  "handle_server_ping E i c = do { c \<leftarrow> upd_server i (s_ping_count_update (\<lambda>_. 0)) c; ping_loop E i c }"

definition handle_wait_ping_resp_timeout :: shandler_fun where
  "handle_wait_ping_resp_timeout E i c =
     do { c \<leftarrow> upd_server i (\<lambda>s. s\<lparr>s_ping_count := s_ping_count s + 1\<rparr>) c;
          s \<leftarrow> server_at c i;
          if s_ping_count s \<ge> PCP_MAX_PING_COUNT
          then set_timeout i (gettimeofday E c) pss_set_not_working (tick c)
          else case s_ping_flow_msg s of
              None \<Rightarrow> set_timeout i (gettimeofday E c) pss_ping (tick c)
            | Some a \<Rightarrow>
                do { (c, st) \<leftarrow> handle_flow_event E a fev_flow_timedout None c;
                     if st = pfs_failed then set_timeout i (gettimeofday E c) pss_set_not_working (tick c)
                     else do { s \<leftarrow> server_at c i;
                               case s_ping_flow_msg s of
                                 None \<Rightarrow> set_timeout i (Timeval 0 0) pss_ping c
                               | Some a \<Rightarrow> do { f \<leftarrow> c_heap c a;
                                               set_timeout i (f_timeout f) pss_wait_ping_resp c } } } }"

definition handle_wait_io_receive_msg :: shandler_fun where
  "handle_wait_io_receive_msg E i c =
     (if m_recv_result (c_msg c) = PCP_RES_UNSUPP_VERSION
      then do { c \<leftarrow> upd_server i (\<lambda>s. s\<lparr>s_next_timeout := gettimeofday E c,
                       s_next_version := ucast (m_recv_version (c_msg c))\<rparr>) (tick c);
                Some (c, pss_version_negotiation) }
      else if m_recv_result (c_msg c) = PCP_RES_ADDRESS_MISMATCH
      then set_timeout i (gettimeofday E c) pss_set_not_working (tick c)
      else do { (c, f) \<leftarrow> server_process_rcvd_pcp_msg E i c;
                s \<leftarrow> server_at c i;
                let (s, restarted) = compare_epochs (c_msg c) s;
                c \<leftarrow> upd_server i (\<lambda>_. s) c;
                if restarted
                then do { c \<leftarrow> upd_server i (\<lambda>s. s\<lparr>s_epoch := m_recv_epoch (c_msg c),
                                 s_cepoch := m_received_time (c_msg c), s_next_timeout := gettimeofday E c,
                                 s_restart_flow_msg := f\<rparr>) (tick c);
                          Some (c, pss_server_restart) }
                else set_timeout i (gettimeofday E c) pss_wait_io_calc_nearest_timeout (tick c) })"

definition handle_wait_ping_resp_recv :: shandler_fun where
  "handle_wait_ping_resp_recv E i c =
     do { (c, res) \<leftarrow> handle_wait_io_receive_msg E i c;
          Some (c, if res = pss_wait_io_calc_nearest_timeout then pss_send_all_msgs
                   else if res = pss_wait_io then pss_wait_ping_resp else res) }"

text \<open>The end of \<^verbatim>\<open>handle_version_negotiation\<close>: the request that is to be answered.\<close>

definition send_ping :: "env \<Rightarrow> nat \<Rightarrow> addr \<Rightarrow> pcp_ctx \<Rightarrow> (pcp_ctx \<times> pcp_server_state_e) option" where
  "send_ping E i a c =
     do { c \<leftarrow> upd_flow a (\<lambda>f. f\<lparr>f_retry_count := 0, f_resend_timeout := 0\<rparr>) c;
          (c, _) \<leftarrow> handle_flow_event E a fev_send None c;
          f \<leftarrow> c_heap c a;
          if f_state f = pfs_failed then Some (c, pss_set_not_working)
          else set_timeout i (f_timeout f) pss_wait_ping_resp c }"

definition handle_version_negotiation :: shandler_fun where
  "handle_version_negotiation E i c =
     do { c \<leftarrow> upd_server i (\<lambda>s. if s_next_version s = s_pcp_version s
                                 then s\<lparr>s_next_version := s_next_version s - 1\<rparr> else s) c;
          s \<leftarrow> server_at c i;
          if s_pcp_version s = 0 then Some (c, pss_set_not_working)
          else do { c \<leftarrow> upd_server i (\<lambda>s. s\<lparr>s_pcp_version := s_next_version s\<rparr>) c;
                    (c, ping_msg) \<leftarrow>
                      (if s_next_version s = 0
                       then do { c \<leftarrow> (case s_ping_flow_msg s of None \<Rightarrow> Some c
                                       | Some a \<Rightarrow> upd_flow a (\<lambda>f. f\<lparr>f_state := pfs_wait_for_server_init,
                                                      f_timeout := Timeval 0 0\<rparr>) c);
                                 create_natpmp_ann_msg E i c }
                       else Some (c, s_ping_flow_msg s));
                    case ping_msg of
                      Some a \<Rightarrow> send_ping E i a c
                    | None \<Rightarrow>
                        do { (c, ping_msg) \<leftarrow> get_ping_msg i c;
                             case ping_msg of
                               None \<Rightarrow> set_timeout i (Timeval 0 0) pss_ping c
                             | Some a \<Rightarrow> send_ping E i a c } } }"

definition handle_send_all_msgs :: shandler_fun where
  "handle_send_all_msgs E i c =
     do { (c, _, _) \<leftarrow> pcp_db_foreach_flow (flow_send_event_iter E i fev_server_initialized) () c;
          set_timeout i (gettimeofday E c) pss_wait_io_calc_nearest_timeout (tick c) }"

definition handle_server_restart :: shandler_fun where
  "handle_server_restart E i c =
     do { (c, _, _) \<leftarrow> pcp_db_foreach_flow (flow_send_event_iter E i fev_server_restarted) () c;
          c \<leftarrow> upd_server i (s_restart_flow_msg_update (\<lambda>_. None)) c;
          set_timeout i (gettimeofday E c) pss_wait_io_calc_nearest_timeout (tick c) }"

definition handle_wait_io_timeout :: shandler_fun where
  "handle_wait_io_timeout E i c =
     do { c \<leftarrow> upd_server i (s_next_timeout_update (\<lambda>_. Timeval 0 0)) c;
          (c, _, _) \<leftarrow> pcp_db_foreach_flow (check_server_flow_timeout E i) () c;
          s \<leftarrow> server_at c i;
          if tv_is_zero (s_next_timeout s) then Some (c, pss_wait_io)
          else let ctv = gettimeofday E c in
               set_timeout i (timeval_align (Timeval (tv_sec (s_next_timeout s) + tv_sec ctv)
                   (tv_usec (s_next_timeout s) + tv_usec ctv))) pss_wait_io (tick c) }"

definition handle_server_set_not_working :: shandler_fun where
  "handle_server_set_not_working E i c =
     do { (c, _, _) \<leftarrow> pcp_db_foreach_flow (flow_send_event_iter E i fev_failed) () c;
          let now = gettimeofday E c;
          set_timeout i (Timeval (tv_sec now + PCP_SERVER_DISCOVERY_RETRY_DELAY) (tv_usec now)) pss_not_working (tick c) }"

definition handle_server_not_working :: shandler_fun where
  "handle_server_not_working E i c =
     do { s \<leftarrow> server_at c i;
          let (ctv, t, r) = timeval_comp (gettimeofday E c) (s_next_timeout s);
          c \<leftarrow> upd_server i (s_next_timeout_update (\<lambda>_. t)) (tick c);
          if r < 0
          then if m_recv_result (c_msg c) = PCP_RES_UNSUPP_VERSION \<or> m_recv_result (c_msg c) = PCP_RES_ADDRESS_MISMATCH
            then Some (c, pss_not_working)
            else do { (c, f) \<leftarrow> server_process_rcvd_pcp_msg E i c;
                      c \<leftarrow> upd_server i (\<lambda>s. s\<lparr>s_epoch := m_recv_epoch (c_msg c),
                             s_cepoch := m_received_time (c_msg c), s_next_timeout := gettimeofday E c,
                             s_restart_flow_msg := f\<rparr>) (tick c);
                      Some (c, pss_server_restart) }
          else set_timeout i ctv pss_server_reping c }"

definition handle_server_reping :: shandler_fun where
  "handle_server_reping E i c =
     do { c \<leftarrow> upd_server i (s_pcp_version_update (\<lambda>_. PCP_MAX_SUPPORTED_VERSION)) c;
          set_timeout i (gettimeofday E c) pss_ping (tick c) }"

definition pcp_terminate_server :: shandler_fun where
  "pcp_terminate_server E i c = set_timeout i (Timeval 0 0) pss_allocated c"

definition ignore_events :: shandler_fun where
  "ignore_events E i c =
     do { s \<leftarrow> server_at c i; set_timeout i (Timeval 0 0) (s_server_state s) c }"

definition log_unexepected_state_event :: shandler_fun where
  "log_unexepected_state_event E i c = set_timeout i (gettimeofday E c) pss_set_not_working (tick c)"

section \<open>The table\<close>

datatype shandler =
    S_terminate | S_ping | S_wait_ping_resp_timeout | S_wait_ping_resp_recv | S_version_negotiation
  | S_send_all_msgs | S_wait_io_receive_msg | S_wait_io_timeout | S_server_restart | S_server_reping
  | S_set_not_working | S_not_working | S_ignore_events | S_log_unexpected

fun run_shandler :: "shandler \<Rightarrow> shandler_fun" where
  "run_shandler S_terminate = pcp_terminate_server"
| "run_shandler S_ping = handle_server_ping"
| "run_shandler S_wait_ping_resp_timeout = handle_wait_ping_resp_timeout"
| "run_shandler S_wait_ping_resp_recv = handle_wait_ping_resp_recv"
| "run_shandler S_version_negotiation = handle_version_negotiation"
| "run_shandler S_send_all_msgs = handle_send_all_msgs"
| "run_shandler S_wait_io_receive_msg = handle_wait_io_receive_msg"
| "run_shandler S_wait_io_timeout = handle_wait_io_timeout"
| "run_shandler S_server_restart = handle_server_restart"
| "run_shandler S_server_reping = handle_server_reping"
| "run_shandler S_set_not_working = handle_server_set_not_working"
| "run_shandler S_not_working = handle_server_not_working"
| "run_shandler S_ignore_events = ignore_events"
| "run_shandler S_log_unexpected = log_unexepected_state_event"

definition server_sm :: "(pcp_server_state_e \<times> pcp_event_e \<times> shandler) list" where
  "server_sm =
    [(pss_any, pcpe_terminate, S_terminate),
     (pss_ping, pcpe_any, S_ping),
     (pss_wait_ping_resp, pcpe_timeout, S_wait_ping_resp_timeout),
     (pss_wait_ping_resp, pcpe_io_event, S_wait_ping_resp_recv),
     (pss_version_negotiation, pcpe_any, S_version_negotiation),
     (pss_send_all_msgs, pcpe_any, S_send_all_msgs),
     (pss_wait_io, pcpe_io_event, S_wait_io_receive_msg),
     (pss_wait_io, pcpe_timeout, S_wait_io_timeout),
     (pss_wait_io_calc_nearest_timeout, pcpe_any, S_wait_io_timeout),
     (pss_server_restart, pcpe_any, S_server_restart),
     (pss_server_reping, pcpe_any, S_server_reping),
     (pss_set_not_working, pcpe_any, S_set_not_working),
     (pss_not_working, pcpe_any, S_not_working),
     (pss_allocated, pcpe_any, S_ignore_events),
     (pss_any, pcpe_any, S_log_unexpected)]"

definition server_handler :: "pcp_server_state_e \<Rightarrow> pcp_event_e \<Rightarrow> shandler option" where
  "server_handler st event =
     map_option (snd \<circ> snd)
       (find (\<lambda>(s, e, _). (s = st \<or> s = pss_any) \<and> (e = pcpe_any \<or> e = event)) server_sm)"

definition run_server_state_machine ::
  "env \<Rightarrow> nat option \<Rightarrow> pcp_event_e \<Rightarrow> pcp_ctx \<Rightarrow> (pcp_ctx \<times> pcp_errno) option" where
  "run_server_state_machine E p event c =
     (case p of
        None \<Rightarrow> Some (c, PCP_ERR_BAD_ARGS)
      | Some i \<Rightarrow>
          do { s \<leftarrow> server_at c i;
               case server_handler (s_server_state s) event of
                 None \<Rightarrow> Some (c, PCP_ERR_SUCCESS)
               | Some h \<Rightarrow>
                   do { (c, st) \<leftarrow> run_shandler h E i c;
                        c \<leftarrow> upd_server i (s_server_state_update (\<lambda>_. st)) c;
                        Some (c, PCP_ERR_SUCCESS) } })"

section \<open>The event loop\<close>

text \<open>The rounds of a server whose time has come; the result carries what is left in \<^verbatim>\<open>ctv\<close>.\<close>

partial_function (option) timeout_rounds :: "env \<Rightarrow> nat \<Rightarrow> pcp_ctx \<Rightarrow> (pcp_ctx \<times> timeval) option" where
  "timeout_rounds E i c =
     do { s \<leftarrow> server_at c i;
          let ctv = gettimeofday E c;
          let c = tick c;
          if tv_is_zero (s_next_timeout s) then Some (c, ctv)
          else do { let (ctv, t, past) = timeval_subtract (s_next_timeout s) ctv;
                    c \<leftarrow> upd_server i (s_next_timeout_update (\<lambda>_. t)) c;
                    if \<not> past then Some (c, ctv)
                    else do { (c, _) \<leftarrow> run_server_state_machine E (Some i) pcpe_timeout c;
                              timeout_rounds E i c } } }"

text \<open>\<^verbatim>\<open>hserver_iter\<close> with the event and the value of \<^verbatim>\<open>*res_timeout\<close>, absent for a NULL
  pointer.\<close>

definition hserver_iter :: "env \<Rightarrow> pcp_event_e \<Rightarrow> timeval option server_iterate" where
  "hserver_iter E ev i res_timeout c =
     do { s \<leftarrow> server_at c i;
          if s_server_state s = pss_unitialized then Some (c, res_timeout, False)
          else do { c \<leftarrow> (if ev \<noteq> pcpe_timeout then map_option fst (run_server_state_machine E (Some i) ev c)
                          else Some c);
                    (c, ctv) \<leftarrow> timeout_rounds E i c;
                    s \<leftarrow> server_at c i;
                    case res_timeout of
                      None \<Rightarrow> Some (c, None, False)
                    | Some rt \<Rightarrow>
                        if tv_is_zero (s_next_timeout s) then Some (c, Some rt, False)
                        else if tv_is_zero rt then Some (c, Some ctv, False)
                        else let (ctv, rt, r) = timeval_comp ctv rt
                             in Some (c, Some (if r < 0 then ctv else rt), False) } }"

text \<open>The part of \<^verbatim>\<open>pcp_pulse\<close> that completes the key of a parsed message from the server it
  came from.\<close>

definition complete_msg :: "pcp_server \<Rightarrow> u32 \<Rightarrow> pcp_recv_msg \<Rightarrow> pcp_recv_msg" where
  "complete_msg s scope_id msg =
     (let kd = (m_kd msg)\<lparr>kd_pcp_server_ip := s_pcp_ip s\<rparr>;
          (ip, _, sc) = pcp_fill_in6_addr (kd_src_ip kd) 0 (kd_scope_id kd) (m_rcvd_to_addr msg);
          kd = kd\<lparr>kd_src_ip := ip, kd_scope_id := sc\<rparr>;
          kd = (if IPV6_IS_ADDR_ANY (kd_src_ip kd)
                then kd\<lparr>kd_src_ip := s_src_ip s, kd_scope_id := scope_id\<rparr> else kd);
          kd = (if m_recv_version msg < 2 then kd\<lparr>kd_nonce := s_nonce s\<rparr> else kd)
      in msg\<lparr>m_pcp_server_indx := s_index s, m_kd := kd\<rparr>)"

text \<open>The part of \<^verbatim>\<open>pcp_pulse\<close> that handles a datagram. A sender of another family than IPv4 and
  IPv6 would leave the variables for its address uninitialised.\<close>

definition receive_msg :: "env \<Rightarrow> pcp_ctx \<Rightarrow> pcp_ctx option" where
  "receive_msg E c =
     (let c = c\<lparr>c_msg := (c_msg c)\<lparr>m_received_time := env_time E (c_tick c)\<rparr>\<rparr>;
          c = tick c
      in if \<not> validate_pcp_msg (c_msg c) then Some c
         else
           let (msg, r) = parse_response (c_msg c); c = c\<lparr>c_msg := msg\<rparr> in
           if r \<noteq> PCP_ERR_SUCCESS then Some c
           else case m_rcvd_from_addr msg of
               Sockaddr_other _ \<Rightarrow> None
             | from \<Rightarrow>
                 let (ip6, _, scope_id) = pcp_fill_in6_addr in6_zero 0 0 from in
                 do { p \<leftarrow> get_pcp_server_by_ip ip6 scope_id c;
                      case p of
                        None \<Rightarrow> Some c
                      | Some i \<Rightarrow>
                          do { s \<leftarrow> server_at c i;
                               (c, _, _) \<leftarrow> hserver_iter E pcpe_io_event i None
                                  (c\<lparr>c_msg := complete_msg s scope_id msg\<rparr>);
                               Some c } })"

text \<open>\<^verbatim>\<open>pcp_pulse\<close> on a context; \<open>next_timeout\<close> is absent for a NULL pointer. The result is the
  context, what \<^verbatim>\<open>*next_timeout\<close> holds then, and the value returned, which is converted to
  \<^verbatim>\<open>int\<close>.\<close>

definition pcp_pulse :: "env \<Rightarrow> timeval option \<Rightarrow> pcp_ctx \<Rightarrow> (pcp_ctx \<times> timeval \<times> int) option" where
  "pcp_pulse E next_timeout c =
     do { let t = (case next_timeout of None \<Rightarrow> Timeval 0 0 | Some t \<Rightarrow> t);
          let (c, r) = read_msg E c;
          c \<leftarrow> (if r = PCP_ERR_SUCCESS then receive_msg E c else Some c);
          (c, res, _) \<leftarrow> pcp_db_foreach_server (hserver_iter E pcpe_timeout) (Some t) c;
          t \<leftarrow> res;
          Some (c, t, sint (word_of_int (tv_sec t * 1000 + tv_usec t sdiv 1000) :: u32)) }"

section \<open>Operations of the API on the state machines\<close>

definition pcp_flow_updated :: "env \<Rightarrow> addr option \<Rightarrow> pcp_ctx \<Rightarrow> pcp_ctx option" where
  "pcp_flow_updated E p c =
     (case p of
        None \<Rightarrow> Some c
      | Some a \<Rightarrow>
          do { let curtime = gettimeofday E c;
               let c = tick c;
               f \<leftarrow> c_heap c a;
               c \<leftarrow> (case get_pcp_server c (sint (f_pcp_server_indx f)) of
                       None \<Rightarrow> Some c
                     | Some i \<Rightarrow> upd_server i (s_next_timeout_update (\<lambda>_. curtime)) c);
               c \<leftarrow> pcp_flow_clear_msg_buf (Some a) c;
               upd_flow a (\<lambda>f. f\<lparr>f_timeout := curtime,
                 f_state := (if f_state f \<noteq> pfs_wait_for_server_init \<and> f_state f \<noteq> pfs_idle \<and>
                                f_state f \<noteq> pfs_failed then pfs_send else f_state f)\<rparr>) c })"

definition pcp_set_flow_change_cb :: "bool \<Rightarrow> pcp_ctx \<Rightarrow> pcp_ctx" where
  "pcp_set_flow_change_cb cb_fun c = c\<lparr>c_flow_change_cb := cb_fun\<rparr>"

fun terminate_servers :: "env \<Rightarrow> nat list \<Rightarrow> pcp_ctx \<Rightarrow> pcp_ctx option" where
  "terminate_servers E [] c = Some c"
| "terminate_servers E (i # is) c =
     do { s \<leftarrow> server_at c i;
          c \<leftarrow> (if s_server_state s \<noteq> pss_unitialized \<and> s_server_state s \<noteq> pss_allocated
                then map_option fst (run_server_state_machine E (Some i) pcpe_terminate c) else Some c);
          terminate_servers E is c }"

definition pcp_db_free_pcp_servers :: "env \<Rightarrow> pcp_ctx \<Rightarrow> pcp_ctx option" where
  "pcp_db_free_pcp_servers E c =
     do { c \<leftarrow> terminate_servers E [0..<length (c_pcp_servers c)] c;
          Some (c\<lparr>c_pcp_servers := []\<rparr>) }"

section \<open>What a server handler keeps\<close>

text \<open>\<open>sm_ok c0 i c\<close>: the context is well-formed, the server \<open>i\<close> is in use, and no other server
  record differs from those of \<open>c0\<close>.\<close>

definition sm_ok :: "pcp_ctx \<Rightarrow> nat \<Rightarrow> pcp_ctx \<Rightarrow> bool" where
  "sm_ok c0 i c \<longleftrightarrow> ctx_wf c \<and> i < length (c_pcp_servers c) \<and>
     s_server_state (c_pcp_servers c ! i) \<noteq> pss_unitialized \<and>
     length (c_pcp_servers c) = length (c_pcp_servers c0) \<and>
     (\<forall>j. j \<noteq> i \<longrightarrow> c_pcp_servers c ! j = c_pcp_servers c0 ! j)"

lemma ctx_wf_cong:
  assumes "c_pcp_servers c' = c_pcp_servers c" and "c_flow_cnt c' = c_flow_cnt c" and "c_flows c' = c_flows c"
    and "c_heap c' = c_heap c" and "length (m_pcp_msg_buffer (c_msg c')) = length (m_pcp_msg_buffer (c_msg c))"
  shows "ctx_wf c' \<longleftrightarrow> ctx_wf c"
proof -
  have "fnext c' = fnext c" "fbucket c' = fbucket c" "fchild c' = fchild c"
    using assms(4) by (simp_all add: fnext_def fbucket_def fchild_def fun_eq_iff)
  then show ?thesis
    using db_rep_cong [of c' c] assms
    by (simp add: ctx_wf_def servers_wf_def server_ok_def children_wf_def)
qed

lemma sm_ok_tick [simp]: "sm_ok c0 i (tick c) \<longleftrightarrow> sm_ok c0 i c"
  using ctx_wf_cong [of "tick c" c] by (simp add: sm_ok_def)

lemma sm_ok_msg:
  "length (m_pcp_msg_buffer m) = PCP_MAX_LEN \<Longrightarrow> sm_ok c0 i c \<Longrightarrow> sm_ok c0 i (c\<lparr>c_msg := m\<rparr>)"
  using ctx_wf_cong [of "c\<lparr>c_msg := m\<rparr>" c] by (simp add: sm_ok_def ctx_wf_def)

lemma sm_ok_self: "sm_ok c0 i c \<Longrightarrow> sm_ok c i c"
  by (simp add: sm_ok_def)

lemma sm_ok_trans: "sm_ok c0 i c1 \<Longrightarrow> sm_ok c1 i c2 \<Longrightarrow> sm_ok c0 i c2"
  by (simp add: sm_ok_def)

lemma sm_ok_in [dest]: "sm_ok c0 i c \<Longrightarrow> i < length (c_pcp_servers c)"
  by (simp add: sm_ok_def)

lemma sm_ok_flow_wf: "sm_ok c0 i c \<Longrightarrow> c_heap c a = Some f \<Longrightarrow> flow_wf f"
  by (auto simp: sm_ok_def ctx_wf_def)

lemma sm_ok_chain:
  assumes "sm_ok c0 i c" and "c_heap c a = Some f"
  obtains xs where "Chain (fchild c) (Some a) xs None"
  using assms by (auto simp: sm_ok_def ctx_wf_def children_wf_def)

text \<open>What changes one flow within \<open>flow_frame\<close> keeps the context well-formed.\<close>

lemma flow_frame_ctx_wf:
  assumes fr: "flow_frame a c c'" and wf: "ctx_wf c"
  shows "ctx_wf c'"
proof -
  have other: "c_heap c' b = c_heap c b" if "b \<noteq> a" for b using fr that by (simp add: flow_frame_def)
  have fwd: "\<exists>g. c_heap c' b = Some g \<and> f_pcp_server_indx g = f_pcp_server_indx f" if h: "c_heap c b = Some f" for b f
  proof (cases "b = a")
    case True
    then obtain g where "c_heap c' a = Some g" "flow_static g = flow_static f"
      using flow_frame_heap [OF fr] h by blast
    then show ?thesis using True by (auto dest: flow_static_sel(5))
  qed (use h other in auto)
  have "servers_wf c'"
  proof (rule servers_wf_cong [of c])
    show "servers_wf c" using wf by (simp add: ctx_wf_def)
    show "c_pcp_servers c' = c_pcp_servers c" using fr by (simp add: flow_frame_def)
  qed (rule fwd)
  moreover have "\<exists>bs. db_rep c' bs" using wf flow_frame_db [OF fr] by (simp add: ctx_wf_def)
  moreover have bwd: "\<exists>f. c_heap c b = Some f" if "c_heap c' b = Some g" for b g
  proof -
    have "map_option flow_static (c_heap c' a) = map_option flow_static (c_heap c a)"
      using fr by (simp add: flow_frame_def)
    then show ?thesis using that other [of b] by (cases "b = a"; cases "c_heap c b") auto
  qed
  then have "children_wf c'"
    unfolding children_wf_def flow_frame_fields(1) [OF fr]
    using wf by (auto simp: children_wf_def ctx_wf_def)
  moreover have "flow_wf g" if g: "c_heap c' b = Some g" for b g
  proof (cases "b = a")
    case True
    obtain f where f: "c_heap c b = Some f" using bwd [OF g] by blast
    then have "flow_wf f" using wf by (simp add: ctx_wf_def)
    then show ?thesis using fr f g True by (simp add: flow_frame_def)
  next
    case False
    then show ?thesis using wf other g by (simp add: ctx_wf_def)
  qed
  ultimately show ?thesis
    using wf fr by (simp add: ctx_wf_def flow_frame_def)
qed

lemma flow_frame_sm_ok: "flow_frame a c c' \<Longrightarrow> sm_ok c0 i c \<Longrightarrow> sm_ok c0 i c'"
  using flow_frame_ctx_wf [of a c c'] by (simp add: sm_ok_def flow_frame_def)

lemma handle_flow_event_ok:
  assumes E: "sendto_bounded E" and ok: "sm_ok c0 i c" and f: "c_heap c a = Some f"
    and r: "is_response ev \<Longrightarrow> r \<noteq> None"
  shows "yields (handle_flow_event E a ev r c) (\<lambda>(c', st). sm_ok c0 i c' \<and> flow_frame a c c' \<and>
    (\<exists>g. c_heap c' a = Some g \<and> f_state g = st))"
proof -
  obtain xs where ch: "Chain (fchild c) (Some a) xs None" using ok f by (rule sm_ok_chain)
  show ?thesis
    by (rule yields_mono [OF handle_flow_event_frame [OF E f sm_ok_flow_wf [OF ok f] ch r]])
      (auto intro: flow_frame_sm_ok [OF _ ok])
qed

lemma upd_flow_ok:
  assumes ok: "sm_ok c0 i c" and f: "c_heap c a = Some f"
    and "\<And>f. flow_static (g f) = flow_static f" and "\<And>f. flow_wf f \<Longrightarrow> flow_wf (g f)"
  shows "yields (upd_flow a g c) (\<lambda>c'. sm_ok c0 i c' \<and> flow_frame a c c' \<and> c_heap c' a = Some (g f))"
proof -
  have "yields (upd_flow a g c) (\<lambda>c'. quiet_frame a c c')"
    using f assms(3,4) by (intro yields_upd_flow) auto
  then show ?thesis
    using f ok flow_frame_sm_ok [of a c _ c0 i] by (simp add: quiet_frame_def)
qed

lemma server_at_ok: "sm_ok c0 i c \<Longrightarrow> server_at c i = Some (c_pcp_servers c ! i)"
  by (simp add: sm_ok_def)

text \<open>Writing the server: its position stays, and so does its ping flow unless the new one is a
  flow of the server.\<close>

lemma upd_server_ok:
  assumes ok: "sm_ok c0 i c"
    and g: "s_index (g (c_pcp_servers c ! i)) = s_index (c_pcp_servers c ! i)"
      "s_server_state (g (c_pcp_servers c ! i)) \<noteq> pss_unitialized"
      "\<And>a. s_ping_flow_msg (g (c_pcp_servers c ! i)) = Some a \<Longrightarrow> s_ping_flow_msg (c_pcp_servers c ! i) = Some a \<or>
         (\<exists>f. c_heap c a = Some f \<and> f_pcp_server_indx f = s_index (c_pcp_servers c ! i))"
  shows "yields (upd_server i g c) (\<lambda>c'. sm_ok c0 i c' \<and> c_heap c' = c_heap c \<and> c_msg c' = c_msg c \<and>
    (\<forall>bs. db_rep c bs \<longrightarrow> db_rep c' bs) \<and> c_pcp_servers c' ! i = g (c_pcp_servers c ! i))"
proof -
  let ?s = "g (c_pcp_servers c ! i)"
  let ?c = "c\<lparr>c_pcp_servers := (c_pcp_servers c)[i := ?s]\<rparr>"
  have i: "i < length (c_pcp_servers c)" using ok by auto
  have wf: "servers_wf c" using ok by (simp add: sm_ok_def ctx_wf_def)
  have "server_ok c i" using wf i by (rule servers_wfD)
  then have "server_ok ?c i"
    using g i ok by (fastforce simp: server_ok_def Let_def sm_ok_def)
  then have swf: "servers_wf ?c" by (rule servers_wf_upd_server [OF wf i])
  have eq: "fnext ?c = fnext c" "fbucket ?c = fbucket c" "fchild ?c = fchild c"
    by (simp_all add: fnext_def fbucket_def fchild_def fun_eq_iff)
  then have db: "db_rep ?c bs \<longleftrightarrow> db_rep c bs" for bs by (intro db_rep_cong) simp_all
  have "ctx_wf ?c"
    using ok swf eq db by (simp add: sm_ok_def ctx_wf_def children_wf_def)
  then show ?thesis using ok i g db by (simp add: sm_ok_def)
qed

section \<open>The callbacks\<close>

lemma find_first: "\<forall>x\<in>set xs. \<not> P x \<Longrightarrow> P a \<Longrightarrow> find P (xs @ a # ys) = Some a"
  by (induction xs) auto

lemma not_response [simp]:
  "\<not> is_response fev_flow_timedout" "\<not> is_response fev_send" "\<not> is_response fev_server_initialized"
  "\<not> is_response fev_server_restarted" "\<not> is_response fev_failed"
  by (simp_all add: is_response_def)

text \<open>The times \<open>timeval_subtract\<close> returns.\<close>

definition tv_nonneg :: "timeval \<Rightarrow> bool" where
  "tv_nonneg t \<longleftrightarrow> tv_normal t \<and> 0 \<le> tv_us t"

lemma tv_nonneg_zero [simp]: "tv_nonneg (Timeval 0 0)"
  by (simp add: tv_nonneg_def tv_normal_def tv_us_def)

lemma tv_nonneg_pos:
  assumes "tv_nonneg t" and "\<not> tv_is_zero t"
  shows "0 < tv_us t"
proof (rule ccontr)
  assume "\<not> 0 < tv_us t"
  then have "tv_sec t * 1000000 + tv_usec t = 0" "0 \<le> tv_usec t" "tv_usec t < 1000000"
    using assms(1) by (auto simp: tv_nonneg_def tv_normal_def tv_us_def)
  moreover from this have "tv_sec t \<le> 0" "0 \<le> tv_sec t" by linarith+
  ultimately have "tv_sec t = 0 \<and> tv_usec t = 0" by simp
  then show False using assms(2) by (simp add: tv_is_zero_def)
qed

lemma timeval_subtract_nonneg:
  assumes "timeval_subtract x y = (r, x', ret)"
  shows "tv_nonneg r"
proof (cases "tv_us x \<le> tv_us y")
  case True
  then show ?thesis using assms by (auto simp: timeval_subtract_past)
next
  case False
  then have "tv_us y < tv_us x" by simp
  then obtain q where "timeval_subtract x y = (q, timeval_align x, False)" "tv_normal q" "tv_us q = tv_us x - tv_us y"
    by (rule timeval_subtract_future)
  then show ?thesis using assms False by (simp add: tv_nonneg_def)
qed

lemma timeval_comp_nonneg:
  "timeval_comp x y = (x', y', k) \<Longrightarrow> (tv_nonneg x \<longrightarrow> tv_nonneg x') \<and> (tv_nonneg y \<longrightarrow> tv_nonneg y')"
  by (auto simp: timeval_comp_sgn tv_nonneg_def timeval_align_normal timeval_align_us)

lemma check_flow_timeout_ok:
  assumes E: "sendto_bounded E" and ok: "sm_ok c0 i c" and f: "c_heap c a = Some f"
  shows "yields (check_flow_timeout E a tout c) (\<lambda>(c', t). flow_frame a c c' \<and> (tv_nonneg tout \<longrightarrow> tv_nonneg t))"
proof -
  have h: "\<exists>g. c_heap d a = Some g" if "flow_frame a c d" for d
    using flow_frame_heap [OF that f] by metis
  have rd: "yields (c_heap d a) (\<lambda>_. True)" if "flow_frame a c d" for d
    using h [OF that] by auto
  have ev: "yields (map_option fst (handle_flow_event E a fev_flow_timedout None d)) (flow_frame a c)"
    if d: "flow_frame a c d" for d
  proof -
    obtain g where "c_heap d a = Some g" using h [OF d] by blast
    then have "yields (handle_flow_event E a fev_flow_timedout None d) (\<lambda>(c', st). flow_frame a d c')"
      by (intro yields_mono [OF handle_flow_event_ok [OF E flow_frame_sm_ok [OF d ok]]]) auto
    then show ?thesis using flow_frame_trans [OF d] by (auto simp: yields_def)
  qed
  have upd: "yields (upd_flow a (f_timeout_update (\<lambda>_. t)) d) (flow_frame a c)" if d: "flow_frame a c d" for d t
  proof -
    obtain g where "c_heap d a = Some g" using h [OF d] by blast
    then have "yields (upd_flow a (f_timeout_update (\<lambda>_. t)) d) (\<lambda>c'. flow_frame a d c')"
      by (intro yields_mono [OF upd_flow_ok [OF flow_frame_sm_ok [OF d ok]]])
        (auto simp: flow_static_def flow_wf_def)
    then show ?thesis using flow_frame_trans [OF d] by (auto elim: yields_mono)
  qed
  note steps = yields_bind [OF upd] yields_bind [OF ev] yields_bind [OF rd]
  show ?thesis
    unfolding check_flow_timeout_def f bind.bind_lunit Let_def
    by (auto simp del: upd_flow_heap split: prod.split intro!: steps
        dest!: timeval_subtract_nonneg timeval_comp_nonneg)
qed

lemma check_server_flow_timeout_ok:
  assumes E: "sendto_bounded E" and ok: "sm_ok c0 i c" and f: "c_heap c a = Some f"
  shows "yields (check_server_flow_timeout E i a u c) (\<lambda>(c', u', stop). sm_ok c0 i c' \<and> \<not> stop \<and>
    (\<forall>bs. db_rep c bs \<longrightarrow> db_rep c' bs) \<and>
    (tv_nonneg (s_next_timeout (c_pcp_servers c ! i)) \<longrightarrow> tv_nonneg (s_next_timeout (c_pcp_servers c' ! i))))"
proof -
  let ?t = "s_next_timeout (c_pcp_servers c ! i)"
  let ?P = "\<lambda>(c', u', stop). sm_ok c0 i c' \<and> \<not> stop \<and> (\<forall>bs. db_rep c bs \<longrightarrow> db_rep c' bs) \<and>
    (tv_nonneg ?t \<longrightarrow> tv_nonneg (s_next_timeout (c_pcp_servers c' ! i)))"
  have "yields (check_flow_timeout E a ?t c \<bind> (\<lambda>(c, tout).
      upd_server i (s_next_timeout_update (\<lambda>_. tout)) c \<bind> (\<lambda>c. Some (c, u, False)))) ?P"
  proof (rule yields_bind2 [OF check_flow_timeout_ok [OF E ok f]])
    fix d and t :: timeval
    assume "case (d, t) of (c', t) \<Rightarrow> flow_frame a c c' \<and> (tv_nonneg ?t \<longrightarrow> tv_nonneg t)"
    then have d: "sm_ok c0 i d" "\<And>bs. db_rep c bs \<Longrightarrow> db_rep d bs" "tv_nonneg ?t \<longrightarrow> tv_nonneg t"
      using flow_frame_sm_ok [OF _ ok] flow_frame_db [of a c d] by auto
    have "yields (upd_server i (s_next_timeout_update (\<lambda>_. t)) d) (\<lambda>c'. sm_ok c0 i c' \<and>
        (\<forall>bs. db_rep d bs \<longrightarrow> db_rep c' bs) \<and> s_next_timeout (c_pcp_servers c' ! i) = t)"
      using d(1) by (intro yields_mono [OF upd_server_ok [OF d(1)]]) (auto simp: sm_ok_def)
    then show "yields (upd_server i (s_next_timeout_update (\<lambda>_. t)) d \<bind> (\<lambda>c. Some (c, u, False))) ?P"
      using d(2,3) by (auto simp: yields_def)
  qed
  then show ?thesis by (simp add: check_server_flow_timeout_def server_at_ok [OF ok])
qed

lemma flow_send_event_iter_ok:
  assumes E: "sendto_bounded E" and ok: "sm_ok c0 i c" and f: "c_heap c a = Some f" and ev: "\<not> is_response ev"
  shows "yields (flow_send_event_iter E i ev a u c) (\<lambda>(c', u', stop). sm_ok c0 i c' \<and> \<not> stop \<and>
    (\<forall>bs. db_rep c bs \<longrightarrow> db_rep c' bs))"
proof -
  have "yields (handle_flow_event E a ev None c \<bind> (\<lambda>(c, _). check_server_flow_timeout E i a u c))
    (\<lambda>(c', u', stop). sm_ok c0 i c' \<and> \<not> stop \<and> (\<forall>bs. db_rep c bs \<longrightarrow> db_rep c' bs))"
  proof (rule yields_bind2)
    show "yields (handle_flow_event E a ev None c) (\<lambda>(c', st). sm_ok c0 i c' \<and> flow_frame a c c' \<and>
        (\<exists>g. c_heap c' a = Some g \<and> f_state g = st))"
      using ev by (intro handle_flow_event_ok [OF E ok f]) simp
  next
    fix d and st :: pcp_flow_state_e
    assume "case (d, st) of (c', st) \<Rightarrow> sm_ok c0 i c' \<and> flow_frame a c c' \<and> (\<exists>g. c_heap c' a = Some g \<and> f_state g = st)"
    then obtain g where d: "sm_ok c0 i d" "c_heap d a = Some g" "\<And>bs. db_rep c bs \<Longrightarrow> db_rep d bs"
      using flow_frame_db [of a c d] by auto
    show "yields (check_server_flow_timeout E i a u d)
      (\<lambda>(c', u', stop). sm_ok c0 i c' \<and> \<not> stop \<and> (\<forall>bs. db_rep c bs \<longrightarrow> db_rep c' bs))"
      using d(3) by (intro yields_mono [OF check_server_flow_timeout_ok [OF E d(1,2)]]) auto
  qed
  then show ?thesis
    using f ok by (auto simp: flow_send_event_iter_def server_at_ok [OF ok])
qed

section \<open>The walks\<close>

interpretation check_walk: table_walk "check_server_flow_timeout E i" bs
    "\<lambda>done d c. sendto_bounded E \<and> sm_ok c0 i c \<and> tv_nonneg (s_next_timeout (c_pcp_servers c ! i))"
    "\<lambda>d c. False" for E i bs c0
proof
  fix c "done" d a rest
  assume rep: "db_rep c bs" and inv: "sendto_bounded E \<and> sm_ok c0 i c \<and> tv_nonneg (s_next_timeout (c_pcp_servers c ! i))"
    and c: "concat bs = done @ a # rest"
  obtain f where "c_heap c a = Some f" using db_rep_heap [OF rep, of a] c by auto
  then show "yields (check_server_flow_timeout E i a d c) (\<lambda>(c', d', stop). db_rep c' bs \<and>
      (if stop then False else sendto_bounded E \<and> sm_ok c0 i c' \<and> tv_nonneg (s_next_timeout (c_pcp_servers c' ! i))))"
    using inv rep by (intro yields_mono [OF check_server_flow_timeout_ok]) auto
qed

interpretation send_walk: table_walk "flow_send_event_iter E i ev" bs
    "\<lambda>done d c. sendto_bounded E \<and> \<not> is_response ev \<and> sm_ok c0 i c" "\<lambda>d c. False" for E i ev bs c0
proof
  fix c "done" d a rest
  assume rep: "db_rep c bs" and inv: "sendto_bounded E \<and> \<not> is_response ev \<and> sm_ok c0 i c"
    and c: "concat bs = done @ a # rest"
  obtain f where "c_heap c a = Some f" using db_rep_heap [OF rep, of a] c by auto
  then show "yields (flow_send_event_iter E i ev a d c) (\<lambda>(c', d', stop). db_rep c' bs \<and>
      (if stop then False else sendto_bounded E \<and> \<not> is_response ev \<and> sm_ok c0 i c'))"
    using inv rep by (intro yields_mono [OF flow_send_event_iter_ok]) auto
qed

text \<open>A flow the server can be pinged with: one of its own that was not answered yet.\<close>

definition pingable :: "pcp_ctx \<Rightarrow> nat \<Rightarrow> addr \<Rightarrow> bool" where
  "pingable c i a \<longleftrightarrow> (case c_heap c a of None \<Rightarrow> False
     | Some f \<Rightarrow> f_pcp_server_indx f = s_index (c_pcp_servers c ! i) \<and>
         (f_state f = pfs_idle \<or> f_state f = pfs_wait_for_server_init \<or> f_state f = pfs_send))"

interpretation first_walk: table_walk "get_first_flow_iter i" bs
    "\<lambda>done d c. c = c0 \<and> i < length (c_pcp_servers c0) \<and> d = None \<and> (\<forall>a\<in>set done. \<not> pingable c0 i a)"
    "\<lambda>d c. c = c0 \<and> d = find (pingable c0 i) (concat bs)" for i bs c0
proof
  fix c "done" a rest and d :: "addr option"
  assume rep: "db_rep c bs" and c: "concat bs = done @ a # rest"
    and inv: "c = c0 \<and> i < length (c_pcp_servers c0) \<and> d = None \<and> (\<forall>a\<in>set done. \<not> pingable c0 i a)"
  obtain f where f: "c_heap c a = Some f" using db_rep_heap [OF rep, of a] c by auto
  have "find (pingable c0 i) (concat bs) = Some a" if "pingable c0 i a"
    using inv that find_first [of "done" "pingable c0 i" a rest] unfolding c by auto
  then show "yields (get_first_flow_iter i a d c) (\<lambda>(c', d', stop). db_rep c' bs \<and>
      (if stop then c' = c0 \<and> d' = find (pingable c0 i) (concat bs)
       else c' = c0 \<and> i < length (c_pcp_servers c0) \<and> d' = None \<and> (\<forall>a\<in>set (done @ [a]). \<not> pingable c0 i a)))"
    using inv f rep by (auto simp: get_first_flow_iter_def pingable_def)
qed

section \<open>New flows\<close>

lemma db_rep_alloc:
  assumes rep: "db_rep c bs" and a: "c_heap c a = None" and e: "f_key_bucket f = EMPTY"
  shows "db_rep (c\<lparr>c_heap := (c_heap c)(a \<mapsto> f)\<rparr>) bs"
proof -
  let ?c = "c\<lparr>c_heap := (c_heap c)(a \<mapsto> f)\<rparr>"
  have out: "a \<notin> set (bs ! j)" if "j < FLOW_HASH_SIZE" for j
    using Chain_defined [OF db_rep_chain [OF rep that], of a] a by (auto simp: fnext_def)
  have "Chain (fnext ?c) (c_flows c ! j) (bs ! j) None \<and> (\<forall>b\<in>set (bs ! j). fbucket ?c b = Some (of_nat j))"
    if j: "j < FLOW_HASH_SIZE" for j
  proof -
    have "Chain (fnext ?c) (c_flows c ! j) (bs ! j) None"
      using db_rep_chain [OF rep j] out [OF j] by (subst Chain_cong [of _ _ "fnext c"]) (auto simp: fnext_def)
    then show ?thesis using rep j out [OF j] by (auto simp: db_rep_def fbucket_def)
  qed
  then show ?thesis
    using rep e unfolding db_rep_def by (auto simp: fbucket_def split: if_splits)
qed

lemma children_wf_alloc:
  assumes wf: "children_wf c" and a: "c_heap c a = None" and n: "f_next_child f = None"
  shows "children_wf (c\<lparr>c_heap := (c_heap c)(a \<mapsto> f)\<rparr>)"
  unfolding children_wf_def
proof (intro allI impI)
  let ?c = "c\<lparr>c_heap := (c_heap c)(a \<mapsto> f)\<rparr>"
  fix b g
  assume g: "c_heap ?c b = Some g"
  show "\<exists>xs. Chain (fchild ?c) (Some b) xs None"
  proof (cases "b = a")
    case True
    then show ?thesis using n by (intro exI [of _ "[a]"]) (simp add: fchild_def)
  next
    case False
    then obtain xs where xs: "Chain (fchild c) (Some b) xs None"
      using wf g by (auto simp: children_wf_def)
    have "a \<notin> set xs" using Chain_defined [OF xs, of a] a by (auto simp: fchild_def)
    then have "Chain (fchild ?c) (Some b) xs None"
      using xs by (subst Chain_cong [of _ _ "fchild c"]) (auto simp: fchild_def)
    then show ?thesis by blast
  qed
qed

lemma servers_wf_alloc:
  "servers_wf c \<Longrightarrow> c_heap c a = None \<Longrightarrow> servers_wf (c\<lparr>c_heap := (c_heap c)(a \<mapsto> f)\<rparr>)"
  by (rule servers_wf_cong [of c]) auto

lemma ctx_wf_alloc:
  assumes "ctx_wf c" and "c_heap c a = None" and "f_key_bucket f = EMPTY" and "f_next_child f = None" and "flow_wf f"
  shows "ctx_wf (c\<lparr>c_heap := (c_heap c)(a \<mapsto> f)\<rparr>)"
  using assms db_rep_alloc [of c _ a f] children_wf_alloc [of c a f] servers_wf_alloc [of c a f]
  by (auto simp: ctx_wf_def)

text \<open>What \<open>pcp_create_flow\<close> makes.\<close>

definition new_flow :: "pcp_server \<Rightarrow> flow_key_data \<Rightarrow> pcp_flow" where
  "new_flow s fkd = zero_flow\<lparr>f_pcp_msg_len := 0, f_pcp_server_indx := s_index s, f_kd := fkd, f_key_bucket := EMPTY\<rparr>"

lemma new_flow_sel [simp]:
  "f_key_bucket (new_flow s fkd) = EMPTY" "f_next_child (new_flow s fkd) = None"
  "f_pcp_server_indx (new_flow s fkd) = s_index s" "f_kd (new_flow s fkd) = fkd" "flow_wf (new_flow s fkd)"
  by (simp_all add: new_flow_def zero_flow_def flow_wf_def)

lemma pcp_create_flow_cases:
  obtains "pcp_create_flow E s fkd c = (tick c, None)"
  | a where "c_heap c a = None"
      and "pcp_create_flow E s fkd c = (tick (c\<lparr>c_heap := (c_heap c)(a \<mapsto> new_flow s fkd)\<rparr>), Some a)"
proof (cases "calloc_flow E c")
  case None
  then show thesis using that(1) by (simp add: pcp_create_flow_def)
next
  case (Some a)
  then show thesis using that(2) [of a] calloc_flow_fresh [OF Some] by (simp add: pcp_create_flow_def new_flow_def)
qed

lemma db_frame_ctx_wf:
  assumes fr: "db_frame c c'" and wf: "ctx_wf c" and rep: "db_rep c' bs"
  shows "ctx_wf c'"
proof -
  have h: "map_option flow_body (c_heap c' a) = map_option flow_body (c_heap c a)" for a
    using db_frame_heap [OF fr] .
  have bwd: "\<exists>f. c_heap c a = Some f \<and> flow_body g = flow_body f" if "c_heap c' a = Some g" for a g
    using h [of a] that by (cases "c_heap c a") auto
  have ch: "fchild c' = fchild c"
  proof
    fix a
    show "fchild c' a = fchild c a"
      using h [of a] by (cases "c_heap c a"; cases "c_heap c' a") (auto simp: fchild_def dest: flow_body_eqD(2))
  qed
  have "children_wf c'" unfolding children_wf_def ch
  proof (intro allI impI)
    fix a g
    assume "c_heap c' a = Some g"
    then obtain f where "c_heap c a = Some f" using bwd by blast
    then show "\<exists>xs. Chain (fchild c) (Some a) xs None"
      using wf by (simp add: children_wf_def ctx_wf_def)
  qed
  moreover have "flow_wf g" if g: "c_heap c' a = Some g" for a g
  proof -
    obtain f where f: "c_heap c a = Some f" "flow_body g = flow_body f" using bwd [OF g] by blast
    then show ?thesis using wf flow_body_eqD(4) [OF f(2)] by (simp add: ctx_wf_def)
  qed
  ultimately show ?thesis
    using wf rep servers_wf_frame [OF fr] fr unfolding ctx_wf_def db_frame_def by auto
qed

section \<open>The handlers\<close>

text \<open>A computation that returns a state of use, in a context the handler may leave behind.\<close>

definition handler_ok :: "pcp_ctx \<Rightarrow> nat \<Rightarrow> (pcp_ctx \<times> pcp_server_state_e) option \<Rightarrow> bool" where
  "handler_ok c0 i m \<longleftrightarrow> yields m (\<lambda>(c', st). sm_ok c0 i c' \<and> st \<noteq> pss_unitialized)"

lemma handler_ok_Some [simp]: "handler_ok c0 i (Some (c, st)) \<longleftrightarrow> sm_ok c0 i c \<and> st \<noteq> pss_unitialized"
  by (simp add: handler_ok_def)

lemma handler_ok_bind: "yields m P \<Longrightarrow> (\<And>x. P x \<Longrightarrow> handler_ok c0 i (k x)) \<Longrightarrow> handler_ok c0 i (m \<bind> k)"
  unfolding handler_ok_def by (rule yields_bind)

lemma handler_ok_bind2:
  "yields m P \<Longrightarrow> (\<And>a b. P (a, b) \<Longrightarrow> handler_ok c0 i (k a b)) \<Longrightarrow> handler_ok c0 i (m \<bind> (\<lambda>(a, b). k a b))"
  unfolding handler_ok_def by (rule yields_bind2)

lemma write_server_ok:
  assumes ok: "sm_ok c0 i c" and g: "\<And>s. s_index (g s) = s_index s" "\<And>s. s_server_state (g s) = s_server_state s"
    "\<And>s. s_ping_flow_msg (g s) = s_ping_flow_msg s"
  shows "yields (upd_server i g c) (\<lambda>c'. sm_ok c0 i c' \<and> c_heap c' = c_heap c \<and> c_msg c' = c_msg c \<and>
    c_pcp_servers c' ! i = g (c_pcp_servers c ! i))"
  using ok g by (intro yields_mono [OF upd_server_ok [OF ok]]) (auto simp: sm_ok_def)

lemma set_timeout_ok: "sm_ok c0 i c \<Longrightarrow> st \<noteq> pss_unitialized \<Longrightarrow> handler_ok c0 i (set_timeout i t st c)"
  unfolding set_timeout_def by (rule handler_ok_bind [OF write_server_ok]) auto

lemma sm_ok_ping:
  assumes "sm_ok c0 i c" and "s_ping_flow_msg (c_pcp_servers c ! i) = Some a"
  obtains f where "c_heap c a = Some f"
  using assms servers_wfD [of c i] by (auto simp: sm_ok_def ctx_wf_def server_ok_def Let_def)

lemma foreach_check_ok:
  assumes "sendto_bounded E" and "sm_ok c0 i c" and "tv_nonneg (s_next_timeout (c_pcp_servers c ! i))"
  shows "yields (pcp_db_foreach_flow (check_server_flow_timeout E i) () c) (\<lambda>(c', u, r). sm_ok c0 i c' \<and>
    tv_nonneg (s_next_timeout (c_pcp_servers c' ! i)))"
proof -
  obtain bs where "db_rep c bs" using assms(2) by (auto simp: sm_ok_def ctx_wf_def)
  from check_walk.walk [OF this, of E c0 i "()"] show ?thesis using assms by (auto elim: yields_mono)
qed

lemma foreach_send_ok:
  assumes "sendto_bounded E" and "\<not> is_response ev" and "sm_ok c0 i c"
  shows "yields (pcp_db_foreach_flow (flow_send_event_iter E i ev) () c) (\<lambda>(c', u, r). sm_ok c0 i c')"
proof -
  obtain bs where "db_rep c bs" using assms(3) by (auto simp: sm_ok_def ctx_wf_def)
  from send_walk.walk [OF this, of E ev c0 i "()"] show ?thesis using assms by (auto elim: yields_mono)
qed

lemma get_ping_msg_ok:
  assumes ok: "sm_ok c0 i c" and rep: "db_rep c bs"
  shows "yields (get_ping_msg i c) (\<lambda>(c', p). sm_ok c0 i c' \<and> db_rep c' bs \<and> c_heap c' = c_heap c \<and>
    c_pcp_servers c' ! i = (c_pcp_servers c ! i)\<lparr>s_ping_flow_msg := p\<rparr> \<and> p = find (pingable c i) (concat bs))"
proof -
  let ?p = "find (pingable c i) (concat bs)"
  have i: "i < length (c_pcp_servers c)" using ok by auto
  have w: "yields (pcp_db_foreach_flow (get_first_flow_iter i) None c) (\<lambda>(c', d, r). c' = c \<and> d = ?p)"
    using i by (intro yields_mono [OF first_walk.walk [OF rep, of c i]]) (auto simp: find_None_iff2)
  have "yields (upd_server i (s_ping_flow_msg_update (\<lambda>_. ?p)) c) (\<lambda>c'. sm_ok c0 i c' \<and> db_rep c' bs \<and>
      c_heap c' = c_heap c \<and> c_pcp_servers c' ! i = (c_pcp_servers c ! i)\<lparr>s_ping_flow_msg := ?p\<rparr>)"
    using ok rep by (intro yields_mono [OF upd_server_ok [OF ok]])
      (auto simp: sm_ok_def pingable_def dest!: find_SomeD split: option.splits)
  then show ?thesis using w by (auto simp: get_ping_msg_def yields_def)
qed

lemma find_response_flow_ok:
  assumes ok: "sm_ok c0 i c"
  shows "yields (find_response_flow i c) (\<lambda>(c', p). sm_ok c0 i c' \<and> (\<forall>a. p = Some a \<longrightarrow> c_heap c' a \<noteq> None))"
proof -
  obtain bs where rep: "db_rep c bs" using ok by (auto simp: sm_ok_def ctx_wf_def)
  let ?s = "c_pcp_servers c ! i"
  have s: "server_at c i = Some ?s" using ok by (rule server_at_ok)
  have get: "yields (pcp_get_flow k ?s d) (\<lambda>p. \<forall>a. p = Some a \<longrightarrow> c_heap d a \<noteq> None)" if "db_rep d bs" for k d
    using pcp_get_flow_refines [OF that, of k ?s]
    by (auto simp: flow_matches_def dest!: find_SomeD split: option.splits)
  let ?c = "c\<lparr>c_msg := (c_msg c)\<lparr>m_assigned_ext_ip := In6 0 0 0xFFFF (s_natpmp_ext_addr ?s)\<rparr>\<rparr>"
  have "length (m_pcp_msg_buffer (c_msg c)) = PCP_MAX_LEN" using ok by (simp add: sm_ok_def ctx_wf_def)
  then have c1: "sm_ok c0 i ?c" using ok by (intro sm_ok_msg) simp_all
  have "fnext ?c = fnext c" "fbucket ?c = fbucket c" by (simp_all add: fnext_def fbucket_def fun_eq_iff)
  then have "db_rep ?c bs" using rep db_rep_cong [of ?c c bs] by simp
  note c = c1 this
  show ?thesis
  proof (cases "m_recv_version (c_msg c) = 0 \<and> kd_operation (m_kd (c_msg c)) = NATPMP_OPCODE_ANNOUNCE")
    case True
    obtain d where upd: "upd_server i (s_natpmp_ext_addr_update (\<lambda>_. s6_3 (m_assigned_ext_ip (c_msg c)))) c = Some d"
      and d: "sm_ok c0 i d" "c_heap d = c_heap c"
      using write_server_ok [OF ok, of "s_natpmp_ext_addr_update (\<lambda>_. s6_3 (m_assigned_ext_ip (c_msg c)))"]
      by (auto elim: yieldsE)
    show ?thesis
    proof (cases "s_ping_flow_msg ?s")
      case None
      then show ?thesis using True upd d s by (simp add: find_response_flow_def)
    next
      case (Some a)
      then obtain f where "c_heap c a = Some f" using ok by (auto elim: sm_ok_ping)
      then show ?thesis using True Some upd d s by (simp add: find_response_flow_def)
    qed
  next
    case False
    then show ?thesis
      using get [OF rep, of "m_kd (c_msg c)"] get [OF c(2), of "m_kd (c_msg c)"] ok c(1) s
      by (cases "m_recv_version (c_msg c) = 0") (auto simp: find_response_flow_def yields_def Let_def)
  qed
qed

lemma server_process_rcvd_pcp_msg_ok:
  assumes E: "sendto_bounded E" and ok: "sm_ok c0 i c"
  shows "yields (server_process_rcvd_pcp_msg E i c) (\<lambda>(c', p). sm_ok c0 i c')"
  unfolding server_process_rcvd_pcp_msg_def
proof (rule yields_bind2 [OF find_response_flow_ok [OF ok]])
  fix d p
  assume "case (d, p) of (c', p) \<Rightarrow> sm_ok c0 i c' \<and> (\<forall>a. p = Some a \<longrightarrow> c_heap c' a \<noteq> None)"
  then have d: "sm_ok c0 i d" "\<And>a. p = Some a \<Longrightarrow> \<exists>f. c_heap d a = Some f" by auto
  show "yields (case p of None \<Rightarrow> Some (d, None) | Some a \<Rightarrow>
      handle_flow_event E a (fev_of_result (m_recv_result (c_msg d))) (Some (c_msg d)) d \<bind> (\<lambda>(c, _). Some (c, Some a)))
    (\<lambda>(c', p). sm_ok c0 i c')"
  proof (cases p)
    case None
    then show ?thesis using d(1) by simp
  next
    case (Some a)
    then obtain f where f: "c_heap d a = Some f" using d(2) by blast
    show ?thesis
      using handle_flow_event_ok [OF E d(1) f, of "fev_of_result (m_recv_result (c_msg d))" "Some (c_msg d)"] Some
      by (auto simp: yields_def)
  qed
qed

lemma create_natpmp_ann_msg_outcome:
  assumes ok: "sm_ok c0 i c"
  shows "yields (create_natpmp_ann_msg E i c) (\<lambda>(c', p). sm_ok c0 i c' \<and> (\<forall>a. p = Some a \<longrightarrow> c_heap c' a \<noteq> None) \<and>
    c_pcp_servers c' ! i = (c_pcp_servers c ! i)\<lparr>s_ping_flow_msg := p\<rparr>)"
proof -
  let ?s = "c_pcp_servers c ! i"
  let ?kd = "zero_kd\<lparr>kd_src_ip := s_src_ip ?s, kd_pcp_server_ip := s_pcp_ip ?s, kd_nonce := s_nonce ?s,
    kd_operation := NATPMP_OPCODE_ANNOUNCE\<rparr>"
  show ?thesis
  proof (cases rule: pcp_create_flow_cases [of E ?s ?kd c])
    case 1
    have "yields (upd_server i (s_ping_flow_msg_update (\<lambda>_. None)) (tick c)) (\<lambda>c'. sm_ok c0 i c' \<and>
        c_pcp_servers c' ! i = ?s\<lparr>s_ping_flow_msg := None\<rparr>)"
      using ok by (intro yields_mono [OF upd_server_ok [OF iffD2 [OF sm_ok_tick ok]]]) (auto simp: sm_ok_def)
    then show ?thesis
      using 1 by (auto simp: create_natpmp_ann_msg_def server_at_ok [OF ok] Let_def pcp_db_add_flow_def yields_def)
  next
    case (2 a)
    let ?c = "c\<lparr>c_heap := (c_heap c)(a \<mapsto> new_flow ?s ?kd)\<rparr>"
    have "ctx_wf ?c" using ok 2(1) by (intro ctx_wf_alloc) (auto simp: sm_ok_def)
    then have "sm_ok c0 i ?c" using ok by (simp add: sm_ok_def)
    then have ok1: "sm_ok c0 i (tick ?c)" by simp
    have "yields (upd_server i (s_ping_flow_msg_update (\<lambda>_. Some a)) (tick ?c))
        (\<lambda>c'. sm_ok c0 i c' \<and> c_heap c' = c_heap ?c \<and> c_pcp_servers c' ! i = ?s\<lparr>s_ping_flow_msg := Some a\<rparr>)"
      using ok1 by (intro yields_mono [OF upd_server_ok [OF ok1]]) (auto simp: sm_ok_def)
    then obtain d where d: "upd_server i (s_ping_flow_msg_update (\<lambda>_. Some a)) (tick ?c) = Some d"
      and okd: "sm_ok c0 i d" and h: "c_heap d = c_heap ?c"
      and sd: "c_pcp_servers d ! i = ?s\<lparr>s_ping_flow_msg := Some a\<rparr>" by (auto elim: yieldsE)
    obtain bs where "db_rep d bs" using okd by (auto simp: sm_ok_def ctx_wf_def)
    from pcp_db_add_flow_refines [OF this, of a "new_flow ?s ?kd"]
    obtain e r bs' where e: "pcp_db_add_flow (Some a) d = Some (e, r)" and fr: "db_frame d e" and rep: "db_rep e bs'"
      using h by (auto elim!: yieldsE)
    have "ctx_wf e" using db_frame_ctx_wf [OF fr _ rep] okd by (simp add: sm_ok_def)
    then have oke: "sm_ok c0 i e" using okd fr by (simp add: sm_ok_def db_frame_def)
    have se: "c_pcp_servers e ! i = ?s\<lparr>s_ping_flow_msg := Some a\<rparr>" using sd fr by (simp add: db_frame_def)
    have "c_heap e a \<noteq> None" using db_frame_heap [OF fr, of a] h by auto
    then show ?thesis
      using 2(2) d e oke se by (simp add: create_natpmp_ann_msg_def server_at_ok [OF ok] Let_def)
  qed
qed

lemma create_natpmp_ann_msg_ok:
  assumes "sm_ok c0 i c"
  shows "yields (create_natpmp_ann_msg E i c) (\<lambda>(c', p). sm_ok c0 i c' \<and> (\<forall>a. p = Some a \<longrightarrow> c_heap c' a \<noteq> None))"
  by (rule yields_mono [OF create_natpmp_ann_msg_outcome [OF assms]]) auto

lemma length_filter_drop:
  assumes "\<And>x. x \<in> set xs \<Longrightarrow> Q x \<Longrightarrow> P x" and "a \<in> set xs" and "P a" and "\<not> Q a"
  shows "length (filter Q xs) < length (filter P xs)"
proof -
  have "filter Q xs = filter Q (filter P xs)" using assms(1) by (induction xs) auto
  also have "length \<dots> < length (filter P xs)" by (rule length_filter_less [of a]) (use assms in auto)
  finally show ?thesis .
qed

lemma reset_send_ok:
  assumes E: "sendto_bounded E" and ok: "sm_ok c0 i c" and f: "c_heap c a = Some f"
    and g: "\<And>f. flow_static (g f) = flow_static f" "\<And>f. flow_wf f \<Longrightarrow> flow_wf (g f)"
  shows "yields (upd_flow a g c \<bind> handle_flow_event E a fev_send None) (\<lambda>(c', st). sm_ok c0 i c' \<and>
    flow_frame a c c' \<and> (\<exists>h. c_heap c' a = Some h \<and> f_state h = st))"
proof (rule yields_bind [OF upd_flow_ok [OF ok f g]])
  fix d
  assume d: "sm_ok c0 i d \<and> flow_frame a c d \<and> c_heap d a = Some (g f)"
  then have "yields (handle_flow_event E a fev_send None d) (\<lambda>(c', st). sm_ok c0 i c' \<and> flow_frame a d c' \<and>
      (\<exists>h. c_heap c' a = Some h \<and> f_state h = st))"
    by (intro handle_flow_event_ok [OF E]) auto
  then show "yields (handle_flow_event E a fev_send None d) (\<lambda>(c', st). sm_ok c0 i c' \<and> flow_frame a c c' \<and>
      (\<exists>h. c_heap c' a = Some h \<and> f_state h = st))"
    by (rule yields_mono) (use d flow_frame_trans in auto)
qed

text \<open>Pinging tries the flows one after the other; each round fails a flow that was pingable.\<close>

lemma failed_not_pingable:
  assumes fr: "flow_frame a c1 c3" and g: "c_heap c3 a = Some g" "f_state g = pfs_failed"
    and a: "a \<in> set xs" "pingable c i a" and "c_heap c1 = c_heap c"
    and "s_index (c_pcp_servers c1 ! i) = s_index (c_pcp_servers c ! i)"
  shows "length (filter (pingable c3 i) xs) < length (filter (pingable c i) xs)"
proof (rule length_filter_drop)
  show "\<not> pingable c3 i a" using g by (simp add: pingable_def)
  show "pingable c i b" if "pingable c3 i b" for b
  proof (cases "b = a")
    case False
    then have "c_heap c3 b = c_heap c b" using fr assms(6) by (simp add: flow_frame_def)
    moreover have "s_index (c_pcp_servers c3 ! i) = s_index (c_pcp_servers c ! i)"
      using fr assms(7) by (simp add: flow_frame_def)
    ultimately show ?thesis using that by (auto simp: pingable_def split: option.splits)
  qed (use a in simp)
qed (use a in auto)

lemma set_timeout_yields:
  "sm_ok c0 i c \<Longrightarrow> yields (set_timeout i t st c) (\<lambda>(c', st'). sm_ok c0 i c' \<and> st' = st \<and>
    c_pcp_servers c' ! i = (c_pcp_servers c ! i)\<lparr>s_next_timeout := t\<rparr>)"
  unfolding set_timeout_def by (rule yields_bind [OF write_server_ok]) auto

text \<open>Pinging ends without a request to send, or with one that is remembered as the ping flow.\<close>

definition ping_result :: "pcp_server_state_e \<Rightarrow> pcp_server \<Rightarrow> bool" where
  "ping_result st s \<longleftrightarrow> st = pss_ping \<and> s_next_timeout s = Timeval 0 0 \<or>
     st = pss_wait_ping_resp \<and> s_ping_flow_msg s \<noteq> None"

lemma ping_loop_result:
  assumes E: "sendto_bounded E" and "sm_ok c0 i c" and "db_rep c bs"
  shows "yields (ping_loop E i c) (\<lambda>(c', st). sm_ok c0 i c' \<and> ping_result st (c_pcp_servers c' ! i))"
    (is "yields _ ?P")
  using assms(2,3)
proof (induction "length (filter (pingable c i) (concat bs))" arbitrary: c rule: less_induct)
  case less
  let ?r = "\<lambda>a. \<lambda>(c, st). if st \<noteq> pfs_failed then c_heap c a \<bind> (\<lambda>f. set_timeout i (f_timeout f) pss_wait_ping_resp c)
          else ping_loop E i c"
  let ?k = "\<lambda>c msg. case msg of None \<Rightarrow> set_timeout i (Timeval 0 0) pss_ping c
    | Some a \<Rightarrow> upd_flow a (f_retry_count_update (\<lambda>_. 0)) c \<bind> handle_flow_event E a fev_send None \<bind> ?r a"
  have tmo: "yields (set_timeout i t st d) ?P"
    if "sm_ok c0 i d" "st = pss_ping \<and> t = Timeval 0 0 \<or> st = pss_wait_ping_resp \<and> s_ping_flow_msg (c_pcp_servers d ! i) \<noteq> None"
    for t st d
    by (rule yields_mono [OF set_timeout_yields [OF that(1)]]) (use that(2) in \<open>auto simp: ping_result_def\<close>)
  have "yields (get_ping_msg i c \<bind> (\<lambda>(c, msg). ?k c msg)) ?P"
  proof (rule yields_bind2 [OF get_ping_msg_ok [OF less.prems]])
    fix c1 :: pcp_ctx and p
    assume "case (c1, p) of (c', p) \<Rightarrow> sm_ok c0 i c' \<and> db_rep c' bs \<and> c_heap c' = c_heap c \<and>
      c_pcp_servers c' ! i = (c_pcp_servers c ! i)\<lparr>s_ping_flow_msg := p\<rparr> \<and> p = find (pingable c i) (concat bs)"
    then have c1: "sm_ok c0 i c1" "db_rep c1 bs" "c_heap c1 = c_heap c"
      "s_index (c_pcp_servers c1 ! i) = s_index (c_pcp_servers c ! i)" "s_ping_flow_msg (c_pcp_servers c1 ! i) = p"
      and p: "p = find (pingable c i) (concat bs)" by auto
    show "yields (?k c1 p) ?P"
    proof (cases p)
      case None
      then show ?thesis using tmo [OF c1(1)] by simp
    next
      case (Some a)
      then have a: "a \<in> set (concat bs)" "pingable c i a" using p find_SomeD [of "pingable c i" "concat bs" a] by simp_all
      then obtain f where f: "c_heap c1 a = Some f" using c1(3) by (auto simp: pingable_def split: option.splits)
      have "yields (upd_flow a (f_retry_count_update (\<lambda>_. 0)) c1 \<bind> handle_flow_event E a fev_send None \<bind> ?r a) ?P"
      proof (rule yields_bind2 [OF reset_send_ok [OF E c1(1) f]])
        fix c3 st
        assume "case (c3, st) of (c', st) \<Rightarrow> sm_ok c0 i c' \<and> flow_frame a c1 c' \<and>
            (\<exists>g. c_heap c' a = Some g \<and> f_state g = st)"
        then obtain g where c3: "sm_ok c0 i c3" "flow_frame a c1 c3" and g: "c_heap c3 a = Some g" "f_state g = st"
          by auto
        have "db_rep c3 bs" using flow_frame_db [OF c3(2)] c1(2) by simp
        moreover have "s_ping_flow_msg (c_pcp_servers c3 ! i) \<noteq> None" using c3(2) c1(5) Some by (simp add: flow_frame_def)
        ultimately show "yields (if st \<noteq> pfs_failed
            then c_heap c3 a \<bind> (\<lambda>f. set_timeout i (f_timeout f) pss_wait_ping_resp c3) else ping_loop E i c3) ?P"
          using g tmo [OF c3(1)] less.hyps [OF failed_not_pingable [OF c3(2) g(1) _ a c1(3,4)] c3(1)]
          by auto
      qed (simp_all add: flow_static_def flow_wf_def)
      then show ?thesis using Some by simp
    qed
  qed
  then show ?case by (subst ping_loop.simps) (simp add: bind_assoc cong: option.case_cong)
qed

lemma ping_loop_ok:
  "sendto_bounded E \<Longrightarrow> sm_ok c0 i c \<Longrightarrow> db_rep c bs \<Longrightarrow> handler_ok c0 i (ping_loop E i c)"
  unfolding handler_ok_def by (rule yields_mono [OF ping_loop_result]) (auto simp: ping_result_def)

lemma send_ping_ok:
  assumes E: "sendto_bounded E" and ok: "sm_ok c0 i c" and f: "c_heap c a = Some f"
  shows "handler_ok c0 i (send_ping E i a c)"
proof -
  have "handler_ok c0 i (upd_flow a (\<lambda>f. f\<lparr>f_retry_count := 0, f_resend_timeout := 0\<rparr>) c \<bind>
      handle_flow_event E a fev_send None \<bind> (\<lambda>(c, _). c_heap c a \<bind> (\<lambda>f.
        if f_state f = pfs_failed then Some (c, pss_set_not_working)
        else set_timeout i (f_timeout f) pss_wait_ping_resp c)))"
    by (rule handler_ok_bind2 [OF reset_send_ok [OF E ok f]])
      (auto simp: flow_static_def flow_wf_def intro: set_timeout_ok)
  then show ?thesis by (simp add: send_ping_def bind_assoc)
qed

lemma handle_wait_io_receive_msg_ok:
  assumes E: "sendto_bounded E" and ok: "sm_ok c0 i c"
  shows "handler_ok c0 i (handle_wait_io_receive_msg E i c)"
proof -
  have "handler_ok c0 i (upd_server i (\<lambda>s. s\<lparr>s_next_timeout := t, s_next_version := v\<rparr>) (tick c) \<bind>
      (\<lambda>c. Some (c, pss_version_negotiation)))" for t v
    using ok by (intro handler_ok_bind [OF write_server_ok]) auto
  moreover have "handler_ok c0 i (set_timeout i t pss_set_not_working (tick c))" for t
    using ok by (simp add: set_timeout_ok)
  moreover have "handler_ok c0 i (server_process_rcvd_pcp_msg E i c \<bind> (\<lambda>(c, f). server_at c i \<bind> (\<lambda>s.
      let (s, restarted) = compare_epochs (c_msg c) s
      in upd_server i (\<lambda>_. s) c \<bind> (\<lambda>c. if restarted
          then upd_server i (\<lambda>s. s\<lparr>s_epoch := m_recv_epoch (c_msg c), s_cepoch := m_received_time (c_msg c),
                 s_next_timeout := gettimeofday E c, s_restart_flow_msg := f\<rparr>) (tick c) \<bind> (\<lambda>c. Some (c, pss_server_restart))
          else set_timeout i (gettimeofday E c) pss_wait_io_calc_nearest_timeout (tick c)))))"
  proof (rule handler_ok_bind2 [OF server_process_rcvd_pcp_msg_ok [OF E ok]])
    fix d and p :: "addr option"
    assume "case (d, p) of (c', p) \<Rightarrow> sm_ok c0 i c'"
    then have d: "sm_ok c0 i d" by simp
    obtain s' b where ce: "compare_epochs (c_msg d) (c_pcp_servers d ! i) = (s', b)" by fastforce
    then have s': "s_index s' = s_index (c_pcp_servers d ! i)" "s_server_state s' = s_server_state (c_pcp_servers d ! i)"
      "s_ping_flow_msg s' = s_ping_flow_msg (c_pcp_servers d ! i)"
      by (auto simp: compare_epochs_def Let_def split: if_splits)
    have "yields (upd_server i (\<lambda>_. s') d) (\<lambda>e. sm_ok c0 i e)"
      using d s' by (intro yields_mono [OF upd_server_ok [OF d]]) (auto simp: sm_ok_def)
    then have "handler_ok c0 i (upd_server i (\<lambda>_. s') d \<bind> (\<lambda>c. if b
          then upd_server i (\<lambda>s. s\<lparr>s_epoch := m_recv_epoch (c_msg c), s_cepoch := m_received_time (c_msg c),
                 s_next_timeout := gettimeofday E c, s_restart_flow_msg := p\<rparr>) (tick c) \<bind> (\<lambda>c. Some (c, pss_server_restart))
          else set_timeout i (gettimeofday E c) pss_wait_io_calc_nearest_timeout (tick c)))"
      by (rule handler_ok_bind) (auto intro!: set_timeout_ok handler_ok_bind [OF write_server_ok])
    then show "handler_ok c0 i (server_at d i \<bind> (\<lambda>s. let (s, restarted) = compare_epochs (c_msg d) s
      in upd_server i (\<lambda>_. s) d \<bind> (\<lambda>c. if restarted
          then upd_server i (\<lambda>s. s\<lparr>s_epoch := m_recv_epoch (c_msg c), s_cepoch := m_received_time (c_msg c),
                 s_next_timeout := gettimeofday E c, s_restart_flow_msg := p\<rparr>) (tick c) \<bind> (\<lambda>c. Some (c, pss_server_restart))
          else set_timeout i (gettimeofday E c) pss_wait_io_calc_nearest_timeout (tick c))))"
      by (simp add: server_at_ok [OF d] ce)
  qed
  ultimately show ?thesis by (simp add: handle_wait_io_receive_msg_def)
qed

lemma handle_wait_ping_resp_recv_ok:
  "sendto_bounded E \<Longrightarrow> sm_ok c0 i c \<Longrightarrow> handler_ok c0 i (handle_wait_ping_resp_recv E i c)"
  using handle_wait_io_receive_msg_ok [of E c0 i c]
  by (auto simp: handle_wait_ping_resp_recv_def handler_ok_def yields_def)

text \<open>The three ways a missing answer to the ping can end.\<close>

definition ping_timeout_result :: "pcp_server \<Rightarrow> pcp_server_state_e \<Rightarrow> pcp_server \<Rightarrow> bool" where
  "ping_timeout_result s st s' \<longleftrightarrow> st = pss_set_not_working \<or> st = pss_ping \<and> s_ping_flow_msg s = None \<or>
     st = pss_wait_ping_resp \<and> s_ping_flow_msg s \<noteq> None \<and> s_ping_flow_msg s' \<noteq> None \<and>
       s_ping_count s' = s_ping_count s + 1 \<and> s_ping_count s' < PCP_MAX_PING_COUNT"

lemma ping_timeout_result_simps [simp]:
  "ping_timeout_result s pss_set_not_working s'"
  "ping_timeout_result s pss_ping s' \<longleftrightarrow> s_ping_flow_msg s = None"
  "ping_timeout_result s pss_wait_ping_resp s' \<longleftrightarrow> s_ping_flow_msg s \<noteq> None \<and> s_ping_flow_msg s' \<noteq> None \<and>
     s_ping_count s' = s_ping_count s + 1 \<and> s_ping_count s' < PCP_MAX_PING_COUNT"
  by (auto simp: ping_timeout_result_def)

lemma handle_wait_ping_resp_timeout_result:
  assumes E: "sendto_bounded E" and ok: "sm_ok c0 i c"
  shows "yields (handle_wait_ping_resp_timeout E i c) (\<lambda>(c', st). sm_ok c0 i c' \<and>
    ping_timeout_result (c_pcp_servers c ! i) st (c_pcp_servers c' ! i))" (is "yields _ ?P")
  unfolding handle_wait_ping_resp_timeout_def
proof (rule yields_bind [OF write_server_ok [OF ok]])
  fix d
  assume "sm_ok c0 i d \<and> c_heap d = c_heap c \<and> c_msg d = c_msg c \<and>
    c_pcp_servers d ! i = (c_pcp_servers c ! i)\<lparr>s_ping_count := s_ping_count (c_pcp_servers c ! i) + 1\<rparr>"
  then have d: "sm_ok c0 i d" and s: "c_pcp_servers d ! i = (c_pcp_servers c ! i)\<lparr>s_ping_count := s_ping_count (c_pcp_servers c ! i) + 1\<rparr>"
    by simp_all
  have tmo: "yields (set_timeout i t st e) ?P"
    if "sm_ok c0 i e" "ping_timeout_result (c_pcp_servers c ! i) st ((c_pcp_servers e ! i)\<lparr>s_next_timeout := t\<rparr>)" for t st e
    by (rule yields_mono [OF set_timeout_yields [OF that(1)]]) (use that(2) in auto)
  have ev: "yields (handle_flow_event E a fev_flow_timedout None d \<bind> (\<lambda>(c, st).
      if st = pfs_failed then set_timeout i (gettimeofday E c) pss_set_not_working (tick c)
      else server_at c i \<bind> (\<lambda>s. case s_ping_flow_msg s of
        None \<Rightarrow> set_timeout i (Timeval 0 0) pss_ping c
      | Some a \<Rightarrow> c_heap c a \<bind> (\<lambda>f. set_timeout i (f_timeout f) pss_wait_ping_resp c)))) ?P"
    if a: "s_ping_flow_msg (c_pcp_servers d ! i) = Some a" and k: "s_ping_count (c_pcp_servers d ! i) < PCP_MAX_PING_COUNT" for a
  proof -
    obtain f where f: "c_heap d a = Some f" using d a by (rule sm_ok_ping)
    show ?thesis
    proof (rule yields_bind2 [OF handle_flow_event_ok [OF E d f]])
      fix e st
      assume "case (e, st) of (c', st) \<Rightarrow> sm_ok c0 i c' \<and> flow_frame a d c' \<and> (\<exists>g. c_heap c' a = Some g \<and> f_state g = st)"
      then obtain g where e: "sm_ok c0 i e" "c_pcp_servers e ! i = c_pcp_servers d ! i" "c_heap e a = Some g"
        by (auto simp: flow_frame_def)
      show "yields (if st = pfs_failed then set_timeout i (gettimeofday E e) pss_set_not_working (tick e)
          else server_at e i \<bind> (\<lambda>s. case s_ping_flow_msg s of
            None \<Rightarrow> set_timeout i (Timeval 0 0) pss_ping e
          | Some a \<Rightarrow> c_heap e a \<bind> (\<lambda>f. set_timeout i (f_timeout f) pss_wait_ping_resp e))) ?P"
        using e a k s by (auto simp: server_at_ok intro!: tmo)
    qed simp
  qed
  show "yields (server_at d i \<bind> (\<lambda>s. if s_ping_count s \<ge> PCP_MAX_PING_COUNT
      then set_timeout i (gettimeofday E d) pss_set_not_working (tick d)
      else case s_ping_flow_msg s of None \<Rightarrow> set_timeout i (gettimeofday E d) pss_ping (tick d)
        | Some a \<Rightarrow> handle_flow_event E a fev_flow_timedout None d \<bind> (\<lambda>(c, st).
            if st = pfs_failed then set_timeout i (gettimeofday E c) pss_set_not_working (tick c)
            else server_at c i \<bind> (\<lambda>s. case s_ping_flow_msg s of
              None \<Rightarrow> set_timeout i (Timeval 0 0) pss_ping c
            | Some a \<Rightarrow> c_heap c a \<bind> (\<lambda>f. set_timeout i (f_timeout f) pss_wait_ping_resp c))))) ?P"
    using d ev s by (cases "s_ping_flow_msg (c_pcp_servers d ! i)")
      (auto simp: server_at_ok [OF d] not_le intro!: tmo)
qed simp_all

lemma handle_wait_ping_resp_timeout_ok:
  "sendto_bounded E \<Longrightarrow> sm_ok c0 i c \<Longrightarrow> handler_ok c0 i (handle_wait_ping_resp_timeout E i c)"
  unfolding handler_ok_def
  by (rule yields_mono [OF handle_wait_ping_resp_timeout_result]) (auto simp: ping_timeout_result_def)

lemma sm_ok_rep: "sm_ok c0 i c \<Longrightarrow> \<exists>bs. db_rep c bs"
  by (simp add: sm_ok_def ctx_wf_def)

text \<open>The choice of the request to negotiate with.\<close>

lemma negotiation_msg_ok:
  assumes ok: "sm_ok c0 i c" and p: "s_ping_flow_msg (c_pcp_servers c ! i) = s_ping_flow_msg s"
  shows "yields (if v = 0
      then (case s_ping_flow_msg s of None \<Rightarrow> Some c
            | Some a \<Rightarrow> upd_flow a (\<lambda>f. f\<lparr>f_state := pfs_wait_for_server_init, f_timeout := Timeval 0 0\<rparr>) c) \<bind>
          (\<lambda>c. create_natpmp_ann_msg E i c)
      else Some (c, s_ping_flow_msg s)) (\<lambda>(c', p). sm_ok c0 i c' \<and> (\<forall>a. p = Some a \<longrightarrow> c_heap c' a \<noteq> None))"
proof (cases "s_ping_flow_msg s")
  case None
  then show ?thesis using create_natpmp_ann_msg_ok [OF ok, of E] ok by simp
next
  case (Some a)
  then obtain f where f: "c_heap c a = Some f" using ok p by (auto elim: sm_ok_ping)
  have "yields (upd_flow a (\<lambda>f. f\<lparr>f_state := pfs_wait_for_server_init, f_timeout := Timeval 0 0\<rparr>) c \<bind>
      (\<lambda>c. create_natpmp_ann_msg E i c)) (\<lambda>(c', p). sm_ok c0 i c' \<and> (\<forall>a. p = Some a \<longrightarrow> c_heap c' a \<noteq> None))"
    by (rule yields_bind [OF upd_flow_ok [OF ok f]])
      (auto simp: flow_static_def flow_wf_def simp del: not_None_eq intro: create_natpmp_ann_msg_ok)
  then show ?thesis using Some f ok by (simp del: upd_flow_heap)
qed

lemma send_ping_any:
  "sendto_bounded E \<Longrightarrow> sm_ok c0 i c \<Longrightarrow> c_heap c a \<noteq> None \<Longrightarrow> handler_ok c0 i (send_ping E i a c)"
  by (auto intro: send_ping_ok)

lemma handle_version_negotiation_ok:
  assumes E: "sendto_bounded E" and ok: "sm_ok c0 i c"
  shows "handler_ok c0 i (handle_version_negotiation E i c)"
  unfolding handle_version_negotiation_def
proof (rule handler_ok_bind [OF write_server_ok [OF ok]])
  fix d
  assume "sm_ok c0 i d \<and> c_heap d = c_heap c \<and> c_msg d = c_msg c \<and> c_pcp_servers d ! i =
    (if s_next_version (c_pcp_servers c ! i) = s_pcp_version (c_pcp_servers c ! i)
     then (c_pcp_servers c ! i)\<lparr>s_next_version := s_next_version (c_pcp_servers c ! i) - 1\<rparr> else c_pcp_servers c ! i)"
  then have d: "sm_ok c0 i d" by simp
  let ?s = "c_pcp_servers d ! i"
  let ?k = "\<lambda>(c, ping_msg). case ping_msg of Some a \<Rightarrow> send_ping E i a c
    | None \<Rightarrow> get_ping_msg i c \<bind> (\<lambda>(c, ping_msg). case ping_msg of
        None \<Rightarrow> set_timeout i (Timeval 0 0) pss_ping c | Some a \<Rightarrow> send_ping E i a c)"
  have first: "handler_ok c0 i (get_ping_msg i e \<bind> (\<lambda>(c, ping_msg). case ping_msg of
        None \<Rightarrow> set_timeout i (Timeval 0 0) pss_ping c | Some a \<Rightarrow> send_ping E i a c))" if e: "sm_ok c0 i e" for e
  proof -
    obtain bs where rep: "db_rep e bs" using sm_ok_rep [OF e] by blast
    have h: "\<exists>f. c_heap e a = Some f" if "find (pingable e i) (concat bs) = Some a" for a
      using find_SomeD [OF that] by (auto simp: pingable_def split: option.splits)
    show ?thesis
      by (rule handler_ok_bind2 [OF get_ping_msg_ok [OF e rep]])
        (use h in \<open>auto split: option.split intro!: set_timeout_ok send_ping_any [OF E]\<close>)
  qed
  have k: "handler_ok c0 i (?k (e, p))" if "sm_ok c0 i e" "\<forall>a. p = Some a \<longrightarrow> c_heap e a \<noteq> None" for e p
    using that first [OF that(1)] by (cases p) (auto intro: send_ping_ok [OF E])
  have "handler_ok c0 i (upd_server i (\<lambda>s. s\<lparr>s_pcp_version := s_next_version s\<rparr>) d \<bind> (\<lambda>c.
      (if s_next_version ?s = 0
       then (case s_ping_flow_msg ?s of None \<Rightarrow> Some c
            | Some a \<Rightarrow> upd_flow a (\<lambda>f. f\<lparr>f_state := pfs_wait_for_server_init, f_timeout := Timeval 0 0\<rparr>) c) \<bind>
          (\<lambda>c. create_natpmp_ann_msg E i c)
       else Some (c, s_ping_flow_msg ?s)) \<bind> ?k))"
  proof (rule handler_ok_bind [OF write_server_ok [OF d]])
    fix e
    assume "sm_ok c0 i e \<and> c_heap e = c_heap d \<and> c_msg e = c_msg d \<and>
      c_pcp_servers e ! i = ?s\<lparr>s_pcp_version := s_next_version ?s\<rparr>"
    then have e: "sm_ok c0 i e" "s_ping_flow_msg (c_pcp_servers e ! i) = s_ping_flow_msg ?s" by auto
    show "handler_ok c0 i ((if s_next_version ?s = 0
       then (case s_ping_flow_msg ?s of None \<Rightarrow> Some e
            | Some a \<Rightarrow> upd_flow a (\<lambda>f. f\<lparr>f_state := pfs_wait_for_server_init, f_timeout := Timeval 0 0\<rparr>) e) \<bind>
          (\<lambda>c. create_natpmp_ann_msg E i c)
       else Some (e, s_ping_flow_msg ?s)) \<bind> ?k)"
      by (rule handler_ok_bind2 [OF negotiation_msg_ok [OF e]]) (use k in auto)
  qed simp_all
  then show "handler_ok c0 i (server_at d i \<bind> (\<lambda>s. if s_pcp_version s = 0 then Some (d, pss_set_not_working)
      else upd_server i (\<lambda>s. s\<lparr>s_pcp_version := s_next_version s\<rparr>) d \<bind> (\<lambda>c.
      (if s_next_version s = 0
       then (case s_ping_flow_msg s of None \<Rightarrow> Some c
            | Some a \<Rightarrow> upd_flow a (\<lambda>f. f\<lparr>f_state := pfs_wait_for_server_init, f_timeout := Timeval 0 0\<rparr>) c) \<bind>
          (\<lambda>c. create_natpmp_ann_msg E i c)
       else Some (c, s_ping_flow_msg s)) \<bind> ?k)))"
    using d by (simp add: server_at_ok [OF d])
qed auto

lemma handle_server_not_working_ok:
  assumes E: "sendto_bounded E" and ok: "sm_ok c0 i c"
  shows "handler_ok c0 i (handle_server_not_working E i c)"
proof -
  obtain ctv t r where tc: "timeval_comp (gettimeofday E c) (s_next_timeout (c_pcp_servers c ! i)) = (ctv, t, r)"
    by (cases "timeval_comp (gettimeofday E c) (s_next_timeout (c_pcp_servers c ! i))")
  have recv: "handler_ok c0 i (server_process_rcvd_pcp_msg E i d \<bind> (\<lambda>(c, f).
      upd_server i (\<lambda>s. s\<lparr>s_epoch := m_recv_epoch (c_msg c), s_cepoch := m_received_time (c_msg c),
        s_next_timeout := gettimeofday E c, s_restart_flow_msg := f\<rparr>) (tick c) \<bind> (\<lambda>c. Some (c, pss_server_restart))))"
    if "sm_ok c0 i d" for d
    by (rule handler_ok_bind2 [OF server_process_rcvd_pcp_msg_ok [OF E that]])
      (auto intro!: handler_ok_bind [OF write_server_ok])
  have "handler_ok c0 i (upd_server i (s_next_timeout_update (\<lambda>_. t)) (tick c) \<bind> (\<lambda>c. if r < 0
      then if m_recv_result (c_msg c) = PCP_RES_UNSUPP_VERSION \<or> m_recv_result (c_msg c) = PCP_RES_ADDRESS_MISMATCH
           then Some (c, pss_not_working)
           else server_process_rcvd_pcp_msg E i c \<bind> (\<lambda>(c, f).
             upd_server i (\<lambda>s. s\<lparr>s_epoch := m_recv_epoch (c_msg c), s_cepoch := m_received_time (c_msg c),
              s_next_timeout := gettimeofday E c, s_restart_flow_msg := f\<rparr>) (tick c) \<bind> (\<lambda>c. Some (c, pss_server_restart)))
      else set_timeout i ctv pss_server_reping c))"
    using ok by (intro handler_ok_bind [OF write_server_ok]) (auto intro: recv set_timeout_ok)
  then show ?thesis by (simp add: handle_server_not_working_def server_at_ok [OF ok] tc)
qed

lemma handler_ok_walk:
  assumes "yields m (\<lambda>(c', u, r). sm_ok c0 i c')" and "\<And>c'. sm_ok c0 i c' \<Longrightarrow> handler_ok c0 i (k c')"
  shows "handler_ok c0 i (m \<bind> (\<lambda>(c', u, r). k c'))"
  using assms by (auto intro!: handler_ok_bind)

lemma wait_io_timeout_ok:
  assumes E: "sendto_bounded E" and ok: "sm_ok c0 i c"
  shows "handler_ok c0 i (handle_wait_io_timeout E i c)"
  unfolding handle_wait_io_timeout_def
proof (rule handler_ok_bind [OF write_server_ok [OF ok]])
  fix d
  assume "sm_ok c0 i d \<and> c_heap d = c_heap c \<and> c_msg d = c_msg c \<and>
    c_pcp_servers d ! i = (c_pcp_servers c ! i)\<lparr>s_next_timeout := Timeval 0 0\<rparr>"
  then have d: "sm_ok c0 i d" "tv_nonneg (s_next_timeout (c_pcp_servers d ! i))" by simp_all
  show "handler_ok c0 i (pcp_db_foreach_flow (check_server_flow_timeout E i) () d \<bind> (\<lambda>(c, u, r).
      server_at c i \<bind> (\<lambda>s. if tv_is_zero (s_next_timeout s) then Some (c, pss_wait_io)
      else let ctv = gettimeofday E c in set_timeout i (timeval_align (Timeval (tv_sec (s_next_timeout s) + tv_sec ctv)
          (tv_usec (s_next_timeout s) + tv_usec ctv))) pss_wait_io (tick c))))"
    by (rule handler_ok_walk [OF yields_mono [OF foreach_check_ok [OF E d]]])
      (auto simp: server_at_ok Let_def intro!: set_timeout_ok)
qed simp_all

text \<open>Every handler, run for a server in use, returns.\<close>

lemma run_shandler_ok:
  assumes E: "sendto_bounded E" and ok: "sm_ok c0 i c"
  shows "handler_ok c0 i (run_shandler h E i c)"
proof (cases h)
  case S_ping
  obtain bs where rep: "db_rep c bs" using sm_ok_rep [OF ok] by blast
  have "yields (upd_server i (s_ping_count_update (\<lambda>_. 0)) c) (\<lambda>d. sm_ok c0 i d \<and> db_rep d bs)"
    using ok rep by (intro yields_mono [OF upd_server_ok [OF ok]]) (auto simp: sm_ok_def)
  then show ?thesis
    using S_ping by (auto simp: handle_server_ping_def intro!: handler_ok_bind ping_loop_ok [OF E])
next
  case S_wait_io_timeout
  then show ?thesis by (simp add: wait_io_timeout_ok [OF E ok])
next
  case S_send_all_msgs
  then show ?thesis using ok
    by (auto simp: handle_send_all_msgs_def intro!: handler_ok_walk [OF foreach_send_ok [OF E]] set_timeout_ok)
next
  case S_server_restart
  then show ?thesis using ok
    by (auto simp: handle_server_restart_def intro!: handler_ok_walk [OF foreach_send_ok [OF E]] set_timeout_ok
        handler_ok_bind [OF write_server_ok])
next
  case S_set_not_working
  then show ?thesis using ok
    by (auto simp: handle_server_set_not_working_def Let_def intro!: handler_ok_walk [OF foreach_send_ok [OF E]] set_timeout_ok)
next
  case S_server_reping
  then show ?thesis using ok
    by (auto simp: handle_server_reping_def intro!: set_timeout_ok handler_ok_bind [OF write_server_ok])
next
  case S_ignore_events
  then show ?thesis using ok
    by (auto simp: ignore_events_def server_at_ok [OF ok] sm_ok_def intro!: set_timeout_ok)
qed (use ok E in \<open>auto simp: pcp_terminate_server_def log_unexepected_state_event_def
      intro: set_timeout_ok handle_wait_ping_resp_timeout_ok handle_wait_ping_resp_recv_ok
        handle_version_negotiation_ok handle_wait_io_receive_msg_ok handle_server_not_working_ok\<close>)

lemma run_server_state_machine_ok:
  assumes E: "sendto_bounded E" and ok: "sm_ok c0 i c"
  shows "yields (run_server_state_machine E (Some i) ev c) (\<lambda>(c', r). sm_ok c0 i c' \<and> r = PCP_ERR_SUCCESS)"
proof (cases "server_handler (s_server_state (c_pcp_servers c ! i)) ev")
  case None
  then show ?thesis using ok by (simp add: run_server_state_machine_def server_at_ok)
next
  case (Some h)
  have "yields (run_shandler h E i c \<bind> (\<lambda>(c, st). upd_server i (s_server_state_update (\<lambda>_. st)) c \<bind>
      (\<lambda>c. Some (c, PCP_ERR_SUCCESS)))) (\<lambda>(c', r). sm_ok c0 i c' \<and> r = PCP_ERR_SUCCESS)"
  proof (rule yields_bind2 [OF run_shandler_ok [OF E ok, of h, unfolded handler_ok_def]])
    fix d st
    assume "case (d, st) of (c', st) \<Rightarrow> sm_ok c0 i c' \<and> st \<noteq> pss_unitialized"
    then have d: "sm_ok c0 i d" "st \<noteq> pss_unitialized" by auto
    have "yields (upd_server i (s_server_state_update (\<lambda>_. st)) d) (\<lambda>e. sm_ok c0 i e)"
      using d by (intro yields_mono [OF upd_server_ok [OF d(1)]]) auto
    then show "yields (upd_server i (s_server_state_update (\<lambda>_. st)) d \<bind> (\<lambda>c. Some (c, PCP_ERR_SUCCESS)))
        (\<lambda>(c', r). sm_ok c0 i c' \<and> r = PCP_ERR_SUCCESS)"
      by (auto simp: yields_def)
  qed
  then show ?thesis using Some by (simp add: run_server_state_machine_def server_at_ok [OF ok])
qed

section \<open>Runs of the state machine\<close>

definition in_use :: "pcp_ctx \<Rightarrow> nat \<Rightarrow> bool" where
  "in_use c i \<longleftrightarrow> i < length (c_pcp_servers c) \<and> s_server_state (c_pcp_servers c ! i) \<noteq> pss_unitialized"

lemma sm_ok_start: "ctx_wf c \<Longrightarrow> in_use c i \<Longrightarrow> sm_ok c i c"
  by (simp add: sm_ok_def in_use_def)

lemma sm_ok_in_use: "sm_ok c i c' \<Longrightarrow> in_use c' j \<longleftrightarrow> in_use c j \<or> j = i"
  by (cases "j = i") (auto simp: sm_ok_def in_use_def)

text \<open>Everything the environment and the scheduler can do to a context: a datagram comes into the
  message of the context, with any contents, and the state machine of a server in use is run
  on any event.\<close>

inductive reachable :: "env \<Rightarrow> pcp_ctx \<Rightarrow> pcp_ctx \<Rightarrow> bool" for E c0 where
  start: "reachable E c0 c0"
| receive: "reachable E c0 c \<Longrightarrow> length (m_pcp_msg_buffer m) = PCP_MAX_LEN \<Longrightarrow> reachable E c0 (tick (c\<lparr>c_msg := m\<rparr>))"
| event: "reachable E c0 c \<Longrightarrow> in_use c i \<Longrightarrow> run_server_state_machine E (Some i) ev c = Some (c', r) \<Longrightarrow>
    reachable E c0 c'"

inductive_cases reachable_cases: "reachable E c0 c"

lemma reachable_wf:
  assumes "reachable E c0 c" and "ctx_wf c0" and "sendto_bounded E"
  shows "ctx_wf c \<and> length (c_pcp_servers c) = length (c_pcp_servers c0) \<and> (\<forall>j. in_use c j \<longleftrightarrow> in_use c0 j)"
  using assms
proof (induction rule: reachable.induct)
  case start
  then show ?case by simp
next
  case (receive c m)
  then have "ctx_wf (tick (c\<lparr>c_msg := m\<rparr>)) \<longleftrightarrow> ctx_wf c"
    by (intro ctx_wf_cong) (auto simp: ctx_wf_def)
  moreover have "in_use (tick (c\<lparr>c_msg := m\<rparr>)) j \<longleftrightarrow> in_use c j" for j by (simp add: in_use_def)
  ultimately show ?case using receive by simp
next
  case (event c i ev c' r)
  then have "sm_ok c i c" by (simp add: sm_ok_start)
  then have ok: "sm_ok c i c'"
    using run_server_state_machine_ok [of E c i c ev] event by simp
  then have "in_use c' j \<longleftrightarrow> in_use c j" for j
    using event.hyps(2) sm_ok_in_use [OF ok] by auto
  then show ?case using event ok by (simp add: sm_ok_def)
qed

end
