(* ===== verification/Pcp_Later.thy ===== *)
theory Pcp_Later
  imports Pcp_Server_Sm
begin

text \<open>
  What the event loop never undoes. Every operation of the state machines is built from a few writes to
  the context; a property that these keep is kept by the event loop (locale \<open>ctx_kept\<close>). The instance
  used is \<open>later\<close>: calls of the system are counted up, no flow is freed, and none leaves the table.
\<close>

section \<open>Partial correctness\<close>

text \<open>\<open>ensures m P\<close>: if the computation returns, its result satisfies \<open>P\<close>.\<close>

definition ensures :: "'a option \<Rightarrow> ('a \<Rightarrow> bool) \<Rightarrow> bool" where
  "ensures m P \<longleftrightarrow> (\<forall>x. m = Some x \<longrightarrow> P x)"

lemma ensures_simps [simp]:
  "ensures (Some x) P \<longleftrightarrow> P x"
  "ensures None P"
  "ensures (Option.bind m k) P \<longleftrightarrow> ensures m (\<lambda>x. ensures (k x) P)"
  "ensures (map_option g m) P \<longleftrightarrow> ensures m (\<lambda>x. P (g x))"
  by (auto simp: ensures_def bind_eq_Some_conv)

lemma ensuresD: "ensures m P \<Longrightarrow> m = Some x \<Longrightarrow> P x"
  by (simp add: ensures_def)

lemma ensures_mono: "ensures m P \<Longrightarrow> (\<And>x. P x \<Longrightarrow> Q x) \<Longrightarrow> ensures m Q"
  by (simp add: ensures_def)

lemma ensures_any: "(\<And>x. P x) \<Longrightarrow> ensures m P"
  by (simp add: ensures_def)

lemma ensures_heap: "(\<And>f. c_heap c a = Some f \<Longrightarrow> P f) \<Longrightarrow> ensures (c_heap c a) P"
  by (simp add: ensures_def)

section \<open>Properties the writes keep\<close>

lemma compute_flow_key_used [simp]: "compute_flow_key kd \<noteq> EMPTY"
  using compute_flow_key_bound [of kd] by auto

text \<open>A write to a flow does not take it out of the table.\<close>

abbreviation stays_linked :: "pcp_flow \<Rightarrow> pcp_flow \<Rightarrow> bool" where
  "stays_linked f g \<equiv> f_key_bucket f \<noteq> EMPTY \<longrightarrow> f_key_bucket g \<noteq> EMPTY"

locale ctx_kept =
  fixes I :: "pcp_ctx \<Rightarrow> bool"
  assumes I_tick: "I c \<Longrightarrow> I (tick c)"
    and I_heap: "I c \<Longrightarrow> (\<And>g. c_heap c a = Some g \<Longrightarrow> stays_linked g f) \<Longrightarrow> I (c\<lparr>c_heap := (c_heap c)(a \<mapsto> f)\<rparr>)"
    and I_servers: "I c \<Longrightarrow> I (c\<lparr>c_pcp_servers := ss\<rparr>)"
    and I_flows: "I c \<Longrightarrow> I (c\<lparr>c_flows := fs\<rparr>)"
    and I_flow_cnt: "I c \<Longrightarrow> I (c\<lparr>c_flow_cnt := n\<rparr>)"
    and I_msg: "I c \<Longrightarrow> I (c\<lparr>c_msg := m\<rparr>)"
    and I_sent: "I c \<Longrightarrow> I (c\<lparr>c_sent := s\<rparr>)"
    and I_notes: "I c \<Longrightarrow> I (c\<lparr>c_notes := ns\<rparr>)"
begin

lemmas I_writes = I_tick I_heap I_servers I_flows I_flow_cnt I_msg I_sent I_notes

lemma upd_flow_keeps: "I c \<Longrightarrow> (\<And>f. stays_linked f (g f)) \<Longrightarrow> (\<And>c'. I c' \<Longrightarrow> P c') \<Longrightarrow> ensures (upd_flow a g c) P"
proof -
  assume I: "I c" and l: "\<And>f. stays_linked f (g f)" and P: "\<And>c'. I c' \<Longrightarrow> P c'"
  show ?thesis unfolding ensures_def
  proof (intro allI impI)
    fix x assume "upd_flow a g c = Some x"
    then obtain f where "c_heap c a = Some f" "x = c\<lparr>c_heap := (c_heap c)(a \<mapsto> g f)\<rparr>" by (auto simp: upd_flow_Some)
    then show "P x" using I_heap [OF I, of a "g f"] l [of f] P by auto
  qed
qed

lemma upd_server_keeps: "I c \<Longrightarrow> (\<And>c'. I c' \<Longrightarrow> P c') \<Longrightarrow> ensures (upd_server i g c) P"
  by (auto simp: upd_server_def intro: I_servers)

lemma link_write_keeps: "I c \<Longrightarrow> (\<And>c'. I c' \<Longrightarrow> P c') \<Longrightarrow> ensures (link_write l p c) P"
  by (cases l) (auto intro: I_flows upd_flow_keeps)

lemma clear_msg_buf_keeps: "I c \<Longrightarrow> (\<And>c'. I c' \<Longrightarrow> P c') \<Longrightarrow> ensures (pcp_flow_clear_msg_buf p c) P"
  by (auto simp: pcp_flow_clear_msg_buf_def intro: upd_flow_keeps split: option.split)

lemmas write_keeps = ensures_heap upd_flow_keeps upd_server_keeps link_write_keeps clear_msg_buf_keeps

lemma add_flow_keeps: "I c \<Longrightarrow> (\<And>c' r. I c' \<Longrightarrow> P (c', r)) \<Longrightarrow> ensures (pcp_db_add_flow p c) P"
  by (auto simp: pcp_db_add_flow_def Let_def intro!: I_flow_cnt write_keeps ensures_any [of _ "add_flow_end _ _"]
      split: option.split)

lemma create_flow_keeps: "I c \<Longrightarrow> I (fst (pcp_create_flow E s kd c))"
  by (auto simp: pcp_create_flow_def intro!: I_tick I_heap split: option.splits dest: calloc_flow_fresh)

lemma build_keeps: "I c \<Longrightarrow> (\<And>c' r. I c' \<Longrightarrow> P (c', r)) \<Longrightarrow> ensures (build_pcp_msg E a c) P"
  by (auto simp: build_pcp_msg_def Let_def intro!: I_tick write_keeps split: option.split prod.split)

section \<open>The state machine of a flow\<close>

lemma send_loop_keeps:
  assumes "I c" and "\<And>c' r. I c' \<Longrightarrow> P (c', r)"
  shows "ensures (send_loop E sa d n c) P"
  unfolding ensures_def
proof (intro allI impI)
  fix r
  assume r: "send_loop E sa d n c = Some r"
  have "I c \<longrightarrow> I (fst r)"
    by (rule send_loop.raw_induct [OF _ r]) (fastforce simp: Let_def intro: I_tick I_sent split: if_split_asm)
  then show "P r" using assms by (cases r) simp
qed

lemma send_msg_keeps: "I c \<Longrightarrow> (\<And>c' r. I c' \<Longrightarrow> P (c', r)) \<Longrightarrow> ensures (pcp_flow_send_msg E a i c) P"
  by (auto simp: pcp_flow_send_msg_def intro!: ensures_any [of _ "server_at _ _"] write_keeps build_keeps send_loop_keeps split: option.split)

lemma fhandler_keeps: "I c \<Longrightarrow> (\<And>c' r. I c' \<Longrightarrow> P (c', r)) \<Longrightarrow> ensures (run_fhandler h E a m c) P"
  by (cases h) (auto simp: fhndl_waitresp_def fhndl_resend_def fhndl_send_def fhndl_shortlifeerror_def fhndl_received_success_def
      fhndl_send_renew_def fhndl_clear_timeouts_def Let_def intro!: ensures_any [of _ m] I_tick write_keeps send_msg_keeps
      split: option.split prod.split)

lemma flow_event_loop_keeps:
  assumes "I c" and "\<And>c'. I c' \<Longrightarrow> P c'"
  shows "ensures (flow_event_loop E a m st ev c) P"
  unfolding ensures_def
proof (intro allI impI)
  fix r
  assume r: "flow_event_loop E a m st ev c = Some r"
  have "I c \<longrightarrow> I r"
  proof (rule flow_event_loop.raw_induct [OF _ r], rule impI)
    fix f E a m st ev c y
    assume IH: "\<And>E a m st ev c y. f E a m st ev c = Some y \<Longrightarrow> I c \<longrightarrow> I y" and c: "I c"
      and run: "(case next_flow_state st ev of None \<Rightarrow> Some c | Some next_state \<Rightarrow>
        upd_flow a (f_state_update (\<lambda>_. next_state)) c \<bind> (\<lambda>c. case flow_transition st next_state of None \<Rightarrow> Some c
          | Some h \<Rightarrow> run_fhandler h E a m c \<bind> (\<lambda>(c, ev). if ev = fev_none then Some c else f E a m next_state ev c))) = Some y"
    have "ensures (f E a m st ev c) I" if "I c" for E a m st ev c using IH that by (auto simp: ensures_def)
    then have "ensures (case next_flow_state st ev of None \<Rightarrow> Some c | Some next_state \<Rightarrow>
        upd_flow a (f_state_update (\<lambda>_. next_state)) c \<bind> (\<lambda>c. case flow_transition st next_state of None \<Rightarrow> Some c
          | Some h \<Rightarrow> run_fhandler h E a m c \<bind> (\<lambda>(c, ev). if ev = fev_none then Some c else f E a m next_state ev c))) I"
      using c by (auto intro!: upd_flow_keeps fhandler_keeps split: option.split)
    then show "I y" using run by (rule ensuresD)
  qed
  then show "P r" using assms by simp
qed

lemma notify_keeps: "I c \<Longrightarrow> (\<And>c'. I c' \<Longrightarrow> P c') \<Longrightarrow> ensures (flow_change_notify a st c) P"
  by (auto simp: flow_change_notify_def Let_def intro!: ensures_heap I_notes)

lemma flow_event_keeps: "I c \<Longrightarrow> (\<And>c' r. I c' \<Longrightarrow> P (c', r)) \<Longrightarrow> ensures (handle_flow_event E a ev m c) P"
  by (auto simp: handle_flow_event_def intro!: ensures_heap ensures_any [of _ "pcp_eval_flow_state _ _"] flow_event_loop_keeps notify_keeps)

section \<open>Walks\<close>

abbreviation cb_keeps :: "('i \<Rightarrow> 'd \<Rightarrow> pcp_ctx \<Rightarrow> (pcp_ctx \<times> 'd \<times> bool) option) \<Rightarrow> bool" where
  "cb_keeps cb \<equiv> (\<forall>a d c. I c \<longrightarrow> ensures (cb a d c) (\<lambda>x. I (fst x)))"

lemma foreach_chain_keeps:
  assumes "cb_keeps cb" and "I c"
  shows "ensures (foreach_chain cb p d c) (\<lambda>x. I (fst x))"
  unfolding ensures_def
proof (intro allI impI)
  fix r
  assume r: "foreach_chain cb p d c = Some r"
  have "cb_keeps cb \<longrightarrow> I c \<longrightarrow> I (fst r)"
  proof (rule foreach_chain.raw_induct [OF _ r], intro impI)
    fix f cb p d and c :: pcp_ctx and y
    let ?body = "case p of None \<Rightarrow> Some (c, d, False) | Some a \<Rightarrow> c_heap c a \<bind> (\<lambda>fl. let n = f_next fl in
        cb a d c \<bind> (\<lambda>(c, d, stop). if stop then Some (c, d, True) else f cb n d c))"
    assume IH: "\<And>cb p d c y. f cb p d c = Some y \<Longrightarrow> cb_keeps cb \<longrightarrow> I c \<longrightarrow> I (fst y)"
      and cb: "cb_keeps cb" and c: "I c" and run: "?body = Some y"
    have f: "ensures (f cb p d c) (\<lambda>x. I (fst x))" if "I c" for p d c 
      unfolding ensures_def using IH [THEN mp, THEN mp, OF _ cb that] by blast
    have "ensures (cb a d c) (\<lambda>(c, d, stop). ensures (if stop then Some (c, d, True) else f cb n d c) (\<lambda>x. I (fst x)))" for a n
      by (rule ensures_mono [OF cb [rule_format, OF c]]) (auto intro: f)
    then have "ensures ?body (\<lambda>x. I (fst x))"
      using c by (auto simp: case_prod_unfold intro!: ensures_heap split: option.split)
    then show "I (fst y)" using run by (rule ensuresD)
  qed
  then show "I (fst r)" using assms by blast
qed

lemma foreach_bucket_keeps:
  assumes cb: "cb_keeps cb"
  shows "I c \<Longrightarrow> ensures (foreach_bucket cb ks d c) (\<lambda>x. I (fst x))"
proof (induction ks arbitrary: d c)
  case (Cons k ks)
  have "ensures (foreach_chain cb p d c) (\<lambda>(c, d, stop).
      ensures (if stop then Some (c, d, PCP_ERR_SUCCESS) else foreach_bucket cb ks d c) (\<lambda>x. I (fst x)))" for p
    by (rule ensures_mono [OF foreach_chain_keeps [OF cb Cons.prems, of p d]]) (auto intro: Cons.IH)
  then show ?case by (auto intro!: ensures_any [of _ "link_read _ _"] simp: case_prod_unfold)
qed simp

lemma foreach_flow_keeps:
  assumes cb: "\<And>a d c. I c \<Longrightarrow> ensures (cb a d c) (\<lambda>x. I (fst x))" and "I c" and "\<And>c' d r. I c' \<Longrightarrow> P (c', d, r)"
  shows "ensures (pcp_db_foreach_flow cb d c) P"
proof -
  have "cb_keeps cb" using cb by blast
  from foreach_bucket_keeps [OF this assms(2), of "[0..<FLOW_HASH_SIZE]" d] show ?thesis
    using assms(3) by (auto simp: pcp_db_foreach_flow_def ensures_def)
qed

lemma foreach_server_keeps:
  assumes cb: "\<And>i d c. I c \<Longrightarrow> ensures (cb i d c) (\<lambda>x. I (fst x))" and "I c" and "\<And>c' d r. I c' \<Longrightarrow> P (c', d, r)"
  shows "ensures (foreach_server_loop cb k d c) P"
  unfolding ensures_def
proof (intro allI impI)
  fix r
  assume r: "foreach_server_loop cb k d c = Some r"
  have "cb_keeps cb \<longrightarrow> I c \<longrightarrow> I (fst r)"
  proof (rule foreach_server_loop.raw_induct [OF _ r], intro impI)
    fix f cb k d and c :: pcp_ctx and y
    let ?body = "if k < length (c_pcp_servers c) then if s_server_state (c_pcp_servers c ! k) = pss_unitialized
        then f cb (Suc k) d c
        else cb k d c \<bind> (\<lambda>(c, d, stop). if stop then Some (c, d, PCP_ERR_SUCCESS) else f cb (Suc k) d c)
      else Some (c, d, PCP_ERR_MAX_SIZE)"
    assume IH: "\<And>cb k d c y. f cb k d c = Some y \<Longrightarrow> cb_keeps cb \<longrightarrow> I c \<longrightarrow> I (fst y)"
      and cb: "cb_keeps cb" and c: "I c" and run: "?body = Some y"
    have f: "ensures (f cb k d c) (\<lambda>x. I (fst x))" if "I c" for k d c 
      unfolding ensures_def using IH [THEN mp, THEN mp, OF _ cb that] by blast
    have "ensures (cb k d c) (\<lambda>(c, d, stop). ensures (if stop then Some (c, d, PCP_ERR_SUCCESS) else f cb (Suc k) d c) (\<lambda>x. I (fst x)))"
      by (rule ensures_mono [OF cb [rule_format, OF c]]) (auto intro: f)
    then have "ensures ?body (\<lambda>x. I (fst x))"
      using c f by (auto simp: case_prod_unfold)
    then show "I (fst y)" using run by (rule ensuresD)
  qed
  moreover have "cb_keeps cb" using cb by blast
  ultimately have "I (fst r)" using assms(2) by blast
  then show "P r" using assms(3) by (cases r) auto
qed

section \<open>The state machine of a server\<close>

lemma check_timeout_keeps: "I c \<Longrightarrow> (\<And>c' r. I c' \<Longrightarrow> P (c', r)) \<Longrightarrow> ensures (check_flow_timeout E a t c) P"
  by (auto simp: check_flow_timeout_def Let_def intro!: I_tick write_keeps flow_event_keeps split: prod.split)

lemma check_server_timeout_keeps: "I c \<Longrightarrow> (\<And>c' d r. I c' \<Longrightarrow> P (c', d, r)) \<Longrightarrow> ensures (check_server_flow_timeout E i a d c) P"
  by (auto simp: check_server_flow_timeout_def intro!: ensures_any [of _ "server_at _ _"] check_timeout_keeps write_keeps)

lemma send_event_keeps: "I c \<Longrightarrow> (\<And>c' d r. I c' \<Longrightarrow> P (c', d, r)) \<Longrightarrow> ensures (flow_send_event_iter E i ev a d c) P"
  by (auto simp: flow_send_event_iter_def intro!: ensures_heap ensures_any [of _ "server_at _ _"] flow_event_keeps check_server_timeout_keeps)

lemma first_flow_keeps: "I c \<Longrightarrow> (\<And>c' d r. I c' \<Longrightarrow> P (c', d, r)) \<Longrightarrow> ensures (get_first_flow_iter i a d c) P"
  by (auto simp: get_first_flow_iter_def intro!: ensures_heap ensures_any [of _ "server_at _ _"])

lemma ping_msg_keeps: "I c \<Longrightarrow> (\<And>c' r. I c' \<Longrightarrow> P (c', r)) \<Longrightarrow> ensures (get_ping_msg i c) P"
  by (auto simp: get_ping_msg_def intro!: foreach_flow_keeps first_flow_keeps write_keeps)

lemma set_timeout_keeps: "I c \<Longrightarrow> (\<And>c' r. I c' \<Longrightarrow> P (c', r)) \<Longrightarrow> ensures (set_timeout i t st c) P"
  by (auto simp: set_timeout_def intro!: write_keeps)

lemma natpmp_ann_keeps: "I c \<Longrightarrow> (\<And>c' r. I c' \<Longrightarrow> P (c', r)) \<Longrightarrow> ensures (create_natpmp_ann_msg E i c) P"
  using create_flow_keeps
  by (auto simp: create_natpmp_ann_msg_def Let_def case_prod_unfold intro!: ensures_any [of _ "server_at _ _"] write_keeps add_flow_keeps)

lemma find_response_keeps: "I c \<Longrightarrow> (\<And>c' r. I c' \<Longrightarrow> P (c', r)) \<Longrightarrow> ensures (find_response_flow i c) P"
  by (auto simp: find_response_flow_def Let_def intro!: ensures_any [of _ "server_at _ _"] ensures_any [of _ "pcp_get_flow _ _ _"]
      write_keeps I_msg split: option.split)

lemma process_rcvd_keeps: "I c \<Longrightarrow> (\<And>c' r. I c' \<Longrightarrow> P (c', r)) \<Longrightarrow> ensures (server_process_rcvd_pcp_msg E i c) P"
  by (auto simp: server_process_rcvd_pcp_msg_def intro!: find_response_keeps flow_event_keeps split: option.split)

lemma ping_loop_keeps:
  assumes "I c" and "\<And>c' r. I c' \<Longrightarrow> P (c', r)"
  shows "ensures (ping_loop E i c) P"
  unfolding ensures_def
proof (intro allI impI)
  fix r
  assume r: "ping_loop E i c = Some r"
  have "I c \<longrightarrow> (\<lambda>(c', _). I c') r"
  proof (rule ping_loop.raw_induct [OF _ r], rule impI)
    fix f E i c y
    assume IH: "\<And>E i c y. f E i c = Some y \<Longrightarrow> I c \<longrightarrow> (\<lambda>(c', _). I c') y" and c: "I c"
      and run: "get_ping_msg i c \<bind> (\<lambda>(c, msg). case msg of None \<Rightarrow> set_timeout i (Timeval 0 0) pss_ping c
        | Some a \<Rightarrow> upd_flow a (f_retry_count_update (\<lambda>_. 0)) c \<bind> (\<lambda>c. handle_flow_event E a fev_send None c \<bind>
          (\<lambda>(c, st). if st \<noteq> pfs_failed then c_heap c a \<bind> (\<lambda>f. set_timeout i (f_timeout f) pss_wait_ping_resp c) else f E i c))) = Some y"
    have "ensures (f E i c) (\<lambda>(c', _). I c')" if "I c" for E i c using IH that by (auto simp: ensures_def)
    then have "ensures (get_ping_msg i c \<bind> (\<lambda>(c, msg). case msg of None \<Rightarrow> set_timeout i (Timeval 0 0) pss_ping c
        | Some a \<Rightarrow> upd_flow a (f_retry_count_update (\<lambda>_. 0)) c \<bind> (\<lambda>c. handle_flow_event E a fev_send None c \<bind>
          (\<lambda>(c, st). if st \<noteq> pfs_failed then c_heap c a \<bind> (\<lambda>f. set_timeout i (f_timeout f) pss_wait_ping_resp c) else f E i c)))) (\<lambda>(c', _). I c')"
      using c by (auto intro!: ping_msg_keeps set_timeout_keeps write_keeps flow_event_keeps split: option.split)
    then show "(\<lambda>(c', _). I c') y" using run by (rule ensuresD)
  qed
  then show "P r" using assms by (cases r) auto
qed

lemma send_ping_keeps: "I c \<Longrightarrow> (\<And>c' r. I c' \<Longrightarrow> P (c', r)) \<Longrightarrow> ensures (send_ping E i a c) P"
  by (auto simp: send_ping_def intro!: write_keeps flow_event_keeps set_timeout_keeps)

lemma negotiation_keeps: "I c \<Longrightarrow> (\<And>c' r. I c' \<Longrightarrow> P (c', r)) \<Longrightarrow> ensures (handle_version_negotiation E i c) P"
  by (auto simp: handle_version_negotiation_def intro!: ensures_any [of _ "server_at _ _"] write_keeps natpmp_ann_keeps send_ping_keeps
      ping_msg_keeps set_timeout_keeps split: option.split)

lemma receive_handler_keeps: "I c \<Longrightarrow> (\<And>c' r. I c' \<Longrightarrow> P (c', r)) \<Longrightarrow> ensures (handle_wait_io_receive_msg E i c) P"
  by (auto simp: handle_wait_io_receive_msg_def Let_def intro!: ensures_any [of _ "server_at _ _"] write_keeps I_tick set_timeout_keeps
      process_rcvd_keeps split: prod.split)

lemma shandler_keeps: "I c \<Longrightarrow> (\<And>c' r. I c' \<Longrightarrow> P (c', r)) \<Longrightarrow> ensures (run_shandler h E i c) P"
  by (cases h) (auto simp: pcp_terminate_server_def handle_server_ping_def handle_wait_ping_resp_timeout_def handle_wait_ping_resp_recv_def
      handle_send_all_msgs_def handle_wait_io_timeout_def handle_server_restart_def handle_server_reping_def
      handle_server_set_not_working_def handle_server_not_working_def ignore_events_def log_unexepected_state_event_def Let_def
      intro!: ensures_any [of _ "server_at _ _"] write_keeps I_tick set_timeout_keeps ping_loop_keeps flow_event_keeps receive_handler_keeps
        negotiation_keeps foreach_flow_keeps check_server_timeout_keeps send_event_keeps process_rcvd_keeps split: option.split prod.split)

lemma run_sm_keeps: "I c \<Longrightarrow> (\<And>c' r. I c' \<Longrightarrow> P (c', r)) \<Longrightarrow> ensures (run_server_state_machine E p ev c) P"
  by (auto simp: run_server_state_machine_def intro!: ensures_any [of _ "server_at _ _"] shandler_keeps write_keeps split: option.split)

section \<open>The event loop\<close>

lemma rounds_keep:
  assumes "I c" and "\<And>c' r. I c' \<Longrightarrow> P (c', r)"
  shows "ensures (timeout_rounds E i c) P"
  unfolding ensures_def
proof (intro allI impI)
  fix r
  assume r: "timeout_rounds E i c = Some r"
  have "I c \<longrightarrow> (\<lambda>(c', _). I c') r"
  proof (rule timeout_rounds.raw_induct [OF _ r], rule impI)
    fix f E i c y
    let ?body = "server_at c i \<bind> (\<lambda>s. let ctv = gettimeofday E c in let c = tick c in
        if tv_is_zero (s_next_timeout s) then Some (c, ctv)
        else let (ctv, t, past) = timeval_subtract (s_next_timeout s) ctv in
             upd_server i (s_next_timeout_update (\<lambda>_. t)) c \<bind> (\<lambda>c. if \<not> past then Some (c, ctv)
               else run_server_state_machine E (Some i) pcpe_timeout c \<bind> (\<lambda>(c, _). f E i c)))"
    assume IH: "\<And>E i c y. f E i c = Some y \<Longrightarrow> I c \<longrightarrow> (\<lambda>(c', _). I c') y" and c: "I c" and run: "?body = Some y"
    have "ensures (f E i c) (\<lambda>(c', _). I c')" if "I c" for E i c using IH that by (auto simp: ensures_def)
    then have "ensures ?body (\<lambda>(c', _). I c')"
      using c by (auto simp: Let_def intro!: ensures_any [of _ "server_at _ _"] I_tick write_keeps run_sm_keeps split: prod.split)
    then show "(\<lambda>(c', _). I c') y" using run by (rule ensuresD)
  qed
  then show "P r" using assms by (cases r) auto
qed

lemma hserver_keeps: "I c \<Longrightarrow> (\<And>c' d r. I c' \<Longrightarrow> P (c', d, r)) \<Longrightarrow> ensures (hserver_iter E ev i d c) P"
  by (auto simp: hserver_iter_def Let_def intro!: ensures_any [of _ "server_at _ _"] run_sm_keeps rounds_keep split: option.split prod.split)

lemma read_keeps: "I c \<Longrightarrow> I (fst (read_msg E c))"
  by (auto simp: read_msg_def Let_def intro!: I_tick I_msg split: recv_outcome.split)

lemma receive_keeps: "I c \<Longrightarrow> (\<And>c'. I c' \<Longrightarrow> P c') \<Longrightarrow> ensures (receive_msg E c) P"
  by (auto simp: receive_msg_def Let_def intro!: ensures_any [of _ "server_at _ _"] ensures_any [of _ "get_pcp_server_by_ip _ _ _"]
      I_tick I_msg hserver_keeps split: option.split prod.split sockaddr.split)

lemma pulse_keeps: "I c \<Longrightarrow> (\<And>c' t r. I c' \<Longrightarrow> P (c', t, r)) \<Longrightarrow> ensures (pcp_pulse E t c) P"
  using read_keeps [of c E]
  by (auto simp: pcp_pulse_def pcp_db_foreach_server_def Let_def intro!: receive_keeps foreach_server_keeps hserver_keeps
      ensures_any [of _ "_ :: timeval option"] split: prod.split)

end

section \<open>Time goes on and no flow is freed or leaves the table\<close>

definition later :: "pcp_ctx \<Rightarrow> pcp_ctx \<Rightarrow> bool" where
  "later c0 c \<longleftrightarrow> c_tick c0 \<le> c_tick c \<and> dom (c_heap c0) \<subseteq> dom (c_heap c) \<and> (\<forall>a. linked c0 a \<longrightarrow> linked c a)"

interpretation later: ctx_kept "later c0" for c0
  by unfold_locales (auto simp: later_def linked_def)

lemma later_refl [simp]: "later c c"
  by (simp add: later_def)

lemma later_trans: "later c d \<Longrightarrow> later d e \<Longrightarrow> later c e"
  unfolding later_def by (meson order_trans subset_trans)

lemma later_tick [simp]: "later c (tick c)" "later c d \<Longrightarrow> later c (tick d)"
  by (auto simp: later_def linked_def)

lemma later_linked: "later c d \<Longrightarrow> linked c a \<Longrightarrow> linked d a"
  by (simp add: later_def)

lemma later_upd_server: "upd_server i g c = Some d \<Longrightarrow> later c d"
  by (rule ensuresD [OF later.upd_server_keeps [OF later_refl]])

lemma later_walk:
  assumes "\<And>a u d. later c d \<Longrightarrow> ensures (cb a u d) (\<lambda>x. later c (fst x))" and "pcp_db_foreach_flow cb u c = Some (d, v, r)"
  shows "later c d"
  using ensuresD [OF later.foreach_flow_keeps [of c cb c "\<lambda>x. later c (fst x)"] assms(2)] assms(1) by simp

lemma later_check: "pcp_db_foreach_flow (check_server_flow_timeout E i) u c = Some (d, v, r) \<Longrightarrow> later c d"
  by (rule later_walk) (auto intro: later.check_server_timeout_keeps)

lemma later_send: "pcp_db_foreach_flow (flow_send_event_iter E i ev) u c = Some (d, v, r) \<Longrightarrow> later c d"
  by (rule later_walk) (auto intro: later.send_event_keeps)

lemma later_run_sm: "run_server_state_machine E p ev c = Some (d, r) \<Longrightarrow> later c d"
  using ensuresD [OF later.run_sm_keeps [of c c "\<lambda>x. later c (fst x)"]] by fastforce

lemma later_hserver: "hserver_iter E ev i t c = Some (d, u, r) \<Longrightarrow> later c d"
  using ensuresD [OF later.hserver_keeps [of c c "\<lambda>x. later c (fst x)"]] by fastforce

lemma later_read: "later c (fst (read_msg E c))"
  by (rule later.read_keeps) simp

lemma later_receive: "receive_msg E c = Some d \<Longrightarrow> later c d"
  by (rule ensuresD [OF later.receive_keeps [OF later_refl]])

lemma later_pulse: "pcp_pulse E t c = Some (d, u, r) \<Longrightarrow> later c d"
  using ensuresD [OF later.pulse_keeps [of c c "\<lambda>x. later c (fst x)"]] by fastforce

lemma later_le: "later c d \<Longrightarrow> n \<le> c_tick c \<Longrightarrow> n \<le> c_tick d"
  by (simp add: later_def)

end
