(* ===== verification/Pcp_Rounds.thy ===== *)
theory Pcp_Rounds
  imports Pcp_Later
begin

text \<open>
  The rounds of a server in \<^verbatim>\<open>hserver_iter\<close> of \<^verbatim>\<open>pcp_event_handler.c\<close>: the loop that runs the state
  machine of the server while its timeout has passed. Each round reads the clock; the loop ends for
  every clock that comes to rest (\<open>clock_from\<close>). Before that it may jump in any direction; once it
  rests, a measure on the state of the server (\<open>rounds_left\<close>) bounds the rounds.
\<close>

section \<open>The rounds end\<close>

text \<open>The clock shows \<open>now\<close> from the \<open>N\<close>-th call of the system on.\<close>

definition clock_from :: "env \<Rightarrow> nat \<Rightarrow> timeval \<Rightarrow> bool" where
  "clock_from E N now \<longleftrightarrow> (\<forall>n\<ge>N. env_gettimeofday E n = now)"

lemma clock_read: "clock_from E N now \<Longrightarrow> N \<le> c_tick c \<Longrightarrow> gettimeofday E c = now"
  by (simp add: clock_from_def gettimeofday_def)

definition due :: "timeval \<Rightarrow> pcp_server \<Rightarrow> bool" where
  "due now s \<longleftrightarrow> \<not> tv_is_zero (s_next_timeout s) \<and> tv_us (s_next_timeout s) \<le> tv_us now"

text \<open>A bound on the rounds that are left, from the state of the server and the count of its
  pings.\<close>

definition rounds_left :: "pcp_server \<Rightarrow> nat" where
  "rounds_left s =
     (case s_server_state s of
        pss_wait_ping_resp \<Rightarrow>
          (if s_ping_flow_msg s = None then 9
           else if s_ping_count s = 0xFFFFFFFF then 7 else 2 + (3 - unat (s_ping_count s)))
      | pss_ping \<Rightarrow> 8
      | pss_version_negotiation \<Rightarrow> 10
      | pss_server_reping \<Rightarrow> 11
      | pss_not_working \<Rightarrow> 12
      | pss_send_all_msgs \<Rightarrow> 3
      | pss_server_restart \<Rightarrow> 3
      | pss_wait_io \<Rightarrow> 1
      | pss_wait_io_calc_nearest_timeout \<Rightarrow> 1
      | pss_set_not_working \<Rightarrow> 1
      | pss_allocated \<Rightarrow> 1
      | _ \<Rightarrow> 13)"

definition progress :: "timeval \<Rightarrow> pcp_server \<Rightarrow> pcp_server_state_e \<Rightarrow> pcp_server \<Rightarrow> bool" where
  "progress now s st s' \<longleftrightarrow> \<not> due now s' \<or> rounds_left (s'\<lparr>s_server_state := st\<rparr>) < rounds_left s"

lemma timeout_handlers [simp]:
  "server_handler pss_any pcpe_timeout = Some S_log_unexpected"
  "server_handler pss_unitialized pcpe_timeout = Some S_log_unexpected"
  "server_handler pss_allocated pcpe_timeout = Some S_ignore_events"
  "server_handler pss_ping pcpe_timeout = Some S_ping"
  "server_handler pss_wait_ping_resp pcpe_timeout = Some S_wait_ping_resp_timeout"
  "server_handler pss_version_negotiation pcpe_timeout = Some S_version_negotiation"
  "server_handler pss_send_all_msgs pcpe_timeout = Some S_send_all_msgs"
  "server_handler pss_wait_io pcpe_timeout = Some S_wait_io_timeout"
  "server_handler pss_wait_io_calc_nearest_timeout pcpe_timeout = Some S_wait_io_timeout"
  "server_handler pss_server_restart pcpe_timeout = Some S_server_restart"
  "server_handler pss_server_reping pcpe_timeout = Some S_server_reping"
  "server_handler pss_set_not_working pcpe_timeout = Some S_set_not_working"
  "server_handler pss_not_working pcpe_timeout = Some S_not_working"
  by (simp_all add: server_handler_def server_sm_def)

lemma server_handler_total: "server_handler st ev \<noteq> None"
  by (cases st; cases ev) (simp_all add: server_handler_def server_sm_def)

lemma set_timeout_Some:
  "set_timeout i t st c = Some (c', st') \<Longrightarrow> st' = st \<and> i < length (c_pcp_servers c) \<and>
    c_pcp_servers c' ! i = (c_pcp_servers c ! i)\<lparr>s_next_timeout := t\<rparr>"
  by (auto simp: set_timeout_def upd_server_def split: if_splits)

text \<open>Which states the handlers lead to.\<close>

lemma send_all_state: "handle_send_all_msgs E i c = Some (c', st) \<Longrightarrow> st = pss_wait_io_calc_nearest_timeout"
  by (auto simp: handle_send_all_msgs_def bind_eq_Some_conv dest!: set_timeout_Some)

lemma restart_state: "handle_server_restart E i c = Some (c', st) \<Longrightarrow> st = pss_wait_io_calc_nearest_timeout"
  by (auto simp: handle_server_restart_def bind_eq_Some_conv dest!: set_timeout_Some)

lemma reping_state: "handle_server_reping E i c = Some (c', st) \<Longrightarrow> st = pss_ping"
  by (auto simp: handle_server_reping_def bind_eq_Some_conv dest!: set_timeout_Some)

lemma send_ping_state: "send_ping E i a c = Some (c', st) \<Longrightarrow> st = pss_set_not_working \<or> st = pss_wait_ping_resp"
  by (auto simp: send_ping_def bind_eq_Some_conv dest!: set_timeout_Some split: if_splits)

lemma negotiation_state:
  assumes "handle_version_negotiation E i c = Some (c', st)"
  shows "st = pss_set_not_working \<or> st = pss_wait_ping_resp \<or> st = pss_ping"
proof -
  have "st = pss_set_not_working \<or> st = pss_wait_ping_resp \<or> st = pss_ping"
    if "(case p of Some a \<Rightarrow> send_ping E i a d | None \<Rightarrow> get_ping_msg i d \<bind> (\<lambda>(c, ping_msg). case ping_msg of
      None \<Rightarrow> set_timeout i (Timeval 0 0) pss_ping c | Some a \<Rightarrow> send_ping E i a c)) = Some (c', st)" for p d
    using that by (auto simp: bind_eq_Some_conv dest!: set_timeout_Some send_ping_state split: option.split_asm)
  then show ?thesis
    using assms by (auto simp: handle_version_negotiation_def bind_eq_Some_conv split: if_split_asm)
qed

lemma set_not_working_timeout:
  assumes "handle_server_set_not_working E i c = Some (c', st)" and clk: "clock_from E N now" "N \<le> c_tick c"
  shows "\<not> due now (c_pcp_servers c' ! i)"
proof -
  obtain d r where w: "pcp_db_foreach_flow (flow_send_event_iter E i fev_failed) () c = Some (d, (), r)"
    and t: "set_timeout i (Timeval (tv_sec (gettimeofday E d) + PCP_SERVER_DISCOVERY_RETRY_DELAY) (tv_usec (gettimeofday E d)))
      pss_not_working (tick d) = Some (c', st)"
    using assms(1) by (auto simp: handle_server_set_not_working_def bind_eq_Some_conv Let_def)
  have "gettimeofday E d = now" using clock_read [OF clk(1) later_le [OF later_send [OF w] clk(2)]] .
  with set_timeout_Some [OF t] show ?thesis by (simp add: due_def tv_us_def)
qed

lemma not_working_state:
  assumes "handle_server_not_working E i c = Some (c', st)" and clk: "clock_from E N now" "N \<le> c_tick c"
    and "tv_us (s_next_timeout (c_pcp_servers c ! i)) \<le> tv_us now"
  shows "st = pss_server_reping"
proof -
  have "0 \<le> sgn (tv_us now - tv_us (s_next_timeout (c_pcp_servers c ! i)))"
    using assms(4) by (simp add: sgn_if)
  then show ?thesis
    using assms(1) clock_read [OF clk] by (auto simp: handle_server_not_working_def bind_eq_Some_conv
        server_at_def timeval_comp_sgn dest!: set_timeout_Some split: if_split_asm)
qed

text \<open>Computing the nearest timeout leaves the server without a timeout or with one ahead of the
  clock.\<close>

lemma wait_io_timeout_ahead:
  assumes E: "sendto_bounded E" and ok: "sm_ok c0 i c" and r: "handle_wait_io_timeout E i c = Some (c', st)"
  shows "tv_is_zero (s_next_timeout (c_pcp_servers c' ! i)) \<or>
    (\<exists>n\<ge>c_tick c. tv_us (env_gettimeofday E n) < tv_us (s_next_timeout (c_pcp_servers c' ! i)))"
proof -
  obtain d where u: "upd_server i (s_next_timeout_update (\<lambda>_. Timeval 0 0)) c = Some d" and d: "sm_ok c0 i d"
    "tv_nonneg (s_next_timeout (c_pcp_servers d ! i))"
    using write_server_ok [OF ok, of "s_next_timeout_update (\<lambda>_. Timeval 0 0)"] by (auto elim!: yieldsE)
  obtain e q where w: "pcp_db_foreach_flow (check_server_flow_timeout E i) () d = Some (e, (), q)" and e: "sm_ok c0 i e"
    "tv_nonneg (s_next_timeout (c_pcp_servers e ! i))"
    using foreach_check_ok [OF E d] by (auto elim!: yieldsE)
  let ?t = "s_next_timeout (c_pcp_servers e ! i)" and ?ctv = "gettimeofday E e"
  let ?n = "timeval_align (Timeval (tv_sec ?t + tv_sec ?ctv) (tv_usec ?t + tv_usec ?ctv))"
  have r': "(if tv_is_zero ?t then Some (e, pss_wait_io) else set_timeout i ?n pss_wait_io (tick e)) = Some (c', st)"
    using r u w by (simp add: handle_wait_io_timeout_def server_at_ok [OF e(1)] Let_def split: if_splits)
  have le: "c_tick c \<le> c_tick e" using later_upd_server [OF u] later_check [OF w] by (simp add: later_def)
  have "tv_us ?n = tv_us ?t + tv_us ?ctv" by (simp add: timeval_align_us) (simp add: tv_us_def algebra_simps)
  moreover have "0 < tv_us ?t" if "\<not> tv_is_zero ?t" using e(2) that by (rule tv_nonneg_pos)
  ultimately show ?thesis
    using r' le by (cases "tv_is_zero ?t") (auto simp: gettimeofday_def dest!: set_timeout_Some)
qed

lemma ping_count_step:
  fixes k :: u32
  assumes "k + 1 < 3"
  shows "2 + (3 - unat (k + 1)) < (if k = 0xFFFFFFFF then 7 else 2 + (3 - unat k))" and "k + 1 \<noteq> 0xFFFFFFFF"
proof -
  show "k + 1 \<noteq> 0xFFFFFFFF" using assms by auto
  have "unat (k + 1) = Suc (unat k)" if "k \<noteq> 0xFFFFFFFF"
  proof -
    have "unat k \<noteq> unat (0xFFFFFFFF :: u32)" using that by (metis word_unat_eq_iff)
    moreover have "unat k < 2 ^ 32" using unsigned_less [of k] by simp
    ultimately have "unat k + 1 < 2 ^ 32" by simp
    then show ?thesis by (simp add: unat_word_ariths)
  qed
  moreover have "unat (k + 1) < 3" using assms by (simp add: word_less_nat_alt)
  ultimately show "2 + (3 - unat (k + 1)) < (if k = 0xFFFFFFFF then 7 else 2 + (3 - unat k))" by auto
qed

lemma run_shandler_progress:
  assumes E: "sendto_bounded E" and ok: "sm_ok c0 i c" and clk: "clock_from E N now" "N \<le> c_tick c"
    and d: "tv_us (s_next_timeout (c_pcp_servers c ! i)) \<le> tv_us now"
    and h: "server_handler (s_server_state (c_pcp_servers c ! i)) pcpe_timeout = Some h"
  shows "yields (run_shandler h E i c) (\<lambda>(c', st). sm_ok c0 i c' \<and> st \<noteq> pss_unitialized \<and>
    progress now (c_pcp_servers c ! i) st (c_pcp_servers c' ! i))"
proof -
  let ?s = "c_pcp_servers c ! i"
  obtain c' st where r: "run_shandler h E i c = Some (c', st)" and ok': "sm_ok c0 i c'" and st: "st \<noteq> pss_unitialized"
    using run_shandler_ok [OF E ok, of h] by (auto simp: handler_ok_def elim!: yieldsE)
  let ?s' = "c_pcp_servers c' ! i"
  have un: "s_server_state ?s \<noteq> pss_unitialized" using ok by (simp add: sm_ok_def)
  note defs = progress_def rounds_left_def
  have "progress now ?s st ?s'"
  proof (cases "s_server_state ?s")
    case pss_ping
    obtain bs where rep: "db_rep c bs" using sm_ok_rep [OF ok] by blast
    obtain d where u: "upd_server i (s_ping_count_update (\<lambda>_. 0)) c = Some d" "sm_ok c0 i d" "db_rep d bs"
      using upd_server_ok [OF ok, of "s_ping_count_update (\<lambda>_. 0)"] un rep by (auto elim!: yieldsE)
    have "ping_result st ?s'"
      using ping_loop_result [OF E u(2,3)] r h pss_ping u(1) by (auto simp: handle_server_ping_def)
    then show ?thesis using pss_ping by (auto simp: defs ping_result_def due_def tv_is_zero_def)
  next
    case pss_wait_ping_resp
    have "ping_timeout_result ?s st ?s'"
      using handle_wait_ping_resp_timeout_result [OF E ok] r h pss_wait_ping_resp by auto
    then show ?thesis
      using pss_wait_ping_resp ping_count_step [of "s_ping_count ?s"] by (auto simp: defs ping_timeout_result_def)
  next
    case pss_version_negotiation
    then show ?thesis using r h negotiation_state [of E i c c' st] by (auto simp: defs)
  next
    case pss_wait_io
    then show ?thesis
      using wait_io_timeout_ahead [OF E ok, of c' st] r h clk by (auto simp: progress_def due_def clock_from_def)
  next
    case pss_wait_io_calc_nearest_timeout
    then show ?thesis
      using wait_io_timeout_ahead [OF E ok, of c' st] r h clk by (auto simp: progress_def due_def clock_from_def)
  next
    case pss_allocated
    then show ?thesis
      using r h by (auto simp: ignore_events_def server_at_ok [OF ok] progress_def due_def tv_is_zero_def
          dest!: set_timeout_Some)
  qed (use r h un d clk set_not_working_timeout [OF _ clk, of i c' st] not_working_state [OF _ clk, of i c' st]
      in \<open>auto simp: progress_def rounds_left_def log_unexepected_state_event_def
        dest!: send_all_state restart_state reping_state set_timeout_Some\<close>)
  then show ?thesis using r ok' st by simp
qed

lemma run_timeout_progress:
  assumes E: "sendto_bounded E" and ok: "sm_ok c0 i c" and clk: "clock_from E N now" "N \<le> c_tick c"
    and d: "tv_us (s_next_timeout (c_pcp_servers c ! i)) \<le> tv_us now"
  shows "yields (run_server_state_machine E (Some i) pcpe_timeout c) (\<lambda>(c', r). sm_ok c0 i c' \<and>
    (due now (c_pcp_servers c' ! i) \<longrightarrow> rounds_left (c_pcp_servers c' ! i) < rounds_left (c_pcp_servers c ! i)))"
proof -
  let ?s = "c_pcp_servers c ! i"
  obtain h where h: "server_handler (s_server_state ?s) pcpe_timeout = Some h" using server_handler_total by blast
  have "yields (run_shandler h E i c \<bind> (\<lambda>(c, st). upd_server i (s_server_state_update (\<lambda>_. st)) c \<bind>
      (\<lambda>c. Some (c, PCP_ERR_SUCCESS)))) (\<lambda>(c', r). sm_ok c0 i c' \<and>
    (due now (c_pcp_servers c' ! i) \<longrightarrow> rounds_left (c_pcp_servers c' ! i) < rounds_left ?s))"
  proof (rule yields_bind2 [OF run_shandler_progress [OF E ok clk d h]])
    fix d st
    assume "case (d, st) of (c', st) \<Rightarrow> sm_ok c0 i c' \<and> st \<noteq> pss_unitialized \<and> progress now ?s st (c_pcp_servers c' ! i)"
    then have d: "sm_ok c0 i d" "st \<noteq> pss_unitialized" "progress now ?s st (c_pcp_servers d ! i)" by auto
    have "yields (upd_server i (s_server_state_update (\<lambda>_. st)) d) (\<lambda>e. sm_ok c0 i e \<and>
        c_pcp_servers e ! i = (c_pcp_servers d ! i)\<lparr>s_server_state := st\<rparr>)"
      using d by (intro yields_mono [OF upd_server_ok [OF d(1)]]) auto
    then show "yields (upd_server i (s_server_state_update (\<lambda>_. st)) d \<bind> (\<lambda>c. Some (c, PCP_ERR_SUCCESS)))
        (\<lambda>(c', r). sm_ok c0 i c' \<and> (due now (c_pcp_servers c' ! i) \<longrightarrow> rounds_left (c_pcp_servers c' ! i) < rounds_left ?s))"
      using d(3) by (auto simp: yields_def progress_def due_def)
  qed
  then show ?thesis by (simp add: run_server_state_machine_def server_at_ok [OF ok] h)
qed

lemma timeval_subtract_cases:
  assumes "timeval_subtract x y = (r, x', ret)"
  shows "x' = timeval_align x \<and> (ret \<longleftrightarrow> tv_us x \<le> tv_us y)"
proof (cases "tv_us x \<le> tv_us y")
  case True
  then show ?thesis using assms by (auto simp: timeval_subtract_past)
next
  case False
  then have "tv_us y < tv_us x" by simp
  then obtain q where "timeval_subtract x y = (q, timeval_align x, False)" by (rule timeval_subtract_future)
  then show ?thesis using assms False by simp
qed

lemma rounds_left_timeout [simp]: "rounds_left (s\<lparr>s_next_timeout := t\<rparr>) = rounds_left s"
  by (cases "s_server_state s") (simp_all add: rounds_left_def)

text \<open>One turn of the loop: it ends, or the state machine is run after the clock was read.\<close>

lemma timeout_rounds_turn:
  assumes ok: "sm_ok c0 i c"
  obtains (ends) d t where "timeout_rounds E i c = Some (d, t)" "sm_ok c0 i d"
      "\<not> due (gettimeofday E c) (c_pcp_servers d ! i)" "\<not> due (gettimeofday E c) (c_pcp_servers c ! i)"
  | (again) d t where "timeout_rounds E i c = run_server_state_machine E (Some i) pcpe_timeout d \<bind> (\<lambda>(c, _). timeout_rounds E i c)"
      "sm_ok c0 i d" "c_tick c < c_tick d" "c_pcp_servers d ! i = (c_pcp_servers c ! i)\<lparr>s_next_timeout := t\<rparr>"
      "tv_us t = tv_us (s_next_timeout (c_pcp_servers c ! i))" "due (gettimeofday E c) (c_pcp_servers c ! i)"
proof -
  let ?s = "c_pcp_servers c ! i" and ?now = "gettimeofday E c"
  have ok': "sm_ok c0 i (tick c)" using ok by simp
  obtain ctv t past where sub: "timeval_subtract (s_next_timeout ?s) ?now = (ctv, t, past)"
    by (cases "timeval_subtract (s_next_timeout ?s) ?now")
  then have t: "t = timeval_align (s_next_timeout ?s)" "past \<longleftrightarrow> tv_us (s_next_timeout ?s) \<le> tv_us ?now"
    by (auto dest: timeval_subtract_cases)
  obtain d where u: "upd_server i (s_next_timeout_update (\<lambda>_. t)) (tick c) = Some d" and d: "sm_ok c0 i d"
    "c_pcp_servers d ! i = ?s\<lparr>s_next_timeout := t\<rparr>"
    using write_server_ok [OF ok', of "s_next_timeout_update (\<lambda>_. t)"] by (auto elim!: yieldsE)
  have dt: "tv_us t = tv_us (s_next_timeout ?s)" by (simp add: t timeval_align_us)
  have tk: "c_tick c < c_tick d" using later_upd_server [OF u] by (simp add: later_def)
  have unf: "timeout_rounds E i c = (if tv_is_zero (s_next_timeout ?s) then Some (tick c, ?now)
      else if \<not> past then Some (d, ctv)
      else run_server_state_machine E (Some i) pcpe_timeout d \<bind> (\<lambda>(c, _). timeout_rounds E i c))"
    by (subst timeout_rounds.simps) (simp add: server_at_ok [OF ok] Let_def sub u)
  show thesis
  proof (cases "due ?now ?s")
    case True
    then show ?thesis using again [OF _ d(1) tk d(2) dt] t(2) by (simp add: unf due_def)
  next
    case False
    have "timeout_rounds E i c = (if tv_is_zero (s_next_timeout ?s) then Some (tick c, ?now) else Some (d, ctv))"
      using False t(2) by (auto simp: unf due_def)
    then show ?thesis
      using False d dt ok by (cases "tv_is_zero (s_next_timeout ?s)") (auto simp: due_def intro: ends)
  qed
qed

text \<open>The loop ends once the clock rests.\<close>

lemma resting_rounds_end:
  assumes E: "sendto_bounded E" and clk: "clock_from E N now" and "sm_ok c0 i c" and "N \<le> c_tick c"
  shows "yields (timeout_rounds E i c) (\<lambda>(c', t). sm_ok c0 i c' \<and> \<not> due now (c_pcp_servers c' ! i))"
    (is "yields _ ?P")
  using assms(3,4)
proof (induction "if due now (c_pcp_servers c ! i) then rounds_left (c_pcp_servers c ! i) else 0"
    arbitrary: c rule: less_induct)
  case less
  have now: "gettimeofday E c = now" using clock_read [OF clk less.prems(2)] .
  from less.prems(1) show ?case
  proof (cases rule: timeout_rounds_turn [where E = E])
    case (ends d t)
    then show ?thesis by (simp add: now)
  next
    case (again d t)
    have n: "N \<le> c_tick d" using again(3) less.prems(2) by simp
    have "rounds_left (c_pcp_servers d ! i) = rounds_left (c_pcp_servers c ! i)" by (simp add: again(4))
    then obtain e r where e: "run_server_state_machine E (Some i) pcpe_timeout d = Some (e, r)" "sm_ok c0 i e"
      "due now (c_pcp_servers e ! i) \<longrightarrow> rounds_left (c_pcp_servers e ! i) < rounds_left (c_pcp_servers c ! i)"
      using run_timeout_progress [OF E again(2) clk n] again(4-6) now by (auto simp: due_def elim!: yieldsE)
    have "0 < rounds_left (c_pcp_servers c ! i)" by (simp add: rounds_left_def split: pcp_server_state_e.split)
    then have "yields (timeout_rounds E i e) ?P"
      using less.hyps [OF _ e(2) later_le [OF later_run_sm [OF e(1)] n]] e(3) again(6) now by auto
    then show ?thesis using again(1) e(1) by simp
  qed
qed

lemma timeout_rounds_end:
  assumes E: "sendto_bounded E" and clk: "clock_from E N now" and "sm_ok c0 i c"
  shows "yields (timeout_rounds E i c) (\<lambda>(c', t). sm_ok c0 i c' \<and> (N \<le> c_tick c \<longrightarrow> \<not> due now (c_pcp_servers c' ! i)))"
  using assms(3)
proof (induction "N - c_tick c" arbitrary: c rule: less_induct)
  case less
  show ?case
  proof (cases "N \<le> c_tick c")
    case True
    then show ?thesis using resting_rounds_end [OF E clk less.prems] by simp
  next
    case False
    from less.prems show ?thesis
    proof (cases rule: timeout_rounds_turn [where E = E])
      case (ends d t)
      then show ?thesis using False by simp
    next
      case (again d t)
      obtain e r where e: "run_server_state_machine E (Some i) pcpe_timeout d = Some (e, r)" "sm_ok c0 i e"
        using run_server_state_machine_ok [OF E again(2), of pcpe_timeout] by (auto elim!: yieldsE)
      have "N - c_tick e < N - c_tick c" using again(3) False later_run_sm [OF e(1)] by (auto simp: later_def)
      from less.hyps [OF this e(2)] show ?thesis using again(1) e(1) False by (auto elim!: yields_mono)
    qed
  qed
qed

end
