(* ===== verification/Pcp_Pulse.thy ===== *)
theory Pcp_Pulse
  imports Pcp_Rounds
begin

text \<open>
  What the server state machine does as a whole: giving up a server, negotiating the version,
  and one turn of the event loop, \<^verbatim>\<open>pcp_pulse\<close>. The theory proves the properties of the
  operations that \<open>Pcp_Server_Sm\<close> defines.

  The invariant \<open>ctx_wf\<close> and the use of the server records are kept by every sequence of
  events and datagrams (\<open>reachable\<close>). The rounds of a server in \<^verbatim>\<open>hserver_iter\<close> end provided
  that the clock comes to rest (\<open>clock_from\<close>, see \<open>Pcp_Rounds\<close>).
\<close>

section \<open>A server that does not work\<close>

lemma distinct_concat_nth:
  assumes "\<And>i. i < length bs \<Longrightarrow> distinct (bs ! i)"
    and "\<And>i j a. i < length bs \<Longrightarrow> j < length bs \<Longrightarrow> a \<in> set (bs ! i) \<Longrightarrow> a \<in> set (bs ! j) \<Longrightarrow> i = j"
  shows "distinct (concat bs)"
  using assms
proof (induction bs)
  case (Cons x bs)
  have "distinct (concat bs)"
  proof (rule Cons.IH)
    fix i assume "i < length bs" then show "distinct (bs ! i)" using Cons.prems(1) [of "Suc i"] by simp
  next
    fix i j a assume "i < length bs" "j < length bs" "a \<in> set (bs ! i)" "a \<in> set (bs ! j)"
    then show "i = j" using Cons.prems(2) [of "Suc i" "Suc j" a] by simp
  qed
  moreover have "a \<notin> set (concat bs)" if "a \<in> set x" for a
    using Cons.prems(2) [of 0 "Suc _" a] that by (auto simp: in_set_conv_nth [of _ bs])
  ultimately show ?case using Cons.prems(1) [of 0] by auto
qed simp

lemma db_rep_distinct_concat:
  assumes rep: "db_rep c bs"
  shows "distinct (concat bs)"
proof (rule distinct_concat_nth)
  fix i assume "i < length bs"
  then show "distinct (bs ! i)" using db_rep_distinct [OF rep] db_rep_length [OF rep] by simp
next
  fix i j a
  assume a: "i < length bs" "j < length bs" "a \<in> set (bs ! i)" "a \<in> set (bs ! j)"
  then have l: "i < FLOW_HASH_SIZE" "j < FLOW_HASH_SIZE" using db_rep_length [OF rep] by simp_all
  have "fbucket c a = Some (of_nat k)" if "k < FLOW_HASH_SIZE" "a \<in> set (bs ! k)" for k
    using rep that by (simp add: db_rep_def)
  from this [OF l(1) a(3)] this [OF l(2) a(4)]
  have "unat (of_nat i :: u32) = unat (of_nat j :: u32)" by simp
  then show "i = j" using l by (simp add: unat_of_nat)
qed

text \<open>What becomes of a flow without a mapping when its server is given up.\<close>

definition failed_flow :: "pcp_flow \<Rightarrow> pcp_flow" where
  "failed_flow f = f\<lparr>f_state := pfs_failed, f_pcp_msg_buffer := None, f_pcp_msg_len := 0, f_timeout := Timeval 0 0\<rparr>"

definition granted :: "pcp_flow \<Rightarrow> bool" where
  "granted f \<longleftrightarrow> f_state f = pfs_wait_for_lifetime_renew \<or> f_state f = pfs_send_renew"

lemma next_state_failed: "\<not> granted f \<Longrightarrow> next_flow_state (f_state f) fev_failed = Some pfs_failed"
  by (cases "f_state f") (simp_all add: granted_def next_flow_state_def flow_events_sm_def)

lemma fail_event:
  assumes f: "c_heap c a = Some f" "\<not> granted f" and ch: "Chain (fchild c) (Some a) xs None"
  shows "\<exists>ns. handle_flow_event E a fev_failed None c =
    Some (c\<lparr>c_heap := (c_heap c)(a \<mapsto> failed_flow f), c_notes := c_notes c @ ns\<rparr>, pfs_failed)"
proof -
  let ?c = "c\<lparr>c_heap := (c_heap c)(a \<mapsto> failed_flow f)\<rparr>"
  have l: "flow_event_loop E a None (f_state f) fev_failed c = Some ?c"
    using f by (subst flow_event_loop.simps)
      (simp add: next_state_failed internal_steps fhndl_clear_timeouts_def pcp_flow_clear_msg_buf_def failed_flow_def)
  have "f_next_child (failed_flow f) = f_next_child f" by (simp add: failed_flow_def)
  then have "Chain (fchild ?c) (Some a) xs None" using ch Chain_same_child [OF f(1)] by simp
  from handle_flow_event_loop [OF f(1) ch l _ this, of "failed_flow f"] show ?thesis
    by (auto simp: failed_flow_def)
qed

lemma upd_server_heap: "upd_server i g c = Some c' \<Longrightarrow> c_heap c' = c_heap c"
  by (auto simp: upd_server_def split: if_splits option.splits)

lemma check_server_frame:
  assumes "sendto_bounded E" and ok: "sm_ok c0 i c" and "c_heap c a = Some f"
    and r: "check_server_flow_timeout E i a u c = Some (c', u', stop)" and b: "b \<noteq> a"
  shows "c_heap c' b = c_heap c b"
proof -
  let ?t = "s_next_timeout (c_pcp_servers c ! i)"
  obtain d t where d: "check_flow_timeout E a ?t c = Some (d, t)" "flow_frame a c d"
    using check_flow_timeout_ok [OF assms(1-3), of ?t] by (auto elim!: yieldsE)
  then show ?thesis
    using r b by (auto simp: check_server_flow_timeout_def server_at_ok [OF ok] flow_frame_def bind_eq_Some_conv
        dest: upd_server_heap)
qed

lemma send_iter_frame:
  assumes E: "sendto_bounded E" and ok: "sm_ok c0 i c" and f: "c_heap c a = Some f" and ev: "\<not> is_response ev"
    and r: "flow_send_event_iter E i ev a u c = Some (c', u', stop)" and b: "b \<noteq> a"
  shows "c_heap c' b = c_heap c b"
proof -
  obtain d st g where d: "handle_flow_event E a ev None c = Some (d, st)" "sm_ok c0 i d" "flow_frame a c d" "c_heap d a = Some g"
    using handle_flow_event_ok [OF E ok f, of ev None] ev by (auto elim!: yieldsE)
  have "c_heap d b = c_heap c b" using d(3) b by (simp add: flow_frame_def)
  then show ?thesis
    using r d(1) check_server_frame [OF E d(2,4) _ b] f
    by (auto simp: flow_send_event_iter_def server_at_ok [OF ok] split: if_splits)
qed

lemma fail_iter:
  assumes ok: "sm_ok c0 i c" and f: "c_heap c a = Some f" "\<not> granted f"
    and s: "f_pcp_server_indx f = s_index (c_pcp_servers c ! i)"
    and r: "flow_send_event_iter E i fev_failed a u c = Some (c', u', stop)"
  shows "c_heap c' a = Some (failed_flow f)"
proof -
  obtain xs where ch: "Chain (fchild c) (Some a) xs None" using ok f(1) by (rule sm_ok_chain)
  obtain ns where e: "handle_flow_event E a fev_failed None c =
      Some (c\<lparr>c_heap := (c_heap c)(a \<mapsto> failed_flow f), c_notes := c_notes c @ ns\<rparr>, pfs_failed)"
    using fail_event [OF f ch] by blast
  let ?d = "c\<lparr>c_heap := (c_heap c)(a \<mapsto> failed_flow f), c_notes := c_notes c @ ns\<rparr>"
  have "check_flow_timeout E a t ?d = Some (?d, t)" for t
    by (simp add: check_flow_timeout_def failed_flow_def tv_is_zero_def)
  moreover have "server_at ?d i = server_at c i" by (simp add: server_at_def)
  ultimately show ?thesis
    using r f(1) s e by (auto simp: flow_send_event_iter_def server_at_ok [OF ok] check_server_flow_timeout_def
        bind_eq_Some_conv dest: upd_server_heap)
qed

text \<open>The walk that gives up a server: what is behind it is settled, what is before it untouched.\<close>

definition settled :: "pcp_ctx \<Rightarrow> nat \<Rightarrow> addr \<Rightarrow> pcp_flow option \<Rightarrow> bool" where
  "settled c0 i a r \<longleftrightarrow> (\<forall>f. c_heap c0 a = Some f \<longrightarrow>
     (if f_pcp_server_indx f \<noteq> of_nat i then r = Some f else \<not> granted f \<longrightarrow> r = Some (failed_flow f)))"

lemma sm_ok_index: "sm_ok c0 i c \<Longrightarrow> s_index (c_pcp_servers c ! i) = of_nat i"
  using servers_wfD [of c i] by (auto simp: sm_ok_def ctx_wf_def server_ok_def Let_def)

interpretation fail_walk: table_walk "flow_send_event_iter E i fev_failed" bs
    "\<lambda>done d c. sendto_bounded E \<and> sm_ok c0 i c \<and> (\<forall>a\<in>set done. settled c0 i a (c_heap c a)) \<and>
       (\<forall>a. a \<notin> set done \<longrightarrow> c_heap c a = c_heap c0 a)" "\<lambda>d c. False" for E i bs c0
proof
  fix c "done" and d :: unit and a rest
  assume rep: "db_rep c bs" and inv: "sendto_bounded E \<and> sm_ok c0 i c \<and> (\<forall>a\<in>set done. settled c0 i a (c_heap c a)) \<and>
       (\<forall>a. a \<notin> set done \<longrightarrow> c_heap c a = c_heap c0 a)" and c: "concat bs = done @ a # rest"
  have a: "a \<notin> set done" using db_rep_distinct_concat [OF rep] c by auto
  obtain f where f: "c_heap c a = Some f" using db_rep_heap [OF rep, of a] c by auto
  have f0: "c_heap c0 a = Some f" using f a inv by simp
  have E: "sendto_bounded E" and ok: "sm_ok c0 i c" using inv by auto
  have ev: "\<not> is_response fev_failed" by (simp add: is_response_def)
  obtain c' u stop where it: "flow_send_event_iter E i fev_failed a d c = Some (c', u, stop)" "sm_ok c0 i c'" "\<not> stop"
    "db_rep c' bs"
    using flow_send_event_iter_ok [OF E ok f ev, of d] rep by (auto elim!: yieldsE)
  have other: "c_heap c' b = c_heap c b" if "b \<noteq> a" for b by (rule send_iter_frame [OF E ok f ev it(1) that])
  have "c_heap c' a = Some f" if "f_pcp_server_indx f \<noteq> of_nat i"
    using it(1) that f by (auto simp: flow_send_event_iter_def server_at_ok [OF ok] sm_ok_index [OF ok])
  then have "settled c0 i a (c_heap c' a)"
    using fail_iter [OF ok f _ _ it(1)] f0 by (auto simp: settled_def sm_ok_index [OF ok])
  moreover have "settled c0 i b (c_heap c' b)" if "b \<in> set done" for b
  proof -
    have "b \<noteq> a" using that a by blast
    then show ?thesis using inv that other [of b] by simp
  qed
  ultimately show "yields (flow_send_event_iter E i fev_failed a d c) (\<lambda>(c', d', stop). db_rep c' bs \<and>
      (if stop then False else sendto_bounded E \<and> sm_ok c0 i c' \<and>
        (\<forall>a\<in>set (done @ [a]). settled c0 i a (c_heap c' a)) \<and> (\<forall>b. b \<notin> set (done @ [a]) \<longrightarrow> c_heap c' b = c_heap c0 b)))"
    using it inv other by simp
qed

lemma set_not_working_outcome:
  assumes E: "sendto_bounded E" and ok: "sm_ok c0 i c" and rep: "db_rep c bs"
  shows "yields (handle_server_set_not_working E i c) (\<lambda>(c', st). sm_ok c0 i c' \<and> st = pss_not_working \<and> db_rep c' bs \<and>
    (\<forall>a\<in>set (concat bs). settled c i a (c_heap c' a)) \<and> (\<forall>a. a \<notin> set (concat bs) \<longrightarrow> c_heap c' a = c_heap c a) \<and>
    (\<exists>n. s_next_timeout (c_pcp_servers c' ! i) = Timeval (tv_sec (env_gettimeofday E n) + PCP_SERVER_DISCOVERY_RETRY_DELAY) (tv_usec (env_gettimeofday E n))))"
proof -
  have "sm_ok c i c" using ok by (rule sm_ok_self)
  then obtain d r where d: "pcp_db_foreach_flow (flow_send_event_iter E i fev_failed) () c = Some (d, (), r)"
    "db_rep d bs" "sm_ok c i d" "\<forall>a\<in>set (concat bs). settled c i a (c_heap d a)"
    "\<forall>a. a \<notin> set (concat bs) \<longrightarrow> c_heap d a = c_heap c a"
    using fail_walk.walk [OF rep, of E c i "()"] E by (auto elim!: yieldsE)
  have ok': "sm_ok c0 i (tick d)" using sm_ok_trans [OF ok d(3)] by simp
  let ?n = "env_gettimeofday E (c_tick d)"
  obtain e where e: "upd_server i (s_next_timeout_update (\<lambda>_. Timeval (tv_sec ?n + PCP_SERVER_DISCOVERY_RETRY_DELAY) (tv_usec ?n))) (tick d) = Some e"
    "sm_ok c0 i e" "c_heap e = c_heap d" "db_rep (tick d) bs \<longrightarrow> db_rep e bs"
    "c_pcp_servers e ! i = (c_pcp_servers d ! i)\<lparr>s_next_timeout := Timeval (tv_sec ?n + PCP_SERVER_DISCOVERY_RETRY_DELAY) (tv_usec ?n)\<rparr>"
    using upd_server_ok [OF ok', of "s_next_timeout_update (\<lambda>_. Timeval (tv_sec ?n + PCP_SERVER_DISCOVERY_RETRY_DELAY) (tv_usec ?n))"] ok'
    by (auto elim!: yieldsE simp: sm_ok_def)
  have "db_rep (tick d) bs" using d(2) db_rep_cong [of "tick d" d bs] by (simp add: fnext_def fbucket_def fun_eq_iff)
  then show ?thesis
    using d e by (auto simp: handle_server_set_not_working_def set_timeout_def gettimeofday_def Let_def)
qed

section \<open>Version negotiation\<close>

abbreviation version_of :: "pcp_ctx \<Rightarrow> nat \<Rightarrow> u8" where
  "version_of c i \<equiv> s_pcp_version (c_pcp_servers c ! i)"

lemma fev_send_steps:
  "next_flow_state s fev_send = Some pfs_send"
  "flow_transition s pfs_send = Some (if s = pfs_wait_resp then H_resend else H_send)"
  by (cases s; simp add: next_flow_state_def flow_events_sm_def flow_transition_def flow_transitions_def)+

lemma ignored_loop:
  assumes "c_heap c a = Some f"
  shows "yields (flow_event_loop E a r pfs_send fev_ignored c) (\<lambda>c'. \<exists>g. c_heap c' a = Some g \<and> f_state g = pfs_wait_for_lifetime_renew)"
  using assms by (subst flow_event_loop.simps) (simp add: internal_steps)

text \<open>A flow that was told to send waits for the response, or has failed, or had just been answered by the message that
  showed the restart of its server.\<close>

definition sent_states :: "pcp_flow_state_e set" where
  "sent_states = {pfs_wait_resp, pfs_failed, pfs_wait_for_lifetime_renew}"

lemma send_event_loop:
  assumes E: "sendto_bounded E" and f: "c_heap c a = Some f" and wf: "flow_wf f"
  shows "yields (flow_event_loop E a None s fev_send c) (\<lambda>c'. \<exists>g. c_heap c' a = Some g \<and> f_state g \<in> sent_states)"
proof -
  let ?h = "if s = pfs_wait_resp then H_resend else H_send"
  let ?c = "c\<lparr>c_heap := (c_heap c)(a \<mapsto> f\<lparr>f_state := pfs_send\<rparr>)\<rparr>"
  have u: "flow_event_loop E a None s fev_send c = run_fhandler ?h E a None ?c \<bind>
      (\<lambda>(c, ev). if ev = fev_none then Some c else flow_event_loop E a None pfs_send ev c)"
    using f by (subst flow_event_loop.simps) (simp add: fev_send_steps)
  have wf': "flow_wf (f\<lparr>f_state := pfs_send\<rparr>)" using wf by (simp add: flow_wf_def)
  have nm: "\<not> needs_msg ?h" by (simp add: needs_msg_def)
  have r: "yields (run_fhandler ?h E a None ?c) (\<lambda>(c', ev). quiet_frame a ?c c' \<and> ev \<in> handler_events ?h)"
    by (rule run_fhandler_frame [OF E quiet_frame_refl _ wf']) (use nm in simp_all)
  show ?thesis
    unfolding u
  proof (rule yields_bind2 [OF r])
    fix d ev
    assume "case (d, ev) of (c', ev) \<Rightarrow> quiet_frame a ?c c' \<and> ev \<in> handler_events ?h"
    then have fr: "flow_frame a ?c d" and ev: "ev \<in> {fev_failed, fev_msg_sent, fev_ignored}"
      by (auto simp: quiet_frame_def split: if_splits)
    obtain g where g: "c_heap d a = Some g" using fr by (rule flow_frame_heap) simp
    from ev show "yields (if ev = fev_none then Some d else flow_event_loop E a None pfs_send ev d)
        (\<lambda>c'. \<exists>g. c_heap c' a = Some g \<and> f_state g \<in> sent_states)"
      using failed_loop [OF g, of pfs_send E None] sent_loop [OF g, of E None] ignored_loop [OF g, of E None]
      by (auto simp: sent_states_def elim!: yields_mono)
  qed
qed

lemma handle_send_event:
  assumes E: "sendto_bounded E" and ok: "sm_ok c0 i c" and f: "c_heap c a = Some f"
    and r: "handle_flow_event E a fev_send None c = Some (c', st)"
  shows "\<exists>g. c_heap c' a = Some g \<and> f_state g \<in> sent_states"
proof -
  obtain c1 g where l: "flow_event_loop E a None (f_state f) fev_send c = Some c1" "c_heap c1 a = Some g" "f_state g \<in> sent_states"
    using send_event_loop [OF E f sm_ok_flow_wf [OF ok f], of "f_state f"] by (auto elim!: yieldsE)
  then show ?thesis using r f
    by (auto simp: handle_flow_event_def flow_change_notify_def Let_def bind_eq_Some_conv split: if_splits prod.splits)
qed

text \<open>How a ping ends, from the flow it was made with.\<close>

definition ping_outcome :: "pcp_ctx \<Rightarrow> nat \<Rightarrow> pcp_server_state_e \<Rightarrow> bool" where
  "ping_outcome c i st \<longleftrightarrow>
     (case s_ping_flow_msg (c_pcp_servers c ! i) of
        None \<Rightarrow> st = pss_ping \<and> s_next_timeout (c_pcp_servers c ! i) = Timeval 0 0
      | Some a \<Rightarrow> \<exists>f. c_heap c a = Some f \<and> f_state f \<in> {pfs_wait_resp, pfs_failed, pfs_wait_for_lifetime_renew} \<and>
          (if f_state f = pfs_failed then st = pss_set_not_working
           else st = pss_wait_ping_resp \<and> s_next_timeout (c_pcp_servers c ! i) = f_timeout f))"

lemma set_timeout_record:
  assumes "set_timeout i t st c = Some (c', st')" and "sm_ok c0 i c"
  shows "st' = st \<and> c_heap c' = c_heap c \<and> c_pcp_servers c' ! i = (c_pcp_servers c ! i)\<lparr>s_next_timeout := t\<rparr>"
  using assms by (auto simp: set_timeout_def upd_server_def sm_ok_def in_use_def bind_eq_Some_conv split: if_splits)

lemma send_ping_outcome:
  assumes E: "sendto_bounded E" and ok: "sm_ok c0 i c" and f: "c_heap c a = Some f" and p: "s_ping_flow_msg (c_pcp_servers c ! i) = Some a"
    and r: "send_ping E i a c = Some (c', st)"
  shows "version_of c' i = version_of c i \<and> ping_outcome c' i st"
proof -
  obtain d g where d: "upd_flow a (\<lambda>f. f\<lparr>f_retry_count := 0, f_resend_timeout := 0\<rparr>) c = Some d" "sm_ok c0 i d"
    "c_heap d a = Some g" "c_pcp_servers d = c_pcp_servers c"
    using upd_flow_ok [OF ok f, of "\<lambda>f. f\<lparr>f_retry_count := 0, f_resend_timeout := 0\<rparr>"] f
    by (auto elim!: yieldsE simp: flow_static_def flow_wf_def)
  obtain e st' where e: "handle_flow_event E a fev_send None d = Some (e, st')" "flow_frame a d e" "sm_ok c0 i e"
    using handle_flow_event_ok [OF E d(2,3), of fev_send None] by (auto elim!: yieldsE simp: is_response_def)
  obtain h where h: "c_heap e a = Some h" "f_state h \<in> sent_states" using handle_send_event [OF E d(2,3) e(1)] by blast
  have sv: "c_pcp_servers e = c_pcp_servers c" using d(4) e(2) by (simp add: flow_frame_def)
  have k: "(if f_state h = pfs_failed then Some (e, pss_set_not_working) else set_timeout i (f_timeout h) pss_wait_ping_resp e) = Some (c', st)"
    using r d(1) e(1) h(1) by (simp add: send_ping_def)
  show ?thesis
  proof (cases "f_state h = pfs_failed")
    case True
    then show ?thesis using k h sv p by (simp add: ping_outcome_def)
  next
    case False
    then have "st = pss_wait_ping_resp" "c_heap c' = c_heap e" "c_pcp_servers c' ! i = (c_pcp_servers c ! i)\<lparr>s_next_timeout := f_timeout h\<rparr>"
      using k set_timeout_record [OF _ e(3)] sv by auto
    then show ?thesis using False h p by (simp add: ping_outcome_def sent_states_def)
  qed
qed

lemma ping_again_outcome:
  assumes E: "sendto_bounded E" and ok: "sm_ok c0 i c" and p: "p = s_ping_flow_msg (c_pcp_servers c ! i)"
    and r: "(case p of Some a \<Rightarrow> send_ping E i a c | None \<Rightarrow> get_ping_msg i c \<bind> (\<lambda>(c, ping_msg). case ping_msg of
      None \<Rightarrow> set_timeout i (Timeval 0 0) pss_ping c | Some a \<Rightarrow> send_ping E i a c)) = Some (c', st)"
  shows "version_of c' i = version_of c i \<and> ping_outcome c' i st"
proof (cases p)
  case None
  then obtain d q where d: "get_ping_msg i c = Some (d, q)" "(case q of None \<Rightarrow> set_timeout i (Timeval 0 0) pss_ping d
      | Some a \<Rightarrow> send_ping E i a d) = Some (c', st)"
    using r by (auto simp: bind_eq_Some_conv)
  obtain bs where "db_rep c bs" using sm_ok_rep [OF ok] by blast
  from get_ping_msg_ok [OF ok this] d(1)
  have d': "sm_ok c0 i d" "c_pcp_servers d ! i = (c_pcp_servers c ! i)\<lparr>s_ping_flow_msg := q\<rparr>" by auto
  show ?thesis
  proof (cases q)
    case None
    then show ?thesis using d(2) d'(2) set_timeout_record [OF _ d'(1), of "Timeval 0 0" pss_ping c' st] by (auto simp: ping_outcome_def)
  next
    case (Some a)
    then obtain f where "c_heap d a = Some f" using d' by (auto elim: sm_ok_ping)
    from send_ping_outcome [OF E d'(1) this] show ?thesis using d(2) d'(2) Some by simp
  qed
next
  case (Some a)
  then obtain f where "c_heap c a = Some f" using ok p by (auto elim: sm_ok_ping)
  moreover have "send_ping E i a c = Some (c', st)" using r Some by simp
  ultimately show ?thesis using send_ping_outcome [OF E ok] p Some by simp
qed

lemma negotiation_outcome:
  assumes E: "sendto_bounded E" and ok: "sm_ok c0 i c" and r: "handle_version_negotiation E i c = Some (c', st)"
  shows "let s = c_pcp_servers c ! i in
    if s_pcp_version s = 0 then version_of c' i = 0 \<and> st = pss_set_not_working
    else version_of c' i = (if s_next_version s = s_pcp_version s then s_pcp_version s - 1 else s_next_version s) \<and> ping_outcome c' i st"
proof -
  let ?s = "c_pcp_servers c ! i"
  let ?g = "\<lambda>s. if s_next_version s = s_pcp_version s then s\<lparr>s_next_version := s_next_version s - 1\<rparr> else s"
  obtain d where u: "upd_server i ?g c = Some d" and d: "sm_ok c0 i d" "c_pcp_servers d ! i = ?g ?s"
    by (rule yieldsE [OF write_server_ok [OF ok, of ?g]]) auto
  show ?thesis
  proof (cases "s_pcp_version ?s = 0")
    case True
    then show ?thesis using r u d by (auto simp: handle_version_negotiation_def server_at_ok [OF d(1)] Let_def split: if_splits)
  next
    case False
    obtain e where v: "upd_server i (\<lambda>s. s\<lparr>s_pcp_version := s_next_version s\<rparr>) d = Some e" and e: "sm_ok c0 i e"
      "c_pcp_servers e ! i = (?g ?s)\<lparr>s_pcp_version := s_next_version (?g ?s)\<rparr>"
      using write_server_ok [OF d(1), of "\<lambda>s. s\<lparr>s_pcp_version := s_next_version s\<rparr>"] d(2) by (auto elim!: yieldsE)
    let ?init = "\<lambda>f. f\<lparr>f_state := pfs_wait_for_server_init, f_timeout := Timeval 0 0\<rparr>"
    let ?p = "s_ping_flow_msg (c_pcp_servers d ! i)"
    have pe: "s_ping_flow_msg (c_pcp_servers e ! i) = ?p" using e(2) d(2) by simp
    obtain f p where f: "(if s_next_version (c_pcp_servers d ! i) = 0 then (case ?p of None \<Rightarrow> Some e | Some a \<Rightarrow> upd_flow a ?init e) \<bind>
        create_natpmp_ann_msg E i else Some (e, ?p)) = Some (f, p)"
      and k: "(case p of Some a \<Rightarrow> send_ping E i a f | None \<Rightarrow> get_ping_msg i f \<bind> (\<lambda>(c, ping_msg). case ping_msg of
        None \<Rightarrow> set_timeout i (Timeval 0 0) pss_ping c | Some a \<Rightarrow> send_ping E i a c)) = Some (c', st)"
      using r u v False d by (auto simp: handle_version_negotiation_def server_at_ok [OF d(1)] bind_eq_Some_conv Let_def split: if_splits)
    have "version_of f i = version_of e i \<and> sm_ok c0 i f \<and> p = s_ping_flow_msg (c_pcp_servers f ! i)"
    proof (cases "s_next_version (c_pcp_servers d ! i) = 0")
      case True
      obtain e' where e': "(case ?p of None \<Rightarrow> Some e | Some a \<Rightarrow> upd_flow a ?init e) = Some e'" "sm_ok c0 i e'"
        "c_pcp_servers e' = c_pcp_servers e"
      proof (cases ?p)
        case (Some a)
        then obtain g where g: "c_heap e a = Some g" using e(1) pe by (auto elim: sm_ok_ping)
        have "yields (upd_flow a ?init e) (\<lambda>c'. sm_ok c0 i c' \<and> c_pcp_servers c' = c_pcp_servers e)"
          by (rule yields_mono [OF upd_flow_ok [OF e(1) g]]) (auto simp: flow_static_def flow_wf_def flow_frame_def)
        then show ?thesis using Some that by (auto elim!: yieldsE)
      qed (use e that in simp)
      then show ?thesis using f True create_natpmp_ann_msg_outcome [OF e'(2), of E] by auto
    next
      case False
      then show ?thesis using f e pe by simp
    qed
    with ping_again_outcome [OF E _ _ k, of c0] have "version_of c' i = version_of e i" "ping_outcome c' i st" by simp_all
    then show ?thesis using False e(2) by (auto simp: Let_def)
  qed
qed

section \<open>The pulse\<close>

lemma hserver_iter_ok:
  assumes E: "sendto_bounded E" and clk: "clock_from E N now" and wf: "ctx_wf c" and i: "in_use c i"
  shows "yields (hserver_iter E ev i rt c) (\<lambda>(c', rt', stop). sm_ok c i c' \<and> \<not> stop \<and> (rt' = None \<longleftrightarrow> rt = None) \<and>
    (N \<le> c_tick c \<longrightarrow> \<not> due now (c_pcp_servers c' ! i)))"
proof -
  have ok: "sm_ok c i c" using wf i by (rule sm_ok_start)
  obtain d where d: "(if ev \<noteq> pcpe_timeout then map_option fst (run_server_state_machine E (Some i) ev c) else Some c) = Some d"
    and okd: "sm_ok c i d"
    using run_server_state_machine_ok [OF E ok, of ev] ok by (cases "ev = pcpe_timeout") (auto elim!: yieldsE)
  have "c_tick c \<le> c_tick d"
    using d by (cases "ev = pcpe_timeout") (auto dest!: later_run_sm simp: later_def)
  then obtain e t where e: "timeout_rounds E i d = Some (e, t)" "sm_ok c i e" "N \<le> c_tick c \<longrightarrow> \<not> due now (c_pcp_servers e ! i)"
    using timeout_rounds_end [OF E clk okd] by (auto elim!: yieldsE)
  have "s_server_state (c_pcp_servers c ! i) \<noteq> pss_unitialized" using i by (simp add: in_use_def)
  then show ?thesis
    using d e by (auto simp: hserver_iter_def server_at_ok [OF ok] server_at_ok [OF e(2)] split: option.split prod.split)
qed

text \<open>The walk over the servers visits each server in use, from \<open>k\<close> on, and establishes \<open>Q\<close> of
  its record.\<close>

definition served :: "(pcp_server \<Rightarrow> bool) \<Rightarrow> nat \<Rightarrow> pcp_ctx \<Rightarrow> pcp_ctx \<Rightarrow> bool" where
  "served Q k c c' \<longleftrightarrow> ctx_wf c' \<and> length (c_pcp_servers c') = length (c_pcp_servers c) \<and>
     (\<forall>j. in_use c' j \<longleftrightarrow> in_use c j) \<and> (\<forall>j<k. c_pcp_servers c' ! j = c_pcp_servers c ! j) \<and>
     (\<forall>j\<ge>k. in_use c' j \<longrightarrow> Q (c_pcp_servers c' ! j))"

lemma served_skip: "served Q (Suc k) c c' \<Longrightarrow> \<not> in_use c k \<Longrightarrow> served Q k c c'"
  by (auto simp: served_def) (metis le_antisym not_less_eq_eq)

lemma served_step:
  assumes s: "served Q (Suc k) d c'" and ok: "sm_ok c k d" and k: "in_use c k" and nd: "Q (c_pcp_servers d ! k)"
  shows "served Q k c c'"
proof -
  have "in_use c' j \<longleftrightarrow> in_use c j" for j using s k sm_ok_in_use [OF ok] by (auto simp: served_def)
  moreover have "Q (c_pcp_servers c' ! j)" if "j \<ge> k" "in_use c' j" for j
    using s nd that by (cases "j = k") (auto simp: served_def)
  ultimately show ?thesis using s ok by (simp add: served_def sm_ok_def)
qed

lemma foreach_hserver_ok:
  assumes E: "sendto_bounded E" and clk: "clock_from E N now" and "ctx_wf c" and "n0 \<le> c_tick c"
  shows "yields (foreach_server_loop (hserver_iter E pcpe_timeout) k (Some rt) c) (\<lambda>(c', rt', r).
    served (\<lambda>s. N \<le> n0 \<longrightarrow> \<not> due now s) k c c' \<and> rt' \<noteq> None)"
  using assms(3,4)
proof (induction "length (c_pcp_servers c) - k" arbitrary: k rt c)
  case 0
  then show ?case by (subst foreach_server_loop.simps) (auto simp: in_use_def served_def)
next
  case (Suc n)
  then have k: "k < length (c_pcp_servers c)" "n = length (c_pcp_servers c) - Suc k" by simp_all
  show ?case
  proof (cases "in_use c k")
    case False
    then have "s_server_state (c_pcp_servers c ! k) = pss_unitialized" using k by (simp add: in_use_def)
    then have "foreach_server_loop (hserver_iter E pcpe_timeout) k (Some rt) c =
        foreach_server_loop (hserver_iter E pcpe_timeout) (Suc k) (Some rt) c"
      using k by (subst foreach_server_loop.simps) simp
    then show ?thesis
      using Suc.hyps(1) [OF k(2) Suc.prems, of rt] served_skip [OF _ False] by (auto elim!: yields_mono)
  next
    case True
    then obtain d t where d: "hserver_iter E pcpe_timeout k (Some rt) c = Some (d, Some t, False)" "sm_ok c k d"
      "N \<le> c_tick c \<longrightarrow> \<not> due now (c_pcp_servers d ! k)"
      using hserver_iter_ok [OF E clk Suc.prems(1) True, of pcpe_timeout "Some rt"] by (auto elim!: yieldsE)
    have "s_server_state (c_pcp_servers c ! k) \<noteq> pss_unitialized" using True by (simp add: in_use_def)
    then have u: "foreach_server_loop (hserver_iter E pcpe_timeout) k (Some rt) c =
        foreach_server_loop (hserver_iter E pcpe_timeout) (Suc k) (Some t) d"
      using k d(1) by (subst foreach_server_loop.simps) simp
    have "n = length (c_pcp_servers d) - Suc k" "ctx_wf d" using k d(2) by (simp_all add: sm_ok_def)
    moreover have "n0 \<le> c_tick d" using later_le [OF later_hserver [OF d(1)] Suc.prems(2)] .
    ultimately have "yields (foreach_server_loop (hserver_iter E pcpe_timeout) (Suc k) (Some t) d) (\<lambda>(c', rt', r).
        served (\<lambda>s. N \<le> n0 \<longrightarrow> \<not> due now s) (Suc k) d c' \<and> rt' \<noteq> None)"
      by (rule Suc.hyps(1))
    moreover have "N \<le> n0 \<longrightarrow> \<not> due now (c_pcp_servers d ! k)" using d(3) Suc.prems(2) by simp
    ultimately show ?thesis
      unfolding u using served_step [OF _ d(2) True] by (auto elim!: yields_mono)
  qed
qed

text \<open>The socket is an IPv6 or IPv4 socket.\<close>

definition recv_inet :: "env \<Rightarrow> bool" where
  "recv_inet E \<longleftrightarrow> (\<forall>n bs from to k. env_recvfrom E n = Recv_data bs from to \<longrightarrow> from \<noteq> Sockaddr_other k)"

lemma parse_response_frame:
  "parse_response m = (m', r) \<Longrightarrow> m_pcp_msg_buffer m' = m_pcp_msg_buffer m \<and> m_rcvd_from_addr m' = m_rcvd_from_addr m"
  by (auto simp: parse_response_def parse_v0_resp_def parse_v1_resp_def parse_v2_resp_def parse_v1_map_def
      parse_v2_map_def parse_v1_peer_def parse_v2_peer_def parse_sadscp_def parse_options_def Let_def split: if_splits)

lemma complete_msg_buffer [simp]: "m_pcp_msg_buffer (complete_msg s sc m) = m_pcp_msg_buffer m"
  by (simp add: complete_msg_def Let_def split: prod.split)

lemma ctx_wf_msg: "ctx_wf c \<Longrightarrow> length (m_pcp_msg_buffer m) = PCP_MAX_LEN \<Longrightarrow> ctx_wf (c\<lparr>c_msg := m\<rparr>)"
  using ctx_wf_cong [of "c\<lparr>c_msg := m\<rparr>" c] by (simp add: ctx_wf_def)

lemma ctx_wf_tick [simp]: "ctx_wf (tick c) \<longleftrightarrow> ctx_wf c"
  by (rule ctx_wf_cong) simp_all

lemma in_use_tick [simp]: "in_use (tick c) i \<longleftrightarrow> in_use c i" "in_use (c\<lparr>c_msg := m\<rparr>) i \<longleftrightarrow> in_use c i"
  by (simp_all add: in_use_def)

lemma by_ip_in_use:
  "get_pcp_server_by_ip ip sc c = Some p \<Longrightarrow> p = Some i \<Longrightarrow> in_use c i"
  by (auto simp: get_pcp_server_by_ip_find in_use_def find_Some_iff server_matches_def)

lemma by_ip_total: "\<exists>p. get_pcp_server_by_ip ip sc c = Some p"
  by (simp add: get_pcp_server_by_ip_find)

lemma read_msg_ok:
  assumes "ctx_wf c"
  shows "ctx_wf (fst (read_msg E c)) \<and> c_pcp_servers (fst (read_msg E c)) = c_pcp_servers c"
  using assms
  by (auto simp: read_msg_def Let_def zero_msg_def length_put_bytes_in split: recv_outcome.split intro!: ctx_wf_msg)

lemma read_msg_from:
  assumes "recv_inet E" and "snd (read_msg E c) = PCP_ERR_SUCCESS"
  shows "\<forall>k. m_rcvd_from_addr (c_msg (fst (read_msg E c))) \<noteq> Sockaddr_other k"
  using assms by (auto simp: read_msg_def recv_inet_def Let_def split: recv_outcome.splits)

lemma receive_msg_ok:
  assumes E: "sendto_bounded E" and clk: "clock_from E N now" and wf: "ctx_wf c"
    and frm: "\<forall>k. m_rcvd_from_addr (c_msg c) \<noteq> Sockaddr_other k"
  shows "yields (receive_msg E c) (\<lambda>c'. ctx_wf c' \<and> length (c_pcp_servers c') = length (c_pcp_servers c) \<and>
    (\<forall>j. in_use c' j \<longleftrightarrow> in_use c j))"
proof -
  let ?m0 = "(c_msg c)\<lparr>m_received_time := env_time E (c_tick c)\<rparr>"
  let ?c = "tick (c\<lparr>c_msg := ?m0\<rparr>)"
  have len: "length (m_pcp_msg_buffer (c_msg c)) = PCP_MAX_LEN" using wf by (simp add: ctx_wf_def)
  have c: "ctx_wf ?c" using wf len by (simp add: ctx_wf_msg)
  obtain m r where p: "parse_response ?m0 = (m, r)" by (cases "parse_response ?m0")
  have m: "m_pcp_msg_buffer m = m_pcp_msg_buffer (c_msg c)" "m_rcvd_from_addr m = m_rcvd_from_addr (c_msg c)"
    using parse_response_frame [OF p] by auto
  let ?cm = "?c\<lparr>c_msg := m\<rparr>"
  have cm: "ctx_wf ?cm" using ctx_wf_msg [OF c] m len by simp
  obtain ip6 prt scope where f: "pcp_fill_in6_addr in6_zero 0 0 (m_rcvd_from_addr m) = (ip6, prt, scope)"
    by (cases "pcp_fill_in6_addr in6_zero 0 0 (m_rcvd_from_addr m)")
  obtain q where q: "get_pcp_server_by_ip ip6 scope ?cm = Some q" using by_ip_total by blast
  have srv: "yields (server_at ?cm i \<bind> (\<lambda>s. hserver_iter E pcpe_io_event i None (?c\<lparr>c_msg := complete_msg s scope m\<rparr>)
      \<bind> (\<lambda>(c, _, _). Some c))) (\<lambda>c'. ctx_wf c' \<and> length (c_pcp_servers c') = length (c_pcp_servers c) \<and>
    (\<forall>j. in_use c' j \<longleftrightarrow> in_use c j))" if "q = Some i" for i
  proof -
    have i: "in_use ?cm i" using by_ip_in_use [OF q that] .
    let ?s = "c_pcp_servers ?cm ! i"
    have s: "server_at ?cm i = Some ?s" using i by (simp add: server_at_def in_use_def)
    have w: "ctx_wf (?c\<lparr>c_msg := complete_msg ?s scope m\<rparr>)" using ctx_wf_msg [OF c] m len by simp
    have u: "in_use (?c\<lparr>c_msg := complete_msg ?s scope m\<rparr>) i" using i by simp
    have "yields (hserver_iter E pcpe_io_event i None (?c\<lparr>c_msg := complete_msg ?s scope m\<rparr>))
        (\<lambda>(c', rt', stop). sm_ok (?c\<lparr>c_msg := complete_msg ?s scope m\<rparr>) i c')"
      by (rule yields_mono [OF hserver_iter_ok [OF E clk w u]]) auto
    then obtain c' rt stop where h: "hserver_iter E pcpe_io_event i None (?c\<lparr>c_msg := complete_msg ?s scope m\<rparr>) =
        Some (c', rt, stop)" "sm_ok (?c\<lparr>c_msg := complete_msg ?s scope m\<rparr>) i c'"
      by (auto elim!: yieldsE)
    then show ?thesis
      using s sm_ok_in_use [OF h(2)] i by (auto simp: sm_ok_def)
  qed
  have "yields (case q of None \<Rightarrow> Some ?cm | Some i \<Rightarrow> server_at ?cm i \<bind> (\<lambda>s. hserver_iter E pcpe_io_event i None
      (?c\<lparr>c_msg := complete_msg s scope m\<rparr>) \<bind> (\<lambda>(c, _, _). Some c)))
     (\<lambda>c'. ctx_wf c' \<and> length (c_pcp_servers c') = length (c_pcp_servers c) \<and> (\<forall>j. in_use c' j \<longleftrightarrow> in_use c j))"
    using srv cm by (cases q) simp_all
  moreover have "\<forall>k. m_rcvd_from_addr m \<noteq> Sockaddr_other k" using frm m by simp
  ultimately show ?thesis
    using c cm p f q
    by (cases "m_rcvd_from_addr m") (auto simp: receive_msg_def Let_def)
qed

lemma pcp_pulse_ok:
  assumes E: "sendto_bounded E" "recv_inet E" and clk: "clock_from E N now" and wf: "ctx_wf c"
  shows "yields (pcp_pulse E t c) (\<lambda>(c', t', r). ctx_wf c' \<and> length (c_pcp_servers c') = length (c_pcp_servers c) \<and>
    (\<forall>j. in_use c' j \<longleftrightarrow> in_use c j) \<and> (\<forall>j. in_use c' j \<longrightarrow> N \<le> c_tick c \<longrightarrow> \<not> due now (c_pcp_servers c' ! j)))"
proof -
  obtain c1 r where rd: "read_msg E c = (c1, r)" by (cases "read_msg E c")
  have c1: "ctx_wf c1" "c_pcp_servers c1 = c_pcp_servers c" using read_msg_ok [OF wf, of E] rd by simp_all
  obtain c2 where c2: "(if r = PCP_ERR_SUCCESS then receive_msg E c1 else Some c1) = Some c2" "ctx_wf c2"
    "length (c_pcp_servers c2) = length (c_pcp_servers c)" "\<forall>j. in_use c2 j \<longleftrightarrow> in_use c j"
  proof (cases "r = PCP_ERR_SUCCESS")
    case True
    then have "\<forall>k. m_rcvd_from_addr (c_msg c1) \<noteq> Sockaddr_other k" using read_msg_from [OF E(2), of c] rd by simp
    from receive_msg_ok [OF E(1) clk c1(1) this] True c1 that show ?thesis
      by (auto elim!: yieldsE simp: in_use_def)
  qed (use c1 that in \<open>auto simp: in_use_def\<close>)
  have "later c c1" using later_read [of c E] rd by simp
  moreover have "later c1 c2" using c2(1) by (auto dest: later_receive split: if_split_asm)
  ultimately have tk: "c_tick c \<le> c_tick c2" by (simp add: later_def)
  obtain c3 t3 q where c3: "foreach_server_loop (hserver_iter E pcpe_timeout) 0
      (Some (case t of None \<Rightarrow> Timeval 0 0 | Some t \<Rightarrow> t)) c2 = Some (c3, Some t3, q)" "served (\<lambda>s. N \<le> c_tick c \<longrightarrow> \<not> due now s) 0 c2 c3"
    using foreach_hserver_ok [OF E(1) clk c2(2) tk, of 0] by (fastforce elim!: yieldsE)
  show ?thesis
    using rd c2 c3 by (simp add: pcp_pulse_def pcp_db_foreach_server_def served_def Let_def)
qed

section \<open>Updating a flow\<close>

text \<open>The states in which a flow has nothing to do when its timeout passes.\<close>

definition timer_idle :: "pcp_flow_state_e \<Rightarrow> bool" where
  "timer_idle st \<longleftrightarrow> st = pfs_idle \<or> st = pfs_wait_for_server_init \<or> st = pfs_failed"

lemma timer_idle_event:
  assumes f: "c_heap c a = Some f" "timer_idle (f_state f)" and ch: "Chain (fchild c) (Some a) xs None"
  shows "\<exists>ns. handle_flow_event E a fev_flow_timedout None c = Some (c\<lparr>c_notes := c_notes c @ ns\<rparr>, f_state f)"
proof -
  have "next_flow_state (f_state f) fev_flow_timedout = None"
    using f(2) by (auto simp: timer_idle_def next_flow_state_def flow_events_sm_def)
  then have "flow_event_loop E a None (f_state f) fev_flow_timedout c = Some c"
    by (subst flow_event_loop.simps) simp
  from handle_flow_event_loop [OF f(1) ch this f(1) ch] show ?thesis .
qed

lemma check_timer_idle:
  assumes f: "c_heap c a = Some f" "timer_idle (f_state f)" and wf: "ctx_wf c"
    and t: "\<not> tv_is_zero (timeval_align (f_timeout f))" "tv_us (f_timeout f) \<le> tv_us (gettimeofday E c)" and o: "tv_nonneg tout"
  shows "\<exists>c'. check_flow_timeout E a tout c = Some (c', Timeval 0 0)"
proof -
  let ?t = "timeval_align (f_timeout f)"
  let ?f = "f\<lparr>f_timeout := ?t\<rparr>"
  have nz: "\<not> tv_is_zero (f_timeout f)"
    using t(1) by (auto simp: tv_is_zero_def timeval_align_def split: timeval.splits)
  obtain y r where cmp: "timeval_comp (f_timeout f) (gettimeofday E c) = (?t, y, r)" "r \<le> 0" "tv_us y = tv_us (gettimeofday E c)"
    using t(2) by (auto simp: timeval_comp_sgn timeval_align_us sgn_if)
  let ?c = "(tick c)\<lparr>c_heap := (c_heap c)(a \<mapsto> ?f)\<rparr>"
  obtain xs where ch: "Chain (fchild c) (Some a) xs None" using wf f(1) by (auto simp: ctx_wf_def children_wf_def)
  have "Chain (fchild ((tick c)\<lparr>c_heap := (c_heap (tick c))(a \<mapsto> ?f)\<rparr>)) (Some a) xs None"
    using ch f(1) by (subst Chain_same_child [of _ _ f]) simp_all
  then have ch': "Chain (fchild ?c) (Some a) xs None" by simp
  obtain ns where ev: "handle_flow_event E a fev_flow_timedout None ?c = Some (?c\<lparr>c_notes := c_notes ?c @ ns\<rparr>, f_state f)"
    using timer_idle_event [of ?c a ?f xs E] f(2) ch' by auto
  have sub: "\<exists>t'. timeval_subtract ?t y = (Timeval 0 0, t', True)"
    using t(2) cmp(3) by (intro exI) (subst timeval_subtract_past, simp_all add: timeval_align_us)
  obtain t' where sub: "timeval_subtract ?t y = (Timeval 0 0, t', True)" using sub by blast
  have z: "(if tv_is_zero tout then Timeval 0 0 else fst (timeval_comp (Timeval 0 0) tout)) = Timeval 0 0"
    "\<not> tv_is_zero tout \<Longrightarrow> snd (snd (timeval_comp (Timeval 0 0) tout)) < 0"
    using o tv_nonneg_pos [OF o] by (auto simp: timeval_comp_sgn timeval_align_def tv_us_def)
  show ?thesis
    using f(1) nz cmp(1,2) ev sub t(1) z
    by (auto simp: check_flow_timeout_def Let_def case_prod_unfold)
qed

definition updated_flow :: "timeval \<Rightarrow> pcp_flow \<Rightarrow> pcp_flow" where
  "updated_flow now f = f\<lparr>f_pcp_msg_buffer := None, f_pcp_msg_len := 0, f_timeout := now,
     f_state := (if timer_idle (f_state f) then f_state f else pfs_send)\<rparr>"

lemma get_pcp_server_in_use: "get_pcp_server c k = Some i \<Longrightarrow> in_use c i"
  by (auto simp: get_pcp_server_def in_use_def split: if_splits)

lemma pcp_flow_updated_outcome:
  assumes wf: "ctx_wf c" and f: "c_heap c a = Some f"
  shows "\<exists>c'. pcp_flow_updated E (Some a) c = Some c' \<and> ctx_wf c' \<and>
    c_heap c' = (c_heap c)(a \<mapsto> updated_flow (gettimeofday E c) f) \<and>
    c_pcp_servers c' = (case get_pcp_server c (sint (f_pcp_server_indx f)) of None \<Rightarrow> c_pcp_servers c
      | Some i \<Rightarrow> (c_pcp_servers c)[i := (c_pcp_servers c ! i)\<lparr>s_next_timeout := gettimeofday E c\<rparr>])"
proof -
  let ?now = "gettimeofday E c"
  let ?p = "get_pcp_server c (sint (f_pcp_server_indx f))"
  let ?srv = "case ?p of None \<Rightarrow> c_pcp_servers c
      | Some i \<Rightarrow> (c_pcp_servers c)[i := (c_pcp_servers c ! i)\<lparr>s_next_timeout := ?now\<rparr>]"
  have g: "get_pcp_server (tick c) k = get_pcp_server c k" for k by (simp add: get_pcp_server_def)
  obtain d where d: "(case ?p of None \<Rightarrow> Some (tick c) | Some i \<Rightarrow> upd_server i (s_next_timeout_update (\<lambda>_. ?now)) (tick c)) = Some d"
    "ctx_wf d" "c_heap d = c_heap c" "c_pcp_servers d = ?srv"
  proof (cases ?p)
    case (Some i)
    have i: "in_use c i" using get_pcp_server_in_use [OF Some] .
    then have "sm_ok c i (tick c)" using sm_ok_start [OF wf] by simp
    from write_server_ok [OF this, of "s_next_timeout_update (\<lambda>_. ?now)"] i Some that show ?thesis
      by (auto elim!: yieldsE simp: sm_ok_def in_use_def)
  qed (use wf that in auto)
  let ?e = "d\<lparr>c_heap := (c_heap d)(a \<mapsto> updated_flow ?now f)\<rparr>"
  have st: "(if f_state f \<noteq> pfs_wait_for_server_init \<and> f_state f \<noteq> pfs_idle \<and> f_state f \<noteq> pfs_failed
      then pfs_send else f_state f) = (if timer_idle (f_state f) then f_state f else pfs_send)"
    by (auto simp: timer_idle_def)
  have r: "pcp_flow_updated E (Some a) c = Some ?e"
    using f d(1,3) by (simp add: pcp_flow_updated_def Let_def g pcp_flow_clear_msg_buf_def updated_flow_def st
        split del: if_split cong: if_cong)
  have "flow_frame a d ?e"
    using f d(3) by (auto simp: flow_frame_def flow_static_def updated_flow_def flow_wf_def)
  from flow_frame_ctx_wf [OF this d(2)] show ?thesis using r d(3,4) by auto
qed


section \<open>Properties\<close>

text \<open>A context with one server in the state \<open>st\<close> and one flow of that server.\<close>

definition demo_served :: "pcp_server_state_e \<Rightarrow> pcp_ctx" where
  "demo_served st = demo_linked\<lparr>c_pcp_servers := [zero_server\<lparr>s_server_state := st, s_pcp_version := 2,
     s_next_version := 2\<rparr>]\<rparr>"

lemma demo_served_rep: "db_rep (demo_served st) ((replicate FLOW_HASH_SIZE [])[0 := [1]])"
  using demo_linked_rep db_rep_cong [of "demo_served st" demo_linked]
  by (simp add: demo_served_def fnext_def fbucket_def fun_eq_iff)

lemma demo_served_heap [simp]: "c_heap (demo_served st) = [1 \<mapsto> zero_flow]"
  by (simp add: demo_served_def demo_linked_def)

lemma demo_served_wf: "ctx_wf (demo_served st)"
proof -
  have "children_wf (demo_served st)"
    by (auto simp: children_wf_def fchild_def intro!: exI [of _ "[1]"] split: if_splits)
  moreover have "servers_wf (demo_served st)"
    by (simp add: servers_wf_def server_ok_def demo_served_def zero_server_def Let_def)
  moreover have "length (m_pcp_msg_buffer (c_msg (demo_served st))) = PCP_MAX_LEN"
    by (simp add: demo_served_def demo_linked_def zero_ctx_def zero_msg_def)
  ultimately show ?thesis
    using demo_served_rep [of st] by (auto simp: ctx_wf_def flow_wf_def zero_flow_def split: if_splits)
qed

lemma demo_served_in_use: "st \<noteq> pss_unitialized \<Longrightarrow> in_use (demo_served st) 0"
  by (simp add: in_use_def demo_served_def)

lemma demo_env_props: "sendto_bounded demo_env" "clock_from demo_env 0 (Timeval 1000 0)" "recv_inet demo_env"
  by (simp_all add: sendto_bounded_def clock_from_def recv_inet_def demo_env_def)

text \<open>Property C1: the server state machine is safe in every run. Start from a well-formed context
  and let datagrams with any contents arrive and any events be given to the servers in use, in
  any order, whatever the clock, the allocator and the socket do: the context stays
  well-formed (table, chains, server records, pointers to flows, buffers), no server record is
  lost or taken into use, and the next event of any server in use is handled without a bad
  pointer and within finitely many steps.\<close>

theorem server_runs_safe:
  assumes "reachable E c0 c" and "ctx_wf c0" and "sendto_bounded E" and "in_use c0 i"
  shows "ctx_wf c \<and> in_use c i \<and> length (c_pcp_servers c) = length (c_pcp_servers c0) \<and>
    (\<exists>c'. run_server_state_machine E (Some i) ev c = Some (c', PCP_ERR_SUCCESS) \<and> ctx_wf c' \<and> in_use c' i \<and>
       (\<forall>j. j \<noteq> i \<longrightarrow> c_pcp_servers c' ! j = c_pcp_servers c ! j))"
proof -
  have c: "ctx_wf c" "length (c_pcp_servers c) = length (c_pcp_servers c0)" "in_use c i"
    using reachable_wf [OF assms(1-3)] assms(4) by auto
  have "yields (run_server_state_machine E (Some i) ev c) (\<lambda>(c', r). sm_ok c i c' \<and> r = PCP_ERR_SUCCESS)"
    by (rule run_server_state_machine_ok [OF assms(3) sm_ok_start [OF c(1,3)]])
  then show ?thesis using c by (auto elim!: yieldsE simp: sm_ok_def in_use_def)
qed

theorem server_runs_safe_witness:
  "\<exists>c'. run_server_state_machine demo_env (Some 0) pcpe_timeout (demo_served pss_ping) = Some (c', PCP_ERR_SUCCESS) \<and> ctx_wf c'"
  using server_runs_safe [OF reachable.start demo_served_wf demo_env_props(1) demo_served_in_use, of pss_ping pcpe_timeout]
  by auto



text \<open>Property C19: giving up a server. In the state \<^verbatim>\<open>pss_set_not_working\<close> any event but termination
  leads to \<^verbatim>\<open>pss_not_working\<close> for the retry delay of an hour. Each flow of the server that
  holds no mapping is failed, its message dropped and its timeout cleared; the flows of other
  servers are untouched. (A flow that holds a mapping is sent again instead.)\<close>

theorem set_not_working_fails_flows:
  assumes E: "sendto_bounded E" and wf: "ctx_wf c" and i: "in_use c i" and rep: "db_rep c bs"
    and st: "s_server_state (c_pcp_servers c ! i) = pss_set_not_working" and ev: "ev \<noteq> pcpe_terminate"
  shows "\<exists>c' n. run_server_state_machine E (Some i) ev c = Some (c', PCP_ERR_SUCCESS) \<and>
    s_server_state (c_pcp_servers c' ! i) = pss_not_working \<and>
    s_next_timeout (c_pcp_servers c' ! i) =
      Timeval (tv_sec (env_gettimeofday E n) + 3600) (tv_usec (env_gettimeofday E n)) \<and>
    (\<forall>a\<in>set (concat bs). \<forall>f. c_heap c a = Some f \<longrightarrow>
       (if f_pcp_server_indx f \<noteq> of_nat i then c_heap c' a = Some f
        else \<not> granted f \<longrightarrow> c_heap c' a = Some (failed_flow f)))"
proof -
  have ok: "sm_ok c i c" using wf i by (rule sm_ok_start)
  have h: "server_handler pss_set_not_working ev = Some S_set_not_working"
    using ev by (cases ev) (simp_all add: server_handler_def server_sm_def)
  obtain d n where d: "handle_server_set_not_working E i c = Some (d, pss_not_working)" "sm_ok c i d"
    "\<forall>a\<in>set (concat bs). settled c i a (c_heap d a)"
    "s_next_timeout (c_pcp_servers d ! i) = Timeval (tv_sec (env_gettimeofday E n) + 3600) (tv_usec (env_gettimeofday E n))"
    using set_not_working_outcome [OF E ok rep] by (auto elim!: yieldsE)
  have "i < length (c_pcp_servers d)" using d(2) by auto
  then show ?thesis
    using d h st by (auto simp: run_server_state_machine_def server_at_ok [OF ok] settled_def)
qed

theorem set_not_working_fails_flows_witness:
  "\<exists>c'. run_server_state_machine demo_env (Some 0) pcpe_timeout (demo_served pss_set_not_working) = Some (c', PCP_ERR_SUCCESS) \<and>
    c_heap c' 1 = Some (failed_flow zero_flow)"
proof -
  have "s_server_state (c_pcp_servers (demo_served pss_set_not_working) ! 0) = pss_set_not_working"
    by (simp add: demo_served_def)
  from set_not_working_fails_flows [OF demo_env_props(1) demo_served_wf demo_served_in_use demo_served_rep this, of pcpe_timeout]
  obtain c' where c': "run_server_state_machine demo_env (Some 0) pcpe_timeout (demo_served pss_set_not_working) = Some (c', PCP_ERR_SUCCESS)"
    "\<forall>a\<in>set (concat ((replicate FLOW_HASH_SIZE [])[0 := [1]])). \<forall>f. c_heap (demo_served pss_set_not_working) a = Some f \<longrightarrow>
       (if f_pcp_server_indx f \<noteq> of_nat 0 then c_heap c' a = Some f else \<not> granted f \<longrightarrow> c_heap c' a = Some (failed_flow f))"
    by auto
  have "[1] \<in> set ((replicate FLOW_HASH_SIZE [])[0 := [1 :: nat]])" by (rule set_update_memI) simp
  then have "1 \<in> set (concat ((replicate FLOW_HASH_SIZE [])[0 := [1 :: nat]]))" by force
  from bspec [OF c'(2) this] show ?thesis using c'(1) by (auto simp: granted_def)
qed

text \<open>Property C20: version negotiation. On any event but termination a server of version 0 is given
  up; otherwise the version the server answered with becomes the version used, or the next
  lower one if that is the version already in use, and the server is pinged with it. When no flow can be
  sent the next state is \<^verbatim>\<open>pss_ping\<close> and waits without a timeout. Otherwise the flow of the ping has been told to send: if it
  failed the server is given up, and if not the next state is \<^verbatim>\<open>pss_wait_ping_resp\<close> with the timeout of that flow.\<close>

theorem version_negotiation_outcome:
  assumes E: "sendto_bounded E" and wf: "ctx_wf c" and i: "in_use c i"
    and st: "s_server_state (c_pcp_servers c ! i) = pss_version_negotiation" and ev: "ev \<noteq> pcpe_terminate"
  shows "\<exists>c'. run_server_state_machine E (Some i) ev c = Some (c', PCP_ERR_SUCCESS) \<and> ctx_wf c' \<and>
    (let s = c_pcp_servers c ! i; s' = c_pcp_servers c' ! i in
     if s_pcp_version s = 0 then s_pcp_version s' = 0 \<and> s_server_state s' = pss_set_not_working
     else s_pcp_version s' = (if s_next_version s = s_pcp_version s then s_pcp_version s - 1 else s_next_version s) \<and>
       ping_outcome c' i (s_server_state s'))"
proof -
  have ok: "sm_ok c i c" using wf i by (rule sm_ok_start)
  have h: "server_handler pss_version_negotiation ev = Some S_version_negotiation"
    using ev by (cases ev) (simp_all add: server_handler_def server_sm_def)
  obtain c1 where r: "run_server_state_machine E (Some i) ev c = Some (c1, PCP_ERR_SUCCESS)" "sm_ok c i c1"
    using run_server_state_machine_ok [OF E ok, of ev] by (auto elim!: yieldsE)
  obtain d st' where d: "handle_version_negotiation E i c = Some (d, st')"
    "upd_server i (s_server_state_update (\<lambda>_. st')) d = Some c1"
    using r(1) h st by (auto simp: run_server_state_machine_def server_at_ok [OF ok] bind_eq_Some_conv)
  have "sm_ok c i d" using handle_version_negotiation_ok [OF E ok] d(1) by simp
  then have "i < length (c_pcp_servers d)" by auto
  then have "c_pcp_servers c1 ! i = (c_pcp_servers d ! i)\<lparr>s_server_state := st'\<rparr>" "c_heap c1 = c_heap d" using d(2) by auto
  moreover from this have "ping_outcome c1 i st' \<longleftrightarrow> ping_outcome d i st'"
    by (cases "s_ping_flow_msg (c_pcp_servers d ! i)") (simp_all add: ping_outcome_def)
  ultimately show ?thesis using r negotiation_outcome [OF E ok d(1)] by (simp add: Let_def sm_ok_def split: if_splits)
qed

theorem version_negotiation_outcome_witness:
  "\<exists>c'. run_server_state_machine demo_env (Some 0) pcpe_timeout (demo_served pss_version_negotiation) = Some (c', PCP_ERR_SUCCESS) \<and>
    s_pcp_version (c_pcp_servers c' ! 0) = 1 \<and> ping_outcome c' 0 (s_server_state (c_pcp_servers c' ! 0))"
proof -
  have "s_server_state (c_pcp_servers (demo_served pss_version_negotiation) ! 0) = pss_version_negotiation"
    by (simp add: demo_served_def)
  moreover have "s_pcp_version (c_pcp_servers (demo_served pss_version_negotiation) ! 0) = 2"
    "s_next_version (c_pcp_servers (demo_served pss_version_negotiation) ! 0) = 2" by (simp_all add: demo_served_def)
  ultimately show ?thesis
    using version_negotiation_outcome [OF demo_env_props(1) demo_served_wf demo_served_in_use, of pss_version_negotiation pcpe_timeout]
    unfolding Let_def by auto
qed

text \<open>Property C21: changing a flow. \<^verbatim>\<open>pcp_flow_updated\<close> drops the message built so far, makes flow and
  server due at once, at the time it reads from the clock, and sends the flow again, unless it is idle, failed or waiting for its
  server. In these three states, which have no transition for a timeout, the timeout is set
  all the same: whenever \<^verbatim>\<open>check_flow_timeout\<close> meets the flow later, that is at a time of the clock that is not before, it
  leaves the zero timeout, which stands for no timeout, in place of what the flows before it asked for.\<close>

theorem pcp_flow_updated_effect:
  assumes wf: "ctx_wf c" and f: "c_heap c a = Some f" and now: "now = gettimeofday E c" "tv_normal now" "0 < tv_us now"
  shows "\<exists>c'. pcp_flow_updated E (Some a) c = Some c' \<and> ctx_wf c' \<and>
    c_heap c' = (c_heap c)(a \<mapsto> updated_flow now f) \<and>
    c_pcp_servers c' = (case get_pcp_server c (sint (f_pcp_server_indx f)) of None \<Rightarrow> c_pcp_servers c
      | Some i \<Rightarrow> (c_pcp_servers c)[i := (c_pcp_servers c ! i)\<lparr>s_next_timeout := now\<rparr>]) \<and>
    (timer_idle (f_state f) \<longrightarrow>
      (\<forall>d tout. ctx_wf d \<and> c_heap d a = c_heap c' a \<and> tv_us now \<le> tv_us (gettimeofday E d) \<and> tv_nonneg tout \<longrightarrow>
        (\<exists>d'. check_flow_timeout E a tout d = Some (d', Timeval 0 0))))"
proof -
  obtain c' where c': "pcp_flow_updated E (Some a) c = Some c'" "ctx_wf c'" "c_heap c' = (c_heap c)(a \<mapsto> updated_flow now f)"
    "c_pcp_servers c' = (case get_pcp_server c (sint (f_pcp_server_indx f)) of None \<Rightarrow> c_pcp_servers c
      | Some i \<Rightarrow> (c_pcp_servers c)[i := (c_pcp_servers c ! i)\<lparr>s_next_timeout := now\<rparr>])"
    using pcp_flow_updated_outcome [OF wf f, of E] unfolding now(1) by blast
  have "\<exists>d'. check_flow_timeout E a tout d = Some (d', Timeval 0 0)"
    if "timer_idle (f_state f)" "ctx_wf d" "c_heap d a = c_heap c' a" "tv_us now \<le> tv_us (gettimeofday E d)" "tv_nonneg tout" for d tout
  proof (rule check_timer_idle [OF _ _ that(2) _ _ that(5)])
    show "c_heap d a = Some (updated_flow now f)" using that(3) c'(3) by simp
    show "timer_idle (f_state (updated_flow now f))" using that(1) by (simp add: updated_flow_def)
    show "\<not> tv_is_zero (timeval_align (f_timeout (updated_flow now f)))"
      using now(2,3) by (auto simp: updated_flow_def timeval_align_id tv_is_zero_def tv_us_def)
  qed (use that(4) in \<open>simp add: updated_flow_def\<close>)
  then show ?thesis using c' by blast
qed

theorem pcp_flow_updated_effect_witness:
  "\<exists>c' c''. pcp_flow_updated demo_env (Some 1) (demo_served pss_wait_io) = Some c' \<and>
    check_flow_timeout demo_env 1 (Timeval 5 0) c' = Some (c'', Timeval 0 0)"
proof -
  have "c_heap (demo_served pss_wait_io) 1 = Some zero_flow" by simp
  moreover have "gettimeofday demo_env c = Timeval 1000 0" for c by (simp add: gettimeofday_def demo_env_def)
  ultimately show ?thesis
    using pcp_flow_updated_effect [OF demo_served_wf [of pss_wait_io], of 1 zero_flow "Timeval 1000 0" demo_env]
    by (fastforce simp: tv_normal_def tv_us_def tv_nonneg_def timer_idle_def)
qed

end
