(* ===== verification/Pcp_Discovery.thy ===== *)
theory Pcp_Discovery
  imports Pcp_Pulse
begin

text \<open>
  Server discovery, \<^verbatim>\<open>pcp_server_discovery.c\<close>, with the source address selection of
  \<^verbatim>\<open>net/findsaddr-udp.c\<close>. What the kernel answers to the socket calls and what the routing table
  holds come from the environment.

  A server is registered in two steps: \<^verbatim>\<open>pcp_new_server\<close> takes a record, and
  \<^verbatim>\<open>psd_fill_pcp_server_src\<close> finds the local address used towards it and puts it in the state
  \<^verbatim>\<open>pss_ping\<close>.
\<close>

section \<open>Source addresses\<close>

fun set_port :: "sockaddr \<Rightarrow> u16 \<Rightarrow> sockaddr" where
  "set_port (Sockaddr_in a _) p = Sockaddr_in a p"
| "set_port (Sockaddr_in6 a _ sc) p = Sockaddr_in6 a p sc"
| "set_port (Sockaddr_other n) p = Sockaddr_other n"

text \<open>The result tells whether an error string was returned; then the outputs are unchanged. Only the
  first 16 bytes of the address are passed on by \<^verbatim>\<open>findsaddr\<close>, its family and port among them.\<close>

definition findsaddr :: "env \<Rightarrow> sockaddr \<Rightarrow> in6_addr \<Rightarrow> pcp_ctx \<Rightarrow> pcp_ctx \<times> in6_addr \<times> bool" where
  "findsaddr E to src c =
     (case env_connect_src E (c_tick c) (set_port to 65535) of
        Some (Sockaddr_in a _) \<Rightarrow> (tick c, v4mapped a, False)
      | _ \<Rightarrow> (tick c, src, True))"

text \<open>\<^verbatim>\<open>findsaddr6\<close> reads a whole \<^verbatim>\<open>sockaddr_in6\<close>; a shorter address makes it read outside its
  argument.\<close>

definition findsaddr6 ::
  "env \<Rightarrow> sockaddr \<Rightarrow> in6_addr \<Rightarrow> u32 \<Rightarrow> pcp_ctx \<Rightarrow> (pcp_ctx \<times> in6_addr \<times> u32 \<times> bool) option" where
  "findsaddr6 E to src src_scope_id c =
     (case to of
        Sockaddr_in6 a _ _ \<Rightarrow>
          if IN6_IS_ADDR_LOOPBACK a then Some (c, a, src_scope_id, False)
          else (case env_connect_src E (c_tick c) (set_port to 65535) of
                  Some (Sockaddr_in6 b _ sc) \<Rightarrow> Some (tick c, b, sc, False)
                | _ \<Rightarrow> Some (tick c, src, src_scope_id, True))
      | _ \<Rightarrow> None)"

section \<open>Registering servers\<close>

definition psd_fill_pcp_server_src :: "env \<Rightarrow> nat \<Rightarrow> pcp_ctx \<Rightarrow> (pcp_ctx \<times> pcp_errno) option" where
  "psd_fill_pcp_server_src E i c =
     do { s \<leftarrow> server_at c i;
          let saddr = pcp_fill_sockaddr (s_pcp_ip s) (s_pcp_port s) True (s_pcp_scope_id s);
          c \<leftarrow> upd_server i (s_pcp_server_saddr_update (\<lambda>_. saddr)) c;
          (c, src_ip, src_scope_id, err) \<leftarrow> findsaddr6 E saddr in6_zero 0 c;
          if err then Some (c, PCP_ERR_UNKNOWN)
          else do { c \<leftarrow> upd_server i (\<lambda>s. s\<lparr>s_src_ip := src_ip,
                       s_pcp_scope_id := (if s_pcp_scope_id s = 0 \<and> IN6_IS_ADDR_LINKLOCAL src_ip
                                          then src_scope_id else s_pcp_scope_id s),
                       s_server_state := pss_ping, s_next_timeout := Timeval 0 0\<rparr>) c;
                    Some (c, PCP_ERR_SUCCESS) } }"

text \<open>The body of the loop over the gateways, and the loop.\<close>

definition add_gw :: "env \<Rightarrow> in6_addr \<Rightarrow> u32 \<Rightarrow> pcp_ctx \<Rightarrow> pcp_ctx option" where
  "add_gw E gw scope_id c =
     (if IN6_IS_ADDR_V4MAPPED gw \<and> s6_3 gw = 0 then Some c
      else if IPV6_IS_ADDR_ANY gw then Some c
      else do { p \<leftarrow> get_pcp_server_by_ip gw scope_id c;
                if p \<noteq> None then Some c
                else do { (c, pcps_indx) \<leftarrow> pcp_new_server E gw PCP_SERVER_PORT scope_id c;
                          if pcps_indx \<ge> 0
                          then (case get_pcp_server c pcps_indx of
                                  None \<Rightarrow> Some c
                                | Some i \<Rightarrow> map_option fst (psd_fill_pcp_server_src E i c))
                          else Some c } })"

fun add_gws :: "env \<Rightarrow> (in6_addr \<times> u32) list \<Rightarrow> pcp_ctx \<Rightarrow> pcp_ctx option" where
  "add_gws E [] c = Some c"
| "add_gws E ((gw, scope_id) # gws) c = do { c \<leftarrow> add_gw E gw scope_id c; add_gws E gws c }"

definition psd_add_gws :: "env \<Rightarrow> pcp_ctx \<Rightarrow> pcp_ctx option" where
  "psd_add_gws E c = add_gws E (env_gateways E (c_tick c)) (tick c)"

text \<open>The address, port and scope \<^verbatim>\<open>psd_add_pcp_server\<close> reads from its argument, which it takes for a
  \<^verbatim>\<open>sockaddr_in6\<close> unless the family is IPv4.\<close>

fun server_address :: "sockaddr \<Rightarrow> (in6_addr \<times> u16 \<times> u32) option" where
  "server_address (Sockaddr_in a p) = Some (v4mapped a, p, 0)"
| "server_address (Sockaddr_in6 a p sc) = Some (a, p, sc)"
| "server_address (Sockaddr_other n) = None"

definition psd_add_pcp_server :: "env \<Rightarrow> sockaddr \<Rightarrow> u8 \<Rightarrow> pcp_ctx \<Rightarrow> (pcp_ctx \<times> int) option" where
  "psd_add_pcp_server E sa version c =
     do { (pcp_ip, port, scope_id) \<leftarrow> server_address sa;
          let pcp_port = (if port = 0 then PCP_SERVER_PORT else port);
          pcps \<leftarrow> get_pcp_server_by_ip pcp_ip scope_id c;
          (c, pcps) \<leftarrow>
            (case pcps of
               None \<Rightarrow> do { (c, pcps_indx) \<leftarrow> pcp_new_server E pcp_ip pcp_port scope_id c;
                            Some (c, if pcps_indx \<ge> 0 then get_pcp_server c pcps_indx else None) }
             | Some i \<Rightarrow> do { c \<leftarrow> upd_server i (s_pcp_port_update (\<lambda>_. pcp_port)) c; Some (c, Some i) });
          case pcps of
            None \<Rightarrow> Some (c, PCP_ERR_UNKNOWN)
          | Some i \<Rightarrow>
              do { c \<leftarrow> upd_server i (\<lambda>s. s\<lparr>s_pcp_version := version, s_server_state := pss_allocated\<rparr>) c;
                   (c, err) \<leftarrow> psd_fill_pcp_server_src E i c;
                   if err \<noteq> PCP_ERR_SUCCESS
                   then do { c \<leftarrow> upd_server i (s_server_state_update (\<lambda>_. pss_unitialized)) c;
                             Some (c, PCP_ERR_UNKNOWN) }
                   else do { s \<leftarrow> server_at c i; Some (c, sint (s_index s)) } } }"

section \<open>What registration keeps\<close>

text \<open>The source address and scope the kernel picks towards a server, at the \<open>n\<close>-th call.\<close>

definition source_for :: "env \<Rightarrow> nat \<Rightarrow> in6_addr \<Rightarrow> u32 \<Rightarrow> (in6_addr \<times> u32) option" where
  "source_for E n ip sc =
     (if IN6_IS_ADDR_LOOPBACK ip then Some (ip, 0)
      else case env_connect_src E n (Sockaddr_in6 ip 65535 sc) of Some (Sockaddr_in6 b _ src_sc) \<Rightarrow> Some (b, src_sc) | _ \<Rightarrow> None)"

lemma findsaddr6_source:
  "findsaddr6 E (Sockaddr_in6 ip p sc) in6_zero 0 c =
    Some (if IN6_IS_ADDR_LOOPBACK ip then c else tick c,
      (case source_for E (c_tick c) ip sc of None \<Rightarrow> (in6_zero, 0, True) | Some (b, src_sc) \<Rightarrow> (b, src_sc, False)))"
  by (auto simp: findsaddr6_def source_for_def split: option.split sockaddr.split)

text \<open>What \<^verbatim>\<open>psd_fill_pcp_server_src\<close> makes of a server, if there is a source address.\<close>

definition filled :: "env \<Rightarrow> nat \<Rightarrow> pcp_server \<Rightarrow> pcp_server option" where
  "filled E n s = map_option (\<lambda>(src, src_sc). s\<lparr>s_src_ip := src,
       s_pcp_scope_id := (if s_pcp_scope_id s = 0 \<and> IN6_IS_ADDR_LINKLOCAL src then src_sc else s_pcp_scope_id s),
       s_pcp_server_saddr := Sockaddr_in6 (s_pcp_ip s) (s_pcp_port s) (s_pcp_scope_id s),
       s_server_state := pss_ping, s_next_timeout := Timeval 0 0\<rparr>) (source_for E n (s_pcp_ip s) (s_pcp_scope_id s))"

lemma psd_fill_exact:
  assumes ok: "sm_ok c0 i c"
  shows "yields (psd_fill_pcp_server_src E i c) (\<lambda>(c', r). sm_ok c0 i c' \<and> c_heap c' = c_heap c \<and>
    (case filled E (c_tick c) (c_pcp_servers c ! i) of
       None \<Rightarrow> r = PCP_ERR_UNKNOWN \<and> (\<exists>saddr. c_pcp_servers c' ! i = (c_pcp_servers c ! i)\<lparr>s_pcp_server_saddr := saddr\<rparr>)
     | Some s \<Rightarrow> r = PCP_ERR_SUCCESS \<and> c_pcp_servers c' ! i = s))"
proof -
  let ?s = "c_pcp_servers c ! i"
  let ?sa = "Sockaddr_in6 (s_pcp_ip ?s) (s_pcp_port ?s) (s_pcp_scope_id ?s)"
  have sa: "pcp_fill_sockaddr (s_pcp_ip ?s) (s_pcp_port ?s) True (s_pcp_scope_id ?s) = ?sa" by (simp add: pcp_fill_sockaddr_def)
  obtain d where d: "upd_server i (s_pcp_server_saddr_update (\<lambda>_. ?sa)) c = Some d" "sm_ok c0 i d" "c_heap d = c_heap c"
    "c_pcp_servers d ! i = ?s\<lparr>s_pcp_server_saddr := ?sa\<rparr>" "c_tick d = c_tick c"
    using write_server_ok [OF ok, of "s_pcp_server_saddr_update (\<lambda>_. ?sa)"] by (auto elim!: yieldsE simp: upd_server_def split: if_splits)
  let ?e = "if IN6_IS_ADDR_LOOPBACK (s_pcp_ip ?s) then d else tick d"
  have e: "sm_ok c0 i ?e" "c_heap ?e = c_heap c" "c_pcp_servers ?e ! i = ?s\<lparr>s_pcp_server_saddr := ?sa\<rparr>" using d by auto
  note run = psd_fill_pcp_server_src_def server_at_ok [OF ok] sa d(1) findsaddr6_source d(5) filled_def
  show ?thesis
  proof (cases "source_for E (c_tick c) (s_pcp_ip ?s) (s_pcp_scope_id ?s)")
    case None
    then show ?thesis using e by (auto simp: run)
  next
    case (Some src)
    obtain ip sc where src: "src = (ip, sc)" by (cases src)
    let ?g = "\<lambda>s. s\<lparr>s_src_ip := ip, s_pcp_scope_id := (if s_pcp_scope_id s = 0 \<and> IN6_IS_ADDR_LINKLOCAL ip then sc else s_pcp_scope_id s),
       s_server_state := pss_ping, s_next_timeout := Timeval 0 0\<rparr>"
    have "yields (upd_server i ?g ?e) (\<lambda>c'. sm_ok c0 i c' \<and> c_heap c' = c_heap c \<and> c_pcp_servers c' ! i = ?g (?s\<lparr>s_pcp_server_saddr := ?sa\<rparr>))"
      by (rule yields_mono [OF upd_server_ok [OF e(1)]]) (use e in auto)
    then obtain f where "upd_server i ?g ?e = Some f" "sm_ok c0 i f" "c_heap f = c_heap c" "c_pcp_servers f ! i = ?g (?s\<lparr>s_pcp_server_saddr := ?sa\<rparr>)"
      by (auto elim!: yieldsE)
    then show ?thesis using Some src by (simp add: run)
  qed
qed

text \<open>A new server leaves the flows alone.\<close>

lemma pcp_new_server_wf:
  assumes wf: "ctx_wf c" and len: "length (c_pcp_servers c) \<le> 2 ^ 30"
  shows "yields (pcp_new_server E ip port scope c) (\<lambda>(c', r). ctx_wf c' \<and> c_heap c' = c_heap c \<and>
    (r = PCP_ERR_NO_MEM \<and> c' = tick c \<or>
     (\<exists>i. r = int i \<and> \<not> in_use c i \<and> get_pcp_server c' r = Some i \<and> s_pcp_ip (c_pcp_servers c' ! i) = ip \<and>
       s_pcp_port (c_pcp_servers c' ! i) = port \<and> s_index (c_pcp_servers c' ! i) = of_nat i \<and>
       s_pcp_scope_id (c_pcp_servers c' ! i) = (if IN6_IS_ADDR_LINKLOCAL ip then scope else 0) \<and>
       (\<forall>j. in_use c j \<longrightarrow> in_use c' j \<and> c_pcp_servers c' ! j = c_pcp_servers c ! j))))"
proof -
  have iu: "in_use d j \<longleftrightarrow> get_pcp_server d (int j) = Some j" for d j by (auto simp: in_use_def get_pcp_server_def)
  obtain c' r where n: "pcp_new_server E ip port scope c = Some (c', r)" "r = PCP_ERR_NO_MEM \<and> c' = tick c \<or>
    (\<exists>i s. r = int i \<and> get_pcp_server c r = None \<and> get_pcp_server c' r = Some i \<and>
       c_pcp_servers c' ! i = s \<and> s_index s = of_nat i \<and>
       s_pcp_scope_id s = (if IN6_IS_ADDR_LINKLOCAL ip then scope else 0) \<and> s_pcp_ip s = ip \<and> s_pcp_port s = port \<and>
       s_pcp_version s = PCP_MAX_SUPPORTED_VERSION \<and> s_server_state s = pss_allocated \<and>
       (\<forall>j. get_pcp_server c (int j) = Some j \<longrightarrow> get_pcp_server c' (int j) = Some j \<and>
          c_pcp_servers c' ! j = c_pcp_servers c ! j) \<and>
       servers_wf c' \<and> c_heap c' = c_heap c)"
    using pcp_new_server_spec [OF _ len, of E ip port scope] wf by (auto simp: ctx_wf_def elim!: yieldsE)
  note fr = pcp_new_server_frame [OF n(1)]
  have fl: "fnext c' = fnext c" "fbucket c' = fbucket c" "fchild c' = fchild c"
    using fr by (simp_all add: fnext_def fbucket_def fchild_def fun_eq_iff)
  have "servers_wf c'"
    using n(2)
  proof
    assume "r = PCP_ERR_NO_MEM \<and> c' = tick c"
    then show ?thesis using wf ctx_wf_tick [of c] by (simp add: ctx_wf_def)
  qed auto
  moreover have "db_rep c' bs \<longleftrightarrow> db_rep c bs" for bs using fr fl by (simp add: db_rep_def)
  moreover have "children_wf c'" using wf fr fl by (simp add: ctx_wf_def children_wf_def)
  ultimately have "ctx_wf c'" using wf fr by (simp add: ctx_wf_def)
  then show ?thesis using n fr by (auto simp: iu)
qed

lemma by_ip_found:
  assumes "get_pcp_server_by_ip ip scope c = Some (Some i)"
  shows "in_use c i \<and> s_pcp_ip (c_pcp_servers c ! i) = ip"
  using assms by (auto simp: get_pcp_server_by_ip_find find_Some_iff server_matches_def in_use_def)

lemma sint_index: "sm_ok c0 i c \<Longrightarrow> sint (s_index (c_pcp_servers c ! i)) = int i"
proof -
  assume ok: "sm_ok c0 i c"
  then have "i < 2 ^ 31" by (auto simp: sm_ok_def ctx_wf_def servers_wf_def)
  then show ?thesis using sm_ok_index [OF ok] sint_of_nat_index by simp
qed

lemma pcp_new_server_tick:
  assumes "pcp_new_server E ip port scope c = Some (c', int i)"
  shows "c_tick c' = c_tick c + (if array_full c then 4 else 3)"
  using assms
  by (auto simp: pcp_new_server_def new_server_slot_def createNonce_def upd_server_def Let_def tick_def array_full_def first_unused_zero
      first_unused_None split: if_splits option.splits prod.splits dest: first_unused_Some)

text \<open>The record \<open>s\<close> after the end of \<^verbatim>\<open>psd_add_pcp_server\<close>, which asks for the source address at the \<open>n\<close>-th call.\<close>

definition registered :: "env \<Rightarrow> nat \<Rightarrow> u8 \<Rightarrow> pcp_server \<Rightarrow> pcp_server \<Rightarrow> bool" where
  "registered E n v s s' \<longleftrightarrow> s_pcp_version s' = v \<and> s_pcp_ip s' = s_pcp_ip s \<and> s_pcp_port s' = s_pcp_port s \<and>
     (case source_for E n (s_pcp_ip s) (s_pcp_scope_id s) of
        None \<Rightarrow> s_server_state s' = pss_unitialized
      | Some (src, src_sc) \<Rightarrow> s_server_state s' = pss_ping \<and> s_next_timeout s' = Timeval 0 0 \<and> s_src_ip s' = src \<and>
          s_pcp_scope_id s' = (if s_pcp_scope_id s = 0 \<and> IN6_IS_ADDR_LINKLOCAL src then src_sc else s_pcp_scope_id s))"

text \<open>The scope of the record that is registered, given the record \<open>p\<close> that the address was found in, and the number of
  calls of the environment made before its source address is asked for.\<close>

definition looked_up_scope :: "pcp_ctx \<Rightarrow> nat option \<Rightarrow> in6_addr \<Rightarrow> u32 \<Rightarrow> u32" where
  "looked_up_scope c p ip scope = (case p of
     None \<Rightarrow> if IN6_IS_ADDR_LINKLOCAL ip then scope else 0 | Some k \<Rightarrow> s_pcp_scope_id (c_pcp_servers c ! k))"

definition looked_up_tick :: "pcp_ctx \<Rightarrow> nat option \<Rightarrow> nat" where
  "looked_up_tick c p = (case p of None \<Rightarrow> c_tick c + (if array_full c then 4 else 3) | Some _ \<Rightarrow> c_tick c)"

text \<open>The end of \<^verbatim>\<open>psd_add_pcp_server\<close>, on the record that was found or made.\<close>

lemma add_server_end:
  assumes ok: "sm_ok c0 i c"
  shows "yields (upd_server i (\<lambda>s. s\<lparr>s_pcp_version := v, s_server_state := pss_allocated\<rparr>) c \<bind> (\<lambda>c.
      psd_fill_pcp_server_src E i c \<bind> (\<lambda>(c, err). if err \<noteq> PCP_ERR_SUCCESS
        then upd_server i (s_server_state_update (\<lambda>_. pss_unitialized)) c \<bind> (\<lambda>c. Some (c, PCP_ERR_UNKNOWN))
        else server_at c i \<bind> (\<lambda>s. Some (c, sint (s_index s))))))
    (\<lambda>(c', r). c_heap c' = c_heap c \<and> (\<forall>j. j \<noteq> i \<longrightarrow> c_pcp_servers c' ! j = c_pcp_servers c0 ! j) \<and> i < length (c_pcp_servers c') \<and>
      registered E (c_tick c) v (c_pcp_servers c ! i) (c_pcp_servers c' ! i) \<and>
      (if source_for E (c_tick c) (s_pcp_ip (c_pcp_servers c ! i)) (s_pcp_scope_id (c_pcp_servers c ! i)) = None
       then r = PCP_ERR_UNKNOWN else r = int i \<and> sm_ok c0 i c'))"
proof -
  let ?s = "c_pcp_servers c ! i"
  have "yields (upd_server i (\<lambda>s. s\<lparr>s_pcp_version := v, s_server_state := pss_allocated\<rparr>) c) (\<lambda>c'. sm_ok c0 i c' \<and>
      c_heap c' = c_heap c \<and> c_pcp_servers c' ! i = ?s\<lparr>s_pcp_version := v, s_server_state := pss_allocated\<rparr>)"
    by (rule yields_mono [OF upd_server_ok [OF ok]]) auto
  then obtain d where d: "upd_server i (\<lambda>s. s\<lparr>s_pcp_version := v, s_server_state := pss_allocated\<rparr>) c = Some d" "sm_ok c0 i d"
    "c_heap d = c_heap c" "c_pcp_servers d ! i = ?s\<lparr>s_pcp_version := v, s_server_state := pss_allocated\<rparr>"
    by (auto elim!: yieldsE)
  have t: "c_tick d = c_tick c" using d(1) by (auto simp: upd_server_def split: if_splits)
  obtain e r where e: "psd_fill_pcp_server_src E i d = Some (e, r)" "sm_ok c0 i e" "c_heap e = c_heap d"
    "case filled E (c_tick c) (c_pcp_servers d ! i) of
       None \<Rightarrow> r = PCP_ERR_UNKNOWN \<and> (\<exists>saddr. c_pcp_servers e ! i = (c_pcp_servers d ! i)\<lparr>s_pcp_server_saddr := saddr\<rparr>)
     | Some s \<Rightarrow> r = PCP_ERR_SUCCESS \<and> c_pcp_servers e ! i = s"
    using psd_fill_exact [OF d(2), of E] t by (auto elim!: yieldsE)
  have i: "i < length (c_pcp_servers e)" using e(2) by auto
  show ?thesis
  proof (cases "source_for E (c_tick c) (s_pcp_ip ?s) (s_pcp_scope_id ?s)")
    case None
    then show ?thesis using d(1,3,4) e i by (auto simp: filled_def registered_def sm_ok_def)
  next
    case (Some src)
    then show ?thesis using d(1,3,4) e i sint_index [OF e(2)] by (auto simp: filled_def registered_def sm_ok_def split: prod.splits)
  qed
qed

text \<open>Its beginning: the record that is found or made, unless memory runs out.\<close>

lemma server_got:
  assumes wf: "ctx_wf c" and len: "length (c_pcp_servers c) \<le> 2 ^ 30" and p: "get_pcp_server_by_ip ip scope c = Some p"
    and mem: "\<not> (p = None \<and> array_full c \<and> env_malloc E (c_tick c) = None)"
  shows "\<exists>d i. (case p of None \<Rightarrow> pcp_new_server E ip port scope c \<bind> (\<lambda>(c, k). Some (c, if k \<ge> 0 then get_pcp_server c k else None))
      | Some i \<Rightarrow> upd_server i (s_pcp_port_update (\<lambda>_. port)) c \<bind> (\<lambda>c. Some (c, Some i))) = Some (d, Some i) \<and>
    c_heap d = c_heap c \<and> ctx_wf d \<and> in_use d i \<and> s_pcp_ip (c_pcp_servers d ! i) = ip \<and> s_pcp_port (c_pcp_servers d ! i) = port \<and>
    s_pcp_scope_id (c_pcp_servers d ! i) = looked_up_scope c p ip scope \<and> c_tick d = looked_up_tick c p \<and>
    (case p of None \<Rightarrow> \<not> in_use c i | Some k \<Rightarrow> i = k) \<and> (\<forall>j. j \<noteq> i \<longrightarrow> in_use c j \<longrightarrow> c_pcp_servers d ! j = c_pcp_servers c ! j)"
proof (cases p)
  case (Some i)
  then have i: "in_use c i" "s_pcp_ip (c_pcp_servers c ! i) = ip" using by_ip_found p by auto
  have "sm_ok c i c" using wf i(1) by (rule sm_ok_start)
  from write_server_ok [OF this, of "s_pcp_port_update (\<lambda>_. port)"] obtain d where
    "upd_server i (s_pcp_port_update (\<lambda>_. port)) c = Some d" "sm_ok c i d" "c_heap d = c_heap c"
    "c_pcp_servers d ! i = (c_pcp_servers c ! i)\<lparr>s_pcp_port := port\<rparr>" by (auto elim!: yieldsE)
  moreover from this(1) have "c_tick d = c_tick c" by (auto simp: upd_server_def split: if_splits)
  ultimately show ?thesis using Some i by (auto simp: sm_ok_def in_use_def looked_up_scope_def looked_up_tick_def)
next
  case None
  then have "\<not> (array_full c \<and> \<not> calloc_buf E c)" using mem by (simp add: calloc_buf_def)
  then obtain k d where k: "pcp_new_server E ip port scope c = Some (d, int k)" using pcp_new_server_exact [OF len, of E ip port scope] by auto
  have "PCP_ERR_NO_MEM \<noteq> int k" by simp
  with pcp_new_server_wf [OF wf len, of E ip port scope] k have "ctx_wf d" "c_heap d = c_heap c" "\<not> in_use c k" "get_pcp_server d (int k) = Some k"
    "s_pcp_ip (c_pcp_servers d ! k) = ip" "s_pcp_port (c_pcp_servers d ! k) = port"
    "s_pcp_scope_id (c_pcp_servers d ! k) = (if IN6_IS_ADDR_LINKLOCAL ip then scope else 0)"
    "\<forall>j. in_use c j \<longrightarrow> c_pcp_servers d ! j = c_pcp_servers c ! j" by auto
  then show ?thesis using None k pcp_new_server_tick [OF k] by (auto simp: looked_up_scope_def looked_up_tick_def dest: get_pcp_server_in_use)
qed

section \<open>Properties\<close>

text \<open>Property C22: registering a server. \<^verbatim>\<open>psd_add_pcp_server\<close> with an IPv4 or IPv6 address always returns.
  It takes the record in use with that address and scope, or a free one. If there is no such record,
  the array is full and the allocation for its growth is refused, the result is
  \<^verbatim>\<open>PCP_ERR_UNKNOWN\<close> and nothing has changed. Otherwise the record has the address, the port
  (5351 for none) and the version given, and no other server in use has changed, nor any flow. If
  the kernel names a source address towards the server, the result is the index of the record, the
  context is well-formed, and the server is to be pinged at once from that address, with the scope
  of the source if it had none and the source is link-local. If not, the result is
  \<^verbatim>\<open>PCP_ERR_UNKNOWN\<close> and the record is put out of use, even one that was registered before, whose
  flows lose their server.\<close>

theorem psd_add_pcp_server_outcome:
  assumes wf: "ctx_wf c" and len: "length (c_pcp_servers c) \<le> 2 ^ 30" and sa: "server_address sa = Some (ip, port, scope)"
  shows "\<exists>p. get_pcp_server_by_ip ip scope c = Some p \<and>
    (if p = None \<and> array_full c \<and> env_malloc E (c_tick c) = None
     then psd_add_pcp_server E sa v c = Some (tick c, PCP_ERR_UNKNOWN)
     else \<exists>c' r i. psd_add_pcp_server E sa v c = Some (c', r) \<and> c_heap c' = c_heap c \<and>
       (case p of None \<Rightarrow> \<not> in_use c i | Some k \<Rightarrow> i = k) \<and> i < length (c_pcp_servers c') \<and>
       (\<forall>j. j \<noteq> i \<longrightarrow> in_use c j \<longrightarrow> c_pcp_servers c' ! j = c_pcp_servers c ! j) \<and>
       (let s = c_pcp_servers c' ! i; sc = looked_up_scope c p ip scope in
          s_pcp_ip s = ip \<and> s_pcp_version s = v \<and> s_pcp_port s = (if port = 0 then PCP_SERVER_PORT else port) \<and>
          (case source_for E (looked_up_tick c p) ip sc of
             None \<Rightarrow> r = PCP_ERR_UNKNOWN \<and> s_server_state s = pss_unitialized
           | Some (src, src_sc) \<Rightarrow> r = int i \<and> ctx_wf c' \<and> s_server_state s = pss_ping \<and> s_next_timeout s = Timeval 0 0 \<and>
               s_src_ip s = src \<and> s_pcp_scope_id s = (if sc = 0 \<and> IN6_IS_ADDR_LINKLOCAL src then src_sc else sc))))"
proof -
  let ?port = "if port = 0 then PCP_SERVER_PORT else port"
  obtain p where p: "get_pcp_server_by_ip ip scope c = Some p" using by_ip_total by blast
  show ?thesis
  proof (cases "p = None \<and> array_full c \<and> env_malloc E (c_tick c) = None")
    case True
    then have "pcp_new_server E ip ?port scope c = Some (tick c, PCP_ERR_NO_MEM)"
      using pcp_new_server_exact [OF len, of E ip ?port scope] by (simp add: calloc_buf_def)
    then show ?thesis using True p sa by (simp add: psd_add_pcp_server_def Let_def split del: if_split)
  next
    case False
    let ?sc = "looked_up_scope c p ip scope" and ?n = "looked_up_tick c p"
    obtain d i where d: "(case p of None \<Rightarrow> pcp_new_server E ip ?port scope c \<bind> (\<lambda>(c, k). Some (c, if k \<ge> 0 then get_pcp_server c k else None))
        | Some i \<Rightarrow> upd_server i (s_pcp_port_update (\<lambda>_. ?port)) c \<bind> (\<lambda>c. Some (c, Some i))) = Some (d, Some i)"
      "c_heap d = c_heap c" "ctx_wf d" "in_use d i" "s_pcp_ip (c_pcp_servers d ! i) = ip" "s_pcp_port (c_pcp_servers d ! i) = ?port"
      "s_pcp_scope_id (c_pcp_servers d ! i) = ?sc" "c_tick d = ?n" "case p of None \<Rightarrow> \<not> in_use c i | Some k \<Rightarrow> i = k"
      "\<forall>j. j \<noteq> i \<longrightarrow> in_use c j \<longrightarrow> c_pcp_servers d ! j = c_pcp_servers c ! j"
      using server_got [OF wf len p False, of ?port] by blast
    let ?fin = "upd_server i (\<lambda>s. s\<lparr>s_pcp_version := v, s_server_state := pss_allocated\<rparr>) d \<bind> (\<lambda>c.
      psd_fill_pcp_server_src E i c \<bind> (\<lambda>(c, err). if err \<noteq> PCP_ERR_SUCCESS
        then upd_server i (s_server_state_update (\<lambda>_. pss_unitialized)) c \<bind> (\<lambda>c. Some (c, PCP_ERR_UNKNOWN))
        else server_at c i \<bind> (\<lambda>s. Some (c, sint (s_index s)))))"
    obtain c' r where f: "?fin = Some (c', r)" "c_heap c' = c_heap d" "\<forall>j. j \<noteq> i \<longrightarrow> c_pcp_servers c' ! j = c_pcp_servers d ! j"
      "i < length (c_pcp_servers c')" "registered E ?n v (c_pcp_servers d ! i) (c_pcp_servers c' ! i)"
      "if source_for E ?n ip ?sc = None then r = PCP_ERR_UNKNOWN else r = int i \<and> sm_ok d i c'"
      using add_server_end [OF sm_ok_start [OF d(3,4)], of v E] d(5,7,8) by (auto elim!: yieldsE)
    have run: "psd_add_pcp_server E sa v c = Some (c', r)"
      using sa p d(1) f(1) by (simp add: psd_add_pcp_server_def Let_def split del: if_split)
    have "s_pcp_ip (c_pcp_servers c' ! i) = ip \<and> s_pcp_version (c_pcp_servers c' ! i) = v \<and> s_pcp_port (c_pcp_servers c' ! i) = ?port \<and>
        (case source_for E ?n ip ?sc of
             None \<Rightarrow> r = PCP_ERR_UNKNOWN \<and> s_server_state (c_pcp_servers c' ! i) = pss_unitialized
           | Some (src, src_sc) \<Rightarrow> r = int i \<and> ctx_wf c' \<and> s_server_state (c_pcp_servers c' ! i) = pss_ping \<and> s_next_timeout (c_pcp_servers c' ! i) = Timeval 0 0 \<and>
               s_src_ip (c_pcp_servers c' ! i) = src \<and> s_pcp_scope_id (c_pcp_servers c' ! i) = (if ?sc = 0 \<and> IN6_IS_ADDR_LINKLOCAL src then src_sc else ?sc))"
      using f(5,6) d(5-7) by (auto simp: registered_def sm_ok_def split: option.splits)
    moreover have "\<forall>j. j \<noteq> i \<longrightarrow> in_use c j \<longrightarrow> c_pcp_servers c' ! j = c_pcp_servers c ! j" using f(3) d(10) by simp
    ultimately show ?thesis using run f(2,4) d(2,9)
      by (intro exI [of _ p] conjI p, unfold if_not_P [OF False] Let_def) (intro exI [of _ c'] exI [of _ r] exI [of _ i], simp split del: if_split)
  qed
qed

theorem psd_add_pcp_server_outcome_witness:
  "(\<exists>c' i. psd_add_pcp_server demo_env (Sockaddr_in 0x0A000001 0) 2 (demo_served pss_wait_io) = Some (c', int i) \<and> i \<noteq> 0 \<and>
      s_server_state (c_pcp_servers c' ! i) = pss_ping \<and> s_pcp_port (c_pcp_servers c' ! i) = 5351 \<and>
      s_src_ip (c_pcp_servers c' ! i) = In6 0 0 0xFFFF 0x0A000002) \<and>
   (\<exists>c'. psd_add_pcp_server (demo_env\<lparr>env_connect_src := \<lambda>n to. None\<rparr>) (Sockaddr_in6 in6_zero 0 0) 2 (demo_served pss_wait_io) =
        Some (c', PCP_ERR_UNKNOWN) \<and> s_server_state (c_pcp_servers c' ! 0) = pss_unitialized)"
proof -
  have len: "length (c_pcp_servers (demo_served pss_wait_io)) \<le> 2 ^ 30" by (simp add: demo_served_def)
  have p: "get_pcp_server_by_ip (v4mapped 0x0A000001) 0 (demo_served pss_wait_io) = Some None"
    "get_pcp_server_by_ip in6_zero 0 (demo_served pss_wait_io) = Some (Some 0)"
    by (simp_all add: get_pcp_server_by_ip_find demo_served_def server_matches_def v4mapped_def zero_server_def in6_zero_def upt_rec)
  have env: "env_malloc demo_env n \<noteq> None" "env_connect_src demo_env n to = Some (Sockaddr_in6 (In6 0 0 0xFFFF 0x0A000002) 1024 0)" for n to
    by (simp_all add: demo_env_def)
  have u: "\<not> in_use (demo_served pss_wait_io) i \<Longrightarrow> i \<noteq> 0" for i by (cases i) (auto simp: in_use_def demo_served_def)
  have lb: "\<not> IN6_IS_ADDR_LOOPBACK (v4mapped 0x0A000001)" "\<not> IN6_IS_ADDR_LOOPBACK in6_zero"
    by (simp_all add: IN6_IS_ADDR_LOOPBACK_def v4mapped_def in6_zero_def)
  note out = psd_add_pcp_server_outcome [OF demo_served_wf len]
  from out [of "Sockaddr_in 0x0A000001 0" "v4mapped 0x0A000001" 0 0 demo_env 2] have
    "\<exists>c' i. psd_add_pcp_server demo_env (Sockaddr_in 0x0A000001 0) 2 (demo_served pss_wait_io) = Some (c', int i) \<and> i \<noteq> 0 \<and>
      s_server_state (c_pcp_servers c' ! i) = pss_ping \<and> s_pcp_port (c_pcp_servers c' ! i) = 5351 \<and>
      s_src_ip (c_pcp_servers c' ! i) = In6 0 0 0xFFFF 0x0A000002"
    using u by (auto simp: p env source_for_def Let_def lb cong: conj_cong)
  moreover from out [of "Sockaddr_in6 in6_zero 0 0" in6_zero 0 0 "demo_env\<lparr>env_connect_src := \<lambda>n to. None\<rparr>" 2] have
    "\<exists>c'. psd_add_pcp_server (demo_env\<lparr>env_connect_src := \<lambda>n to. None\<rparr>) (Sockaddr_in6 in6_zero 0 0) 2 (demo_served pss_wait_io) =
        Some (c', PCP_ERR_UNKNOWN) \<and> s_server_state (c_pcp_servers c' ! 0) = pss_unitialized"
    by (auto simp: p source_for_def Let_def lb split: if_splits)
  ultimately show ?thesis by blast
qed

end
