(* ===== verification/Pcp_Api.thy ===== *)
theory Pcp_Api
  imports Pcp_Discovery
begin

text \<open>
  The public interface, \<^verbatim>\<open>pcp_api.c\<close>: contexts, flows, their options, waiting and closing.

  A context is passed explicitly; the checks for a NULL context are left out, a flow or an address
  that may be NULL is an option. The loops over the children of a flow
  (\<^verbatim>\<open>for (fiter = f; fiter; fiter = fiter->next_child)\<close>) are instances of \<open>each_flow\<close>. Where the
  code would read outside an object or fail an assertion the result is \<open>None\<close>.
\<close>

section \<open>Contexts\<close>

definition pcp_add_server :: "env \<Rightarrow> sockaddr \<Rightarrow> u8 \<Rightarrow> pcp_ctx \<Rightarrow> (pcp_ctx \<times> int) option" where
  "pcp_add_server E pcp_server pcp_version c =
     (if pcp_version > PCP_MAX_SUPPORTED_VERSION then Some (c, PCP_ERR_UNSUP_VERSION)
      else psd_add_pcp_server E pcp_server pcp_version c)"

text \<open>\<^verbatim>\<open>pcp_init\<close>, called when \<open>n\<close> system calls were made before; NULL is \<open>Some None\<close>.\<close>

definition pcp_init :: "env \<Rightarrow> nat \<Rightarrow> bool \<Rightarrow> pcp_ctx option option" where
  "pcp_init E n autodiscovery =
     (let c = zero_ctx\<lparr>c_tick := n\<rparr> in
      if \<not> calloc_buf E c then Some None
      else let c = tick c in
           if \<not> env_socket E (c_tick c) then Some None
           else let c = tick c in
                if autodiscovery then map_option Some (psd_add_gws E c) else Some (Some c))"

section \<open>Loops over the children of a flow\<close>

partial_function (option) each_flow ::
  "(addr \<Rightarrow> pcp_ctx \<Rightarrow> pcp_ctx option) \<Rightarrow> addr option \<Rightarrow> pcp_ctx \<Rightarrow> pcp_ctx option" where
  "each_flow body fiter c =
     (case fiter of
        None \<Rightarrow> Some c
      | Some a \<Rightarrow> do { c \<leftarrow> body a c; f \<leftarrow> c_heap c a; each_flow body (f_next_child f) c })"

section \<open>Waiting\<close>

text \<open>The end of the wait; the product of the timeout is computed in \<^verbatim>\<open>int\<close> and must fit.\<close>

definition wait_end :: "timeval \<Rightarrow> int \<Rightarrow> timeval option" where
  "wait_end now timeout =
     (if timeout * 1000 < - 2147483648 \<or> timeout * 1000 > 2147483647 then None
      else let usec = tv_usec now + (timeout * 1000) smod 1000000;
               sec = tv_sec now + usec sdiv 1000000;
               usec = usec smod 1000000
           in Some (Timeval (sec + timeout sdiv 1000) usec))"

partial_function (option) wait_loop ::
  "env \<Rightarrow> addr \<Rightarrow> timeval \<Rightarrow> int \<Rightarrow> bool \<Rightarrow> pcp_ctx \<Rightarrow> (pcp_ctx \<times> pcp_fstate_e) option" where
  "wait_loop E flow tout_end nflow_exit_states exit_on_partial_res c =
     do { let (tout_select, tout_end, past) = timeval_subtract tout_end (gettimeofday E c);
          let c = tick c;
          if past \<or> tv_is_zero tout_select \<or> tv_sec tout_select < 0 then Some (c, pcp_state_processing)
          else do { (c, _, _) \<leftarrow> pcp_pulse E (Some tout_select) c;
                    (n, ret_state) \<leftarrow> pcp_eval_flow_state (Some flow) c;
                    if n > nflow_exit_states \<and> (exit_on_partial_res \<or> ret_state \<noteq> pcp_state_partial_result)
                    then Some (c, ret_state)
                    else wait_loop E flow tout_end nflow_exit_states exit_on_partial_res (tick c) } }"

definition pcp_wait :: "env \<Rightarrow> addr option \<Rightarrow> int \<Rightarrow> bool \<Rightarrow> pcp_ctx \<Rightarrow> (pcp_ctx \<times> pcp_fstate_e) option" where
  "pcp_wait E flow timeout exit_on_partial_res c =
     do { (n, fstate) \<leftarrow> pcp_eval_flow_state flow c;
          case flow of
            None \<Rightarrow> Some (c, pcp_state_failed)
          | Some a \<Rightarrow>
              do { let n = (if fstate = pcp_state_partial_result \<or> fstate = pcp_state_processing then n else 0);
                   tout_end \<leftarrow> wait_end (gettimeofday E c) timeout;
                   wait_loop E a tout_end n exit_on_partial_res (tick c) } }"

section \<open>New flows\<close>

definition init_flow :: "env \<Rightarrow> addr \<Rightarrow> nat \<Rightarrow> u32 \<Rightarrow> sockaddr option \<Rightarrow> pcp_ctx \<Rightarrow> pcp_ctx option" where
  "init_flow E a i lifetime ext_addr c =
     do { f \<leftarrow> c_heap c a;
          c \<leftarrow> (if kd_operation (f_kd f) = PCP_OPCODE_MAP \<or> kd_operation (f_kd f) = PCP_OPCODE_PEER
                then case ext_addr of
                    None \<Rightarrow> None
                  | Some e \<Rightarrow>
                      let (ip, port, _) = pcp_fill_in6_addr (u_ext_ip (f_u f)) (u_ext_port (f_u f)) 0 e
                      in upd_flow a (f_u_update (\<lambda>_. U_map_peer ip port)) c
                else case ext_addr of None \<Rightarrow> Some c | Some e \<Rightarrow> None);
          let curtime = gettimeofday E c;
          let c = tick c;
          s \<leftarrow> server_at c i;
          c \<leftarrow> upd_flow a (\<lambda>f. f\<lparr>f_lifetime := lifetime, f_timeout := curtime,
                 f_state := (if s_server_state s = pss_wait_io then pfs_send else pfs_wait_for_server_init)\<rparr>) c;
          c \<leftarrow> upd_server i (s_next_timeout_update (\<lambda>_. curtime)) c;
          c \<leftarrow> upd_flow a (f_user_data_update (\<lambda>_. None)) c;
          (c, _) \<leftarrow> pcp_db_add_flow (Some a) c;
          Some c }"

record caasi_data =
  cd_kd :: flow_key_data
  cd_fprev :: "addr option"
  cd_ffirst :: "addr option"
  cd_lifetime :: u32
  cd_ext_addr :: "sockaddr option"
  cd_toler_fields :: u8
  cd_app_name :: "bytes option"
  cd_userdata :: "nat option"

definition have_same_af :: "in6_addr \<Rightarrow> in6_addr \<Rightarrow> bool" where
  "have_same_af addr1 addr2 \<longleftrightarrow>
     IN6_IS_ADDR_V4MAPPED addr1 \<and> IN6_IS_ADDR_V4MAPPED addr2 \<or>
     \<not> IN6_IS_ADDR_V4MAPPED addr1 \<and> \<not> IN6_IS_ADDR_V4MAPPED addr2"

text \<open>The members of a SADSCP flow; a copy of the name that cannot be allocated is NULL, and the
  length goes into an 8-bit member.\<close>

definition set_sadscp :: "env \<Rightarrow> addr \<Rightarrow> u8 \<Rightarrow> bytes option \<Rightarrow> pcp_ctx \<Rightarrow> pcp_ctx option" where
  "set_sadscp E a toler app_name c =
     (case app_name of
        Some name \<Rightarrow>
          upd_flow a (\<lambda>f. f\<lparr>f_u := U_sadscp toler (of_nat (length name)) (u_learned_dscp (f_u f)),
            f_sadscp_app_name := (if calloc_buf E c then Some name else None)\<rparr>) (tick c)
      | None \<Rightarrow>
          upd_flow a (\<lambda>f. f\<lparr>f_u := U_sadscp toler 0 (u_learned_dscp (f_u f)), f_sadscp_app_name := None\<rparr>) c)"

definition chain_and_assign_src_ip :: "env \<Rightarrow> caasi_data server_iterate" where
  "chain_and_assign_src_ip E i d c =
     do { s \<leftarrow> server_at c i;
          let kd = cd_kd d;
          if s_server_state s = pss_not_working then Some (c, d, False)
          else
            let kd = (if IPV6_IS_ADDR_ANY (kd_src_ip kd)
                      then kd\<lparr>kd_src_ip := s_src_ip s, kd_scope_id := s_pcp_scope_id s\<rparr> else kd)
            in if \<not> have_same_af (kd_src_ip kd) (s_src_ip s) then Some (c, d, False)
               else if kd_scope_id kd \<noteq> s_pcp_scope_id s then Some (c, d, False)
               else
                 let kd = kd\<lparr>kd_pcp_server_ip := s_pcp_ip s, kd_nonce := s_nonce s\<rparr>;
                     (c, p) = pcp_create_flow E s kd c
                 in case p of
                      None \<Rightarrow> Some (c, d, True)
                    | Some a \<Rightarrow>
                        do { c \<leftarrow> (if kd_operation kd = PCP_OPCODE_SADSCP
                                   then set_sadscp E a (cd_toler_fields d) (cd_app_name d) c else Some c);
                             c \<leftarrow> init_flow E a i (cd_lifetime d) (cd_ext_addr d) c;
                             c \<leftarrow> upd_flow a (f_user_data_update (\<lambda>_. cd_userdata d)) c;
                             (c, d) \<leftarrow> (case cd_fprev d of
                                 Some pv \<Rightarrow> do { c \<leftarrow> upd_flow pv (f_next_child_update (\<lambda>_. Some a)) c; Some (c, d) }
                               | None \<Rightarrow> Some (c, d\<lparr>cd_ffirst := Some a\<rparr>));
                             Some (c, d\<lparr>cd_fprev := Some a\<rparr>, False) } }"

partial_function (option) delete_loop :: "addr option \<Rightarrow> pcp_ctx \<Rightarrow> pcp_ctx option" where
  "delete_loop fiter c =
     (case fiter of
        None \<Rightarrow> Some c
      | Some a \<Rightarrow> do { f \<leftarrow> c_heap c a; (c, _) \<leftarrow> pcp_delete_flow_intern a c; delete_loop (f_next_child f) c })"

definition pcp_delete_flow :: "addr option \<Rightarrow> pcp_ctx \<Rightarrow> pcp_ctx option" where
  "pcp_delete_flow f c = delete_loop f c"

text \<open>The destination \<^verbatim>\<open>pcp_new_flow\<close> keeps: an unspecified address counts as none.\<close>

fun usable_dst :: "sockaddr option \<Rightarrow> sockaddr option" where
  "usable_dst None = None"
| "usable_dst (Some (Sockaddr_in a p)) = (if a = 0 then None else Some (Sockaddr_in a p))"
| "usable_dst (Some (Sockaddr_in6 a p sc)) = (if IPV6_IS_ADDR_ANY a then None else Some (Sockaddr_in6 a p sc))"
| "usable_dst (Some (Sockaddr_other n)) = None"

fun same_family :: "sockaddr \<Rightarrow> sockaddr \<Rightarrow> bool" where
  "same_family (Sockaddr_in _ _) (Sockaddr_in _ _) \<longleftrightarrow> True"
| "same_family (Sockaddr_in6 _ _ _) (Sockaddr_in6 _ _ _) \<longleftrightarrow> True"
| "same_family (Sockaddr_other m) (Sockaddr_other n) \<longleftrightarrow> m = n"
| "same_family _ _ \<longleftrightarrow> False"

text \<open>The key of the new flow; \<open>Some (c, None)\<close> is the return of NULL for a family mismatch.\<close>

definition new_flow_key ::
  "env \<Rightarrow> sockaddr \<Rightarrow> sockaddr option \<Rightarrow> u8 \<Rightarrow> pcp_ctx \<Rightarrow> (pcp_ctx \<times> flow_key_data option) option" where
  "new_flow_key E src_addr dst_addr protocol c =
     (let (ip, port, scope) = pcp_fill_in6_addr in6_zero 0 0 src_addr;
          kd = zero_kd\<lparr>kd_src_ip := ip, kd_src_port := port, kd_scope_id := scope, kd_protocol := protocol\<rparr>
      in case usable_dst dst_addr of
           None \<Rightarrow> Some (c, Some (kd\<lparr>kd_operation := PCP_OPCODE_MAP\<rparr>))
         | Some dst \<Rightarrow>
             let (dip, dport, _) = pcp_fill_in6_addr in6_zero 0 0 dst;
                 kd = kd\<lparr>kd_dst_ip := dip, kd_dst_port := dport, kd_operation := PCP_OPCODE_PEER\<rparr>
             in case src_addr of
                  Sockaddr_in _ _ \<Rightarrow>
                    if s6_3 (kd_src_ip kd) = 0
                    then let (c, src, _) = findsaddr E dst (kd_src_ip kd) c in Some (c, Some (kd\<lparr>kd_src_ip := src\<rparr>))
                    else Some (c, Some kd)
                | _ \<Rightarrow>
                    if IPV6_IS_ADDR_ANY (kd_src_ip kd)
                    then do { (c, src, sc, _) \<leftarrow> findsaddr6 E dst (kd_src_ip kd) (kd_scope_id kd) c;
                              Some (c, Some (kd\<lparr>kd_src_ip := src, kd_scope_id := sc\<rparr>)) }
                    else if \<not> same_family dst src_addr then Some (c, None)
                    else Some (c, Some kd))"

fun default_ext_addr :: "sockaddr \<Rightarrow> sockaddr option" where
  "default_ext_addr (Sockaddr_in _ _) = Some (Sockaddr_in 0 0)"
| "default_ext_addr (Sockaddr_in6 _ _ _) = Some (Sockaddr_in6 in6_zero 0 0)"
| "default_ext_addr (Sockaddr_other _) = None"

definition pcp_new_flow ::
  "env \<Rightarrow> sockaddr option \<Rightarrow> sockaddr option \<Rightarrow> sockaddr option \<Rightarrow> u8 \<Rightarrow> u32 \<Rightarrow> nat option \<Rightarrow> pcp_ctx \<Rightarrow>
    (pcp_ctx \<times> addr option) option" where
  "pcp_new_flow E src dst_addr ext protocol lifetime userdata c =
     (case src of
        None \<Rightarrow> Some (c, None)
      | Some src_addr \<Rightarrow>
          do { (c, key) \<leftarrow> new_flow_key E src_addr dst_addr protocol c;
               case key of
                 None \<Rightarrow> Some (c, None)
               | Some kd \<Rightarrow>
                   case (case ext of None \<Rightarrow> default_ext_addr src_addr | Some e \<Rightarrow> Some e) of
                     None \<Rightarrow> Some (c, None)
                   | Some ext_addr \<Rightarrow>
                       do { (c, d, r) \<leftarrow> pcp_db_foreach_server (chain_and_assign_src_ip E)
                              \<lparr>cd_kd = kd, cd_fprev = None, cd_ffirst = None, cd_lifetime = lifetime,
                               cd_ext_addr = Some ext_addr, cd_toler_fields = 0, cd_app_name = None,
                               cd_userdata = userdata\<rparr> c;
                            if r \<noteq> PCP_ERR_MAX_SIZE
                            then do { c \<leftarrow> pcp_delete_flow (cd_ffirst d) c; Some (c, None) }
                            else Some (c, cd_ffirst d) } })"

definition pcp_learn_dscp ::
  "env \<Rightarrow> u8 \<Rightarrow> u8 \<Rightarrow> u8 \<Rightarrow> bytes option \<Rightarrow> pcp_ctx \<Rightarrow> (pcp_ctx \<times> addr option) option" where
  "pcp_learn_dscp E delay_tol loss_tol jitter_tol app_name c =
     do { (c, d, _) \<leftarrow> pcp_db_foreach_server (chain_and_assign_src_ip E)
            \<lparr>cd_kd = zero_kd\<lparr>kd_operation := PCP_OPCODE_SADSCP\<rparr>, cd_fprev = None, cd_ffirst = None,
             cd_lifetime = 0, cd_ext_addr = None,
             cd_toler_fields = push_bit 6 (delay_tol AND 3) OR push_bit 4 (loss_tol AND 3) OR
               push_bit 2 (jitter_tol AND 3),
             cd_app_name = app_name, cd_userdata = None\<rparr> c;
          Some (c, cd_ffirst d) }"

section \<open>Changing flows\<close>

definition pcp_flow_set_nonce :: "addr option \<Rightarrow> pcp_nonce option \<Rightarrow> pcp_ctx \<Rightarrow> (pcp_ctx \<times> int) option" where
  "pcp_flow_set_nonce flow nonce_words_be c =
     (case nonce_words_be of
        None \<Rightarrow> Some (c, 1)
      | Some n \<Rightarrow>
          if flow = None then Some (c, 1)
          else do { c \<leftarrow> each_flow (\<lambda>a. upd_flow a (\<lambda>f. f\<lparr>f_kd := (f_kd f)\<lparr>kd_nonce := n\<rparr>\<rparr>)) flow c; Some (c, 0) })"

text \<open>The setters of options write members of each flow and tell the state machine.\<close>

definition change_flows :: "env \<Rightarrow> (pcp_flow \<Rightarrow> pcp_flow) \<Rightarrow> addr option \<Rightarrow> pcp_ctx \<Rightarrow> pcp_ctx option" where
  "change_flows E g = each_flow (\<lambda>a c. do { c \<leftarrow> upd_flow a g c; pcp_flow_updated E (Some a) c })"

definition pcp_flow_set_lifetime :: "env \<Rightarrow> addr option \<Rightarrow> u32 \<Rightarrow> pcp_ctx \<Rightarrow> pcp_ctx option" where
  "pcp_flow_set_lifetime E f lifetime = change_flows E (f_lifetime_update (\<lambda>_. lifetime)) f"

definition pcp_flow_set_3rd_party_opt :: "env \<Rightarrow> addr option \<Rightarrow> sockaddr \<Rightarrow> pcp_ctx \<Rightarrow> pcp_ctx option" where
  "pcp_flow_set_3rd_party_opt E f thirdp_addr =
     change_flows E (\<lambda>f. f\<lparr>f_third_party_option_present := True,
       f_third_party_ip := fst (pcp_fill_in6_addr (f_third_party_ip f) 0 0 thirdp_addr)\<rparr>) f"

definition pcp_flow_set_filter_opt :: "env \<Rightarrow> addr option \<Rightarrow> sockaddr \<Rightarrow> u8 \<Rightarrow> pcp_ctx \<Rightarrow> pcp_ctx option" where
  "pcp_flow_set_filter_opt E f filter_ip filter_prefix =
     change_flows E (\<lambda>f. let (ip, port, _) = pcp_fill_in6_addr (f_filter_ip f) (f_filter_port f) 0 filter_ip
       in f\<lparr>f_filter_option_present := True, f_filter_ip := ip, f_filter_port := port,
            f_filter_prefix := filter_prefix\<rparr>) f"

definition pcp_flow_set_prefer_failure_opt :: "env \<Rightarrow> addr option \<Rightarrow> pcp_ctx \<Rightarrow> pcp_ctx option" where
  "pcp_flow_set_prefer_failure_opt E =
     each_flow (\<lambda>a c. do { f \<leftarrow> c_heap c a;
       if f_pfailure_option_present f then Some c
       else do { c \<leftarrow> upd_flow a (f_pfailure_option_present_update (\<lambda>_. True)) c; pcp_flow_updated E (Some a) c } })"

definition pcp_flow_set_userid :: "env \<Rightarrow> addr option \<Rightarrow> bytes \<Rightarrow> pcp_ctx \<Rightarrow> (pcp_ctx \<times> int) option" where
  "pcp_flow_set_userid E f user c =
     do { c \<leftarrow> change_flows E (f_userid_update (\<lambda>_. take MAX_USER_ID user)) f c; Some (c, 0) }"

definition pcp_flow_set_location :: "env \<Rightarrow> addr option \<Rightarrow> bytes \<Rightarrow> pcp_ctx \<Rightarrow> (pcp_ctx \<times> int) option" where
  "pcp_flow_set_location E f loc c =
     do { c \<leftarrow> change_flows E (f_location_update (\<lambda>_. take MAX_GEO_STR loc)) f c; Some (c, 0) }"

definition pcp_flow_set_deviceid :: "env \<Rightarrow> addr option \<Rightarrow> bytes \<Rightarrow> pcp_ctx \<Rightarrow> (pcp_ctx \<times> int) option" where
  "pcp_flow_set_deviceid E f dev c =
     do { c \<leftarrow> change_flows E (f_deviceid_update (\<lambda>_. take MAX_DEVICE_ID dev)) f c; Some (c, 0) }"

text \<open>The 32-bit number of the metadata goes through a 16-bit parameter.\<close>

definition pcp_flow_add_md :: "env \<Rightarrow> addr option \<Rightarrow> u32 \<Rightarrow> bytes \<Rightarrow> pcp_ctx \<Rightarrow> pcp_ctx option" where
  "pcp_flow_add_md E f md val =
     each_flow (\<lambda>a c. do { c \<leftarrow> pcp_db_add_md E a (ucast md) val c; pcp_flow_updated E (Some a) c }) f"

definition pcp_flow_set_flowp :: "env \<Rightarrow> addr option \<Rightarrow> u8 \<Rightarrow> u8 \<Rightarrow> pcp_ctx \<Rightarrow> pcp_ctx option" where
  "pcp_flow_set_flowp E f dscp_up dscp_down =
     change_flows E (\<lambda>f. let fpresent = (dscp_up \<noteq> 0 \<or> dscp_down \<noteq> 0); f = f\<lparr>f_flowp_option_present := fpresent\<rparr>
       in if fpresent then f\<lparr>f_flowp_dscp_up := dscp_up, f_flowp_dscp_down := dscp_down\<rparr> else f) f"

definition pcp_flow_set_user_data :: "addr option \<Rightarrow> nat option \<Rightarrow> pcp_ctx \<Rightarrow> pcp_ctx option" where
  "pcp_flow_set_user_data f userdata = each_flow (\<lambda>a. upd_flow a (f_user_data_update (\<lambda>_. userdata))) f"

definition pcp_flow_get_user_data :: "addr option \<Rightarrow> pcp_ctx \<Rightarrow> nat option option" where
  "pcp_flow_get_user_data f c = (case f of None \<Rightarrow> Some None | Some a \<Rightarrow> map_option f_user_data (c_heap c a))"

section \<open>Closing\<close>

definition pcp_close_flow_intern :: "env \<Rightarrow> addr \<Rightarrow> pcp_ctx \<Rightarrow> pcp_ctx option" where
  "pcp_close_flow_intern E a c =
     do { f \<leftarrow> c_heap c a;
          c \<leftarrow> (if f_state f = pfs_wait_for_server_init \<or> f_state f = pfs_idle \<or> f_state f = pfs_failed
                then upd_flow a (f_state_update (\<lambda>_. pfs_failed)) c
                else do { c \<leftarrow> upd_flow a (f_lifetime_update (\<lambda>_. 0)) c; pcp_flow_updated E (Some a) c });
          f \<leftarrow> c_heap c a;
          if f_state f \<noteq> pfs_wait_for_server_init \<and> f_state f \<noteq> pfs_idle \<and> f_state f \<noteq> pfs_failed
          then do { c \<leftarrow> upd_flow a (f_lifetime_update (\<lambda>_. 0)) c; pcp_flow_updated E (Some a) c }
          else upd_flow a (f_state_update (\<lambda>_. pfs_failed)) c }"

definition pcp_close_flow :: "env \<Rightarrow> addr option \<Rightarrow> pcp_ctx \<Rightarrow> pcp_ctx option" where
  "pcp_close_flow E f c =
     do { c \<leftarrow> each_flow (pcp_close_flow_intern E) f c;
          case f of None \<Rightarrow> Some c | Some a \<Rightarrow> map_option fst (pcp_pulse E None c) }"

definition delete_flow_iter :: "unit flow_iterate" where
  "delete_flow_iter a u c = do { (c, _) \<leftarrow> pcp_delete_flow_intern a c; Some (c, u, False) }"

definition close_flow_iter :: "env \<Rightarrow> unit flow_iterate" where
  "close_flow_iter E a u c = do { c \<leftarrow> pcp_close_flow_intern E a c; Some (c, u, False) }"

definition pcp_terminate :: "env \<Rightarrow> bool \<Rightarrow> pcp_ctx \<Rightarrow> pcp_ctx option" where
  "pcp_terminate E close_flows c =
     do { c \<leftarrow> (if close_flows
                then do { (c, _, _) \<leftarrow> pcp_db_foreach_flow (close_flow_iter E) () c;
                          (c, _, _) \<leftarrow> pcp_pulse E None c;
                          Some c }
                else Some c);
          (c, _, _) \<leftarrow> pcp_db_foreach_flow delete_flow_iter () c;
          c \<leftarrow> pcp_db_free_pcp_servers E c;
          Some (tick c) }"

section \<open>Reading a flow\<close>

record pcp_flow_info =
  i_result :: pcp_fstate_e
  i_pcp_server_ip :: in6_addr
  i_ext_ip :: in6_addr
  i_ext_port :: u16
  i_recv_lifetime_end :: int
  i_lifetime_renew_s :: int
  i_pcp_result_code :: u8
  i_int_ip :: in6_addr
  i_int_port :: u16
  i_int_scope_id :: u32
  i_dst_ip :: in6_addr
  i_dst_port :: u16
  i_protocol :: u8
  i_learned_dscp :: u8

definition flow_info :: "pcp_flow \<Rightarrow> pcp_flow_info" where
  "flow_info f =
     (let mp = (kd_operation (f_kd f) = PCP_OPCODE_MAP \<or> kd_operation (f_kd f) = PCP_OPCODE_PEER) in
      \<lparr>i_result = (if f_state f = pfs_wait_after_short_life_error then pcp_state_short_lifetime_error
                   else if f_state f = pfs_wait_for_lifetime_renew then pcp_state_succeeded
                   else if f_state f = pfs_failed then pcp_state_failed else pcp_state_processing),
       i_pcp_server_ip = kd_pcp_server_ip (f_kd f),
       i_ext_ip = (if mp then u_ext_ip (f_u f) else in6_zero),
       i_ext_port = (if mp then u_ext_port (f_u f) else 0),
       i_recv_lifetime_end = f_recv_lifetime f, i_lifetime_renew_s = uint (f_lifetime f),
       i_pcp_result_code = ucast (f_recv_result f),
       i_int_ip = kd_src_ip (f_kd f), i_int_port = (if mp then kd_src_port (f_kd f) else 0),
       i_int_scope_id = kd_scope_id (f_kd f),
       i_dst_ip = (if mp then kd_dst_ip (f_kd f) else in6_zero),
       i_dst_port = (if mp then kd_dst_port (f_kd f) else 0),
       i_protocol = (if mp then kd_protocol (f_kd f) else 0),
       i_learned_dscp = (if kd_operation (f_kd f) = PCP_OPCODE_SADSCP then u_learned_dscp (f_u f) else 0)\<rparr>)"

partial_function (option) info_loop :: "addr option \<Rightarrow> pcp_flow_info list \<Rightarrow> pcp_ctx \<Rightarrow> pcp_flow_info list option" where
  "info_loop fiter acc c =
     (case fiter of
        None \<Rightarrow> Some acc
      | Some a \<Rightarrow> do { f \<leftarrow> c_heap c a; info_loop (f_next_child f) (acc @ [flow_info f]) c })"

text \<open>The result is NULL when the buffer cannot be allocated; \<^verbatim>\<open>*info_count\<close> is the length of the
  list. The first loop only counts.\<close>

definition pcp_flow_get_info :: "env \<Rightarrow> addr option \<Rightarrow> pcp_ctx \<Rightarrow> (pcp_ctx \<times> pcp_flow_info list option) option" where
  "pcp_flow_get_info E f c =
     do { infos \<leftarrow> info_loop f [] c;
          Some (tick c, if calloc_buf E c then Some infos else None) }"

section \<open>Visiting the children of a flow\<close>

text \<open>Writing members of a flow that are not links keeps the context well-formed.\<close>

definition same_links :: "pcp_flow \<Rightarrow> pcp_flow \<Rightarrow> bool" where
  "same_links f g \<longleftrightarrow> f_next g = f_next f \<and> f_next_child g = f_next_child f \<and> f_key_bucket g = f_key_bucket f \<and>
     f_pcp_server_indx g = f_pcp_server_indx f"

lemma ctx_wf_write:
  assumes wf: "ctx_wf c" and f: "c_heap c a = Some f" and l: "same_links f g" and g: "flow_wf g"
  shows "ctx_wf (c\<lparr>c_heap := (c_heap c)(a \<mapsto> g)\<rparr>)"
proof -
  let ?c = "c\<lparr>c_heap := (c_heap c)(a \<mapsto> g)\<rparr>"
  have fl: "fnext ?c = fnext c" "fbucket ?c = fbucket c" "fchild ?c = fchild c"
    using f l by (auto simp: fnext_def fbucket_def fchild_def fun_eq_iff same_links_def)
  have "db_rep ?c bs \<longleftrightarrow> db_rep c bs" for bs using db_rep_cong [of ?c c bs] fl by simp
  moreover have "servers_wf ?c"
    by (rule servers_wf_cong [of c]) (use wf f l in \<open>auto simp: ctx_wf_def same_links_def\<close>)
  moreover have "children_wf ?c" using wf fl by (auto simp: ctx_wf_def children_wf_def f)
  ultimately show ?thesis using wf g by (auto simp: ctx_wf_def)
qed

text \<open>A visitor changes the flow it is given, in a way \<open>Rel\<close> describes, and no other flow.\<close>

locale flow_visitor =
  fixes body :: "addr \<Rightarrow> pcp_ctx \<Rightarrow> pcp_ctx option"
    and Rel :: "pcp_flow \<Rightarrow> pcp_flow \<Rightarrow> bool"
  assumes visit: "ctx_wf c \<Longrightarrow> c_heap c a = Some f \<Longrightarrow>
    yields (body a c) (\<lambda>c'. ctx_wf c' \<and> (\<forall>j. in_use c' j \<longleftrightarrow> in_use c j) \<and>
      (\<exists>g. c_heap c' = (c_heap c)(a \<mapsto> g) \<and> Rel f g \<and> f_next_child g = f_next_child f))"
begin

lemma visit_all:
  assumes "ctx_wf c" and "Chain (fchild c) p xs None"
  shows "yields (each_flow body p c) (\<lambda>c'. ctx_wf c' \<and> (\<forall>j. in_use c' j \<longleftrightarrow> in_use c j) \<and> fchild c' = fchild c \<and>
    (\<forall>a\<in>set xs. \<exists>f g. c_heap c a = Some f \<and> c_heap c' a = Some g \<and> Rel f g) \<and>
    (\<forall>a. a \<notin> set xs \<longrightarrow> c_heap c' a = c_heap c a))"
  using assms
proof (induction xs arbitrary: p c)
  case Nil
  then show ?case by (simp add: each_flow.simps)
next
  case (Cons a xs)
  then obtain r where p: "p = Some a" and r: "fchild c a = Some r" "Chain (fchild c) r xs None" by auto
  then obtain f where f: "c_heap c a = Some f" "f_next_child f = r" by (auto simp: fchild_Some)
  have a: "a \<notin> set xs" using Chain_distinct [OF Cons.prems(2)] by simp
  obtain d g where d: "body a c = Some d" "ctx_wf d" "\<forall>j. in_use d j \<longleftrightarrow> in_use c j" "c_heap d = (c_heap c)(a \<mapsto> g)" "Rel f g"
    "f_next_child g = r"
    using visit [OF Cons.prems(1) f(1)] f(2) by (auto elim!: yieldsE)
  have ch: "fchild d = fchild c" using d(4,6) f by (auto simp: fchild_def fun_eq_iff)
  have "Chain (fchild d) r xs None" using r(2) ch by simp
  from Cons.IH [OF d(2) this]
  obtain e where e: "each_flow body r d = Some e" "ctx_wf e" "\<forall>j. in_use e j \<longleftrightarrow> in_use d j" "fchild e = fchild d"
    "\<forall>b\<in>set xs. \<exists>f g. c_heap d b = Some f \<and> c_heap e b = Some g \<and> Rel f g"
    "\<forall>b. b \<notin> set xs \<longrightarrow> c_heap e b = c_heap d b"
    by (auto elim!: yieldsE)
  have run: "each_flow body p c = Some e"
    using p d(1,4,6) e(1) by (subst each_flow.simps) simp
  have "\<exists>f g. c_heap c b = Some f \<and> c_heap e b = Some g \<and> Rel f g" if "b \<in> set (a # xs)" for b
  proof (cases "b = a")
    case True
    then show ?thesis using a e(6) d(4,5) f(1) by auto
  next
    case False
    then show ?thesis using that e(5) d(4) by auto
  qed
  then show ?case using run e d(3,4) ch by auto
qed

end

lemma pcp_flow_updated_wf:
  assumes "ctx_wf c" and "c_heap c a = Some f"
  shows "\<exists>c' n. pcp_flow_updated E (Some a) c = Some c' \<and> ctx_wf c' \<and> (\<forall>j. in_use c' j \<longleftrightarrow> in_use c j) \<and>
    c_heap c' = (c_heap c)(a \<mapsto> updated_flow (env_gettimeofday E n) f)"
proof -
  obtain e where e: "pcp_flow_updated E (Some a) c = Some e" "ctx_wf e" "c_heap e = (c_heap c)(a \<mapsto> updated_flow (gettimeofday E c) f)"
    "c_pcp_servers e = (case get_pcp_server c (sint (f_pcp_server_indx f)) of None \<Rightarrow> c_pcp_servers c
      | Some i \<Rightarrow> (c_pcp_servers c)[i := (c_pcp_servers c ! i)\<lparr>s_next_timeout := gettimeofday E c\<rparr>])"
    using pcp_flow_updated_outcome [OF assms, of E] by blast
  have "in_use e j \<longleftrightarrow> in_use c j" for j
  proof (cases "get_pcp_server c (sint (f_pcp_server_indx f))")
    case (Some i)
    then have "i < length (c_pcp_servers c)" using get_pcp_server_in_use [OF Some] by (simp add: in_use_def)
    then show ?thesis using e(4) Some by (cases "j = i") (simp_all add: in_use_def)
  qed (use e(4) in \<open>simp add: in_use_def\<close>)
  then show ?thesis using e by (auto simp: gettimeofday_def)
qed

text \<open>A setter writes members of a flow that are neither links nor owned by the state machine, and
  tells the state machine.\<close>

locale flow_setter =
  fixes set_flow :: "pcp_flow \<Rightarrow> pcp_flow"
  assumes set_links: "same_links f (set_flow f)"
    and set_wf: "flow_wf f \<Longrightarrow> flow_wf (set_flow f)"
begin

lemma set_visit:
  assumes wf: "ctx_wf c" and f: "c_heap c a = Some f"
  shows "yields (upd_flow a set_flow c \<bind> pcp_flow_updated E (Some a)) (\<lambda>c'. ctx_wf c' \<and> (\<forall>j. in_use c' j \<longleftrightarrow> in_use c j) \<and>
      (\<exists>g. c_heap c' = (c_heap c)(a \<mapsto> g) \<and> (\<exists>n. g = updated_flow (env_gettimeofday E n) (set_flow f)) \<and>
        f_next_child g = f_next_child f))"
proof -
  let ?d = "c\<lparr>c_heap := (c_heap c)(a \<mapsto> set_flow f)\<rparr>"
  have "flow_wf f" using wf f by (auto simp: ctx_wf_def)
  then have d: "ctx_wf ?d" by (rule ctx_wf_write [OF wf f set_links set_wf])
  obtain e n where e: "pcp_flow_updated E (Some a) ?d = Some e" "ctx_wf e" "\<forall>j. in_use e j \<longleftrightarrow> in_use ?d j"
    "c_heap e = (c_heap ?d)(a \<mapsto> updated_flow (env_gettimeofday E n) (set_flow f))"
    using pcp_flow_updated_wf [OF d, of a "set_flow f" E] by auto
  have "f_next_child (updated_flow t (set_flow f)) = f_next_child f" for t
    using set_links [of f] by (simp add: updated_flow_def same_links_def)
  then show ?thesis using f e by (auto simp: in_use_def)
qed

end

sublocale flow_setter \<subseteq> visitor: flow_visitor "\<lambda>a c. upd_flow a set_flow c \<bind> pcp_flow_updated E (Some a)"
    "\<lambda>f g. \<exists>n. g = updated_flow (env_gettimeofday E n) (set_flow f)" for E
  by unfold_locales (rule set_visit)

context flow_setter
begin

lemma change_flows_all:
  assumes "ctx_wf c" and "Chain (fchild c) p xs None"
  shows "\<exists>c'. change_flows E set_flow p c = Some c' \<and> ctx_wf c' \<and> (\<forall>a. a \<notin> set xs \<longrightarrow> c_heap c' a = c_heap c a) \<and>
      (\<forall>a\<in>set xs. \<exists>f n. c_heap c a = Some f \<and> c_heap c' a = Some (updated_flow (env_gettimeofday E n) (set_flow f)))"
proof -
  obtain c' where c': "each_flow (\<lambda>a c. upd_flow a set_flow c \<bind> pcp_flow_updated E (Some a)) p c = Some c'" "ctx_wf c'"
    "\<forall>a\<in>set xs. \<exists>f g. c_heap c a = Some f \<and> c_heap c' a = Some g \<and> (\<exists>n. g = updated_flow (env_gettimeofday E n) (set_flow f))"
    "\<forall>a. a \<notin> set xs \<longrightarrow> c_heap c' a = c_heap c a"
    using visitor.visit_all [OF assms, of E] by (auto elim!: yieldsE)
  then have "\<forall>a\<in>set xs. \<exists>f n. c_heap c a = Some f \<and> c_heap c' a = Some (updated_flow (env_gettimeofday E n) (set_flow f))"
    by metis
  then show ?thesis using c' by (simp add: change_flows_def)
qed

end

interpretation lifetime_setter: flow_setter "f_lifetime_update (\<lambda>_. l)" for l
  by unfold_locales (auto simp: same_links_def flow_wf_def)

interpretation third_party_setter: flow_setter "\<lambda>f. f\<lparr>f_third_party_option_present := True,
       f_third_party_ip := fst (pcp_fill_in6_addr (f_third_party_ip f) 0 0 ad)\<rparr>" for ad
  by unfold_locales (auto simp: same_links_def flow_wf_def)

interpretation filter_setter: flow_setter "\<lambda>f. let (ip, port, _) = pcp_fill_in6_addr (f_filter_ip f) (f_filter_port f) 0 ad
       in f\<lparr>f_filter_option_present := True, f_filter_ip := ip, f_filter_port := port, f_filter_prefix := pfx\<rparr>" for ad pfx
  by unfold_locales (auto simp: same_links_def flow_wf_def Let_def split: prod.split)

interpretation flowp_setter: flow_setter "\<lambda>f. let fpresent = (up \<noteq> 0 \<or> down \<noteq> 0); f = f\<lparr>f_flowp_option_present := fpresent\<rparr>
       in if fpresent then f\<lparr>f_flowp_dscp_up := up, f_flowp_dscp_down := down\<rparr> else f" for up down
  by unfold_locales (auto simp: same_links_def flow_wf_def Let_def)


text \<open>The arrays of the identifiers must have their sizes.\<close>

lemma userid_setter: "length u = MAX_USER_ID \<Longrightarrow> flow_setter (f_userid_update (\<lambda>_. take MAX_USER_ID u))"
  by unfold_locales (auto simp: same_links_def flow_wf_def)

lemma location_setter: "length u = MAX_GEO_STR \<Longrightarrow> flow_setter (f_location_update (\<lambda>_. take MAX_GEO_STR u))"
  by unfold_locales (auto simp: same_links_def flow_wf_def)

lemma deviceid_setter: "length u = MAX_DEVICE_ID \<Longrightarrow> flow_setter (f_deviceid_update (\<lambda>_. take MAX_DEVICE_ID u))"
  by unfold_locales (auto simp: same_links_def flow_wf_def)

section \<open>Closing a flow\<close>

text \<open>What closing makes of a flow: one that has nothing to withdraw fails, any other asks the server for
  a lifetime of zero.\<close>

definition closed_flow :: "pcp_flow \<Rightarrow> pcp_flow \<Rightarrow> bool" where
  "closed_flow f g \<longleftrightarrow>
     (if timer_idle (f_state f) then g = f\<lparr>f_state := pfs_failed\<rparr>
      else \<exists>now. g = f\<lparr>f_lifetime := 0, f_pcp_msg_buffer := None, f_pcp_msg_len := 0, f_timeout := now, f_state := pfs_send\<rparr>)"

lemma pcp_close_flow_intern_visit:
  assumes wf: "ctx_wf c" and f: "c_heap c a = Some f"
  shows "yields (pcp_close_flow_intern E a c) (\<lambda>c'. ctx_wf c' \<and> (\<forall>j. in_use c' j \<longleftrightarrow> in_use c j) \<and>
      (\<exists>g. c_heap c' = (c_heap c)(a \<mapsto> g) \<and> closed_flow f g \<and> f_next_child g = f_next_child f))"
proof (cases "timer_idle (f_state f)")
  case True
  then have st: "f_state f = pfs_wait_for_server_init \<or> f_state f = pfs_idle \<or> f_state f = pfs_failed" by (auto simp: timer_idle_def)
  have "flow_wf f" using wf f by (auto simp: ctx_wf_def)
  then have "ctx_wf (c\<lparr>c_heap := (c_heap c)(a \<mapsto> f\<lparr>f_state := pfs_failed\<rparr>)\<rparr>)"
    by (intro ctx_wf_write [OF wf f]) (auto simp: same_links_def flow_wf_def)
  then show ?thesis using True st f by (auto simp: pcp_close_flow_intern_def closed_flow_def in_use_def)
next
  case False
  then have st: "\<not> (f_state f = pfs_wait_for_server_init \<or> f_state f = pfs_idle \<or> f_state f = pfs_failed)"
    by (auto simp: timer_idle_def)
  obtain d n where d: "upd_flow a (f_lifetime_update (\<lambda>_. 0)) c \<bind> pcp_flow_updated E (Some a) = Some d" "ctx_wf d"
    "\<forall>j. in_use d j \<longleftrightarrow> in_use c j" "c_heap d = (c_heap c)(a \<mapsto> updated_flow (env_gettimeofday E n) (f\<lparr>f_lifetime := 0\<rparr>))"
    using lifetime_setter.set_visit [OF wf f, of 0 E] by (auto elim!: yieldsE)
  let ?g = "updated_flow (env_gettimeofday E n) (f\<lparr>f_lifetime := 0\<rparr>)"
  have g: "c_heap d a = Some ?g" "f_state ?g = pfs_send" using d(4) False by (simp_all add: updated_flow_def)
  obtain e m where e: "upd_flow a (f_lifetime_update (\<lambda>_. 0)) d \<bind> pcp_flow_updated E (Some a) = Some e" "ctx_wf e"
    "\<forall>j. in_use e j \<longleftrightarrow> in_use d j" "c_heap e = (c_heap d)(a \<mapsto> updated_flow (env_gettimeofday E m) (?g\<lparr>f_lifetime := 0\<rparr>))"
    using lifetime_setter.set_visit [OF d(2) g(1), of 0 E] by (auto elim!: yieldsE)
  have "pcp_close_flow_intern E a c = Some e"
    using st f d(1) e(1) g by (simp add: pcp_close_flow_intern_def)
  moreover have "closed_flow f (updated_flow (env_gettimeofday E m) (?g\<lparr>f_lifetime := 0\<rparr>))"
    using False by (auto simp: closed_flow_def updated_flow_def timer_idle_def)
  moreover have "f_next_child (updated_flow (env_gettimeofday E m) (?g\<lparr>f_lifetime := 0\<rparr>)) = f_next_child f"
    by (simp add: updated_flow_def)
  ultimately show ?thesis using d(3,4) e by auto
qed

interpretation close_visitor: flow_visitor "pcp_close_flow_intern E" closed_flow for E
  by unfold_locales (rule pcp_close_flow_intern_visit)

section \<open>Properties of the setters and of closing\<close>

text \<open>The flow with its filter set: an IPv4 address is kept in its mapped form, an address of another family leaves the address
  and port of the filter as they were.\<close>

definition with_filter :: "sockaddr \<Rightarrow> u8 \<Rightarrow> pcp_flow \<Rightarrow> pcp_flow" where
  "with_filter sa pfx f = (case sa of
     Sockaddr_in a port \<Rightarrow> f\<lparr>f_filter_option_present := True, f_filter_ip := In6 0 0 0xFFFF a, f_filter_port := port, f_filter_prefix := pfx\<rparr>
   | Sockaddr_in6 ip port _ \<Rightarrow> f\<lparr>f_filter_option_present := True, f_filter_ip := ip, f_filter_port := port, f_filter_prefix := pfx\<rparr>
   | Sockaddr_other _ \<Rightarrow> f\<lparr>f_filter_option_present := True, f_filter_prefix := pfx\<rparr>)"

lemma filter_written:
  "(let (ip, port, _) = pcp_fill_in6_addr (f_filter_ip f) (f_filter_port f) 0 sa
    in f\<lparr>f_filter_option_present := True, f_filter_ip := ip, f_filter_port := port, f_filter_prefix := pfx\<rparr>) = with_filter sa pfx f"
  by (cases sa) (simp_all add: with_filter_def v4mapped_def)

text \<open>Property C23: setting the lifetime and the filter option. For every flow of the chain the
  lifetime, or the address, port and prefix of the filter, is written, the message built so
  far is dropped and the flow is due at once, to be sent again unless it is idle, failed or
  waiting for its server; no other flow changes and the context stays well-formed. The address of the
  filter is an IPv6 address or an IPv4 address in its mapped form.\<close>

theorem setters_change_chain:
  assumes wf: "ctx_wf c" and ch: "Chain (fchild c) p xs None"
  shows "(\<exists>c'. pcp_flow_set_lifetime E p l c = Some c' \<and> ctx_wf c' \<and> (\<forall>a. a \<notin> set xs \<longrightarrow> c_heap c' a = c_heap c a) \<and>
      (\<forall>a\<in>set xs. \<exists>f n. c_heap c a = Some f \<and> c_heap c' a = Some (updated_flow (env_gettimeofday E n) (f\<lparr>f_lifetime := l\<rparr>)))) \<and>
    (\<exists>c'. pcp_flow_set_filter_opt E p sa pfx c = Some c' \<and> ctx_wf c' \<and>
      (\<forall>a. a \<notin> set xs \<longrightarrow> c_heap c' a = c_heap c a) \<and>
      (\<forall>a\<in>set xs. \<exists>f n. c_heap c a = Some f \<and> c_heap c' a = Some (updated_flow (env_gettimeofday E n) (with_filter sa pfx f))))"
  using lifetime_setter.change_flows_all [OF wf ch, of E l] filter_setter.change_flows_all [OF wf ch, of E sa pfx]
  unfolding filter_written by (simp add: pcp_flow_set_lifetime_def pcp_flow_set_filter_opt_def filter_written)

lemma demo_served_chain: "Chain (fchild (demo_served st)) (Some 1) [1] None"
  by (simp add: fchild_def)

theorem setters_change_chain_witness:
  "(\<exists>c' f. pcp_flow_set_lifetime demo_env (Some 1) 60 (demo_served pss_wait_io) = Some c' \<and> c_heap c' 1 = Some f \<and> f_lifetime f = 60) \<and>
   (\<exists>c' f. pcp_flow_set_filter_opt demo_env (Some 1) (Sockaddr_in 0x0A000001 80) 128 (demo_served pss_wait_io) = Some c' \<and> c_heap c' 1 = Some f \<and>
      f_filter_option_present f \<and> f_filter_ip f = In6 0 0 0xFFFF 0x0A000001 \<and> f_filter_port f = 80 \<and> f_filter_prefix f = 128)"
  using setters_change_chain [OF demo_served_wf demo_served_chain, of demo_env 60 pss_wait_io "Sockaddr_in 0x0A000001 80" 128]
  by (fastforce simp: updated_flow_def with_filter_def)

text \<open>Property C24: closing a flow. \<^verbatim>\<open>pcp_close_flow\<close> first goes through the chain: a flow that is idle,
  failed or waiting for its server fails, since the server knows nothing of it; any other flow is
  to be sent again with lifetime 0, which withdraws the mapping. Then one turn of the event loop
  is made, which ends. The context stays well-formed.\<close>

theorem pcp_close_flow_outcome:
  assumes "sendto_bounded E" and "recv_inet E" and "clock_from E N now" and wf: "ctx_wf c" and ch: "Chain (fchild c) (Some a) xs None"
  shows "\<exists>c1 c2 t r. each_flow (pcp_close_flow_intern E) (Some a) c = Some c1 \<and>
    (\<forall>b\<in>set xs. \<exists>f g. c_heap c b = Some f \<and> c_heap c1 b = Some g \<and> closed_flow f g) \<and>
    (\<forall>b. b \<notin> set xs \<longrightarrow> c_heap c1 b = c_heap c b) \<and> pcp_pulse E None c1 = Some (c2, t, r) \<and>
    pcp_close_flow E (Some a) c = Some c2 \<and> ctx_wf c2"
proof -
  obtain c1 where c1: "each_flow (pcp_close_flow_intern E) (Some a) c = Some c1" "ctx_wf c1"
    "\<forall>b\<in>set xs. \<exists>f g. c_heap c b = Some f \<and> c_heap c1 b = Some g \<and> closed_flow f g"
    "\<forall>b. b \<notin> set xs \<longrightarrow> c_heap c1 b = c_heap c b"
    using close_visitor.visit_all [OF wf ch, of E] by (auto elim!: yieldsE)
  obtain c2 t r where c2: "pcp_pulse E None c1 = Some (c2, t, r)" "ctx_wf c2"
    using pcp_pulse_ok [OF assms(1-3) c1(2), of None] by (auto elim!: yieldsE)
  then have "pcp_close_flow E (Some a) c = Some c2" using c1(1) by (simp add: pcp_close_flow_def)
  then show ?thesis using c1 c2 by blast
qed

theorem pcp_close_flow_outcome_witness:
  "\<exists>c2. pcp_close_flow demo_env (Some 1) (demo_served pss_wait_io) = Some c2 \<and> ctx_wf c2"
  using pcp_close_flow_outcome [OF demo_env_props(1,3,2) demo_served_wf demo_served_chain, of pss_wait_io] by blast

end
