(* ===== verification/Pcp_Flow_Life.thy ===== *)
theory Pcp_Flow_Life
  imports Pcp_Api
begin

text \<open>
  The life of the flows a program asks for: \<^verbatim>\<open>pcp_new_flow\<close> makes one flow for every suitable server
  and chains them, \<^verbatim>\<open>pcp_delete_flow\<close> removes a chain again. The definitions are those of \<open>Pcp_Api\<close>;
  this theory shows what a caller gets from them.
\<close>

section \<open>Creating flows\<close>

lemma ctx_wf_link:
  assumes wf: "ctx_wf c" and p: "c_heap c p = Some f" "f_next_child f = None"
    and a: "c_heap c a = Some g" "f_next_child g = None" "a \<noteq> p"
  shows "ctx_wf (c\<lparr>c_heap := (c_heap c)(p \<mapsto> f\<lparr>f_next_child := Some a\<rparr>)\<rparr>)"
proof -
  let ?c = "c\<lparr>c_heap := (c_heap c)(p \<mapsto> f\<lparr>f_next_child := Some a\<rparr>)\<rparr>"
  have fl: "fnext ?c = fnext c" "fbucket ?c = fbucket c" "fchild ?c = (fchild c)(p := Some (Some a))"
    using p by (auto simp: fnext_def fbucket_def fchild_def fun_eq_iff)
  have rep: "db_rep ?c bs \<longleftrightarrow> db_rep c bs" for bs using db_rep_cong [of ?c c bs] fl by simp
  have sv: "servers_wf ?c" by (rule servers_wf_cong [of c]) (use wf p in \<open>auto simp: ctx_wf_def\<close>)
  have np: "fchild c p = Some None" "fchild c a = Some None" using p a by (simp_all add: fchild_def)
  have "\<exists>xs. Chain (fchild ?c) (Some b) xs None" if b: "c_heap c b = Some h" for b h
  proof -
    obtain xs where xs: "Chain (fchild c) (Some b) xs None" using wf b by (auto simp: ctx_wf_def children_wf_def)
    have last: "z = last xs" if "z \<in> set xs" "fchild c z = Some None" for z
    proof -
      from split_list [OF that(1)] obtain us vs where s: "xs = us @ z # vs" by blast
      then have "Chain (fchild c) (Some z) (z # vs) None" using xs Chain_suffix by blast
      then have "vs = []" using that(2) by (cases vs) auto
      then show ?thesis using s by simp
    qed
    show ?thesis
    proof (cases "p \<in> set xs")
      case True
      then have lp: "last xs = p" using last np(1) by simp
      have "a \<notin> set xs" using last [of a] np(2) lp a(3) by auto
      moreover have "xs \<noteq> []" using True by auto
      ultimately show ?thesis using Chain_snoc [OF xs _ np(2)] lp fl(3) by auto
    next
      case False
      have "Chain ((fchild c)(p := Some (Some a))) (Some b) xs None" by (rule Chain_upd_other [OF False, THEN iffD2, OF xs])
      then show ?thesis unfolding fl(3) by blast
    qed
  qed
  then have "children_wf ?c" using p(1) by (auto simp: children_wf_def)
  moreover have "flow_wf (f\<lparr>f_next_child := Some a\<rparr>)" using wf p(1) by (auto simp: ctx_wf_def flow_wf_def)
  ultimately show ?thesis using wf rep sv by (auto simp: ctx_wf_def)
qed

lemma fbucket_same:
  assumes c: "db_rep c bs" and c': "db_rep c' bs'" and b: "\<And>i. i < FLOW_HASH_SIZE \<Longrightarrow> b \<in> set (bs' ! i) \<longleftrightarrow> b \<in> set (bs ! i)"
    and h: "map_option flow_body (c_heap c' b) = map_option flow_body (c_heap c b)"
  shows "fbucket c' b = fbucket c b"
proof -
  have d: "fbucket c' b = None \<longleftrightarrow> fbucket c b = None" using arg_cong [OF h, of "\<lambda>x. x = None"] by (simp add: fbucket_def)
  have "fbucket c' b = Some k \<longleftrightarrow> fbucket c b = Some k" if "k \<noteq> EMPTY" for k
    using fbucket_member [OF c that, of b] fbucket_member [OF c' that, of b] b [of "unat k"] by blast
  then show ?thesis using d by (cases "fbucket c b"; cases "fbucket c' b") (auto, metis)
qed

text \<open>Flows outside a set are the same, up to their place in a chain of the table.\<close>

definition same_other_flows :: "addr set \<Rightarrow> pcp_ctx \<Rightarrow> pcp_ctx \<Rightarrow> bool" where
  "same_other_flows A c c' \<longleftrightarrow> (\<forall>b. b \<notin> A \<longrightarrow>
     map_option flow_body (c_heap c' b) = map_option flow_body (c_heap c b) \<and> fbucket c' b = fbucket c b)"

lemma same_other_flows_fchild: "same_other_flows A c c' \<Longrightarrow> b \<notin> A \<Longrightarrow> fchild c' b = fchild c b"
proof -
  assume "same_other_flows A c c'" "b \<notin> A"
  then have "map_option f_next_child (map_option flow_body (c_heap c' b)) = map_option f_next_child (map_option flow_body (c_heap c b))"
    by (simp add: same_other_flows_def)
  then show ?thesis by (simp add: fchild_def option.map_comp comp_def flow_body_def)
qed

text \<open>What \<open>init_flow\<close> is given: a new flow, and an external address exactly for mappings.\<close>

definition mapping_op :: "u8 \<Rightarrow> bool" where
  "mapping_op oper \<longleftrightarrow> oper = PCP_OPCODE_MAP \<or> oper = PCP_OPCODE_PEER"

definition inited :: "pcp_server \<Rightarrow> u32 \<Rightarrow> pcp_flow \<Rightarrow> pcp_flow \<Rightarrow> bool" where
  "inited s l f g \<longleftrightarrow> f_kd g = f_kd f \<and> f_lifetime g = l \<and> f_next_child g = f_next_child f \<and>
     f_pcp_server_indx g = f_pcp_server_indx f \<and> f_key_bucket g = compute_flow_key (f_kd f) \<and>
     f_state g = (if s_server_state s = pss_wait_io then pfs_send else pfs_wait_for_server_init)"

lemma add_flow_wf:
  assumes ok: "sm_ok c0 i c" and f: "c_heap c a = Some f" "f_key_bucket f = EMPTY"
  shows "yields (pcp_db_add_flow (Some a) c) (\<lambda>(c', r). sm_ok c0 i c' \<and> db_frame c c' \<and> same_other_flows {a} c c' \<and>
    (\<exists>g. c_heap c' a = Some g \<and> flow_body g = flow_body f \<and> f_key_bucket g = compute_flow_key (f_kd f)))"
proof -
  let ?k = "compute_flow_key (f_kd f)"
  obtain bs where rep: "db_rep c bs" using ok by (auto simp: sm_ok_def ctx_wf_def)
  obtain d r where d: "pcp_db_add_flow (Some a) c = Some (d, r)" "db_rep d (bs[unat ?k := bs ! unat ?k @ [a]])" "db_frame c d"
    using pcp_db_add_flow_refines [OF rep f] by (auto elim!: yieldsE)
  have wf: "ctx_wf d" using db_frame_ctx_wf [OF d(3) _ d(2)] ok by (simp add: sm_ok_def)
  have k: "unat ?k < FLOW_HASH_SIZE" using compute_flow_key_bound [of "f_kd f"] by simp
  have "length bs = FLOW_HASH_SIZE" using rep by (rule db_rep_length)
  then have ak: "a \<in> set (bs[unat ?k := bs ! unat ?k @ [a]] ! unat ?k)"
    and "\<And>b i. b \<noteq> a \<Longrightarrow> i < FLOW_HASH_SIZE \<Longrightarrow> b \<in> set (bs[unat ?k := bs ! unat ?k @ [a]] ! i) \<longleftrightarrow> b \<in> set (bs ! i)"
    using k by (auto simp: nth_list_update)
  then have so: "same_other_flows {a} c d"
    using fbucket_same [OF rep d(2)] db_frame_heap [OF d(3)] by (simp add: same_other_flows_def)
  have b: "fbucket d a = Some ?k" using ak d(2) k by (auto simp: db_rep_def)
  obtain g where g: "c_heap d a = Some g" "flow_body g = flow_body f"
    using db_frame_heap [OF d(3), of a] f(1) by (cases "c_heap d a") auto
  then have "f_key_bucket g = ?k" using b by (simp add: fbucket_def)
  then show ?thesis using d g wf ok so by (auto simp: sm_ok_def db_frame_def)
qed

lemma init_flow_ok:
  assumes ok: "sm_ok c0 i c" and f: "c_heap c a = Some f" "f_key_bucket f = EMPTY"
    and e: "mapping_op (kd_operation (f_kd f)) \<longleftrightarrow> ext \<noteq> None"
  shows "yields (init_flow E a i l ext c) (\<lambda>c'. sm_ok c0 i c' \<and>
    c_pcp_servers c' ! i = (c_pcp_servers c ! i)\<lparr>s_next_timeout := gettimeofday E c\<rparr> \<and> c_tick c' = Suc (c_tick c) \<and>
    same_other_flows {a} c c' \<and> (\<exists>g. c_heap c' a = Some g \<and> inited (c_pcp_servers c ! i) l f g))"
proof -
  let ?s = "c_pcp_servers c ! i"
  let ?now = "gettimeofday E c"
  define u where "u = (case ext of None \<Rightarrow> f_u f | Some x \<Rightarrow>
    (case pcp_fill_in6_addr (u_ext_ip (f_u f)) (u_ext_port (f_u f)) 0 x of (ip, port, _) \<Rightarrow> U_map_peer ip port))"
  let ?st = "if s_server_state ?s = pss_wait_io then pfs_send else pfs_wait_for_server_init"
  let ?g = "f\<lparr>f_u := u, f_lifetime := l, f_timeout := ?now, f_state := ?st, f_user_data := None\<rparr>"
  let ?c1 = "(tick c)\<lparr>c_heap := (c_heap c)(a \<mapsto> ?g)\<rparr>"
  have i: "i < length (c_pcp_servers c)" using ok by auto
  have "flow_wf f" using ok f(1) by (auto simp: sm_ok_def ctx_wf_def)
  then have "ctx_wf ((tick c)\<lparr>c_heap := (c_heap (tick c))(a \<mapsto> ?g)\<rparr>)"
    using ok f(1) by (intro ctx_wf_write [of "tick c" a f]) (auto simp: sm_ok_def same_links_def flow_wf_def)
  then have ok1: "sm_ok c0 i ?c1" using ok by (simp add: sm_ok_def)
  obtain d where d: "upd_server i (s_next_timeout_update (\<lambda>_. ?now)) ?c1 = Some d" "sm_ok c0 i d" "c_heap d = c_heap ?c1"
    "c_pcp_servers d ! i = ?s\<lparr>s_next_timeout := ?now\<rparr>"
    using write_server_ok [OF ok1, of "s_next_timeout_update (\<lambda>_. ?now)"] by (auto elim!: yieldsE)
  have gd: "c_heap d a = Some ?g" "f_key_bucket ?g = EMPTY" using d(3) f(2) by simp_all
  obtain x r g where x: "pcp_db_add_flow (Some a) d = Some (x, r)" "sm_ok c0 i x" "db_frame d x" "same_other_flows {a} d x" "c_heap x a = Some g"
    "flow_body g = flow_body ?g" "f_key_bucket g = compute_flow_key (f_kd f)"
    using add_flow_wf [OF d(2) gd] by (auto elim!: yieldsE)
  have set: "(if kd_operation (f_kd f) = PCP_OPCODE_MAP \<or> kd_operation (f_kd f) = PCP_OPCODE_PEER
      then case ext of None \<Rightarrow> None | Some e \<Rightarrow> let (ip, port, _) = pcp_fill_in6_addr (u_ext_ip (f_u f)) (u_ext_port (f_u f)) 0 e
           in upd_flow a (f_u_update (\<lambda>_. U_map_peer ip port)) c
      else case ext of None \<Rightarrow> Some c | Some e \<Rightarrow> None) = Some (c\<lparr>c_heap := (c_heap c)(a \<mapsto> f\<lparr>f_u := u\<rparr>)\<rparr>)"
    using e f(1) by (cases ext) (auto simp: mapping_op_def u_def Let_def fun_upd_idem split: prod.split)
  have dd: "d = ?c1\<lparr>c_pcp_servers := (c_pcp_servers c)[i := ?s\<lparr>s_next_timeout := ?now\<rparr>]\<rparr>" using d(1) i by simp
  have "init_flow E a i l ext c = (pcp_db_add_flow (Some a) d \<bind> (\<lambda>(c, _). Some c))"
    unfolding init_flow_def f(1) bind.bind_lunit set
    by (simp add: Let_def gettimeofday_def i split del: if_split,
        rule arg_cong [where f = "\<lambda>y. pcp_db_add_flow (Some a) y \<bind> (\<lambda>(c, _). Some c)"], rule pcp_ctx.equality)
      (simp_all add: dd gettimeofday_def)
  then have run: "init_flow E a i l ext c = Some x" using x(1) by simp
  have fg: "f_lifetime g = l" "f_state g = ?st"
    using arg_cong [OF x(6), of f_lifetime] arg_cong [OF x(6), of f_state] by (simp_all add: flow_body_def)
  have "c_pcp_servers x = c_pcp_servers d" "c_tick x = Suc (c_tick c)" using x(3) dd by (simp_all add: db_frame_def)
  moreover have "same_other_flows {a} c x" using x(4) d(3) by (simp add: same_other_flows_def fbucket_def)
  moreover have "inited ?s l f g" using flow_body_eqD [OF x(6)] x(7) fg by (simp add: inited_def)
  ultimately show ?thesis using run x(2,5) d(4) by auto
qed


text \<open>The key a flow gets for a server, and the servers a flow is made for.\<close>

definition flow_key_for :: "flow_key_data \<Rightarrow> pcp_server \<Rightarrow> flow_key_data" where
  "flow_key_for kd s =
     (if IPV6_IS_ADDR_ANY (kd_src_ip kd) then kd\<lparr>kd_src_ip := s_src_ip s, kd_scope_id := s_pcp_scope_id s\<rparr> else kd)
       \<lparr>kd_pcp_server_ip := s_pcp_ip s, kd_nonce := s_nonce s\<rparr>"

definition suitable :: "flow_key_data \<Rightarrow> pcp_server \<Rightarrow> bool" where
  "suitable kd s \<longleftrightarrow> s_server_state s \<noteq> pss_unitialized \<and> s_server_state s \<noteq> pss_not_working \<and>
     have_same_af (kd_src_ip (flow_key_for kd s)) (s_src_ip s) \<and> kd_scope_id (flow_key_for kd s) = s_pcp_scope_id s"

definition created :: "flow_key_data \<Rightarrow> u32 \<Rightarrow> nat option \<Rightarrow> pcp_server \<Rightarrow> pcp_flow \<Rightarrow> bool" where
  "created kd lifetime userdata s g \<longleftrightarrow> f_kd g = flow_key_for kd s \<and> f_lifetime g = lifetime \<and>
     f_user_data g = userdata \<and> f_pcp_server_indx g = s_index s \<and> f_key_bucket g = compute_flow_key (f_kd g) \<and>
     f_state g = (if s_server_state s = pss_wait_io then pfs_send else pfs_wait_for_server_init)"

definition created_by :: "caasi_data \<Rightarrow> pcp_server \<Rightarrow> pcp_flow \<Rightarrow> bool" where
  "created_by d = created (cd_kd d) (cd_lifetime d) (cd_userdata d)"

lemma created_next_child [simp]: "created_by d s (g\<lparr>f_next_child := p\<rparr>) = created_by d s g"
  by (simp add: created_by_def created_def)

definition same_servers :: "pcp_ctx \<Rightarrow> pcp_ctx \<Rightarrow> bool" where
  "same_servers c c' \<longleftrightarrow> length (c_pcp_servers c') = length (c_pcp_servers c) \<and>
     (\<forall>j<length (c_pcp_servers c). \<exists>t. c_pcp_servers c' ! j = (c_pcp_servers c ! j)\<lparr>s_next_timeout := t\<rparr>)"

lemma same_servers_trans: "same_servers a b \<Longrightarrow> same_servers b c \<Longrightarrow> same_servers a c"
  by (fastforce simp: same_servers_def)

lemma server_self: "\<exists>t. s = s\<lparr>s_next_timeout := t\<rparr>"
  by (rule exI [of _ "s_next_timeout s"]) simp

lemma same_servers_refl: "c_pcp_servers c' = c_pcp_servers c \<Longrightarrow> same_servers c c'"
  by (simp add: same_servers_def server_self)

text \<open>The records of the servers \<open>I\<close> are due at a reading of the clock, and no other member of any record has changed.\<close>

definition hurried :: "env \<Rightarrow> nat set \<Rightarrow> pcp_ctx \<Rightarrow> pcp_ctx \<Rightarrow> bool" where
  "hurried E I c c' \<longleftrightarrow> length (c_pcp_servers c') = length (c_pcp_servers c) \<and> (\<forall>j<length (c_pcp_servers c).
     if j \<in> I then \<exists>n. c_pcp_servers c' ! j = (c_pcp_servers c ! j)\<lparr>s_next_timeout := env_gettimeofday E n\<rparr>
     else c_pcp_servers c' ! j = c_pcp_servers c ! j)"

lemma hurried_trans: "hurried E I a b \<Longrightarrow> hurried E J b c \<Longrightarrow> hurried E (I \<union> J) a c"
proof -
  assume ab: "hurried E I a b" and bc: "hurried E J b c"
  have "if j \<in> I \<union> J then \<exists>n. c_pcp_servers c ! j = (c_pcp_servers a ! j)\<lparr>s_next_timeout := env_gettimeofday E n\<rparr>
     else c_pcp_servers c ! j = c_pcp_servers a ! j" if j: "j < length (c_pcp_servers a)" for j
  proof -
    have "if j \<in> I then \<exists>n. c_pcp_servers b ! j = (c_pcp_servers a ! j)\<lparr>s_next_timeout := env_gettimeofday E n\<rparr>
      else c_pcp_servers b ! j = c_pcp_servers a ! j" using ab j unfolding hurried_def by blast
    moreover have "if j \<in> J then \<exists>n. c_pcp_servers c ! j = (c_pcp_servers b ! j)\<lparr>s_next_timeout := env_gettimeofday E n\<rparr>
      else c_pcp_servers c ! j = c_pcp_servers b ! j" using ab bc j unfolding hurried_def by auto
    ultimately show ?thesis by (cases "j \<in> I"; cases "j \<in> J") auto
  qed
  then show "hurried E (I \<union> J) a c" using ab bc by (simp add: hurried_def)
qed

lemma hurried_same_servers: "hurried E I c c' \<Longrightarrow> same_servers c c'"
  unfolding hurried_def same_servers_def by (metis server_self)

lemma hurried_refl: "c_pcp_servers c' = c_pcp_servers c \<Longrightarrow> hurried E {} c c'"
  by (simp add: hurried_def)

lemma set_sadscp_ok:
  assumes wf: "ctx_wf c" and f: "c_heap c a = Some f"
  shows "yields (set_sadscp E a toler name c) (\<lambda>c'. ctx_wf c' \<and> c_pcp_servers c' = c_pcp_servers c \<and>
    (\<exists>g. c_heap c' = (c_heap c)(a \<mapsto> g) \<and> same_links f g \<and> f_kd g = f_kd f))"
proof -
  have "flow_wf f" using wf f by (auto simp: ctx_wf_def)
  then have w: "ctx_wf ((tick c)\<lparr>c_heap := (c_heap (tick c))(a \<mapsto> f\<lparr>f_u := u, f_sadscp_app_name := n\<rparr>)\<rparr>)"
    "ctx_wf (c\<lparr>c_heap := (c_heap c)(a \<mapsto> f\<lparr>f_u := u, f_sadscp_app_name := n\<rparr>)\<rparr>)" for u n
    using wf f by (intro ctx_wf_write [of _ a f]; simp add: same_links_def flow_wf_def)+
  show ?thesis using f w by (cases name) (auto simp: set_sadscp_def same_links_def)
qed

lemma make_flow:
  assumes wf: "ctx_wf c" and i: "in_use c i" and a: "c_heap c a = None"
    and e: "mapping_op (kd_operation (cd_kd d)) \<longleftrightarrow> cd_ext_addr d \<noteq> None" and s: "s = c_pcp_servers c ! i"
  shows "yields ((if kd_operation (flow_key_for (cd_kd d) s) = PCP_OPCODE_SADSCP
        then set_sadscp E a (cd_toler_fields d) (cd_app_name d) (tick (c\<lparr>c_heap := (c_heap c)(a \<mapsto> new_flow s (flow_key_for (cd_kd d) s))\<rparr>))
        else Some (tick (c\<lparr>c_heap := (c_heap c)(a \<mapsto> new_flow s (flow_key_for (cd_kd d) s))\<rparr>)))
      \<bind> init_flow E a i (cd_lifetime d) (cd_ext_addr d)
      \<bind> upd_flow a (f_user_data_update (\<lambda>_. cd_userdata d)))
    (\<lambda>c'. ctx_wf c' \<and> hurried E {i} c c' \<and> same_other_flows {a} c c' \<and>
       (mapping_op (kd_operation (cd_kd d)) \<longrightarrow> c_tick c' = c_tick c + 2) \<and> (\<exists>g. c_heap c' a = Some g \<and> created_by d s g \<and> f_next_child g = None))"
proof -
  let ?kd = "flow_key_for (cd_kd d) s"
  let ?n = "new_flow s ?kd"
  let ?c = "tick (c\<lparr>c_heap := (c_heap c)(a \<mapsto> ?n)\<rparr>)"
  have n: "f_key_bucket ?n = EMPTY" "f_next_child ?n = None" "flow_wf ?n" "f_kd ?n = ?kd" "f_pcp_server_indx ?n = s_index s"
    by (simp_all add: new_flow_def zero_flow_def flow_wf_def)
  have w: "ctx_wf ?c" "c_heap ?c a = Some ?n" using ctx_wf_alloc [OF wf a n(1,2,3)] by simp_all
  obtain x f where x: "(if kd_operation ?kd = PCP_OPCODE_SADSCP then set_sadscp E a (cd_toler_fields d) (cd_app_name d) ?c else Some ?c) = Some x"
    "ctx_wf x" "c_pcp_servers x = c_pcp_servers c" "c_heap x = (c_heap c)(a \<mapsto> f)" "same_links ?n f" "f_kd f = ?kd"
    "mapping_op (kd_operation (cd_kd d)) \<longrightarrow> c_tick x = Suc (c_tick c)"
  proof (cases "kd_operation ?kd = PCP_OPCODE_SADSCP")
    case True
    moreover from True have "\<not> mapping_op (kd_operation (cd_kd d))" by (auto simp: mapping_op_def flow_key_for_def split: if_splits)
    ultimately show thesis using set_sadscp_ok [OF w, of E "cd_toler_fields d" "cd_app_name d"] that n(4) by (auto elim!: yieldsE)
  next
    case False
    show thesis by (rule that [of ?c ?n]) (use False w n in \<open>auto simp: same_links_def\<close>)
  qed
  have ok: "sm_ok x i x" using x(2,3) i by (intro sm_ok_start) (simp_all add: in_use_def)
  have f: "c_heap x a = Some f" "f_key_bucket f = EMPTY" "f_next_child f = None" "f_pcp_server_indx f = s_index s"
    using x(4,5) n by (simp_all add: same_links_def)
  have "mapping_op (kd_operation (f_kd f)) \<longleftrightarrow> cd_ext_addr d \<noteq> None" using e x(6) by (simp add: flow_key_for_def)
  from init_flow_ok [OF ok f(1,2) this, of E "cd_lifetime d"]
  obtain y g where y: "init_flow E a i (cd_lifetime d) (cd_ext_addr d) x = Some y" "sm_ok x i y"
    "c_pcp_servers y ! i = (c_pcp_servers x ! i)\<lparr>s_next_timeout := gettimeofday E x\<rparr>"
    "same_other_flows {a} x y"
    "c_heap y a = Some g" "inited (c_pcp_servers x ! i) (cd_lifetime d) f g" "c_tick y = Suc (c_tick x)"
    by (auto elim!: yieldsE)
  let ?g = "g\<lparr>f_user_data := cd_userdata d\<rparr>"
  let ?y = "y\<lparr>c_heap := (c_heap y)(a \<mapsto> ?g)\<rparr>"
  have run: "upd_flow a (f_user_data_update (\<lambda>_. cd_userdata d)) y = Some ?y" using y(5) by simp
  have "flow_wf g" using y(2,5) by (auto simp: sm_ok_def ctx_wf_def)
  then have wy: "ctx_wf ?y" using y(2,5) by (intro ctx_wf_write [of y a g]) (simp_all add: sm_ok_def same_links_def flow_wf_def)
  have sv: "hurried E {i} c ?y" 
  proof -
    have "\<exists>n. c_pcp_servers y ! i = (c_pcp_servers c ! i)\<lparr>s_next_timeout := env_gettimeofday E n\<rparr>"
      using y(3) x(3) unfolding gettimeofday_def by auto
    then show ?thesis using y(2) x(3) by (simp add: hurried_def sm_ok_def)
  qed
  have "same_other_flows {a} c ?y" using y(4) x(4) by (simp add: same_other_flows_def fbucket_def)
  moreover have "created_by d s ?g" "f_next_child ?g = None"
    using y(6) x(3,6) f s by (simp_all add: created_by_def created_def inited_def)
  ultimately show ?thesis using x(1,7) y(1,7) run wy sv by (simp add: yields_def split del: if_split)
qed

text \<open>The state of the loop over the servers: the flows \<open>xs\<close>, made for the servers \<open>is\<close>, form one chain.\<close>

definition growing :: "env \<Rightarrow> pcp_ctx \<Rightarrow> caasi_data \<Rightarrow> nat list \<Rightarrow> addr list \<Rightarrow> caasi_data \<Rightarrow> pcp_ctx \<Rightarrow> bool" where
  "growing E c0 d0 is xs d c \<longleftrightarrow> ctx_wf c \<and> hurried E (set is) c0 c \<and> Chain (fchild c) (cd_ffirst d) xs None \<and>
     cd_fprev d = (if xs = [] then None else Some (last xs)) \<and> d0 = d\<lparr>cd_fprev := None, cd_ffirst := None\<rparr> \<and>
     list_all2 (\<lambda>a i. c_heap c0 a = None \<and> (\<exists>g. c_heap c a = Some g \<and> created_by d0 (c_pcp_servers c0 ! i) g)) xs is \<and>
     same_other_flows (set xs) c0 c"

text \<open>The memory for the flows \<open>xs\<close>, allocated one after the other with one reading of the clock in between.\<close>

definition paid :: "env \<Rightarrow> pcp_ctx \<Rightarrow> caasi_data \<Rightarrow> addr list \<Rightarrow> pcp_ctx \<Rightarrow> bool" where
  "paid E c0 d0 xs c \<longleftrightarrow> (mapping_op (kd_operation (cd_kd d0)) \<longrightarrow> c_tick c = c_tick c0 + 2 * length xs \<and>
     (\<forall>m<length xs. env_malloc E (c_tick c0 + 2 * m) = Some (xs ! m)))"

lemma growing_same_servers: "growing E c0 d0 is xs d c \<Longrightarrow> same_servers c0 c"
  by (auto simp: growing_def intro: hurried_same_servers)

lemma created_cong:
  assumes "created_by d s g" and "s = s0\<lparr>s_next_timeout := t\<rparr>" and "d0 = d\<lparr>cd_fprev := None, cd_ffirst := None\<rparr>"
  shows "created_by d0 s0 g"
  using assms by (simp add: created_by_def created_def flow_key_for_def)

lemma created_body:
  assumes "created_by d s f" and b: "flow_body g = flow_body f" and "f_key_bucket g = f_key_bucket f"
  shows "created_by d s g"
proof -
  have "f_lifetime g = f_lifetime f" "f_state g = f_state f" "f_user_data g = f_user_data f"
    using arg_cong [OF b, of f_lifetime] arg_cong [OF b, of f_state] arg_cong [OF b, of f_user_data] by (simp_all add: flow_body_def)
  then show ?thesis using assms flow_body_eqD [OF b] by (simp add: created_by_def created_def)
qed

lemma suitable_timeout [simp]: "suitable kd (s\<lparr>s_next_timeout := t\<rparr>) = suitable kd s"
  by (simp add: suitable_def flow_key_for_def)

lemma growing_add:
  assumes g: "growing E c0 d0 is xs d c" and a: "c_heap c a = None" and i: "i < length (c_pcp_servers c0)"
    and m: "ctx_wf c'" "hurried E {i} c c'" "same_other_flows {a} c c'" "c_heap c' a = Some g" "created_by d (c_pcp_servers c ! i) g" "f_next_child g = None"
  shows "yields (case cd_fprev d of
        Some pv \<Rightarrow> upd_flow pv (f_next_child_update (\<lambda>_. Some a)) c' \<bind> (\<lambda>c. Some (c, d))
      | None \<Rightarrow> Some (c', d\<lparr>cd_ffirst := Some a\<rparr>))
    (\<lambda>(x, d). growing E c0 d0 (is @ [i]) (xs @ [a]) (d\<lparr>cd_fprev := Some a\<rparr>) x \<and> c_tick x = c_tick c')"
proof -
  have sv: "hurried E (set (is @ [i])) c0 c'" using g hurried_trans [OF _ m(2)] by (auto simp: growing_def)
  have ch: "Chain (fchild c) (cd_ffirst d) xs None" using g by (simp add: growing_def)
  have ax: "a \<notin> set xs" using Chain_defined [OF ch, of a] a by (auto simp: fchild_def)
  have fc: "fchild c' b = fchild c b" if "b \<noteq> a" for b using same_other_flows_fchild [OF m(3)] that by simp
  have ch': "Chain (fchild c') (cd_ffirst d) xs None"
    by (rule Chain_cong [THEN iffD1, OF _ ch]) (use fc ax in metis)
  have oth: "same_other_flows (set (xs @ [a])) c0 c'" using g m(3) by (auto simp: growing_def same_other_flows_def)
  have a0: "c_heap c0 a = None"
  proof -
    have "map_option flow_body (c_heap c a) = map_option flow_body (c_heap c0 a)" using g ax by (simp add: growing_def same_other_flows_def)
    then show ?thesis using a by simp
  qed
  obtain t where s: "c_pcp_servers c ! i = (c_pcp_servers c0 ! i)\<lparr>s_next_timeout := t\<rparr>" using growing_same_servers [OF g] i by (auto simp: same_servers_def)
  have d0: "d0 = d\<lparr>cd_fprev := None, cd_ffirst := None\<rparr>" using g by (simp add: growing_def)
  have cg: "created_by d0 (c_pcp_servers c0 ! i) g" by (rule created_cong [OF m(5) s d0])
  have keep: "\<exists>h. c_heap c' b = Some h \<and> created_by d0 s h" if "\<exists>h. c_heap c b = Some h \<and> created_by d0 s h" "b \<noteq> a" for b s
  proof -
    have "map_option flow_body (c_heap c' b) = map_option flow_body (c_heap c b)" "fbucket c' b = fbucket c b"
      using m(3) that(2) by (simp_all add: same_other_flows_def)
    then show ?thesis using that(1) created_body by (cases "c_heap c' b") (auto simp: fbucket_def)
  qed
  let ?Q = "\<lambda>c a i. c_heap c0 a = None \<and> (\<exists>g. c_heap c a = Some g \<and> created_by d0 (c_pcp_servers c0 ! i) g)"
  have "list_all2 (?Q c) xs is" using g unfolding growing_def by blast
  then have "list_all2 (?Q c') xs is" by (rule list.rel_mono_strong) (use keep ax in blast)
  then have all: "list_all2 (?Q c') (xs @ [a]) (is @ [i])" using a0 cg m(4) by (auto intro: list_all2_appendI)
  show ?thesis
  proof (cases "xs = []")
    case True
    then have "Chain (fchild c') (Some a) [a] None" using m(4,6) by (simp add: fchild_def)
    then show ?thesis using True g m(1) sv oth all d0 by (simp add: growing_def)
  next
    case False
    let ?p = "last xs"
    have p: "?p \<in> set xs" "?p \<noteq> a" using False ax by auto
    obtain f where f: "c_heap c' ?p = Some f" using Chain_defined [OF ch' p(1)] by (auto simp: fchild_def)
    have "fchild c' ?p = Some None" using Chain_next_hd_ptr [of "fchild c'" "cd_ffirst d" "butlast xs" ?p "[]"] ch' False by simp
    then have fn: "f_next_child f = None" using f by (simp add: fchild_def)
    let ?x = "c'\<lparr>c_heap := (c_heap c')(?p \<mapsto> f\<lparr>f_next_child := Some a\<rparr>)\<rparr>"
    have wx: "ctx_wf ?x" using ctx_wf_link [OF m(1) f fn m(4,6)] p(2) by blast
    have fx: "fchild ?x = (fchild c')(?p := Some (Some a))" by (simp add: fchild_def fun_eq_iff)
    have na: "fchild c' a = Some None" using m(4,6) by (simp add: fchild_def)
    have "Chain (fchild ?x) (cd_ffirst d) (xs @ [a]) None" using Chain_snoc [OF ch' ax na] False fx by simp
    moreover have "list_all2 (?Q ?x) (xs @ [a]) (is @ [i])"
      using all by (rule list.rel_mono_strong) (use f in auto)
    moreover have "same_other_flows (set (xs @ [a])) c0 ?x" using oth p(1) by (auto simp: same_other_flows_def fbucket_def)
    moreover have "hurried E (set (is @ [i])) c0 ?x" using sv by (simp add: hurried_def)
    ultimately have "growing E c0 d0 (is @ [i]) (xs @ [a]) (d\<lparr>cd_fprev := Some a\<rparr>) ?x" using wx d0 by (simp add: growing_def)
    moreover have "cd_fprev d = Some ?p" using g False by (simp add: growing_def)
    ultimately show ?thesis using f by simp
  qed
qed

lemma growing_tick [simp]: "growing E c0 d0 is xs d (tick c) \<longleftrightarrow> growing E c0 d0 is xs d c"
  by (simp add: growing_def hurried_def same_other_flows_def fchild_def [abs_def] fbucket_def)

lemma caasi_step:
  assumes g: "growing E c0 d0 is xs d c" and pd: "paid E c0 d0 xs c" and k: "in_use c0 k"
    and e: "mapping_op (kd_operation (cd_kd d0)) \<longleftrightarrow> cd_ext_addr d0 \<noteq> None"
  shows "yields (chain_and_assign_src_ip E k d c) (\<lambda>(c', d', stop).
    if suitable (cd_kd d0) (c_pcp_servers c0 ! k)
    then if stop then calloc_flow E c = None \<and> growing E c0 d0 is xs d' c'
      else \<exists>a. growing E c0 d0 (is @ [k]) (xs @ [a]) d' c' \<and> paid E c0 d0 (xs @ [a]) c'
    else \<not> stop \<and> growing E c0 d0 is xs d' c' \<and> paid E c0 d0 xs c')"
proof -
  let ?s = "c_pcp_servers c ! k"
  let ?kd = "flow_key_for (cd_kd d) ?s"
  note ss = growing_same_servers [OF g]
  have l: "k < length (c_pcp_servers c)" "k < length (c_pcp_servers c0)" using ss k by (simp_all add: same_servers_def in_use_def)
  obtain t where s: "?s = (c_pcp_servers c0 ! k)\<lparr>s_next_timeout := t\<rparr>" using ss l by (auto simp: same_servers_def)
  have u: "in_use c k" using k l s by (simp add: in_use_def)
  have d0: "d0 = d\<lparr>cd_fprev := None, cd_ffirst := None\<rparr>" using g by (simp add: growing_def)
  have wf: "ctx_wf c" using g by (simp add: growing_def)
  have suit: "suitable (cd_kd d0) (c_pcp_servers c0 ! k) \<longleftrightarrow> suitable (cd_kd d) ?s" using d0 s by simp
  have sv: "server_at c k = Some ?s" using l by simp
  show ?thesis
  proof (cases "suitable (cd_kd d) ?s")
    case False
    then have "chain_and_assign_src_ip E k d c = Some (c, d, False)"
      using l u by (auto simp: chain_and_assign_src_ip_def suitable_def flow_key_for_def Let_def in_use_def)
    then show ?thesis using g pd False suit by simp
  next
    case True
    have run: "chain_and_assign_src_ip E k d c = (case calloc_flow E c of None \<Rightarrow> Some (tick c, d, True)
      | Some a \<Rightarrow> (((if kd_operation ?kd = PCP_OPCODE_SADSCP
            then set_sadscp E a (cd_toler_fields d) (cd_app_name d) (tick (c\<lparr>c_heap := (c_heap c)(a \<mapsto> new_flow ?s ?kd)\<rparr>))
            else Some (tick (c\<lparr>c_heap := (c_heap c)(a \<mapsto> new_flow ?s ?kd)\<rparr>)))
          \<bind> init_flow E a k (cd_lifetime d) (cd_ext_addr d)) \<bind> upd_flow a (f_user_data_update (\<lambda>_. cd_userdata d)))
          \<bind> (\<lambda>c'. (case cd_fprev d of Some pv \<Rightarrow> upd_flow pv (f_next_child_update (\<lambda>_. Some a)) c' \<bind> (\<lambda>c. Some (c, d))
              | None \<Rightarrow> Some (c', d\<lparr>cd_ffirst := Some a\<rparr>)) \<bind> (\<lambda>(c, d). Some (c, d\<lparr>cd_fprev := Some a\<rparr>, False))))"
      using True unfolding chain_and_assign_src_ip_def sv
      by (simp add: suitable_def flow_key_for_def Let_def pcp_create_flow_def new_flow_def bind_assoc split: option.split)
    show ?thesis
    proof (cases "calloc_flow E c")
      case None
      then show ?thesis using g run True suit by simp
    next
      case (Some a)
      have a: "c_heap c a = None" using Some by (rule calloc_flow_fresh)
      have e': "mapping_op (kd_operation (cd_kd d)) \<longleftrightarrow> cd_ext_addr d \<noteq> None" using e d0 by simp
      show ?thesis
      proof (subst run, subst Some, unfold option.case, rule yields_bind [OF make_flow [OF wf u a e' refl]])
        fix c' assume m: "ctx_wf c' \<and> hurried E {k} c c' \<and> same_other_flows {a} c c' \<and>
          (mapping_op (kd_operation (cd_kd d)) \<longrightarrow> c_tick c' = c_tick c + 2) \<and> (\<exists>g. c_heap c' a = Some g \<and> created_by d ?s g \<and> f_next_child g = None)"
        then obtain h where h: "c_heap c' a = Some h" "created_by d ?s h" "f_next_child h = None" by blast
        have pay: "paid E c0 d0 (xs @ [a]) x" if "c_tick x = c_tick c'" for x
          using that pd m d0 Some by (auto simp: paid_def nth_append calloc_flow_def less_Suc_eq split: option.splits if_splits)
        show "yields ((case cd_fprev d of Some pv \<Rightarrow> upd_flow pv (f_next_child_update (\<lambda>_. Some a)) c' \<bind> (\<lambda>c. Some (c, d))
              | None \<Rightarrow> Some (c', d\<lparr>cd_ffirst := Some a\<rparr>)) \<bind> (\<lambda>(c, d). Some (c, d\<lparr>cd_fprev := Some a\<rparr>, False)))
          (\<lambda>(c', d', stop). if suitable (cd_kd d0) (c_pcp_servers c0 ! k)
            then if stop then calloc_flow E c = None \<and> growing E c0 d0 is xs d' c'
              else \<exists>a. growing E c0 d0 (is @ [k]) (xs @ [a]) d' c' \<and> paid E c0 d0 (xs @ [a]) c'
            else \<not> stop \<and> growing E c0 d0 is xs d' c' \<and> paid E c0 d0 xs c')"
          by (rule yields_bind2 [OF growing_add [OF g a l(2) _ _ _ h]]) (use m True suit pay in auto)
      qed
    qed
  qed
qed

definition suitable_servers :: "pcp_ctx \<Rightarrow> flow_key_data \<Rightarrow> nat \<Rightarrow> nat list" where
  "suitable_servers c kd n = filter (\<lambda>i. suitable kd (c_pcp_servers c ! i)) [0..<n]"

lemma suitable_servers_less:
  assumes "k < n" and "suitable kd (c_pcp_servers c ! k)"
  shows "length (suitable_servers c kd k) < length (suitable_servers c kd n)"
proof -
  have "[0..<n] = [0..<k] @ k # [Suc k..<n]" using assms(1) by (metis le0 less_imp_le_nat upt_add_eq_append upt_conv_Cons le_add_diff_inverse)
  then show ?thesis using assms(2) by (simp add: suitable_servers_def)
qed

lemma caasi_loop:
  assumes "growing E c0 d0 (suitable_servers c0 (cd_kd d0) k) xs d c" and "k \<le> length (c_pcp_servers c0)" and "paid E c0 d0 xs c"
    and e: "mapping_op (kd_operation (cd_kd d0)) \<longleftrightarrow> cd_ext_addr d0 \<noteq> None"
  shows "yields (foreach_server_loop (chain_and_assign_src_ip E) k d c) (\<lambda>(c', d', r). \<exists>j xs. j \<le> length (c_pcp_servers c0) \<and>
      growing E c0 d0 (suitable_servers c0 (cd_kd d0) j) xs d' c' \<and>
    (r = PCP_ERR_MAX_SIZE \<and> j = length (c_pcp_servers c0) \<and> paid E c0 d0 xs c' \<or>
     r = PCP_ERR_SUCCESS \<and> (\<exists>x. calloc_flow E x = None \<and> same_other_flows (set xs) c0 x \<and> paid E c0 d0 xs x) \<and>
       length xs < length (suitable_servers c0 (cd_kd d0) (length (c_pcp_servers c0)))))"
  using assms(1-3)
proof (induction "length (c_pcp_servers c0) - k" arbitrary: k xs d c)
  case 0
  note ss = growing_same_servers [OF 0(2)]
  then have "k = length (c_pcp_servers c)" using 0 by (simp add: same_servers_def)
  then show ?case using 0 ss by (subst foreach_server_loop.simps) (auto simp: same_servers_def)
next
  case (Suc n)
  note ss = growing_same_servers [OF Suc.prems(1)]
  have k: "k < length (c_pcp_servers c0)" "k < length (c_pcp_servers c)" using Suc.hyps Suc.prems ss by (simp_all add: same_servers_def)
  obtain t where s: "c_pcp_servers c ! k = (c_pcp_servers c0 ! k)\<lparr>s_next_timeout := t\<rparr>" using ss k by (auto simp: same_servers_def)
  let ?ok = "suitable (cd_kd d0) (c_pcp_servers c0 ! k)"
  have next_is: "suitable_servers c0 (cd_kd d0) (Suc k) = suitable_servers c0 (cd_kd d0) k @ (if ?ok then [k] else [])"
    by (simp add: suitable_servers_def)
  note IH = Suc.hyps(1) [of "Suc k"]
  show ?case
  proof (cases "in_use c0 k")
    case False
    then have "\<not> ?ok" using k by (simp add: in_use_def suitable_def)
    then show ?thesis using IH [of xs d c] False Suc s k next_is by (subst foreach_server_loop.simps) (simp add: in_use_def)
  next
    case True
    then have "foreach_server_loop (chain_and_assign_src_ip E) k d c = chain_and_assign_src_ip E k d c \<bind>
        (\<lambda>(c, d, stop). if stop then Some (c, d, PCP_ERR_SUCCESS) else foreach_server_loop (chain_and_assign_src_ip E) (Suc k) d c)"
      using s k by (subst foreach_server_loop.simps) (simp add: in_use_def)
    moreover obtain c' d' stop where st: "chain_and_assign_src_ip E k d c = Some (c', d', stop)"
      "if ?ok then if stop then calloc_flow E c = None \<and> growing E c0 d0 (suitable_servers c0 (cd_kd d0) k) xs d' c'
         else \<exists>a. growing E c0 d0 (suitable_servers c0 (cd_kd d0) k @ [k]) (xs @ [a]) d' c' \<and> paid E c0 d0 (xs @ [a]) c'
       else \<not> stop \<and> growing E c0 d0 (suitable_servers c0 (cd_kd d0) k) xs d' c' \<and> paid E c0 d0 xs c'"
      using caasi_step [OF Suc.prems(1,3) True e] by (auto elim!: yieldsE)
    moreover have "length xs < length (suitable_servers c0 (cd_kd d0) (length (c_pcp_servers c0)))" if ?ok
      using suitable_servers_less [OF k(1) that] Suc.prems(1) by (auto simp: growing_def dest: list_all2_lengthD)
    moreover have "same_other_flows (set xs) c0 c" using Suc.prems(1) by (simp add: growing_def)
    moreover have "stop \<or> (\<exists>ys. growing E c0 d0 (suitable_servers c0 (cd_kd d0) (Suc k)) ys d' c' \<and> paid E c0 d0 ys c')"
      using st(2) next_is by (auto split: if_splits)
    moreover have "\<exists>j\<le>length (c_pcp_servers c0). \<exists>ys. growing E c0 d0 (suitable_servers c0 (cd_kd d0) j) ys d' c' \<and> same_other_flows (set ys) c0 c \<and>
        paid E c0 d0 ys c \<and> length ys < length (suitable_servers c0 (cd_kd d0) (length (c_pcp_servers c0)))" if "stop"
      using st(2) that calculation(3,4) Suc.prems(1,3) k(1) by (intro exI [of _ k] conjI exI [of _ xs]) (auto simp: growing_def split: if_splits)
    ultimately show ?thesis using IH [of _ d' c'] Suc.hyps(2) Suc.prems(2) k by (cases stop) (auto split: if_splits)
  qed
qed

section \<open>Deleting chains\<close>

lemma delete_frame:
  assumes rep: "db_rep c bs" and f: "c_heap c a = Some f" and d: "pcp_delete_flow_intern a c = Some (x, r)"
  shows "c_msg x = c_msg c \<and> (\<forall>j. in_use x j \<longleftrightarrow> in_use c j)"
proof -
  obtain y q where y: "pcp_db_rem_flow a c = Some (y, q)" "db_frame c y"
    using pcp_db_rem_flow_any [OF rep f] by (auto elim!: yieldsE)
  then obtain g where g: "c_heap y a = Some g" "clear_ping_flow a g y \<bind> (\<lambda>c. Some (c\<lparr>c_heap := (c_heap c)(a := None)\<rparr>, PCP_ERR_SUCCESS)) = Some (x, r)"
    using d by (auto simp: pcp_delete_flow_intern_def bind_eq_Some_conv)
  then obtain z where z: "clear_ping_flow a g y = Some z" "x = z\<lparr>c_heap := (c_heap z)(a := None)\<rparr>" by (auto simp: bind_eq_Some_conv)
  have "c_msg z = c_msg y \<and> (\<forall>j. in_use z j \<longleftrightarrow> in_use y j)"
    using z(1) by (auto simp: clear_ping_flow_def in_use_def upd_server_def nth_list_update split: option.splits if_splits)
  then show ?thesis using y(2) z(2) by (simp add: db_frame_def in_use_def)
qed

lemma delete_ctx_wf:
  assumes wf: "ctx_wf c" and f: "c_heap c a = Some f" and p: "\<And>b. fchild c b \<noteq> Some (Some a)"
  shows "yields (pcp_delete_flow_intern a c) (\<lambda>(c', r). ctx_wf c' \<and> c_heap c' a = None \<and>
    same_other_flows {a} c c' \<and> (\<forall>j. in_use c' j \<longleftrightarrow> in_use c j) \<and> c_pcp_servers c' = map (forget_ping a) (c_pcp_servers c))"
proof -
  obtain bs where rep: "db_rep c bs" and sv: "servers_wf c" using wf by (auto simp: ctx_wf_def)
  obtain x r where x: "pcp_delete_flow_intern a c = Some (x, r)" "db_rep x (map (removeAll a) bs)" "servers_wf x" "c_heap x a = None"
    "\<forall>b. b \<noteq> a \<longrightarrow> map_option flow_body (c_heap x b) = map_option flow_body (c_heap c b)"
    "c_pcp_servers x = map (forget_ping a) (c_pcp_servers c)"
    using pcp_delete_flow_intern_refines [OF rep sv f] by (auto elim!: yieldsE)
  have fr: "c_msg x = c_msg c" "\<forall>j. in_use x j \<longleftrightarrow> in_use c j" using delete_frame [OF rep f x(1)] by blast+
  have "b \<in> set (map (removeAll a) bs ! i) \<longleftrightarrow> b \<in> set (bs ! i)" if "i < FLOW_HASH_SIZE" "b \<noteq> a" for b i
    using that db_rep_length [OF rep] by simp
  then have so: "same_other_flows {a} c x" using fbucket_same [OF rep x(2)] x(5) by (simp add: same_other_flows_def)
  have "flow_wf g" if "c_heap x b = Some g" for b g
  proof -
    have "b \<noteq> a" using that x(4) by auto
    then have "map_option flow_body (c_heap c b) = Some (flow_body g)" using that x(5) by (metis option.simps(9))
    then obtain h where h: "c_heap c b = Some h" "flow_body g = flow_body h" by auto
    show ?thesis using wf h flow_body_eqD(4) [OF h(2)] by (auto simp: ctx_wf_def)
  qed
  moreover have "\<exists>xs. Chain (fchild x) (Some b) xs None" if g: "c_heap x b = Some g" for b g
  proof -
    have b: "b \<noteq> a" using g x(4) by auto
    then have "c_heap c b \<noteq> None" using g x(5) [rule_format, of b] by (cases "c_heap c b") auto
    then obtain xs where xs: "Chain (fchild c) (Some b) xs None" using wf by (auto simp: ctx_wf_def children_wf_def)
    have "a \<notin> set xs"
    proof
      assume "a \<in> set xs"
      then obtain us vs where s: "xs = us @ a # vs" by (meson split_list)
      then have "us \<noteq> []" using xs b by auto
      then obtain ws z where "us = ws @ [z]" by (cases us rule: rev_cases) auto
      then have "fchild c z = Some (Some a)" using Chain_next_hd_ptr [of "fchild c" "Some b" ws z "a # vs"] xs s by simp
      then show False using p by blast
    qed
    then have "Chain (fchild x) (Some b) xs None"
      by (intro Chain_cong [THEN iffD1, OF _ xs]) (metis same_other_flows_fchild [OF so] singletonD)
    then show ?thesis by blast
  qed
  ultimately have "ctx_wf x" using wf x(2,3) fr(1) by (auto simp: ctx_wf_def children_wf_def)
  then show ?thesis using x(1,4,6) so fr(2) by simp
qed

text \<open>Deleting a chain no other flow points into.\<close>

lemma delete_chain:
  assumes "ctx_wf c" and "Chain (fchild c) p xs None"
    and "\<And>b a. b \<notin> set xs \<Longrightarrow> a \<in> set xs \<Longrightarrow> fchild c b \<noteq> Some (Some a)"
  shows "yields (pcp_delete_flow p c) (\<lambda>c'. ctx_wf c' \<and> (\<forall>a\<in>set xs. c_heap c' a = None) \<and>
    same_other_flows (set xs) c c' \<and> (\<forall>j. in_use c' j \<longleftrightarrow> in_use c j) \<and>
    c_pcp_servers c' = map (fold forget_ping xs) (c_pcp_servers c))"
  unfolding pcp_delete_flow_def
  using assms
proof (induction xs arbitrary: p c)
  case Nil
  then show ?case by (subst delete_loop.simps) (simp add: same_other_flows_def)
next
  case (Cons a xs)
  then obtain f where f: "p = Some a" "c_heap c a = Some f" "Chain (fchild c) (f_next_child f) xs None" by (auto simp: fchild_Some)
  have ax: "a \<notin> set xs" using Chain_distinct [OF Cons.prems(2)] by simp
  have np: "fchild c b \<noteq> Some (Some a)" for b
  proof (cases "b \<in> set (a # xs)")
    case True
    then obtain us vs where s: "a # xs = us @ b # vs" by (meson split_list)
    have "fchild c b = Some (hd_ptr vs)" using Chain_next_hd_ptr Cons.prems(2) s by metis
    moreover have "a \<notin> set vs" using ax s by (cases us) auto
    ultimately show ?thesis by (cases vs) auto
  next
    case False
    then show ?thesis using Cons.prems(3) by simp
  qed
  obtain x r where x: "pcp_delete_flow_intern a c = Some (x, r)" "ctx_wf x" "c_heap x a = None" "same_other_flows {a} c x"
    "\<forall>j. in_use x j \<longleftrightarrow> in_use c j" "c_pcp_servers x = map (forget_ping a) (c_pcp_servers c)"
    using delete_ctx_wf [OF Cons.prems(1) f(2) np] by (auto elim!: yieldsE)
  have fc: "fchild x b = (if b = a then None else fchild c b)" for b
    using same_other_flows_fchild [OF x(4)] x(3) by (simp add: fchild_def)
  have ch: "Chain (fchild x) (f_next_child f) xs None"
    by (rule Chain_cong [THEN iffD1, OF _ f(3)]) (use fc ax in auto)
  have out: "fchild x b \<noteq> Some (Some d)" if "b \<notin> set xs" "d \<in> set xs" for b d
    using Cons.prems(3) [of b d] that fc [of b] by auto
  obtain y where y: "delete_loop (f_next_child f) x = Some y" "ctx_wf y" "\<forall>a\<in>set xs. c_heap y a = None"
      "same_other_flows (set xs) x y" "\<forall>j. in_use y j \<longleftrightarrow> in_use x j" "c_pcp_servers y = map (fold forget_ping xs) (c_pcp_servers x)"
    using Cons.IH [OF x(2) ch out] by (auto elim!: yieldsE)
  have "map_option flow_body (c_heap y a) = map_option flow_body (c_heap x a)" using y(4) ax unfolding same_other_flows_def by blast
  then have "c_heap y a = None" using x(3) by simp
  moreover have "same_other_flows (set (a # xs)) c y" using y(4) x(4) by (simp add: same_other_flows_def)
  ultimately show ?case using f x(1,5,6) y by (subst delete_loop.simps) (simp add: comp_def)
qed

lemma fold_forget_ping: "(\<And>a. a \<in> set xs \<Longrightarrow> s_ping_flow_msg s \<noteq> Some a) \<Longrightarrow> fold forget_ping xs s = s"
  by (induction xs) (simp_all add: forget_ping_def)

section \<open>pcp_new_flow\<close>

lemma growing_closed:
  assumes wf: "ctx_wf c0" and g: "growing E c0 d0 is xs d c" and b: "b \<notin> set xs" and a: "a \<in> set xs"
  shows "fchild c b \<noteq> Some (Some a)"
proof
  assume p: "fchild c b = Some (Some a)"
  have "fchild c b = fchild c0 b" using g same_other_flows_fchild b by (auto simp: growing_def)
  then obtain f where f: "c_heap c0 b = Some f" "f_next_child f = Some a" using p by (auto simp: fchild_def)
  then obtain ys where "Chain (fchild c0) (Some b) ys None" using wf by (auto simp: ctx_wf_def children_wf_def)
  then have "fchild c0 a \<noteq> None" using f by (cases ys) (auto simp: fchild_def Chain_Some_None)
  moreover have "list_all2 (\<lambda>a i. c_heap c0 a = None \<and> (\<exists>g. c_heap c a = Some g \<and> created_by d0 (c_pcp_servers c0 ! i) g)) xs is"
    using g unfolding growing_def by blast
  then have "c_heap c0 a = None" using a by (auto simp: list_all2_conv_all_nth in_set_conv_nth)
  ultimately show False by (simp add: fchild_def)
qed

lemma new_flow_key_frame:
  assumes "new_flow_key E src dst proto c = Some (c1, Some kd)"
  shows "(c1 = c \<or> c1 = tick c) \<and> kd_operation kd \<in> {PCP_OPCODE_MAP, PCP_OPCODE_PEER}"
  using assms
  by (auto simp: new_flow_key_def findsaddr_def findsaddr6_def Let_def bind_eq_Some_conv
      split: prod.splits option.splits sockaddr.splits if_splits)

text \<open>The addresses the allocator gives for the flows of one request.\<close>

definition flow_memory :: "env \<Rightarrow> pcp_ctx \<Rightarrow> addr list \<Rightarrow> bool" where
  "flow_memory E c xs \<longleftrightarrow> distinct xs \<and>
     (\<forall>m<length xs. env_malloc E (c_tick c + 2 * m) = Some (xs ! m) \<and> c_heap c (xs ! m) = None)"

lemma flow_memory_refused:
  assumes m: "flow_memory E c xs" and n: "length ys < length xs" and x: "calloc_flow E x = None" "same_other_flows (set ys) c x"
    and p: "c_tick x = c_tick c + 2 * length ys" "\<forall>m<length ys. env_malloc E (c_tick c + 2 * m) = Some (ys ! m)"
  shows False
proof -
  let ?a = "xs ! length ys"
  have ys: "ys ! m = xs ! m" if "m < length ys" for m
  proof -
    have "env_malloc E (c_tick c + 2 * m) = Some (xs ! m)" using m that n by (simp add: flow_memory_def)
    then show ?thesis using p(2) that by simp
  qed
  have "?a \<notin> set ys"
  proof
    assume "?a \<in> set ys"
    then obtain m where "m < length ys" "xs ! m = ?a" using ys by (auto simp: in_set_conv_nth)
    then show False using m n nth_eq_iff_index_eq [of xs m "length ys"] by (simp add: flow_memory_def)
  qed
  then have "map_option flow_body (c_heap x ?a) = map_option flow_body (c_heap c ?a)" using x(2) unfolding same_other_flows_def by blast
  moreover have "c_heap c ?a = None" "env_malloc E (c_tick x) = Some ?a" using m n p(1) by (simp_all add: flow_memory_def)
  ultimately show False using x(1) by (simp add: calloc_flow_def)
qed

lemma pings_kept:
  assumes wf: "ctx_wf c" and h: "hurried E I c x" and xs: "\<And>a. a \<in> set xs \<Longrightarrow> c_heap c a = None"
  shows "map (fold forget_ping xs) (c_pcp_servers x) = c_pcp_servers x"
proof (rule map_idI)
  fix s assume "s \<in> set (c_pcp_servers x)"
  then obtain j where j: "j < length (c_pcp_servers x)" "s = c_pcp_servers x ! j" by (auto simp: in_set_conv_nth)
  then have l: "j < length (c_pcp_servers c)" using h by (simp add: hurried_def)
  then have "s_ping_flow_msg s = s_ping_flow_msg (c_pcp_servers c ! j)" using h j unfolding hurried_def by (auto split: if_splits)
  moreover have "server_ok c j" using wf l by (simp add: ctx_wf_def servers_wf_def)
  ultimately show "fold forget_ping xs s = s" using xs by (intro fold_forget_ping) (auto simp: server_ok_def)
qed

lemma pcp_new_flow_spec:
  assumes wf: "ctx_wf c" and key: "new_flow_key E src dst protocol c = Some (c1, Some kd)"
    and ext: "(case ext of None \<Rightarrow> default_ext_addr src | Some e \<Rightarrow> Some e) \<noteq> None"
    and ss: "is = suitable_servers c kd (length (c_pcp_servers c))"
  shows "yields (pcp_new_flow E (Some src) dst ext protocol lifetime userdata c) (\<lambda>(c', p). ctx_wf c' \<and>
    (if \<exists>xs. length xs = length is \<and> flow_memory E c1 xs
     then \<exists>xs. Chain (fchild c') p xs None \<and> flow_memory E c1 xs \<and> same_other_flows (set xs) c c' \<and> hurried E (set is) c c' \<and>
       list_all2 (\<lambda>a i. c_heap c a = None \<and> (\<exists>g. c_heap c' a = Some g \<and> created kd lifetime userdata (c_pcp_servers c ! i) g)) xs is
     else p = None \<and> same_other_flows {} c c' \<and> (\<exists>k. hurried E (set (suitable_servers c kd k)) c c')))"
proof -
  obtain e where e: "(case ext of None \<Rightarrow> default_ext_addr src | Some e \<Rightarrow> Some e) = Some e" using ext by blast
  let ?d = "\<lparr>cd_kd = kd, cd_fprev = None, cd_ffirst = None, cd_lifetime = lifetime, cd_ext_addr = Some e,
    cd_toler_fields = 0, cd_app_name = None, cd_userdata = userdata\<rparr>"
  have c1: "c_pcp_servers c1 = c_pcp_servers c" "c_heap c1 = c_heap c" "ctx_wf c1"
    and op: "mapping_op (kd_operation (cd_kd ?d))" and m: "mapping_op (kd_operation (cd_kd ?d)) \<longleftrightarrow> cd_ext_addr ?d \<noteq> None"
    using new_flow_key_frame [OF key] wf by (auto simp: mapping_op_def)
  have so: "same_other_flows A c1 x \<longleftrightarrow> same_other_flows A c x" "hurried E I c1 x \<longleftrightarrow> hurried E I c x" for A I x
    using c1 by (simp_all add: same_other_flows_def fbucket_def hurried_def)
  have su: "suitable_servers c1 kd = suitable_servers c kd" using c1(1) by (simp add: suitable_servers_def fun_eq_iff)
  have "growing E c1 ?d (suitable_servers c1 (cd_kd ?d) 0) [] ?d c1"
    using c1(3) by (simp add: growing_def hurried_refl suitable_servers_def same_other_flows_def)
  note loop = caasi_loop [OF this le0 _ m, folded pcp_db_foreach_server_def]
  have "paid E c1 ?d [] c1" by (simp add: paid_def)
  from loop [OF this] obtain x d r j xs where x: "pcp_db_foreach_server (chain_and_assign_src_ip E) ?d c1 = Some (x, d, r)"
    "growing E c1 ?d (suitable_servers c kd j) xs d x" "r = PCP_ERR_MAX_SIZE \<and> j = length (c_pcp_servers c) \<and> paid E c1 ?d xs x \<or>
     r = PCP_ERR_SUCCESS \<and> (\<exists>y. calloc_flow E y = None \<and> same_other_flows (set xs) c1 y \<and> paid E c1 ?d xs y) \<and> length xs < length is"
    using su ss c1(1) by (elim yieldsE) (simp split: prod.splits, blast)
  have run: "pcp_new_flow E (Some src) dst ext protocol lifetime userdata c =
      (if r \<noteq> PCP_ERR_MAX_SIZE then pcp_delete_flow (cd_ffirst d) x \<bind> (\<lambda>c. Some (c, None)) else Some (x, cd_ffirst d))"
    using key e x(1) by (simp add: pcp_new_flow_def)
  have g: "ctx_wf x" "Chain (fchild x) (cd_ffirst d) xs None" "same_other_flows (set xs) c x" "hurried E (set (suitable_servers c kd j)) c x"
    using x(2) so by (auto simp: growing_def)
  have all: "list_all2 (\<lambda>a i. c_heap c a = None \<and> (\<exists>g. c_heap x a = Some g \<and> created kd lifetime userdata (c_pcp_servers c ! i) g))
      xs (suitable_servers c kd j)"
    using x(2) c1(1,2) by (simp add: growing_def created_by_def)
  then have new: "c_heap c a = None" if "a \<in> set xs" for a using that by (auto simp: list_all2_conv_all_nth in_set_conv_nth)
  show ?thesis
  proof (cases "r = PCP_ERR_MAX_SIZE")
    case True
    then have j: "suitable_servers c kd j = is" "paid E c1 ?d xs x" using x(3) ss by auto
    have "flow_memory E c1 xs" using j(2) op new c1(2) Chain_distinct [OF g(2)] by (simp add: flow_memory_def paid_def)
    moreover have "length xs = length is" using all j(1) by (auto dest: list_all2_lengthD)
    ultimately show ?thesis using run True g all j(1) by auto
  next
    case False
    then obtain z where z: "calloc_flow E z = None" "same_other_flows (set xs) c1 z" "paid E c1 ?d xs z" "length xs < length is"
      using x(3) by blast
    have no: "\<not> (\<exists>xs. length xs = length is \<and> flow_memory E c1 xs)"
      using flow_memory_refused [of E c1 _ xs z] z op by (fastforce simp: paid_def)
    obtain y where y: "pcp_delete_flow (cd_ffirst d) x = Some y" "ctx_wf y" "\<forall>a\<in>set xs. c_heap y a = None" "same_other_flows (set xs) x y"
      "c_pcp_servers y = map (fold forget_ping xs) (c_pcp_servers x)"
      using delete_chain [OF g(1,2) growing_closed [OF c1(3) x(2)]] by (auto elim!: yieldsE)
    have "c_heap y b = None \<and> c_heap c b = None \<or> b \<notin> set xs" for b using y(3) new by blast
    then have "same_other_flows {} c y" using y(4) g(3) unfolding same_other_flows_def fbucket_def by (metis (no_types, lifting))
    moreover have "hurried E (set (suitable_servers c kd j)) c y" using y(5) g(4) pings_kept [OF wf g(4) new] by (simp add: hurried_def)
    ultimately show ?thesis using run False y no by auto
  qed
qed



section \<open>Changing the nonce\<close>

definition set_nonce :: "pcp_nonce \<Rightarrow> pcp_flow \<Rightarrow> pcp_flow" where
  "set_nonce n f = f\<lparr>f_kd := (f_kd f)\<lparr>kd_nonce := n\<rparr>\<rparr>"

interpretation nonce_visitor: flow_visitor "\<lambda>a. upd_flow a (\<lambda>f. f\<lparr>f_kd := (f_kd f)\<lparr>kd_nonce := n\<rparr>\<rparr>)" "\<lambda>f g. g = set_nonce n f" for n
proof unfold_locales
  fix c a f assume wf: "ctx_wf c" and f: "c_heap c a = Some f"
  have "flow_wf f" using wf f by (auto simp: ctx_wf_def)
  then have "ctx_wf (c\<lparr>c_heap := (c_heap c)(a \<mapsto> set_nonce n f)\<rparr>)"
    by (intro ctx_wf_write [OF wf f]) (simp_all add: set_nonce_def same_links_def flow_wf_def)
  then show "yields (upd_flow a (\<lambda>f. f\<lparr>f_kd := (f_kd f)\<lparr>kd_nonce := n\<rparr>\<rparr>) c) (\<lambda>c'. ctx_wf c' \<and> (\<forall>j. in_use c' j \<longleftrightarrow> in_use c j) \<and>
      (\<exists>g. c_heap c' = (c_heap c)(a \<mapsto> g) \<and> g = set_nonce n f \<and> f_next_child g = f_next_child f))"
    using f by (simp add: set_nonce_def in_use_def)
qed

lemma pcp_get_flow_found:
  assumes wf: "ctx_wf c" and g: "pcp_get_flow k s c = Some (Some b)"
  obtains f where "c_heap c b = Some f" "f_kd f = k" "f_pcp_server_indx f = s_index s" "f_key_bucket f = compute_flow_key k"
proof -
  obtain bs where rep: "db_rep c bs" using wf by (auto simp: ctx_wf_def)
  let ?i = "unat (compute_flow_key k)"
  have "find (flow_matches k (s_index s) c) (bs ! ?i) = Some b" using g pcp_get_flow_refines [OF rep] by simp
  then have b: "b \<in> set (bs ! ?i)" "flow_matches k (s_index s) c b" by (auto simp: find_Some_iff)
  then have "fbucket c b = Some (compute_flow_key k)" using rep hash_in_table [of k] by (auto simp: db_rep_def)
  then show thesis using b(2) that by (auto simp: fbucket_def flow_matches_def kd_bytes_inject split: option.splits)
qed

text \<open>Property C25: what \<^verbatim>\<open>pcp_flow_set_nonce\<close> does to the lookup. It writes the nonce into every flow of
  the chain, but leaves each flow in the bucket of its old key. A flow whose new key belongs to another
  bucket is never found again: no response, whatever its contents, is matched with it.\<close>

theorem pcp_flow_set_nonce_lookup:
  assumes wf: "ctx_wf c" and ch: "Chain (fchild c) (Some a) xs None"
  shows "\<exists>c'. pcp_flow_set_nonce (Some a) (Some n) c = Some (c', 0) \<and> ctx_wf c' \<and>
    (\<forall>b. b \<notin> set xs \<longrightarrow> c_heap c' b = c_heap c b) \<and>
    (\<forall>b\<in>set xs. \<exists>f. c_heap c b = Some f \<and> c_heap c' b = Some (set_nonce n f) \<and>
       (compute_flow_key (f_kd (set_nonce n f)) \<noteq> f_key_bucket f \<longrightarrow> (\<forall>k s. pcp_get_flow k s c' \<noteq> Some (Some b))))"
proof -
  obtain c' where c': "each_flow (\<lambda>a. upd_flow a (\<lambda>f. f\<lparr>f_kd := (f_kd f)\<lparr>kd_nonce := n\<rparr>\<rparr>)) (Some a) c = Some c'" "ctx_wf c'"
    "\<forall>b\<in>set xs. \<exists>f g. c_heap c b = Some f \<and> c_heap c' b = Some g \<and> g = set_nonce n f" "\<forall>b. b \<notin> set xs \<longrightarrow> c_heap c' b = c_heap c b"
    using nonce_visitor.visit_all [OF wf ch, of n] by (auto elim!: yieldsE)
  have "pcp_get_flow k s c' \<noteq> Some (Some b)"
    if "c_heap c' b = Some (set_nonce n f)" "compute_flow_key (f_kd (set_nonce n f)) \<noteq> f_key_bucket f" for b f k s
  proof
    assume "pcp_get_flow k s c' = Some (Some b)"
    then show False using that by (elim pcp_get_flow_found [OF c'(2)]) (auto simp: set_nonce_def)
  qed
  then show ?thesis using c' by (simp add: pcp_flow_set_nonce_def) metis
qed

theorem pcp_flow_set_nonce_lookup_witness:
  "\<exists>c'. pcp_flow_set_nonce (Some 1) (Some (Nonce 1 0 0)) (demo_served pss_wait_io) = Some (c', 0) \<and>
    (\<forall>k s. pcp_get_flow k s c' \<noteq> Some (Some 1))"
proof -
  let ?k = "zero_kd\<lparr>kd_nonce := Nonce 1 0 0\<rparr>"
  have "compute_flow_key ?k = drop_bit 27 (fold hash_byte
      ([0, 0, 0, 0, 0, 0, 0, 0, 0, 0, 0, 0, 0, 0, 0, 0, 0, 0, 0, 0, 0, 0, 0, 0] @ [0, 0, 0, 0, 0, 0, 0, 0, 1] @
       [0, 0, 0, 0, 0, 0, 0, 0, 0, 0, 0, 0, 0, 0, 0, 0, 0, 0, 0, 0, 0, 0, 0, 0, 0, 0, 0, 0, 0, 0, 0, 0, 0, 0, 0, 0, 0, 0, 0, 0, 0, 0, 0]) 0 * 0x9E3779B9)"
    by (simp add: compute_flow_key_def kd_bytes_def in6_bytes_def nonce_bytes_def zero_kd_def in6_zero_def be32_def be16_def
        del: fold_simps fold.simps)
  then have "compute_flow_key ?k \<noteq> 0" by (simp add: hash_byte_def Let_def)
  then show ?thesis
    using pcp_flow_set_nonce_lookup [OF demo_served_wf demo_served_chain, of "Nonce 1 0 0" pss_wait_io] by (auto simp: set_nonce_def)
qed

section \<open>Ending\<close>

text \<open>Closing a flow leaves the chains of the table in place, so the walk closes every flow.\<close>

lemma upd_flow_flows: "upd_flow a g c = Some c' \<Longrightarrow> c_flows c' = c_flows c \<and> c_flow_cnt c' = c_flow_cnt c"
  by (auto simp: upd_flow_Some)

lemma upd_server_flows: "upd_server i g c = Some c' \<Longrightarrow> c_flows c' = c_flows c \<and> c_flow_cnt c' = c_flow_cnt c"
  by (auto simp: upd_server_def split: if_splits)

lemma pcp_flow_updated_flows:
  "pcp_flow_updated E p c = Some c' \<Longrightarrow> c_flows c' = c_flows c \<and> c_flow_cnt c' = c_flow_cnt c"
  by (auto simp: pcp_flow_updated_def pcp_flow_clear_msg_buf_def bind_eq_Some_conv Let_def
      split: option.split_asm dest!: upd_flow_flows upd_server_flows)

lemma pcp_close_flow_intern_flows:
  "pcp_close_flow_intern E a c = Some c' \<Longrightarrow> c_flows c' = c_flows c \<and> c_flow_cnt c' = c_flow_cnt c"
  by (auto simp: pcp_close_flow_intern_def bind_eq_Some_conv split: if_split_asm dest!: pcp_flow_updated_flows upd_flow_flows)

lemma pcp_close_flow_intern_keeps:
  assumes wf: "ctx_wf c" and rep: "db_rep c bs" and f: "c_heap c a = Some f"
  shows "yields (pcp_close_flow_intern E a c) (\<lambda>c'. ctx_wf c' \<and> db_rep c' bs)"
proof -
  obtain d g where d: "pcp_close_flow_intern E a c = Some d" "ctx_wf d" "c_heap d = (c_heap c)(a \<mapsto> g)" "closed_flow f g"
    using pcp_close_flow_intern_visit [OF wf f, of E] by (auto elim!: yieldsE)
  have "f_next g = f_next f" "f_key_bucket g = f_key_bucket f" using d(4) by (auto simp: closed_flow_def split: if_splits)
  then have "fnext d = fnext c" "fbucket d = fbucket c" using d(3) f by (auto simp: fnext_def fbucket_def fun_eq_iff)
  then have "db_rep d bs" using rep db_rep_cong [of d c bs] pcp_close_flow_intern_flows [OF d(1)] by simp
  then show ?thesis using d by simp
qed

interpretation close_walk: table_walk "close_flow_iter E" bs "\<lambda>_ _. ctx_wf" "\<lambda>_ _. False" for E bs
proof unfold_locales
  fix c ys u a zs assume rep: "db_rep c bs" and wf: "ctx_wf c" and a: "concat bs = ys @ a # zs"
  have "a \<in> set (concat bs)" using a by simp
  then obtain i where "i < FLOW_HASH_SIZE" "a \<in> set (bs ! i)" using db_rep_length [OF rep] by (metis (no_types, lifting) in_set_conv_nth set_concat UN_E)
  then have "fbucket c a \<noteq> None" using rep by (auto simp: db_rep_def)
  then obtain f where "c_heap c a = Some f" by (auto simp: fbucket_def)
  from pcp_close_flow_intern_keeps [OF wf rep this, of E]
  show "yields (close_flow_iter E a u c) (\<lambda>(c', d', stop). db_rep c' bs \<and> (if stop then False else ctx_wf c'))"
    by (auto simp: close_flow_iter_def elim!: yieldsE)
qed

text \<open>The walk that deletes every flow empties the table bucket by bucket.\<close>

definition clears :: "pcp_ctx \<Rightarrow> pcp_ctx \<Rightarrow> bool" where
  "clears c c' \<longleftrightarrow> (\<forall>a. c_heap c a = None \<longrightarrow> c_heap c' a = None) \<and> (\<forall>a. linked c a \<longrightarrow> c_heap c' a = None \<or> linked c' a)"

lemma clears_refl [simp]: "clears c c"
  by (simp add: clears_def)

lemma clears_trans: "clears c d \<Longrightarrow> clears d e \<Longrightarrow> clears c e"
  unfolding clears_def by blast

lemma linked_fbucket: "linked c a \<longleftrightarrow> (\<exists>k. fbucket c a = Some k \<and> k \<noteq> EMPTY)"
  by (auto simp: linked_def fbucket_def)

lemma delete_clears:
  assumes rep: "db_rep c bs" and sv: "servers_wf c" and f: "c_heap c a = Some f"
  shows "yields (pcp_delete_flow_intern a c) (\<lambda>(d, r). db_rep d (map (removeAll a) bs) \<and> servers_wf d \<and> clears c d)"
proof -
  obtain d r where d: "pcp_delete_flow_intern a c = Some (d, r)" "db_rep d (map (removeAll a) bs)" "servers_wf d" "c_heap d a = None"
    "\<forall>b. b \<noteq> a \<longrightarrow> map_option flow_body (c_heap d b) = map_option flow_body (c_heap c b)"
    using pcp_delete_flow_intern_refines [OF rep sv f] by (auto elim!: yieldsE)
  have "fbucket d b = fbucket c b" if "b \<noteq> a" for b
    using that d(5) db_rep_length [OF rep] by (intro fbucket_same [OF rep d(2)]) auto
  then have "clears c d" using d(4,5) unfolding clears_def linked_fbucket by (metis option.map_disc_iff)
  then show ?thesis using d by simp
qed

lemma delete_bucket:
  assumes "db_rep c bs" and "servers_wf c" and "i < FLOW_HASH_SIZE"
  shows "yields (foreach_chain delete_flow_iter (hd_ptr (bs ! i)) () c) (\<lambda>(c', _, stop). \<not> stop \<and> servers_wf c' \<and> clears c c' \<and>
    (\<exists>bs'. db_rep c' bs' \<and> bs' ! i = [] \<and> (\<forall>j<FLOW_HASH_SIZE. bs ! j = [] \<longrightarrow> bs' ! j = [])))"
  using assms
proof (induction "bs ! i" arbitrary: bs c)
  case Nil
  then show ?case by (subst foreach_chain.simps) auto
next
  case (Cons a xs)
  have "Chain (fnext c) (c_flows c ! i) ([] @ a # xs) None" using db_rep_chain [OF Cons.prems(1,3)] Cons.hyps(2) by simp
  from Chain_next_hd_ptr [OF this] Chain_distinct [OF this] have n: "fnext c a = Some (hd_ptr xs)" and ax: "a \<notin> set xs" by simp_all
  then obtain f where f: "c_heap c a = Some f" "f_next f = hd_ptr xs" by (auto simp: fnext_Some)
  obtain d r where d: "pcp_delete_flow_intern a c = Some (d, r)" "db_rep d (map (removeAll a) bs)" "servers_wf d" "clears c d"
    using delete_clears [OF Cons.prems(1,2) f(1)] by (auto elim!: yieldsE)
  let ?bs = "map (removeAll a) bs"
  have len: "length bs = FLOW_HASH_SIZE" using Cons.prems(1) by (rule db_rep_length)
  have "?bs ! i = xs" using Cons.hyps(2) Cons.prems(3) len ax by (metis nth_map removeAll.simps(2) removeAll_id)
  with Cons.hyps(1) [of ?bs d] d Cons.prems(3)
  obtain e bs' where e: "foreach_chain delete_flow_iter (hd_ptr xs) () d = Some (e, (), False)" "servers_wf e"
    "db_rep e bs'" "bs' ! i = []" "\<forall>j<FLOW_HASH_SIZE. ?bs ! j = [] \<longrightarrow> bs' ! j = []" "clears d e"
    by (auto elim!: yieldsE)
  have "foreach_chain delete_flow_iter (hd_ptr (bs ! i)) () c = Some (e, (), False)"
    using f d(1) e(1) Cons.hyps(2) by (subst foreach_chain.simps) (auto simp: delete_flow_iter_def dest: sym)
  then show ?case using e len clears_trans [OF d(4) e(6)] by auto
qed

lemma delete_buckets:
  assumes "db_rep c bs" and "servers_wf c" and "i \<le> FLOW_HASH_SIZE" and "\<forall>j<i. bs ! j = []"
  shows "yields (foreach_bucket delete_flow_iter [i..<FLOW_HASH_SIZE] () c) (\<lambda>(c', _, _). servers_wf c' \<and> clears c c' \<and>
    db_rep c' (replicate FLOW_HASH_SIZE []))"
  using assms
proof (induction "FLOW_HASH_SIZE - i" arbitrary: i bs c)
  case 0
  then have "bs = replicate FLOW_HASH_SIZE []" using db_rep_length [OF 0(2)] by (auto intro: nth_equalityI)
  then show ?case using 0 by simp
next
  case (Suc n)
  then have i: "i < FLOW_HASH_SIZE" by simp
  have l: "link_read c (L_bucket i) = Some (hd_ptr (bs ! i))"
    using Chain_hd_ptr [OF db_rep_chain [OF Suc.prems(1) i]] i Suc.prems(1) by (simp add: db_rep_def)
  obtain d bs' where d: "foreach_chain delete_flow_iter (hd_ptr (bs ! i)) () c = Some (d, (), False)" "servers_wf d"
    "db_rep d bs'" "bs' ! i = []" "\<forall>j<FLOW_HASH_SIZE. bs ! j = [] \<longrightarrow> bs' ! j = []" "clears c d"
    using delete_bucket [OF Suc.prems(1,2) i] by (auto elim!: yieldsE)
  have "\<forall>j<Suc i. bs' ! j = []" using d(4,5) Suc.prems(4) i by (auto simp: less_Suc_eq)
  moreover have n: "n = FLOW_HASH_SIZE - Suc i" using Suc.hyps(2) by simp
  ultimately obtain e r where "foreach_bucket delete_flow_iter [Suc i..<FLOW_HASH_SIZE] () d = Some (e, (), r)" "servers_wf e" "clears d e"
    "db_rep e (replicate FLOW_HASH_SIZE [])"
    using Suc.hyps(1) [OF n d(3,2)] i by (auto elim!: yieldsE)
  then show ?case using clears_trans [OF d(6)] d(1) l unfolding upt_conv_Cons [OF i] by simp
qed

text \<open>Terminating the servers does not touch the flows.\<close>

lemma terminate_servers_flows:
  assumes "\<And>i. i \<in> set is \<Longrightarrow> i < length (c_pcp_servers c)"
  shows "yields (terminate_servers E is c) (\<lambda>c'. c_heap c' = c_heap c \<and> c_flows c' = c_flows c \<and> c_flow_cnt c' = c_flow_cnt c)"
  using assms
proof (induction "is" arbitrary: c)
  case (Cons i "is")
  have h: "server_handler st pcpe_terminate = Some S_terminate" for st by (simp add: server_handler_def server_sm_def)
  have i: "i < length (c_pcp_servers c)" using Cons.prems by simp
  let ?d = "c\<lparr>c_pcp_servers := (c_pcp_servers c)[i := (c_pcp_servers c ! i)\<lparr>s_next_timeout := Timeval 0 0, s_server_state := pss_allocated\<rparr>]\<rparr>"
  have "map_option fst (run_server_state_machine E (Some i) pcpe_terminate c) = Some ?d"
    using i by (simp add: run_server_state_machine_def h pcp_terminate_server_def set_timeout_def)
  then show ?case using Cons.IH [of c] Cons.IH [of ?d] Cons.prems i by (auto elim!: yieldsE)
qed simp

text \<open>What \<^verbatim>\<open>pcp_terminate\<close> leaves: no servers, an empty table, and no flow that was in it.\<close>

definition freed :: "pcp_ctx \<Rightarrow> bool" where
  "freed c \<longleftrightarrow> c_pcp_servers c = [] \<and> c_flow_cnt c = 0 \<and> (\<forall>i<FLOW_HASH_SIZE. c_flows c ! i = None) \<and>
     (\<forall>a f. c_heap c a = Some f \<longrightarrow> f_key_bucket f = EMPTY)"

lemma terminate_tables:
  assumes rep: "\<exists>bs. db_rep d bs" and wf: "servers_wf d"
  shows "yields (pcp_terminate E False d) (\<lambda>c'. freed c' \<and> (\<forall>a. linked d a \<longrightarrow> c_heap c' a = None))"
proof -
  obtain bs where bs: "db_rep d bs" using rep ..
  obtain e r where e: "pcp_db_foreach_flow delete_flow_iter () d = Some (e, (), r)" "db_rep e (replicate FLOW_HASH_SIZE [])" "clears d e"
    using delete_buckets [OF bs wf le0] unfolding pcp_db_foreach_flow_def by (auto elim!: yieldsE)
  obtain x where x: "terminate_servers E [0..<length (c_pcp_servers e)] e = Some x" "c_heap x = c_heap e" "c_flows x = c_flows e" "c_flow_cnt x = c_flow_cnt e"
    using terminate_servers_flows [of "[0..<length (c_pcp_servers e)]" e E] by (auto elim!: yieldsE)
  have "pcp_terminate E False d = Some (tick (x\<lparr>c_pcp_servers := []\<rparr>))"
    unfolding pcp_terminate_def e(1) by (simp add: e(1) pcp_db_free_pcp_servers_def x(1))
  moreover have un: "f_key_bucket f = EMPTY" if "c_heap e a = Some f" for a f
  proof (rule ccontr)
    assume k: "f_key_bucket f \<noteq> EMPTY"
    have "fbucket e a = Some (f_key_bucket f)" using that by (simp add: fbucket_def)
    then show False using fbucket_member [OF e(2) k, of a] by (auto simp: nth_replicate)
  qed
  moreover have "c_flow_cnt e = 0" "\<forall>i<FLOW_HASH_SIZE. c_flows e ! i = None"
    using e(2) by (auto simp: db_rep_def)
  moreover have "c_heap e a = None" if "linked d a" for a using that e(3) un by (auto simp: clears_def linked_def)
  ultimately show ?thesis using x by (simp add: freed_def)
qed

text \<open>Property C11: what \<^verbatim>\<open>pcp_terminate\<close> leaves. Whether or not the flows are closed first, the call
  returns, the memory of every flow that was in the table has been freed, the table is empty, its counter
  zero, and the array of servers is gone; a flow that is still allocated was never put into the table. No
  freed flow is touched on the way.\<close>

theorem pcp_terminate_frees:
  assumes "ctx_wf c" and "sendto_bounded E" and "recv_inet E" and "clock_from E N now"
  shows "\<exists>c'. pcp_terminate E close_flows c = Some c' \<and> c_pcp_servers c' = [] \<and> c_flow_cnt c' = 0 \<and>
    (\<forall>i<FLOW_HASH_SIZE. c_flows c' ! i = None) \<and> (\<forall>a f. c_heap c a = Some f \<and> f_key_bucket f \<noteq> EMPTY \<longrightarrow> c_heap c' a = None) \<and>
    (\<forall>a f. c_heap c' a = Some f \<longrightarrow> f_key_bucket f = EMPTY)"
proof -
  obtain d where d: "(if close_flows then do { (c, _, _) \<leftarrow> pcp_db_foreach_flow (close_flow_iter E) () c;
        (c, _, _) \<leftarrow> pcp_pulse E None c; Some c } else Some c) = Some d" "ctx_wf d" "\<And>a. linked c a \<Longrightarrow> linked d a"
  proof (cases close_flows)
    case True
    obtain bs where bs: "db_rep c bs" using assms(1) by (auto simp: ctx_wf_def)
    from close_walk.walk [OF bs assms(1), of E]
    obtain x r where x: "pcp_db_foreach_flow (close_flow_iter E) () c = Some (x, (), r)" "ctx_wf x" "db_rep x bs" by (auto elim!: yieldsE)
    have "linked x a" if "linked c a" for a
      using that fbucket_member [OF bs] fbucket_member [OF x(3)] unfolding linked_fbucket by blast
    moreover obtain y t q where y: "pcp_pulse E None x = Some (y, t, q)" "ctx_wf y"
      using pcp_pulse_ok [OF assms(2-4) x(2), of None] by (auto elim!: yieldsE)
    ultimately show thesis using that [of y] True x later_linked [OF later_pulse [OF y(1)]] by simp
  qed (use assms(1) that in auto)
  have "pcp_terminate E close_flows c = pcp_terminate E False d"
    unfolding pcp_terminate_def d(1) by simp
  moreover obtain c' where c': "pcp_terminate E False d = Some c'" "freed c'" "\<forall>a. linked d a \<longrightarrow> c_heap c' a = None"
    using terminate_tables [of d E] d(2) by (auto simp: ctx_wf_def elim!: yieldsE)
  moreover have "c_heap c' a = None" if "c_heap c a = Some f" "f_key_bucket f \<noteq> EMPTY" for a f
    using that d(3) [of a] c'(3) by (auto simp: linked_def)
  ultimately show ?thesis by (auto simp: freed_def)
qed

theorem pcp_terminate_frees_witness:
  "\<exists>c'. pcp_terminate demo_env True (demo_served pss_wait_io) = Some c' \<and> c_pcp_servers c' = [] \<and> c_flow_cnt c' = 0 \<and>
    c_heap (demo_served pss_wait_io) 1 \<noteq> None \<and> c_heap c' 1 = None"
proof -
  let ?c = "demo_served pss_wait_io"
  obtain c' where c': "pcp_terminate demo_env True ?c = Some c'" "c_pcp_servers c' = []" "c_flow_cnt c' = 0"
    "\<forall>a f. c_heap ?c a = Some f \<and> f_key_bucket f \<noteq> EMPTY \<longrightarrow> c_heap c' a = None"
    using pcp_terminate_frees [OF demo_served_wf demo_env_props(1,3,2), of True pss_wait_io] by blast
  have f: "c_heap ?c 1 = Some zero_flow" "f_key_bucket zero_flow \<noteq> EMPTY" by (simp_all add: zero_flow_def)
  then have "c_heap c' 1 = None" using c'(4) by blast
  then show ?thesis using c'(1-3) f(1) by auto
qed

end
