(* ===== verification/Pcp_Wait.thy ===== *)
theory Pcp_Wait
  imports Pcp_Flow_Life
begin

text \<open>
  Waiting for a flow, \<^verbatim>\<open>pcp_wait\<close> of \<^verbatim>\<open>pcp_api.c\<close>: the loop of turns of the event loop ends, at the
  latest when the time given has passed. The clock may move in any way while the loop runs; it has to
  come to rest, at or after the deadline.
\<close>

section \<open>The deadline\<close>

lemma wait_end_us:
  assumes "wait_end now timeout = Some t"
  shows "tv_us t = tv_us now + timeout * 1000"
proof -
  let ?u = "tv_usec now + (timeout * 1000) smod 1000000"
  have "(\<bar>timeout\<bar> * 1000) mod (1000 * 1000) = (\<bar>timeout\<bar> mod 1000) * 1000" by (rule mod_mult_mult2)
  then have "(timeout * 1000) smod 1000000 = (timeout smod 1000) * 1000"
    by (simp add: smod_int_alt_def abs_mult sgn_mult)
  moreover have "1000 * (timeout sdiv 1000) + timeout smod 1000 = timeout" by (rule mult_sdiv_smod_eq)
  moreover have "1000000 * (?u sdiv 1000000) + ?u smod 1000000 = ?u" by (rule mult_sdiv_smod_eq)
  ultimately show ?thesis using assms by (auto simp: wait_end_def tv_us_def Let_def algebra_simps split: if_splits)
qed

section \<open>The loop ends\<close>

lemma eval_total:
  assumes "ctx_wf c" and "a \<in> dom (c_heap c)"
  obtains n st where "pcp_eval_flow_state (Some a) c = Some (n, st)"
  using assms pcp_eval_flow_state_chain unfolding ctx_wf_def children_wf_def by blast

text \<open>The answer of the loop: the time has passed, or more flows of the chain have reached a final state
  than at the start.\<close>

definition wait_answer :: "addr \<Rightarrow> int \<Rightarrow> bool \<Rightarrow> pcp_ctx \<Rightarrow> pcp_fstate_e \<Rightarrow> bool" where
  "wait_answer a k partial c st \<longleftrightarrow> st = pcp_state_processing \<or>
     (\<exists>n>k. pcp_eval_flow_state (Some a) c = Some (n, st) \<and> (partial \<or> st \<noteq> pcp_state_partial_result))"

lemma wait_loop_returns:
  assumes E: "sendto_bounded E" "recv_inet E" and clk: "clock_from E N now" and le: "tv_us tout_end \<le> tv_us now"
    and "ctx_wf c" and "a \<in> dom (c_heap c)"
  shows "yields (wait_loop E a tout_end k partial c) (\<lambda>(c', st). ctx_wf c' \<and> later c c' \<and> wait_answer a k partial c' st)"
  using assms(5,6) le
proof (induction "N - c_tick c" arbitrary: c tout_end rule: less_induct)
  case less
  obtain tout_select t past where sub: "timeval_subtract tout_end (gettimeofday E c) = (tout_select, t, past)"
    by (rule prod_cases3)
  then have t: "tv_us t = tv_us tout_end" "past \<longleftrightarrow> tv_us tout_end \<le> tv_us (gettimeofday E c)"
    using timeval_subtract_cases timeval_align_us by fastforce+
  show ?case
  proof (cases "past \<or> tv_is_zero tout_select \<or> tv_sec tout_select < 0")
    case True
    then show ?thesis using less.prems(1) by (subst wait_loop.simps) (simp add: sub wait_answer_def)
  next
    case False
    then have N: "c_tick c < N" using clock_read [OF clk, of c] less.prems(3) t(2) by force
    obtain d u r where p: "pcp_pulse E (Some tout_select) (tick c) = Some (d, u, r)" and d: "ctx_wf d"
      using pcp_pulse_ok [OF E clk, of "tick c" "Some tout_select"] less.prems(1) by (auto elim!: yieldsE)
    have l: "later c d" "c_tick c < c_tick d"
      using later_trans [OF later_tick(1) later_pulse [OF p]] later_pulse [OF p] by (auto simp: later_def)
    have a: "a \<in> dom (c_heap d)" using l(1) less.prems(2) by (auto simp: later_def)
    obtain n st where ev: "pcp_eval_flow_state (Some a) d = Some (n, st)" using eval_total [OF d a] .
    have rec: "yields (wait_loop E a t k partial (tick d)) (\<lambda>(c', st). ctx_wf c' \<and> later (tick d) c' \<and> wait_answer a k partial c' st)"
      using less.hyps [of "tick d" t] N l(2) d a t(1) less.prems(3) by simp
    have "later c c'" if "later (tick d) c'" for c'
      using later_trans [OF l(1) later_trans [OF later_tick(1) that]] .
    with rec have "yields (wait_loop E a t k partial (tick d)) (\<lambda>(c', st). ctx_wf c' \<and> later c c' \<and> wait_answer a k partial c' st)"
      by (auto elim!: yields_mono)
    then show ?thesis
      using False p d ev l(1) by (subst wait_loop.simps) (auto simp: sub wait_answer_def)
  qed
qed

lemma pcp_wait_ok:
  assumes E: "sendto_bounded E" "recv_inet E" and clk: "clock_from E N now" and wf: "ctx_wf c" and a: "a \<in> dom (c_heap c)"
    and fits: "- 2147483648 \<le> timeout * 1000" "timeout * 1000 \<le> 2147483647"
    and le: "tv_us (gettimeofday E c) + timeout * 1000 \<le> tv_us now"
  shows "yields (pcp_wait E (Some a) timeout partial c) (\<lambda>(c', st). ctx_wf c' \<and> later c c' \<and> (\<exists>k. wait_answer a k partial c' st))"
proof -
  obtain n st where ev: "pcp_eval_flow_state (Some a) c = Some (n, st)" using eval_total [OF wf a] .
  obtain t where t: "wait_end (gettimeofday E c) timeout = Some t" using fits by (simp add: wait_end_def Let_def)
  let ?k = "if st = pcp_state_partial_result \<or> st = pcp_state_processing then n else 0"
  have "tv_us t \<le> tv_us now" using wait_end_us [OF t] le by simp
  then have "yields (wait_loop E a t ?k partial (tick c)) (\<lambda>(c', st). ctx_wf c' \<and> later (tick c) c' \<and> wait_answer a ?k partial c' st)"
    using wf a by (intro wait_loop_returns [OF E clk]) auto
  then have "yields (wait_loop E a t ?k partial (tick c)) (\<lambda>(c', st). ctx_wf c' \<and> later c c' \<and> (\<exists>k. wait_answer a k partial c' st))"
    by (rule yields_mono) (auto intro: later_trans [OF later_tick(1)])
  then show ?thesis using ev t by (simp add: pcp_wait_def Let_def)
qed

text \<open>Property C27: waiting ends. \<^verbatim>\<open>pcp_wait\<close> on a flow of a well-formed context returns, whatever datagrams
  arrive and however the clock jumps, as long as it finally rests at or after the deadline, the time
  of the call plus the timeout given (which must fit an \<^verbatim>\<open>int\<close> in microseconds). Nothing is freed and
  the context stays well-formed. The state returned is \<^verbatim>\<open>pcp_state_processing\<close> (out of time) or the
  state of the chain in the final context, which is not a partial result unless the caller asked to
  leave on one.\<close>

theorem pcp_wait_returns:
  assumes "sendto_bounded E" and "recv_inet E" and "clock_from E N now" and "ctx_wf c" and "a \<in> dom (c_heap c)"
    and "- 2147483648 \<le> timeout * 1000" and "timeout * 1000 \<le> 2147483647"
    and "tv_us (gettimeofday E c) + timeout * 1000 \<le> tv_us now"
  shows "\<exists>c' st. pcp_wait E (Some a) timeout partial c = Some (c', st) \<and> ctx_wf c' \<and> dom (c_heap c) \<subseteq> dom (c_heap c') \<and>
    (st = pcp_state_processing \<or> (\<exists>n. pcp_eval_flow_state (Some a) c' = Some (n, st)) \<and>
       (partial \<or> st \<noteq> pcp_state_partial_result))"
  using pcp_wait_ok [OF assms, of partial] by (fastforce elim!: yieldsE simp: later_def wait_answer_def)

text \<open>A clock that moves 20 seconds ahead at its 40th reading and rests then.\<close>

definition jump_env :: env where
  "jump_env = demo_env\<lparr>env_gettimeofday := (\<lambda>n. Timeval (if n < 40 then 1000 else 1020) 0)\<rparr>"

lemma jump_env_props: "sendto_bounded jump_env" "recv_inet jump_env" "clock_from jump_env 40 (Timeval 1020 0)"
  using demo_env_props by (simp_all add: sendto_bounded_def recv_inet_def jump_env_def clock_from_def)

theorem pcp_wait_returns_witness:
  "\<exists>c' st. pcp_wait jump_env (Some 1) 20000 False (demo_served pss_wait_io) = Some (c', st) \<and> ctx_wf c' \<and>
    dom (c_heap (demo_served pss_wait_io)) \<subseteq> dom (c_heap c')"
proof -
  have "1 \<in> dom (c_heap (demo_served pss_wait_io))" by (simp add: dom_def)
  moreover have "tv_us (gettimeofday jump_env (demo_served pss_wait_io)) + 20000 * 1000 \<le> tv_us (Timeval 1020 0)"
    by (simp add: gettimeofday_def jump_env_def tv_us_def demo_served_def demo_linked_def zero_ctx_def)
  ultimately show ?thesis
    using pcp_wait_returns [OF jump_env_props demo_served_wf [of pss_wait_io], of 1 20000 False] by fastforce
qed

end
