(* ===== verification/Pcp_Session.thy ===== *)
theory Pcp_Session
  imports Pcp_Wait
begin

text \<open>
  A whole session of a program with the library: \<^verbatim>\<open>pcp_init\<close> with the discovery of the gateways, and the
  example program of the repository, \<^verbatim>\<open>example/pcp-example.c\<close>, which asks for the mapping of a connection,
  waits for it, closes and deletes the flow and ends the context. The operations are those of
  \<open>Pcp_Discovery\<close>, \<open>Pcp_Api\<close> and \<open>Pcp_Wait\<close>; the theory composes what is known of each.
\<close>

section \<open>Discovery\<close>

abbreviation servers_in_use :: "pcp_ctx \<Rightarrow> nat set" where
  "servers_in_use c \<equiv> {j. in_use c j}"

lemma finite_in_use [simp]: "finite (servers_in_use c)"
  by (rule finite_subset [of _ "{..<length (c_pcp_servers c)}"]) (auto simp: in_use_def)

lemma in_use_grow:
  "in_use (c\<lparr>c_pcp_servers := c_pcp_servers c @ replicate n zero_server\<rparr>) j \<longleftrightarrow> in_use c j"
  by (auto simp: in_use_def nth_append)

lemma new_server_slot_use:
  assumes "new_server_slot E c = (c', p)"
  shows "servers_in_use c' = servers_in_use c \<and>
    length (c_pcp_servers c') \<le> max (max PCP_INIT_SERVER_COUNT (length (c_pcp_servers c))) (2 * card (servers_in_use c))"
proof -
  consider (start) "c_pcp_servers c = []" | (free) i where "c_pcp_servers c \<noteq> []" "first_unused (c_pcp_servers c) = Some i"
    | (full) "c_pcp_servers c \<noteq> []" "first_unused (c_pcp_servers c) = None" by fastforce
  then show ?thesis
  proof cases
    case start
    have "c' = tick (c\<lparr>c_pcp_servers := c_pcp_servers c @ replicate PCP_INIT_SERVER_COUNT zero_server\<rparr>) \<or> c' = tick c"
      using assms start by (auto simp: new_server_slot_def first_unused_zero split: if_splits)
    then show ?thesis by (elim disjE) (auto simp: start in_use_def)
  next
    case free
    then show ?thesis using assms by (simp add: new_server_slot_def)
  next
    case full
    have "servers_in_use c = {..<length (c_pcp_servers c)}" using full by (auto simp: first_unused_None in_use_def)
    then have "card (servers_in_use c) = length (c_pcp_servers c)" by simp
    moreover have "c' = tick (c\<lparr>c_pcp_servers := c_pcp_servers c @ replicate (length (c_pcp_servers c)) zero_server\<rparr>) \<or> c' = tick c"
      using assms full by (auto simp: new_server_slot_def Let_def split: if_splits)
    ultimately show ?thesis by (elim disjE) (simp_all add: in_use_grow)
  qed
qed

lemma pcp_new_server_use:
  assumes "pcp_new_server E ip port sc c = Some (c', r)"
  shows "card (servers_in_use c') \<le> Suc (card (servers_in_use c)) \<and>
    length (c_pcp_servers c') \<le> max (max PCP_INIT_SERVER_COUNT (length (c_pcp_servers c))) (2 * card (servers_in_use c))"
proof -
  obtain d p where d: "new_server_slot E c = (d, p)" by (cases "new_server_slot E c")
  note use = new_server_slot_use [OF d]
  have "length (c_pcp_servers c') = length (c_pcp_servers d) \<and> (\<exists>i. servers_in_use c' \<subseteq> insert i (servers_in_use d))"
    using assms d by (auto simp: pcp_new_server_def createNonce_def upd_server_def in_use_def nth_list_update Let_def
        split: option.splits if_splits)
  then obtain i where i: "length (c_pcp_servers c') = length (c_pcp_servers d)" "servers_in_use c' \<subseteq> insert i (servers_in_use c)"
    using use by auto
  have "card (servers_in_use c') \<le> card (insert i (servers_in_use c))" by (rule card_mono [OF _ i(2)]) simp
  also have "\<dots> \<le> Suc (card (servers_in_use c))" by (simp add: card_insert_if)
  finally show ?thesis using use i(1) by simp
qed

text \<open>The gateways that were handled so far have at most one record each, and each that is an address has one
  unless memory ran out.\<close>

definition gw_usable :: "in6_addr \<Rightarrow> bool" where
  "gw_usable gw \<longleftrightarrow> \<not> (IN6_IS_ADDR_V4MAPPED gw \<and> s6_3 gw = 0) \<and> \<not> IPV6_IS_ADDR_ANY gw"

definition has_server :: "in6_addr \<Rightarrow> pcp_ctx \<Rightarrow> bool" where
  "has_server ip c \<longleftrightarrow> (\<exists>i. in_use c i \<and> s_pcp_ip (c_pcp_servers c ! i) = ip)"

definition discovered :: "nat \<Rightarrow> pcp_ctx \<Rightarrow> bool" where
  "discovered k c \<longleftrightarrow> ctx_wf c \<and> c_heap c = (\<lambda>_. None) \<and> card (servers_in_use c) \<le> k \<and>
     length (c_pcp_servers c) \<le> max PCP_INIT_SERVER_COUNT (2 * k)"

lemma pcp_new_server_memory:
  assumes "\<forall>n. env_malloc E n \<noteq> None"
  shows "pcp_new_server E ip port scope c \<noteq> Some (c', PCP_ERR_NO_MEM)"
proof -
  have "snd (new_server_slot E c) \<noteq> None"
    using assms by (auto simp: new_server_slot_def calloc_buf_def Let_def first_unused_zero split: option.split)
  then show ?thesis
    by (auto simp: pcp_new_server_def createNonce_def bind_eq_Some_conv Let_def split: option.splits prod.splits if_splits)
qed

lemma add_gw_ok:
  assumes d: "discovered k c" and k: "k < 2 ^ 29"
  shows "yields (add_gw E gw scope c) (\<lambda>c'. discovered (Suc k) c' \<and> (\<forall>ip. has_server ip c \<longrightarrow> has_server ip c') \<and>
    ((\<forall>n. env_malloc E n \<noteq> None) \<longrightarrow> gw_usable gw \<longrightarrow> has_server gw c'))"
proof (cases "gw_usable gw \<and> get_pcp_server_by_ip gw scope c = Some None")
  case False
  then have r: "add_gw E gw scope c = Some c" using by_ip_total [of gw scope c] by (auto simp: add_gw_def gw_usable_def)
  obtain p where p: "get_pcp_server_by_ip gw scope c = Some p" using by_ip_total by blast
  then have "has_server gw c" if "gw_usable gw"
    using False that by_ip_found [of gw scope c] unfolding has_server_def by (cases p) blast+
  then show ?thesis using d r by (auto simp: discovered_def)
next
  case True
  have len: "length (c_pcp_servers c) \<le> 2 ^ 30" using d k by (auto simp: discovered_def)
  have wf: "ctx_wf c" using d by (simp add: discovered_def)
  obtain c1 r where n: "pcp_new_server E gw PCP_SERVER_PORT scope c = Some (c1, r)" "ctx_wf c1" "c_heap c1 = c_heap c"
    "r = PCP_ERR_NO_MEM \<and> c1 = tick c \<or>
     (\<exists>i. r = int i \<and> get_pcp_server c1 r = Some i \<and> s_pcp_ip (c_pcp_servers c1 ! i) = gw \<and>
       (\<forall>j. in_use c j \<longrightarrow> in_use c1 j \<and> c_pcp_servers c1 ! j = c_pcp_servers c ! j))"
    using pcp_new_server_wf [OF wf len, of E gw PCP_SERVER_PORT scope] by (elim yieldsE) (auto split: prod.splits)
  have d1: "discovered (Suc k) c1" using d n(2,3) pcp_new_server_use [OF n(1)] by (auto simp: discovered_def)
  show ?thesis
    using n(4)
  proof
    assume r: "r = PCP_ERR_NO_MEM \<and> c1 = tick c"
    then have "\<not> (\<forall>n. env_malloc E n \<noteq> None)" using pcp_new_server_memory [of E gw PCP_SERVER_PORT scope c c1] n(1) by metis
    moreover have "add_gw E gw scope c = Some c1" using True n(1) r by (auto simp: add_gw_def gw_usable_def)
    ultimately show ?thesis using r d1 by (auto simp: has_server_def) (metis option.distinct(1))
  next
    assume "\<exists>i. r = int i \<and> get_pcp_server c1 r = Some i \<and> s_pcp_ip (c_pcp_servers c1 ! i) = gw \<and>
       (\<forall>j. in_use c j \<longrightarrow> in_use c1 j \<and> c_pcp_servers c1 ! j = c_pcp_servers c ! j)"
    then obtain i where i: "r = int i" "get_pcp_server c1 r = Some i" "s_pcp_ip (c_pcp_servers c1 ! i) = gw"
      "\<forall>j. in_use c j \<longrightarrow> in_use c1 j \<and> c_pcp_servers c1 ! j = c_pcp_servers c ! j" by blast
    have iu: "in_use c1 i" using i(2) by (rule get_pcp_server_in_use)
    obtain c2 q where f: "psd_fill_pcp_server_src E i c1 = Some (c2, q)" "sm_ok c1 i c2" "c_heap c2 = c_heap c1"
      "s_pcp_ip (c_pcp_servers c2 ! i) = gw"
      using psd_fill_exact [OF sm_ok_start [OF n(2) iu], of E] i(3) by (auto elim!: yieldsE simp: filled_def split: option.splits)
    have use: "servers_in_use c2 = servers_in_use c1" using sm_ok_in_use [OF f(2)] iu by auto
    have "discovered (Suc k) c2" using d1 f(2,3) use by (auto simp: discovered_def sm_ok_def)
    moreover have gw: "has_server gw c2" using f(4) iu use by (auto simp: has_server_def)
    moreover have "has_server ip c2" if "has_server ip c" for ip
    proof -
      from that obtain j where j: "in_use c j" "s_pcp_ip (c_pcp_servers c ! j) = ip" by (auto simp: has_server_def)
      then have "in_use c2 j" "j \<noteq> i \<Longrightarrow> s_pcp_ip (c_pcp_servers c2 ! j) = ip" using i(4) use f(2) by (auto simp: sm_ok_def)
      then show ?thesis using gw j i(3,4) by (cases "j = i") (auto simp: has_server_def)
    qed
    ultimately show ?thesis using True n(1) i(1,2) f(1) by (auto simp: add_gw_def gw_usable_def)
  qed
qed

lemma add_gws_ok:
  assumes "discovered k c" and "k + length gws \<le> 2 ^ 29"
  shows "yields (add_gws E gws c) (\<lambda>c'. discovered (k + length gws) c' \<and> (\<forall>ip. has_server ip c \<longrightarrow> has_server ip c') \<and>
    ((\<forall>n. env_malloc E n \<noteq> None) \<longrightarrow> (\<forall>(gw, sc)\<in>set gws. gw_usable gw \<longrightarrow> has_server gw c')))"
  using assms
proof (induction gws arbitrary: k c)
  case (Cons x gws)
  obtain gw scope where x: "x = (gw, scope)" by (cases x)
  obtain d where d: "add_gw E gw scope c = Some d" "discovered (Suc k) d" "\<forall>ip. has_server ip c \<longrightarrow> has_server ip d"
    "(\<forall>n. env_malloc E n \<noteq> None) \<longrightarrow> gw_usable gw \<longrightarrow> has_server gw d"
    using add_gw_ok [OF Cons.prems(1), of E gw scope] Cons.prems(2) by (auto elim!: yieldsE)
  from Cons.IH [OF d(2)] Cons.prems(2) obtain e where "add_gws E gws d = Some e" "discovered (Suc k + length gws) e"
    "\<forall>ip. has_server ip d \<longrightarrow> has_server ip e"
    "(\<forall>n. env_malloc E n \<noteq> None) \<longrightarrow> (\<forall>(gw, sc)\<in>set gws. gw_usable gw \<longrightarrow> has_server gw e)"
    by (auto elim!: yieldsE)
  then show ?case using x d by auto
qed simp

lemma zero_discovered: "discovered 0 (zero_ctx\<lparr>c_tick := n\<rparr>)"
proof -
  let ?c = "zero_ctx\<lparr>c_tick := n\<rparr>"
  have "db_rep ?c (replicate FLOW_HASH_SIZE [])"
    by (auto simp: db_rep_def fbucket_def nth_replicate)
  moreover have "servers_wf ?c" "children_wf ?c" by (simp_all add: servers_wf_def children_wf_def)
  ultimately show ?thesis
    by (auto simp: discovered_def ctx_wf_def in_use_def zero_ctx_def zero_msg_def)
qed

lemma discovered_tick [simp]: "discovered k (tick c) \<longleftrightarrow> discovered k c"
  by (simp add: discovered_def)

lemma pcp_init_wf:
  assumes "\<And>m. length (env_gateways E m) \<le> 2 ^ 29"
  shows "yields (pcp_init E n True) (\<lambda>r. \<forall>c. r = Some c \<longrightarrow> ctx_wf c)"
proof -
  let ?z = "tick (tick (tick (zero_ctx\<lparr>c_tick := n\<rparr>)))"
  have "discovered 0 ?z" by (simp add: zero_discovered)
  from add_gws_ok [OF this, of "env_gateways E (n + 2)" E] assms [of "n + 2"] show ?thesis
    by (auto simp: pcp_init_def psd_add_gws_def discovered_def Let_def elim!: yieldsE)
qed

text \<open>Property C29: what \<^verbatim>\<open>pcp_init\<close> returns. It gives up (NULL) only when memory or the socket is refused.
  Otherwise the context is well-formed and holds no flow, and with discovery each default gateway of the
  host that is an address has a server record, unless memory ran out on the way; without discovery
  there is no server. The array of servers, which is doubled when it is full, has at most twice as
  many records as there are gateways, or its initial size.\<close>

theorem pcp_init_outcome:
  assumes "\<And>m. length (env_gateways E m) \<le> 2 ^ 29"
  shows "\<exists>r. pcp_init E n autodiscovery = Some r \<and>
    (case r of
       None \<Rightarrow> env_malloc E n = None \<or> \<not> env_socket E (n + 1)
     | Some c \<Rightarrow> ctx_wf c \<and> c_heap c = (\<lambda>_. None) \<and>
         (if autodiscovery
          then length (c_pcp_servers c) \<le> max PCP_INIT_SERVER_COUNT (2 * length (env_gateways E (n + 2))) \<and>
            ((\<forall>m. env_malloc E m \<noteq> None) \<longrightarrow>
              (\<forall>(gw, sc)\<in>set (env_gateways E (n + 2)). gw_usable gw \<longrightarrow> has_server gw c))
          else c_pcp_servers c = []))"
proof -
  let ?z = "zero_ctx\<lparr>c_tick := n\<rparr>"
  have z: "discovered 0 (tick (tick (tick ?z)))" by (simp add: zero_discovered)
  show ?thesis
  proof (cases "calloc_buf E ?z \<and> env_socket E (n + 1)")
    case False
    then show ?thesis by (auto simp: pcp_init_def calloc_buf_def Let_def)
  next
    case True
    show ?thesis
    proof (cases autodiscovery)
      case True
      from add_gws_ok [OF z, of "env_gateways E (n + 2)" E] assms [of "n + 2"]
      obtain c where "add_gws E (env_gateways E (n + 2)) (tick (tick (tick ?z))) = Some c"
        "discovered (length (env_gateways E (n + 2))) c"
        "(\<forall>m. env_malloc E m \<noteq> None) \<longrightarrow> (\<forall>(gw, sc)\<in>set (env_gateways E (n + 2)). gw_usable gw \<longrightarrow> has_server gw c)"
        by (auto elim!: yieldsE)
      then show ?thesis using True \<open>calloc_buf E ?z \<and> env_socket E (n + 1)\<close>
        by (auto simp: pcp_init_def psd_add_gws_def discovered_def Let_def)
    next
      case False
      then show ?thesis using True z by (auto simp: pcp_init_def discovered_def Let_def)
    qed
  qed
qed

theorem pcp_init_outcome_witness:
  "\<exists>c. pcp_init demo_env 0 True = Some (Some c) \<and> ctx_wf c \<and> has_server (v4mapped 0x0A000001) c"
proof -
  have "length (env_gateways demo_env m) \<le> 2 ^ 29" for m by (simp add: demo_env_def)
  from pcp_init_outcome [of demo_env 0 True, OF this] show ?thesis
    by (auto simp: demo_env_def gw_usable_def v4mapped_def IN6_IS_ADDR_V4MAPPED_def IPV6_IS_ADDR_ANY_def IN6_IS_ADDR_UNSPECIFIED_def in6_zero_def split: option.splits)
qed

section \<open>Ending a session\<close>

text \<open>Deleting a chain of flows keeps the table, whatever else points to them.\<close>

lemma delete_loop_tables:
  assumes "db_rep c bs" and "servers_wf c" and "Chain (fchild c) p xs None"
  shows "yields (delete_loop p c) (\<lambda>c'. (\<exists>bs'. db_rep c' bs') \<and> servers_wf c')"
  using assms
proof (induction xs arbitrary: p c bs)
  case Nil
  then show ?case by (subst delete_loop.simps) auto
next
  case (Cons a xs)
  then obtain f where f: "p = Some a" "c_heap c a = Some f" "Chain (fchild c) (f_next_child f) xs None" by (auto simp: fchild_Some)
  have ax: "a \<notin> set xs" using Chain_distinct [OF Cons.prems(3)] by simp
  obtain d r where d: "pcp_delete_flow_intern a c = Some (d, r)" "db_rep d (map (removeAll a) bs)" "servers_wf d"
    "\<forall>b. b \<noteq> a \<longrightarrow> map_option flow_body (c_heap d b) = map_option flow_body (c_heap c b)"
    using pcp_delete_flow_intern_refines [OF Cons.prems(1,2) f(2)] by (auto elim!: yieldsE)
  have "fchild d b = fchild c b" if "b \<noteq> a" for b
    using arg_cong [OF d(4) [rule_format, OF that], of "map_option f_next_child"] by (simp add: fchild_def option.map_comp comp_def flow_body_def)
  then have "Chain (fchild d) (f_next_child f) xs None" using ax by (intro Chain_cong [THEN iffD1, OF _ f(3)]) metis
  from Cons.IH [OF d(2,3) this] show ?case using f d(1) by (subst delete_loop.simps) simp
qed

text \<open>Closing a flow keeps the context well-formed and frees nothing.\<close>

lemma pcp_close_flow_wf:
  assumes E: "sendto_bounded E" "recv_inet E" "clock_from E N now" and wf: "ctx_wf c" and ch: "Chain (fchild c) (Some a) xs None"
  shows "yields (pcp_close_flow E (Some a) c) (\<lambda>c'. ctx_wf c' \<and> a \<in> dom (c_heap c'))"
proof -
  obtain d where d: "each_flow (pcp_close_flow_intern E) (Some a) c = Some d" "ctx_wf d"
    "\<forall>b\<in>set xs. \<exists>f g. c_heap c b = Some f \<and> c_heap d b = Some g \<and> closed_flow f g"
    using close_visitor.visit_all [OF wf ch, of E] by (auto elim!: yieldsE)
  have "a \<in> set xs" using ch by (cases xs) auto
  then have a: "a \<in> dom (c_heap d)" using d(3) by blast
  obtain e t r where e: "pcp_pulse E None d = Some (e, t, r)" "ctx_wf e"
    using pcp_pulse_ok [OF E d(2), of None] by (auto elim!: yieldsE)
  have "a \<in> dom (c_heap e)" using later_pulse [OF e(1)] a by (auto simp: later_def)
  then show ?thesis using d(1) e by (simp add: pcp_close_flow_def)
qed

section \<open>The example program\<close>

text \<open>What the example asks of the system besides the library: the answer of \<^verbatim>\<open>getaddrinfo\<close>, for each
  address whether a socket could be made and connected, and the local address of the socket. What
  \<^verbatim>\<open>send\<close> and \<^verbatim>\<open>recv\<close> do on the connection is only printed.\<close>

record example_sys =
  x_addresses :: "(sockaddr \<times> bool \<times> bool) list option"
  x_sockname :: "sockaddr option"

fun example_connect :: "(sockaddr \<times> bool \<times> bool) list \<Rightarrow> sockaddr option" where
  "example_connect [] = None"
| "example_connect ((ai_addr, socket_ok, connect_ok) # ais) =
     (if \<not> socket_ok then example_connect ais
      else if connect_ok then Some ai_addr
      else example_connect ais)"

text \<open>The program up to the wait: an exit status, with the context if one was ended, or the context and
  the flow.\<close>

definition example_open :: "env \<Rightarrow> example_sys \<Rightarrow> nat \<Rightarrow> (int \<times> pcp_ctx option + pcp_ctx \<times> addr) option" where
  "example_open E S n =
     (case x_addresses S of
        None \<Rightarrow> Some (Inl (1, None))
      | Some results \<Rightarrow>
         (case example_connect results of
            None \<Rightarrow> Some (Inl (1, None))
          | Some dst \<Rightarrow>
             (case x_sockname S of
                None \<Rightarrow> Some (Inl (1, None))
              | Some src \<Rightarrow>
                  do { ctx \<leftarrow> pcp_init E n True;
                       (case ctx of
                          None \<Rightarrow> Some (Inl (1, None))
                        | Some c \<Rightarrow>
                            do { (c, f) \<leftarrow> pcp_new_flow E (Some src) (Some dst) None IPPROTO_TCP 60 None c;
                                 (case f of
                                    None \<Rightarrow> do { c \<leftarrow> pcp_terminate E False c; Some (Inl (1, Some c)) }
                                  | Some a \<Rightarrow> Some (Inr (c, a))) }) })))"

definition example_main :: "env \<Rightarrow> example_sys \<Rightarrow> nat \<Rightarrow> (int \<times> pcp_ctx option) option" where
  "example_main E S n =
     do { r \<leftarrow> example_open E S n;
          (case r of
             Inl e \<Rightarrow> Some e
           | Inr (c, f) \<Rightarrow>
               do { (c, _) \<leftarrow> pcp_wait E (Some f) 500 False c;
                    c \<leftarrow> pcp_close_flow E (Some f) c;
                    c \<leftarrow> pcp_delete_flow (Some f) c;
                    c \<leftarrow> pcp_terminate E False c;
                    Some (0, Some c) }) }"

lemma new_flow_key_total:
  assumes "same_family src dst"
  shows "yields (new_flow_key E src (Some dst) protocol c) (\<lambda>(c1, p). c1 = c \<or> c1 = tick c)"
  using assms
  by (cases src; cases dst)
    (auto simp: new_flow_key_def findsaddr_def findsaddr6_def Let_def split: prod.splits option.splits sockaddr.splits)

lemma new_flow_ok:
  assumes wf: "ctx_wf c" and fam: "same_family src dst"
  shows "yields (pcp_new_flow E (Some src) (Some dst) None protocol lifetime u c) (\<lambda>(c', p). ctx_wf c' \<and>
    (\<forall>a. p = Some a \<longrightarrow> a \<in> dom (c_heap c')))"
proof -
  obtain c1 p where k: "new_flow_key E src (Some dst) protocol c = Some (c1, p)" "c1 = c \<or> c1 = tick c"
    using new_flow_key_total [OF fam, of E protocol c] by (auto elim!: yieldsE)
  show ?thesis
  proof (cases "p = None \<or> default_ext_addr src = None")
    case True
    then show ?thesis using k wf by (auto simp: pcp_new_flow_def split: option.split)
  next
    case False
    then obtain kd where kd: "p = Some kd" "(case None of None \<Rightarrow> default_ext_addr src | Some e \<Rightarrow> Some e) \<noteq> None" by auto
    have ch: "a \<in> dom (c_heap d)" if "Chain (fchild d) (Some a) xs None" for a xs and d :: pcp_ctx
      using that by (cases xs) (auto simp: fchild_Some)
    show ?thesis
      by (rule yields_mono [OF pcp_new_flow_spec [OF wf k(1) [unfolded kd(1)] kd(2) refl, of lifetime u]]) (auto split: if_splits dest: ch)
  qed
qed

text \<open>A connected socket has an address of the family it was connected to.\<close>

definition example_sys_ok :: "example_sys \<Rightarrow> bool" where
  "example_sys_ok S \<longleftrightarrow> (case (x_addresses S, x_sockname S) of
     (Some ais, Some src) \<Rightarrow> (case example_connect ais of None \<Rightarrow> True | Some dst \<Rightarrow> same_family src dst) | _ \<Rightarrow> True)"

lemma example_open_ok:
  assumes gws: "\<And>m. length (env_gateways E m) \<le> 2 ^ 29" and S: "example_sys_ok S"
  shows "yields (example_open E S n) (\<lambda>r. case r of Inl (e, p) \<Rightarrow> e = 1 \<and> (\<forall>c. p = Some c \<longrightarrow> freed c)
    | Inr (c, a) \<Rightarrow> ctx_wf c \<and> a \<in> dom (c_heap c))" (is "yields _ ?P")
proof (cases "\<exists>ais src dst. x_addresses S = Some ais \<and> example_connect ais = Some dst \<and> x_sockname S = Some src")
  case False
  then show ?thesis by (auto simp: example_open_def split: option.split)
next
  case True
  then obtain ais src dst where S': "x_addresses S = Some ais" "example_connect ais = Some dst" "x_sockname S = Some src" by blast
  have fam: "same_family src dst" using S S' by (simp add: example_sys_ok_def)
  obtain r where r: "pcp_init E n True = Some r" "\<And>c. r = Some c \<Longrightarrow> ctx_wf c"
    using pcp_init_wf [OF gws, of n] by (auto elim!: yieldsE)
  show ?thesis
  proof (cases r)
    case None
    then show ?thesis using S' r(1) by (simp add: example_open_def)
  next
    case (Some c)
    obtain d p where d: "pcp_new_flow E (Some src) (Some dst) None IPPROTO_TCP 60 None c = Some (d, p)" "ctx_wf d"
      "\<And>a. p = Some a \<Longrightarrow> a \<in> dom (c_heap d)"
      using new_flow_ok [OF r(2) [OF Some] fam, of E IPPROTO_TCP 60 None] by (auto elim!: yieldsE)
    obtain e where "pcp_terminate E False d = Some e" "freed e"
      using terminate_tables [of d E] d(2) by (auto simp: ctx_wf_def elim!: yieldsE)
    then show ?thesis using S' r(1) Some d by (cases p) (simp_all add: example_open_def)
  qed
qed

text \<open>Property C28: the example program ends. With at most \<^verbatim>\<open>2^29\<close> gateways, an IPv4 and IPv6 socket, a local
  address of the family of the connection and a clock that jumps as it likes but rests half a second or
  more after the wait begins, the program exits, with 0 if it got a flow and with 1 otherwise, and never touches a freed flow: discovery, the
  flow for the connection, the wait, closing and deleting the flow and ending the context all return. If
  a context was made and a flow could be asked for, the context is ended and its table is empty, on the
  error path too.\<close>

theorem example_main_ends:
  assumes "sendto_bounded E" and "recv_inet E" and "clock_from E N now" and "\<And>m. length (env_gateways E m) \<le> 2 ^ 29"
    and "example_sys_ok S"
    and "\<forall>c f. example_open E S n = Some (Inr (c, f)) \<longrightarrow> tv_us (gettimeofday E c) + 500000 \<le> tv_us now"
  shows "\<exists>status p. example_main E S n = Some (status, p) \<and> (\<forall>c. p = Some c \<longrightarrow> freed c) \<and>
    (if \<exists>c f. example_open E S n = Some (Inr (c, f)) then status = 0 \<and> p \<noteq> None else status = 1)"
proof -
  obtain r where r: "example_open E S n = Some r" "case r of Inl (e, p) \<Rightarrow> e = 1 \<and> (\<forall>c. p = Some c \<longrightarrow> freed c)
    | Inr (c, a) \<Rightarrow> ctx_wf c \<and> a \<in> dom (c_heap c)"
    using example_open_ok [OF assms(4,5), of n] by (auto elim!: yieldsE)
  show ?thesis
  proof (cases r)
    case (Inl x)
    then show ?thesis using r by (cases x) (simp add: example_main_def)
  next
    case (Inr x)
    then obtain c a where x: "r = Inr (c, a)" "ctx_wf c" "a \<in> dom (c_heap c)" using r(2) by (cases x) auto
    have "tv_us (gettimeofday E c) + 500 * 1000 \<le> tv_us now" using assms(6) r(1) x(1) by simp
    from pcp_wait_ok [OF assms(1-3) x(2,3) _ _ this, of False]
    obtain d st where d: "pcp_wait E (Some a) 500 False c = Some (d, st)" "ctx_wf d" "later c d" by (auto elim!: yieldsE)
    then obtain xs where "Chain (fchild d) (Some a) xs None"
      using x(3) by (fastforce simp: later_def ctx_wf_def children_wf_def)
    from pcp_close_flow_wf [OF assms(1-3) d(2) this]
    obtain e where e: "pcp_close_flow E (Some a) d = Some e" "ctx_wf e" "a \<in> dom (c_heap e)" by (auto elim!: yieldsE)
    then obtain ys where "Chain (fchild e) (Some a) ys None" by (fastforce simp: ctx_wf_def children_wf_def)
    then obtain f where f: "pcp_delete_flow (Some a) e = Some f" "\<exists>bs. db_rep f bs" "servers_wf f"
      using delete_loop_tables [of e] e(2) by (fastforce simp: ctx_wf_def pcp_delete_flow_def elim!: yieldsE)
    then obtain g where "pcp_terminate E False f = Some g" "freed g"
      using terminate_tables [of f E] by (auto elim!: yieldsE)
    then show ?thesis using r(1) x(1) d(1) e(1) f(1) by (simp add: example_main_def)
  qed
qed

text \<open>The example on a host with the gateway 10.0.0.1: it connects to 93.184.216.34 from 10.0.0.2.\<close>

definition demo_sys :: example_sys where
  "demo_sys = \<lparr>x_addresses = Some [(Sockaddr_in 0x5DB8D822 80, False, False), (Sockaddr_in 0x5DB8D822 80, True, True)],
     x_sockname = Some (Sockaddr_in 0x0A000002 50000)\<rparr>"

lemma server_loop_step:
  "indx < length (c_pcp_servers c) \<Longrightarrow> foreach_server_loop cb indx data c =
     (if s_server_state (c_pcp_servers c ! indx) = pss_unitialized
      then foreach_server_loop cb (Suc indx) data c
      else do { (c, data, stop) \<leftarrow> cb indx data c;
                if stop then Some (c, data, PCP_ERR_SUCCESS) else foreach_server_loop cb (Suc indx) data c })"
  "\<not> indx < length (c_pcp_servers c) \<Longrightarrow> foreach_server_loop cb indx data c = Some (c, data, PCP_ERR_MAX_SIZE)"
  by (subst foreach_server_loop.simps, simp)+

lemma add_flow_end_empty: "link_read c l = Some None \<Longrightarrow> add_flow_end l c = Some l"
  by (subst add_flow_end.simps) simp

lemma replicate_5: "replicate 5 x = [x, x, x, x, x]"
  by (simp add: eval_nat_numeral)

lemmas address_defs = IN6_IS_ADDR_V4MAPPED_def IPV6_IS_ADDR_ANY_def IN6_IS_ADDR_UNSPECIFIED_def IN6_IS_ADDR_LOOPBACK_def
  IN6_IS_ADDR_LINKLOCAL_def

definition demo_host :: "pcp_ctx \<Rightarrow> bool" where
  "demo_host c \<longleftrightarrow> c_tick c = 8 \<and> c_flows c = replicate FLOW_HASH_SIZE None \<and> c_heap c = (\<lambda>_. None) \<and>
     (\<exists>s. c_pcp_servers c = [s, zero_server, zero_server, zero_server, zero_server] \<and> s_server_state s = pss_ping \<and>
        s_pcp_scope_id s = 0 \<and> s_src_ip s = In6 0 0 0xFFFF 0x0A000002)"

lemma demo_init: "yields (pcp_init jump_env 0 True) (\<lambda>r. \<exists>c. r = Some c \<and> demo_host c)"
  by (simp add: pcp_init_def calloc_buf_def jump_env_def demo_env_def psd_add_gws_def add_gw_def get_pcp_server_by_ip_find Let_def
      pcp_new_server_def new_server_slot_def createNonce_def first_unused_zero get_pcp_server_def psd_fill_pcp_server_src_def
      server_at_def pcp_fill_sockaddr_def findsaddr6_def init_server_def replicate_5 demo_host_def address_defs)

lemma demo_new_flow:
  assumes "demo_host c"
  shows "yields (pcp_new_flow jump_env (Some (Sockaddr_in 0x0A000002 50000)) (Some (Sockaddr_in 0x5DB8D822 80)) None IPPROTO_TCP 60 None c)
    (\<lambda>(d, p). p \<noteq> None \<and> c_tick d = 10)"
  using assms less_trans [OF compute_flow_key_bound, of 64]
  by (auto simp: demo_host_def pcp_new_flow_def new_flow_key_def pcp_db_foreach_server_def server_loop_step chain_and_assign_src_ip_def
      server_at_def have_same_af_def pcp_create_flow_def jump_env_def demo_env_def init_flow_def pcp_db_add_flow_def Let_def
      add_flow_end_empty v4mapped_def calloc_flow_def address_defs)

text \<open>The example gets as far as the wait, before the clock moves.\<close>

lemma demo_open: "yields (example_open jump_env demo_sys 0) (\<lambda>r. \<exists>c f. r = Inr (c, f) \<and> c_tick c = 10)"
proof -
  obtain c where c: "pcp_init jump_env 0 True = Some (Some c)" "demo_host c" using demo_init by (auto elim!: yieldsE)
  from demo_new_flow [OF c(2)] show ?thesis using c(1) by (auto simp: example_open_def demo_sys_def elim!: yieldsE)
qed

theorem example_main_ends_witness:
  "\<exists>status p. example_main jump_env demo_sys 0 = Some (status, p) \<and> status = 0 \<and> p \<noteq> None \<and> (\<forall>c. p = Some c \<longrightarrow> freed c)"
proof -
  have g: "length (env_gateways jump_env m) \<le> 2 ^ 29" for m by (simp add: jump_env_def demo_env_def)
  have s: "example_sys_ok demo_sys" by (simp add: example_sys_ok_def demo_sys_def)
  have t: "\<forall>c f. example_open jump_env demo_sys 0 = Some (Inr (c, f)) \<longrightarrow> tv_us (gettimeofday jump_env c) + 500000 \<le> tv_us (Timeval 1020 0)"
    using demo_open by (auto simp: gettimeofday_def jump_env_def tv_us_def elim!: yieldsE)
  have "\<exists>c f. example_open jump_env demo_sys 0 = Some (Inr (c, f))" using demo_open by (auto elim!: yieldsE)
  then show ?thesis using example_main_ends [OF jump_env_props g s t] by auto
qed

end
