(* ===== verification/Pcp_Layout.thy ===== *)
theory Pcp_Layout
  imports Pcp_Msg
begin

text \<open>
  The packed structures of \<^verbatim>\<open>pcp_msg_structs.h\<close> as types: their members with their sizes and offsets, values of these types
  and their bytes. The messages the library builds are shown to be values of the structures the code
  overlays on its buffer, so that the offsets of \<open>Pcp_Msg\<close> are those the declarations give. All
  integers are in network byte order. Members of size 0 that only name what follows are left out of the
  declarations and get their length from what is written there.
\<close>

section \<open>Types\<close>

datatype ctype = C_u8 | C_u16 | C_u32 | C_array nat ctype

fun sizeof :: "ctype \<Rightarrow> nat" where
  "sizeof C_u8 = 1"
| "sizeof C_u16 = 2"
| "sizeof C_u32 = 4"
| "sizeof (C_array n t) = n * sizeof t"

type_synonym struct = "(string \<times> ctype) list"

definition struct_size :: "struct \<Rightarrow> nat" where
  "struct_size st = sum_list (map (\<lambda>(nm, t). sizeof t) st)"

text \<open>Members of a packed structure follow each other without gaps.\<close>

fun offsetof :: "struct \<Rightarrow> string \<Rightarrow> nat option" where
  "offsetof [] nm = None"
| "offsetof ((m, t) # st) nm = (if m = nm then Some 0 else map_option (\<lambda>k. sizeof t + k) (offsetof st nm))"

section \<open>The structures\<close>

definition struct_pcp_request :: struct where
  "struct_pcp_request = [(''ver'', C_u8), (''r_opcode'', C_u8), (''reserved'', C_u16), (''req_lifetime'', C_u32), (''ip'', C_array 4 C_u32)]"

definition struct_pcp_response :: struct where
  "struct_pcp_response = [(''ver'', C_u8), (''r_opcode'', C_u8), (''reserved'', C_u8), (''result_code'', C_u8), (''lifetime'', C_u32),
     (''epochtime'', C_u32), (''reserved1'', C_array 3 C_u32)]"

definition struct_pcp_options_hdr :: struct where
  "struct_pcp_options_hdr = [(''code'', C_u8), (''reserved'', C_u8), (''len'', C_u16)]"

definition struct_nat_pmp_announce_req :: struct where
  "struct_nat_pmp_announce_req = [(''ver'', C_u8), (''opcode'', C_u8)]"

definition struct_nat_pmp_announce_resp :: struct where
  "struct_nat_pmp_announce_resp = [(''ver'', C_u8), (''opcode'', C_u8), (''result'', C_u16), (''epoch'', C_u32), (''ext_ip'', C_u32)]"

definition struct_nat_pmp_map_req :: struct where
  "struct_nat_pmp_map_req = [(''ver'', C_u8), (''opcode'', C_u8), (''reserved'', C_u16), (''int_port'', C_u16), (''ext_port'', C_u16),
     (''lifetime'', C_u32)]"

definition struct_nat_pmp_map_resp :: struct where
  "struct_nat_pmp_map_resp = [(''ver'', C_u8), (''opcode'', C_u8), (''result'', C_u16), (''epoch'', C_u32), (''int_port'', C_u16),
     (''ext_port'', C_u16), (''lifetime'', C_u32)]"

definition struct_nat_pmp_inv_version_resp :: struct where
  "struct_nat_pmp_inv_version_resp = [(''ver'', C_u8), (''opcode'', C_u8), (''result'', C_u16), (''epoch'', C_u32)]"

definition struct_pcp_map_v1 :: struct where
  "struct_pcp_map_v1 = [(''protocol'', C_u8), (''reserved'', C_array 3 C_u8), (''int_port'', C_u16), (''ext_port'', C_u16),
     (''ext_ip'', C_array 4 C_u32)]"

definition struct_pcp_map_v2 :: struct where
  "struct_pcp_map_v2 = [(''nonce'', C_array 3 C_u32), (''protocol'', C_u8), (''reserved'', C_array 3 C_u8), (''int_port'', C_u16),
     (''ext_port'', C_u16), (''ext_ip'', C_array 4 C_u32)]"

definition struct_pcp_peer_v1 :: struct where
  "struct_pcp_peer_v1 = [(''protocol'', C_u8), (''reserved'', C_array 3 C_u8), (''int_port'', C_u16), (''ext_port'', C_u16),
     (''ext_ip'', C_array 4 C_u32), (''peer_port'', C_u16), (''reserved1'', C_u16), (''peer_ip'', C_array 4 C_u32)]"

definition struct_pcp_peer_v2 :: struct where
  "struct_pcp_peer_v2 = [(''nonce'', C_array 3 C_u32), (''protocol'', C_u8), (''reserved'', C_array 3 C_u8), (''int_port'', C_u16),
     (''ext_port'', C_u16), (''ext_ip'', C_array 4 C_u32), (''peer_port'', C_u16), (''reserved1'', C_u16), (''peer_ip'', C_array 4 C_u32)]"

definition struct_pcp_sadscp_req :: struct where
  "struct_pcp_sadscp_req = [(''nonce'', C_array 3 C_u32), (''tolerance_fields'', C_u8), (''app_name_length'', C_u8)]"

definition struct_pcp_sadscp_resp :: struct where
  "struct_pcp_sadscp_resp = [(''nonce'', C_array 3 C_u32), (''a_r_dscp'', C_u8), (''reserved'', C_array 3 C_u8)]"

definition struct_pcp_location_option :: struct where
  "struct_pcp_location_option = [(''option'', C_u8), (''reserved'', C_u8), (''len'', C_u16), (''location'', C_array MAX_GEO_STR C_u8)]"

definition struct_pcp_userid_option :: struct where
  "struct_pcp_userid_option = [(''option'', C_u8), (''reserved'', C_u8), (''len'', C_u16), (''userid'', C_array MAX_USER_ID C_u8)]"

definition struct_pcp_deviceid_option :: struct where
  "struct_pcp_deviceid_option = [(''option'', C_u8), (''reserved'', C_u8), (''len'', C_u16), (''deviceid'', C_array MAX_DEVICE_ID C_u8)]"

definition struct_pcp_prefer_fail_option :: struct where
  "struct_pcp_prefer_fail_option = [(''option'', C_u8), (''reserved'', C_u8), (''len'', C_u16)]"

definition struct_pcp_3rd_party_option :: struct where
  "struct_pcp_3rd_party_option = [(''option'', C_u8), (''reserved'', C_u8), (''len'', C_u16), (''ip'', C_array 4 C_u32)]"

definition struct_pcp_filter_option :: struct where
  "struct_pcp_filter_option = [(''option'', C_u8), (''reserved'', C_u8), (''len'', C_u16), (''reserved2'', C_u8), (''filter_prefix'', C_u8),
     (''filter_peer_port'', C_u16), (''filter_peer_ip'', C_array 4 C_u32)]"

definition struct_pcp_flow_priority_option :: struct where
  "struct_pcp_flow_priority_option = [(''option'', C_u8), (''reserved'', C_u8), (''len'', C_u16), (''dscp_up'', C_u8), (''dscp_down'', C_u8),
     (''reserved2'', C_u8), (''response_bit'', C_u8)]"

definition struct_pcp_metadata_option :: struct where
  "struct_pcp_metadata_option = [(''option'', C_u8), (''reserved'', C_u8), (''len'', C_u16), (''metadata_id'', C_u32)]"

lemmas struct_defs = struct_pcp_request_def struct_pcp_response_def struct_pcp_options_hdr_def struct_nat_pmp_announce_req_def
  struct_nat_pmp_announce_resp_def struct_nat_pmp_map_req_def struct_nat_pmp_map_resp_def struct_nat_pmp_inv_version_resp_def
  struct_pcp_map_v1_def struct_pcp_map_v2_def struct_pcp_peer_v1_def struct_pcp_peer_v2_def struct_pcp_sadscp_req_def
  struct_pcp_sadscp_resp_def struct_pcp_location_option_def struct_pcp_userid_option_def struct_pcp_deviceid_option_def
  struct_pcp_prefer_fail_option_def struct_pcp_3rd_party_option_def struct_pcp_filter_option_def
  struct_pcp_flow_priority_option_def struct_pcp_metadata_option_def

text \<open>The sizes that the lengths in the code are computed from.\<close>

lemma struct_sizes:
  "struct_size struct_pcp_request = 24" "struct_size struct_pcp_response = 24" "struct_size struct_pcp_options_hdr = 4"
  "struct_size struct_pcp_map_v1 = 24" "struct_size struct_pcp_map_v2 = 36" "struct_size struct_pcp_peer_v1 = 44"
  "struct_size struct_pcp_peer_v2 = 56" "struct_size struct_pcp_sadscp_req = 14" "struct_size struct_pcp_sadscp_resp = 16"
  "struct_size struct_pcp_metadata_option = 8"
  by (simp_all add: struct_size_def struct_defs)

section \<open>Values\<close>

datatype cval = V_u8 u8 | V_u16 u16 | V_u32 u32 | V_array "cval list"

fun has_type :: "cval \<Rightarrow> ctype \<Rightarrow> bool" where
  "has_type (V_u8 v) t \<longleftrightarrow> t = C_u8"
| "has_type (V_u16 v) t \<longleftrightarrow> t = C_u16"
| "has_type (V_u32 v) t \<longleftrightarrow> t = C_u32"
| "has_type (V_array vs) t \<longleftrightarrow> (case t of C_array n t' \<Rightarrow> length vs = n \<and> (\<forall>v\<in>set vs. has_type v t') | _ \<Rightarrow> False)"

fun encode :: "cval \<Rightarrow> bytes" where
  "encode (V_u8 v) = [v]"
| "encode (V_u16 v) = be16 v"
| "encode (V_u32 v) = be32 v"
| "encode (V_array vs) = concat (map encode vs)"

text \<open>A structure as a designated initialiser: every member by its name, in the order of the declaration.\<close>

type_synonym initialiser = "(string \<times> cval) list"

definition struct_typed :: "struct \<Rightarrow> initialiser \<Rightarrow> bool" where
  "struct_typed st vs \<longleftrightarrow> list_all2 (\<lambda>(nm, t) (m, v). nm = m \<and> has_type v t) st vs"

definition encode_struct :: "initialiser \<Rightarrow> bytes" where
  "encode_struct vs = concat (map (encode \<circ> snd) vs)"

lemma sum_list_equal: "\<forall>x\<in>set xs. g x = (k :: nat) \<Longrightarrow> sum_list (map g xs) = length xs * k"
  by (induction xs) auto

lemma encode_size: "has_type v t \<Longrightarrow> length (encode v) = sizeof t"
proof (induction v arbitrary: t)
  case (V_array vs)
  then obtain n t' where t: "t = C_array n t'" "length vs = n" "\<forall>v\<in>set vs. has_type v t'" by (auto split: ctype.splits)
  then have "\<forall>v\<in>set vs. (length \<circ> encode) v = sizeof t'" using V_array.IH by auto
  from sum_list_equal [OF this] show ?case using t by (simp add: length_concat comp_def)
qed auto

lemma struct_typed_simps [simp]:
  "struct_typed [] vs \<longleftrightarrow> vs = []"
  "struct_typed ((nm, t) # st) [] \<longleftrightarrow> False"
  "struct_typed ((nm, t) # st) ((m, v) # vs) \<longleftrightarrow> nm = m \<and> has_type v t \<and> struct_typed st vs"
  by (simp_all add: struct_typed_def)

lemma encode_struct_simps [simp]:
  "encode_struct [] = []"
  "encode_struct ((nm, v) # vs) = encode v @ encode_struct vs"
  by (simp_all add: encode_struct_def)

lemma encode_struct_size: "struct_typed st vs \<Longrightarrow> length (encode_struct vs) = struct_size st"
  unfolding struct_typed_def
  by (induction rule: list_all2_induct) (auto simp: encode_size struct_size_def split: prod.splits)

text \<open>The bytes of a member of a structure that lies at an address of a buffer.\<close>

definition member_bytes :: "struct \<Rightarrow> string \<Rightarrow> nat \<Rightarrow> bytes \<Rightarrow> bytes option" where
  "member_bytes st nm loc buf =
     do { t \<leftarrow> map_of st nm; k \<leftarrow> offsetof st nm; Some (take (sizeof t) (drop (loc + k) buf)) }"

text \<open>What an initialiser gives to a member is what is read at its offset.\<close>

lemma member_at:
  "struct_typed st vs \<Longrightarrow> distinct (map fst vs) \<Longrightarrow> (nm, v) \<in> set vs \<Longrightarrow>
   member_bytes st nm (length pre) (pre @ encode_struct vs @ post) = Some (encode v)"
proof (induction st arbitrary: vs pre)
  case (Cons d st)
  obtain m t where d: "d = (m, t)" by force
  with Cons.prems obtain x vs' where vs: "vs = (m, x) # vs'" "has_type x t" "struct_typed st vs'"
    by (cases vs) auto
  show ?case
  proof (cases "nm = m")
    case True
    then have "v = x" using Cons.prems vs by force
    then show ?thesis using True vs d by (simp add: member_bytes_def encode_size)
  next
    case False
    then have "(nm, v) \<in> set vs'" "distinct (map fst vs')" using Cons.prems vs by auto
    from Cons.IH [OF vs(3) this(2,1), of "pre @ encode x"]
    show ?thesis using False vs d by (auto simp: member_bytes_def encode_size add.assoc bind_eq_Some_conv)
  qed
qed simp

section \<open>The requests as structures\<close>

definition in6_value :: "in6_addr \<Rightarrow> cval" where
  "in6_value a = V_array [V_u32 (s6_0 a), V_u32 (s6_1 a), V_u32 (s6_2 a), V_u32 (s6_3 a)]"

definition nonce_value :: "pcp_nonce \<Rightarrow> cval" where
  "nonce_value n = V_array [V_u32 (nonce_0 n), V_u32 (nonce_1 n), V_u32 (nonce_2 n)]"

definition request_values :: "u8 \<Rightarrow> pcp_flow \<Rightarrow> initialiser" where
  "request_values v f =
     [(''ver'', V_u8 v), (''r_opcode'', V_u8 (kd_operation (f_kd f) AND 0x7F)), (''reserved'', V_u16 0),
      (''req_lifetime'', V_u32 (f_lifetime f)), (''ip'', in6_value (kd_src_ip (f_kd f)))]"

definition map_values :: "pcp_flow \<Rightarrow> initialiser" where
  "map_values f =
     [(''protocol'', V_u8 (kd_protocol (f_kd f))), (''reserved'', V_array [V_u8 0, V_u8 0, V_u8 0]),
      (''int_port'', V_u16 (kd_src_port (f_kd f))), (''ext_port'', V_u16 (u_ext_port (f_u f))), (''ext_ip'', in6_value (u_ext_ip (f_u f)))]"

definition peer_values :: "pcp_flow \<Rightarrow> initialiser" where
  "peer_values f = map_values f @
     [(''peer_port'', V_u16 (kd_dst_port (f_kd f))), (''reserved1'', V_u16 0), (''peer_ip'', in6_value (kd_dst_ip (f_kd f)))]"

text \<open>The application name of a SADSCP request is followed by zeros up to a multiple of four; without memory for the name
  there are zeros in its place.\<close>

definition sadscp_name :: "pcp_flow \<Rightarrow> bytes" where
  "sadscp_name f = (let len = u_app_name_length (f_u f) in
     (case f_sadscp_app_name f of Some name \<Rightarrow> take (unat len) name | None \<Rightarrow> replicate (unat len) 0) @ replicate (sadscp_fill len) 0)"

definition sadscp_values :: "pcp_flow \<Rightarrow> initialiser" where
  "sadscp_values f = [(''tolerance_fields'', V_u8 (u_toler_fields (f_u f))),
     (''app_name_length'', V_u8 (u_app_name_length (f_u f) + of_nat (sadscp_fill (u_app_name_length (f_u f))))),
     (''app_name'', V_array (map V_u8 (sadscp_name f)))]"

definition opcode_values :: "u8 \<Rightarrow> pcp_flow \<Rightarrow> initialiser" where
  "opcode_values v f = (if v = 2 then [(''nonce'', nonce_value (kd_nonce (f_kd f)))] else []) @
     (if kd_operation (f_kd f) = PCP_OPCODE_MAP then map_values f
      else if kd_operation (f_kd f) = PCP_OPCODE_PEER then peer_values f else sadscp_values f)"

text \<open>The structure the builder overlays on the data of the opcode. A trailing array of length 0 in a declaration has the
  length of what is written there.\<close>

definition opcode_struct :: "u8 \<Rightarrow> pcp_flow \<Rightarrow> struct" where
  "opcode_struct v f =
     (if kd_operation (f_kd f) = PCP_OPCODE_MAP then (if v = 1 then struct_pcp_map_v1 else struct_pcp_map_v2)
      else if kd_operation (f_kd f) = PCP_OPCODE_PEER then (if v = 1 then struct_pcp_peer_v1 else struct_pcp_peer_v2)
      else struct_pcp_sadscp_req @
        [(''app_name'', C_array (unat (u_app_name_length (f_u f)) + sadscp_fill (u_app_name_length (f_u f))) C_u8)])"

definition option_struct :: "u8 \<Rightarrow> struct" where
  "option_struct c =
     (if c = PCP_OPTION_FLOW_PRIORITY then struct_pcp_flow_priority_option
      else if c = PCP_OPTION_FILTER then struct_pcp_filter_option
      else if c = PCP_OPTION_PREF_FAIL then struct_pcp_prefer_fail_option
      else if c = PCP_OPTION_3RD_PARTY then struct_pcp_3rd_party_option
      else if c = PCP_OPTION_DEVICEID then struct_pcp_deviceid_option
      else if c = PCP_OPTION_USERID then struct_pcp_userid_option
      else struct_pcp_location_option)"

definition option_header :: "u8 \<Rightarrow> initialiser" where
  "option_header c = [(''option'', V_u8 c), (''reserved'', V_u8 0), (''len'', V_u16 (of_nat (struct_size (option_struct c) - 4)))]"

definition option_values :: "pcp_flow \<Rightarrow> u8 \<Rightarrow> initialiser" where
  "option_values f c = option_header c @
     (if c = PCP_OPTION_FLOW_PRIORITY then
        [(''dscp_up'', V_u8 (f_flowp_dscp_up f)), (''dscp_down'', V_u8 (f_flowp_dscp_down f)), (''reserved2'', V_u8 0),
         (''response_bit'', V_u8 0)]
      else if c = PCP_OPTION_FILTER then
        [(''reserved2'', V_u8 0), (''filter_prefix'', V_u8 (f_filter_prefix f)), (''filter_peer_port'', V_u16 (f_filter_port f)),
         (''filter_peer_ip'', in6_value (f_filter_ip f))]
      else if c = PCP_OPTION_PREF_FAIL then []
      else if c = PCP_OPTION_3RD_PARTY then [(''ip'', in6_value (f_third_party_ip f))]
      else if c = PCP_OPTION_DEVICEID then [(''deviceid'', V_array (map V_u8 (f_deviceid f)))]
      else if c = PCP_OPTION_USERID then [(''userid'', V_array (map V_u8 (f_userid f)))]
      else [(''location'', V_array (map V_u8 (f_location f)))])"

text \<open>A metadata option, whose value is padded to a multiple of four.\<close>

definition md_value :: "md_val \<Rightarrow> bytes" where
  "md_value md = md_val_buf md @ replicate (md_padding (length (md_val_buf md))) 0"

definition md_struct :: "md_val \<Rightarrow> struct" where
  "md_struct md = struct_pcp_metadata_option @ [(''metadata'', C_array (length (md_value md)) C_u8)]"

definition md_values :: "md_val \<Rightarrow> initialiser" where
  "md_values md = [(''option'', V_u8 PCP_OPTION_METADATA), (''reserved'', V_u8 0), (''len'', V_u16 (of_nat (4 + length (md_value md)))),
     (''metadata_id'', V_u32 (ucast (md_id md))), (''metadata'', V_array (map V_u8 (md_value md)))]"

text \<open>The metadata that is not empty and still fits when the message ends at \<open>pos\<close>.\<close>

fun md_sent :: "nat \<Rightarrow> md_val list \<Rightarrow> md_val list" where
  "md_sent pos [] = []"
| "md_sent pos (md # mds) =
     (if md_val_buf md = [] \<or> pos + struct_size (md_struct md) > PCP_MAX_LEN then md_sent pos mds
      else md # md_sent (pos + struct_size (md_struct md)) mds)"

definition present_options :: "pcp_flow \<Rightarrow> u8 list" where
  "present_options f = map fst (fixed_options f)"

lemma value_types [simp]:
  "has_type (in6_value a) (C_array n t) \<longleftrightarrow> n = 4 \<and> t = C_u32"
  "has_type (nonce_value nc) (C_array n t) \<longleftrightarrow> n = 3 \<and> t = C_u32"
  by (auto simp: in6_value_def nonce_value_def)

lemma value_bytes [simp]:
  "encode (in6_value a) = in6_bytes a"
  "encode (nonce_value nc) = nonce_bytes nc"
  "concat (map (encode \<circ> V_u8) bs) = bs"
  by (simp_all add: in6_value_def in6_bytes_def nonce_value_def nonce_bytes_def comp_def)

lemma zero_bytes: "be16 0 = [0, 0]"
  by (simp add: be16_def)

lemmas values_defs = request_values_def map_values_def peer_values_def opcode_values_def option_header_def option_values_def
  sadscp_values_def md_values_def

lemma request_values_typed: "struct_typed struct_pcp_request (request_values v f)"
  by (simp add: struct_defs values_defs)

lemma request_values_bytes: "encode_struct (request_values v f) = request_header v f"
  by (simp add: values_defs request_header_def zero_bytes)

text \<open>The requests the two versions of PCP have.\<close>

definition request_kind :: "u8 \<Rightarrow> pcp_flow \<Rightarrow> bool" where
  "request_kind v f \<longleftrightarrow> kd_operation (f_kd f) \<in> {PCP_OPCODE_ANNOUNCE, PCP_OPCODE_MAP, PCP_OPCODE_PEER} \<or>
     kd_operation (f_kd f) = PCP_OPCODE_SADSCP \<and> v = 2 \<and> sadscp_ok f"

lemma sadscp_name_length:
  "sadscp_ok f \<Longrightarrow> length (sadscp_name f) = unat (u_app_name_length (f_u f)) + sadscp_fill (u_app_name_length (f_u f))"
  by (auto simp: sadscp_name_def sadscp_ok_def Let_def split: option.split)

lemma opcode_values_typed:
  "v = 1 \<or> v = 2 \<Longrightarrow> request_kind v f \<Longrightarrow> kd_operation (f_kd f) \<noteq> PCP_OPCODE_ANNOUNCE \<Longrightarrow> struct_typed (opcode_struct v f) (opcode_values v f)"
  by (auto simp: struct_defs values_defs opcode_struct_def request_kind_def sadscp_name_length)

lemma opcode_values_bytes:
  "v = 1 \<or> v = 2 \<Longrightarrow> request_kind v f \<Longrightarrow> kd_operation (f_kd f) \<noteq> PCP_OPCODE_ANNOUNCE \<Longrightarrow>
   opcode_data v f = Some (encode_struct (opcode_values v f))"
  by (auto simp: values_defs opcode_data_def nonce_if_def map_data_def peer_data_def sadscp_data_def sadscp_name_def request_kind_def zero_bytes Let_def)

lemma md_values_typed: "struct_typed (md_struct md) (md_values md)"
  by (simp add: md_struct_def struct_defs values_defs)

lemma md_values_bytes: "encode_struct (md_values md) = tlv PCP_OPTION_METADATA (md_payload md)"
  by (simp add: md_values_def md_value_def tlv_def md_payload_def)

lemma md_struct_size: "struct_size (md_struct md) = 4 + length (md_payload md)"
  using encode_struct_size [OF md_values_typed, of md] by (simp add: md_values_bytes)

lemma tlvs_md: "tlvs (md_fit pos mds) = concat (map (encode_struct \<circ> md_values) (md_sent pos mds))"
  by (induction pos mds rule: md_sent.induct) (simp_all add: md_values_bytes md_struct_size)

lemma option_values_typed: "flow_wf f \<Longrightarrow> struct_typed (option_struct c) (option_values f c)"
  by (simp add: struct_defs values_defs option_struct_def flow_wf_def)

lemma option_values_bytes:
  "flow_wf f \<Longrightarrow> (c, payload) \<in> set (fixed_options f) \<Longrightarrow> tlv c payload = encode_struct (option_values f c)"
  by (auto simp: fixed_options_def opt_if_def tlv_def values_defs option_struct_def struct_defs struct_size_def flow_wf_def zero_bytes
      split: if_splits)

lemma tlvs_fixed:
  "flow_wf f \<Longrightarrow> tlvs (fixed_options f) = concat (map (\<lambda>c. encode_struct (option_values f c)) (present_options f))"
  by (auto simp: present_options_def option_values_bytes intro!: arg_cong [where f = concat])

text \<open>The structures of a request in the order of the message, with their initialisers.\<close>

definition request_structs :: "u8 \<Rightarrow> pcp_flow \<Rightarrow> (struct \<times> initialiser) list" where
  "request_structs v f = (struct_pcp_request, request_values v f) #
     (if kd_operation (f_kd f) = PCP_OPCODE_ANNOUNCE then []
      else (opcode_struct v f, opcode_values v f) # map (\<lambda>c. (option_struct c, option_values f c)) (present_options f) @
        map (\<lambda>md. (md_struct md, md_values md))
          (md_sent (struct_size struct_pcp_request + struct_size (opcode_struct v f) +
             sum_list (map (struct_size \<circ> option_struct) (present_options f))) (f_md_vals f)))"

definition struct_loc :: "(struct \<times> initialiser) list \<Rightarrow> nat \<Rightarrow> nat" where
  "struct_loc ps k = sum_list (map (struct_size \<circ> fst) (take k ps))"

definition structs_typed :: "(struct \<times> initialiser) list \<Rightarrow> bool" where
  "structs_typed ps \<longleftrightarrow> (\<forall>(st, vs)\<in>set ps. struct_typed st vs \<and> distinct (map fst vs))"

lemma structs_size:
  "structs_typed ps \<Longrightarrow> length (concat (map (encode_struct \<circ> snd) ps)) = sum_list (map (struct_size \<circ> fst) ps)"
  by (induction ps) (auto simp: structs_typed_def encode_struct_size)

lemma structs_members:
  assumes ps: "structs_typed ps" and k: "k < length ps" and x: "(nm, x) \<in> set (snd (ps ! k))"
  shows "member_bytes (fst (ps ! k)) nm (struct_loc ps k) (concat (map (encode_struct \<circ> snd) ps) @ post) = Some (encode x)"
proof -
  let ?e = "\<lambda>ps. concat (map (encode_struct \<circ> snd) ps)"
  have "?e ps = ?e (take k ps) @ encode_struct (snd (ps ! k)) @ ?e (drop (Suc k) ps)"
    by (subst id_take_nth_drop [OF k]) simp
  moreover have "length (?e (take k ps)) = struct_loc ps k"
    using ps structs_size [of "take k ps"] by (auto simp: struct_loc_def structs_typed_def dest: in_set_takeD)
  moreover have "struct_typed (fst (ps ! k)) (snd (ps ! k))" "distinct (map fst (snd (ps ! k)))"
    using ps nth_mem [OF k] by (auto simp: structs_typed_def case_prod_unfold)
  ultimately show ?thesis using member_at [OF _ _ x, of "fst (ps ! k)" "?e (take k ps)" "?e (drop (Suc k) ps) @ post"] by simp
qed

lemma request_structs_typed:
  assumes "flow_wf f" "v = 1 \<or> v = 2" "request_kind v f"
  shows "structs_typed (request_structs v f)"
proof -
  have "distinct (map fst (request_values v f))" "distinct (map fst (opcode_values v f))" "distinct (map fst (option_values f c))"
    "distinct (map fst (md_values md))" for c md by (simp_all add: values_defs)
  then show ?thesis using opcode_values_typed [OF assms(2,3)] option_values_typed [OF assms(1)]
    by (auto simp: structs_typed_def request_structs_def request_values_typed md_values_typed)
qed

lemma request_structs_bytes:
  assumes "flow_wf f" "v = 1 \<or> v = 2" "request_kind v f"
  shows "pcp_request v f = Some (concat (map (encode_struct \<circ> snd) (request_structs v f)))"
proof (cases "kd_operation (f_kd f) = PCP_OPCODE_ANNOUNCE")
  case False
  have "length (tlvs (fixed_options f)) = sum_list (map (struct_size \<circ> option_struct) (present_options f))"
    unfolding tlvs_fixed [OF assms(1)] length_concat by (simp add: comp_def encode_struct_size [OF option_values_typed [OF assms(1)]])
  then show ?thesis
    using False opcode_values_bytes [OF assms(2,3) False] encode_struct_size [OF opcode_values_typed [OF assms(2,3) False]]
    by (simp add: pcp_request_def request_structs_def request_values_bytes options_of_def tlvs_fixed [OF assms(1)] tlvs_md
        comp_def struct_sizes(1))
qed (simp add: pcp_request_def request_structs_def request_values_bytes)

section \<open>NAT-PMP messages as structures\<close>

definition natpmp_map_values :: "pcp_flow \<Rightarrow> initialiser" where
  "natpmp_map_values f =
     [(''ver'', V_u8 0), (''opcode'', V_u8 (if kd_protocol (f_kd f) = IPPROTO_TCP then NATPMP_OPCODE_MAP_TCP else NATPMP_OPCODE_MAP_UDP)),
      (''reserved'', V_u16 0), (''int_port'', V_u16 (kd_src_port (f_kd f))), (''ext_port'', V_u16 (u_ext_port (f_u f))),
      (''lifetime'', V_u32 (f_lifetime f))]"

lemma natpmp_request_typed:
  "natpmp_request f = Some m \<Longrightarrow>
   if kd_operation (f_kd f) = PCP_OPCODE_MAP
   then struct_typed struct_nat_pmp_map_req (natpmp_map_values f) \<and> m = encode_struct (natpmp_map_values f)
   else \<exists>vs. struct_typed struct_nat_pmp_announce_req vs \<and> m = encode_struct vs \<and> map_of vs ''ver'' = Some (V_u8 0)"
  by (auto simp: natpmp_request_def natpmp_map_values_def struct_defs zero_bytes split: if_splits
      intro!: exI [of _ "[(''ver'', V_u8 0), (''opcode'', V_u8 NATPMP_OPCODE_ANNOUNCE)]"])

text \<open>The parser finds the members of a NAT-PMP answer where its structure has them. The opcode of an answer has its top bit set.\<close>

lemma natpmp_map_answer_read:
  assumes "m_pcp_msg_len m = 16" "m_pcp_msg_buffer m = encode_struct vs @ post"
    and "vs = [(''ver'', V_u8 0), (''opcode'', V_u8 (0x80 OR oper)), (''result'', V_u16 res), (''epoch'', V_u32 ep), (''int_port'', V_u16 ip),
      (''ext_port'', V_u16 xp), (''lifetime'', V_u32 l)]"
    and "oper = NATPMP_OPCODE_MAP_TCP \<or> oper = NATPMP_OPCODE_MAP_UDP"
  shows "struct_typed struct_nat_pmp_map_resp vs \<and>
    (\<exists>m'. parse_response m = (m', PCP_ERR_SUCCESS) \<and> m_recv_result m' = ucast res \<and> m_recv_epoch m' = ep \<and>
       m_recv_lifetime m' = l \<and> m_assigned_ext_port m' = xp \<and> kd_src_port (m_kd m') = ip \<and> kd_operation (m_kd m') = PCP_OPCODE_MAP \<and>
       kd_protocol (m_kd m') = (if oper = NATPMP_OPCODE_MAP_TCP then IPPROTO_TCP else IPPROTO_UDP))"
  using assms by (auto simp: struct_defs parse_response_def parse_v0_resp_def get_u8_cells get_u16_cells get_u32_cells)

lemma natpmp_announce_answer_read:
  assumes "m_pcp_msg_len m = 12" "m_pcp_msg_buffer m = encode_struct vs @ post"
    and "vs = [(''ver'', V_u8 0), (''opcode'', V_u8 0x80), (''result'', V_u16 res), (''epoch'', V_u32 ep), (''ext_ip'', V_u32 ip)]"
  shows "struct_typed struct_nat_pmp_announce_resp vs \<and>
    (\<exists>m'. parse_response m = (m', PCP_ERR_SUCCESS) \<and> m_recv_epoch m' = ep \<and> m_assigned_ext_ip m' = In6 0 0 0xFFFF ip)"
  using assms by (auto simp: struct_defs parse_response_def parse_v0_resp_def get_u8_cells get_u16_cells get_u32_cells)

lemma natpmp_version_answer_read:
  assumes "m_pcp_msg_len m = 8" "m_pcp_msg_buffer m = encode_struct vs @ post"
    and "vs = [(''ver'', V_u8 0), (''opcode'', V_u8 oper), (''result'', V_u16 res), (''epoch'', V_u32 ep)]"
  shows "struct_typed struct_nat_pmp_inv_version_resp vs \<and>
    (\<exists>m'. parse_response m = (m', PCP_ERR_SUCCESS) \<and> m_recv_epoch m' = ep \<and> m_recv_result m' = ucast res)"
  using assms by (auto simp: struct_defs parse_response_def parse_v0_resp_def get_u8_cells get_u16_cells get_u32_cells)

text \<open>The header of a PCP answer.\<close>

definition response_values :: "u8 \<Rightarrow> u8 \<Rightarrow> u8 \<Rightarrow> u32 \<Rightarrow> u32 \<Rightarrow> initialiser" where
  "response_values v oper res lifetime epoch =
     [(''ver'', V_u8 v), (''r_opcode'', V_u8 (oper OR 0x80)), (''reserved'', V_u8 0), (''result_code'', V_u8 res), (''lifetime'', V_u32 lifetime),
      (''epochtime'', V_u32 epoch), (''reserved1'', V_array [V_u32 0, V_u32 0, V_u32 0])]"

lemma response_typed:
  "struct_typed struct_pcp_response (response_values v oper res lifetime epoch)"
  "pcp_response v oper res lifetime epoch body = encode_struct (response_values v oper res lifetime epoch) @ body"
  by (simp_all add: struct_defs response_values_def pcp_response_def be32_def numeral_eq_Suc)

section \<open>Property\<close>

text \<open>Property C8: a request is a value of the declared structures. In versions 1 and 2 the message of an ANNOUNCE, MAP, PEER or
  (version 2) SADSCP request consists of the bytes of the header, of the structure of the opcode for the
  protocol version, of one structure for every option the flow has and of one for every metadata value that is sent, followed by
  zeros only; each of these initialisers has the type of its structure, and reading any member of any of
  them at its offset in the packed structure, from where this structure begins in the message, gives the value of the flow it stands for.\<close>

theorem request_typed:
  assumes "flow_wf f" "s_pcp_version s = 1 \<or> s_pcp_version s = 2" "request_kind (s_pcp_version s) f"
  shows "\<exists>buf. let ps = request_structs (s_pcp_version s) f; n = sum_list (map (struct_size \<circ> fst) ps) in
    build_request s f (replicate PCP_MAX_LEN 0) = (buf, of_nat n, 0) \<and> n \<le> PCP_MAX_LEN \<and>
    buf = concat (map (encode_struct \<circ> snd) ps) @ replicate (PCP_MAX_LEN - n) 0 \<and>
    (\<forall>(st, vs)\<in>set ps. struct_typed st vs) \<and>
    (\<forall>k<length ps. \<forall>(nm, x)\<in>set (snd (ps ! k)). member_bytes (fst (ps ! k)) nm (struct_loc ps k) buf = Some (encode x))"
proof -
  let ?ps = "request_structs (s_pcp_version s) f"
  let ?m = "concat (map (encode_struct \<circ> snd) ?ps)"
  have ty: "structs_typed ?ps" using assms by (rule request_structs_typed)
  have n: "length ?m = sum_list (map (struct_size \<circ> fst) ?ps)" using ty by (rule structs_size)
  have "kd_operation (f_kd f) = PCP_OPCODE_SADSCP \<longrightarrow> sadscp_ok f" using assms(3) by (auto simp: request_kind_def)
  from build_request_encoded [OF assms(1,2) this]
  have b: "length ?m \<le> PCP_MAX_LEN" "build_request s f (replicate PCP_MAX_LEN 0) = (?m @ replicate (PCP_MAX_LEN - length ?m) 0, of_nat (length ?m), 0)"
    unfolding request_structs_bytes [OF assms] by simp_all
  have "\<forall>(st, vs)\<in>set ?ps. struct_typed st vs" using ty by (auto simp: structs_typed_def)
  moreover have "\<forall>k<length ?ps. \<forall>(nm, x)\<in>set (snd (?ps ! k)). member_bytes (fst (?ps ! k)) nm (struct_loc ?ps k)
      (?m @ replicate (PCP_MAX_LEN - length ?m) 0) = Some (encode x)"
    using structs_members [OF ty] by blast
  ultimately show ?thesis using b unfolding n Let_def by blast
qed

text \<open>A mapping with a filter option and a metadata value of three bytes: the fields of the filter and the padded metadata
  are found where the structures of the options have them.\<close>

definition demo_options_flow :: pcp_flow where
  "demo_options_flow = demo_map_flow\<lparr>f_filter_option_present := True, f_filter_port := 443,
     f_md_vals := [\<lparr>md_id = 7, md_val_buf = [1, 2, 3]\<rparr>]\<rparr>"

theorem request_typed_witness:
  "\<exists>buf n. build_request (zero_server\<lparr>s_pcp_version := 2\<rparr>) demo_options_flow (replicate PCP_MAX_LEN 0) = (buf, n, 0) \<and> n = 96 \<and>
     member_bytes struct_pcp_map_v2 ''int_port'' 24 buf = Some [0, 80] \<and>
     member_bytes struct_pcp_filter_option ''filter_peer_port'' 60 buf = Some [1, 187] \<and>
     member_bytes (md_struct \<lparr>md_id = 7, md_val_buf = [1, 2, 3]\<rparr>) ''metadata'' 84 buf = Some [1, 2, 3, 0]"
proof -
  let ?f = demo_options_flow and ?md = "\<lparr>md_id = 7, md_val_buf = [1, 2, 3]\<rparr> :: md_val"
  let ?ps = "[(struct_pcp_request, request_values 2 ?f), (struct_pcp_map_v2, opcode_values 2 ?f),
      (struct_pcp_filter_option, option_values ?f PCP_OPTION_FILTER), (md_struct ?md, md_values ?md)]"
  note demo = demo_options_flow_def demo_map_flow_def zero_flow_def
  have opts: "present_options ?f = [PCP_OPTION_FILTER]" by (simp add: present_options_def fixed_options_def opt_if_def demo)
  have sizes: "struct_size (md_struct ?md) = 12" "struct_size struct_pcp_filter_option = 24"
    by (simp_all add: md_struct_def md_value_def md_padding_def struct_size_def struct_defs)
  have st: "opcode_struct 2 ?f = struct_pcp_map_v2" "option_struct PCP_OPTION_FILTER = struct_pcp_filter_option" "f_md_vals ?f = [?md]"
    "kd_operation (f_kd ?f) \<noteq> PCP_OPCODE_ANNOUNCE"
    by (simp_all add: opcode_struct_def option_struct_def demo)
  have ps: "request_structs 2 ?f = ?ps" by (simp add: request_structs_def opts st sizes struct_sizes)
  have wf: "flow_wf ?f" "request_kind 2 ?f" by (simp_all add: demo flow_wf_def request_kind_def)
  have loc: "struct_loc ?ps 1 = 24" "struct_loc ?ps 2 = 60" "struct_loc ?ps 3 = 84"
    by (simp_all add: struct_loc_def sizes struct_sizes numeral_eq_Suc)
  have n: "sum_list (map (struct_size \<circ> fst) ?ps) = 96" "length ?ps = 4" by (simp_all add: sizes struct_sizes)
  have v: "s_pcp_version (zero_server\<lparr>s_pcp_version := 2\<rparr>) = 2" by simp
  obtain buf where b: "build_request (zero_server\<lparr>s_pcp_version := 2\<rparr>) ?f (replicate PCP_MAX_LEN 0) = (buf, 96, 0)"
    "\<And>k nm x. k < 4 \<Longrightarrow> (nm, x) \<in> set (snd (?ps ! k)) \<Longrightarrow> member_bytes (fst (?ps ! k)) nm (struct_loc ?ps k) buf = Some (encode x)"
    using request_typed [OF wf(1), of "zero_server\<lparr>s_pcp_version := 2\<rparr>", unfolded v ps Let_def n] wf(2) by fastforce
  have "member_bytes struct_pcp_map_v2 ''int_port'' 24 buf = Some (encode (V_u16 80))"
    using b(2) [of 1 "''int_port''" "V_u16 80"] loc by (simp add: values_defs demo)
  moreover have "member_bytes struct_pcp_filter_option ''filter_peer_port'' 60 buf = Some (encode (V_u16 443))"
    using b(2) [of 2 "''filter_peer_port''" "V_u16 443"] loc by (simp add: values_defs demo)
  moreover have "member_bytes (md_struct ?md) ''metadata'' 84 buf = Some [1, 2, 3, 0]"
    using b(2) [of 3 "''metadata''" "V_array (map V_u8 (md_value ?md))"] loc by (simp add: values_defs md_value_def md_padding_def)
  ultimately show ?thesis using b(1) by (simp add: be16_def)
qed

end
