(* ===== verification/Pcp_Socket.thy ===== *)
theory Pcp_Socket
  imports Pcp_Utils
begin

text \<open>
  The default socket implementation, \<^verbatim>\<open>pcp_socket.c\<close>, on a system with \<^verbatim>\<open>IP_PKTINFO\<close> and \<^verbatim>\<open>IPV6_PKTINFO\<close> and
  with a dual-stack socket. The system calls are arguments: whether or with which error each of
  them ends.
\<close>

section \<open>Errors\<close>

abbreviation PCP_SOCKET_ERROR :: int where
  "PCP_SOCKET_ERROR \<equiv> - 1"

datatype sys_errno = EADDRINUSE | EWOULDBLOCK | Other_errno nat

definition pcp_get_error :: "sys_errno \<Rightarrow> pcp_errno" where
  "pcp_get_error e = (case e of EADDRINUSE \<Rightarrow> PCP_ERR_ADDRINUSE | EWOULDBLOCK \<Rightarrow> PCP_ERR_WOULDBLOCK | Other_errno _ \<Rightarrow> PCP_ERR_UNKNOWN)"

section \<open>Creating a socket\<close>

text \<open>The loop around \<^verbatim>\<open>bind\<close>; \<open>bind_sys k port\<close> is the error of its \<open>k\<close>-th call, if any. The result is the
  port the socket is bound to, and \<open>Some None\<close> is \<^verbatim>\<open>PCP_INVALID_SOCKET\<close>.\<close>

partial_function (option) bind_loop :: "(nat \<Rightarrow> u16 \<Rightarrow> sys_errno option) \<Rightarrow> nat \<Rightarrow> u16 \<Rightarrow> u16 option option" where
  "bind_loop bind_sys k port =
     (case bind_sys k port of
        None \<Rightarrow> Some (Some port)
      | Some e \<Rightarrow> if pcp_get_error e = PCP_ERR_ADDRINUSE then bind_loop bind_sys (Suc k) (port + 1) else Some None)"

record socket_sys =
  sys_socket :: bool
  sys_nonblock :: bool
  sys_v6only :: bool
  sys_recvpktinfo :: bool
  sys_bind :: "nat \<Rightarrow> u16 \<Rightarrow> sys_errno option"

definition pcp_socket_create_impl :: "socket_sys \<Rightarrow> bool \<Rightarrow> u16 option option" where
  "pcp_socket_create_impl sys domain_inet6 =
     (if \<not> sys_socket sys then Some None
      else if \<not> sys_nonblock sys then Some None
      else if \<not> sys_v6only sys then Some None
      else if domain_inet6 \<and> \<not> sys_recvpktinfo sys then Some None
      else bind_loop (sys_bind sys) 0 5350)"

section \<open>Receiving\<close>

datatype cmsg = Cmsg_ip_pktinfo u32 | Cmsg_ipv6_pktinfo in6_addr u32 | Cmsg_other

fun process_cmsg :: "cmsg \<Rightarrow> sockaddr \<Rightarrow> sockaddr" where
  "process_cmsg (Cmsg_ip_pktinfo a) dst = Sockaddr_in6 (v4mapped a) (sin6_port dst) 0"
| "process_cmsg (Cmsg_ipv6_pktinfo a ifindex) dst =
     Sockaddr_in6 a (sin6_port dst) (if IN6_IS_ADDR_LINKLOCAL a then ifindex else 0)"
| "process_cmsg Cmsg_other dst = dst"

text \<open>\<^verbatim>\<open>recvmsg\<close> returns an error, or the number of bytes with the control messages.\<close>

definition pcp_socket_recvfrom_impl :: "sys_errno + (nat \<times> cmsg list) \<Rightarrow> sockaddr \<Rightarrow> int \<times> sockaddr" where
  "pcp_socket_recvfrom_impl recvmsg dst_addr =
     (case recvmsg of
        Inl e \<Rightarrow> (if pcp_get_error e = PCP_ERR_WOULDBLOCK then PCP_ERR_WOULDBLOCK else PCP_ERR_RECV_FAILED, dst_addr)
      | Inr (n, cmsgs) \<Rightarrow> (int n, if n > 0 then fold process_cmsg cmsgs dst_addr else dst_addr))"

section \<open>Sending\<close>

text \<open>\<^verbatim>\<open>sendmsg\<close> gets the source address and the interface of the control message, the destination and the
  datagram, and returns an error or the number of bytes sent; \<open>errno\<close> is what \<^verbatim>\<open>errno\<close> holds when no call was made.
  The second part of the result is the datagram that was given to the system, if any. The test of the
  result belongs to the \<^verbatim>\<open>else\<close> of the test of \<^verbatim>\<open>src_addr\<close>, because the call of \<^verbatim>\<open>sendto\<close> between them is
  compiled out.\<close>

definition send_check :: "sys_errno \<Rightarrow> nat \<Rightarrow> int \<Rightarrow> int" where
  "send_check errno len ret =
     (if ret = PCP_SOCKET_ERROR \<or> ret \<noteq> int len
      then if pcp_get_error errno = PCP_ERR_WOULDBLOCK then PCP_ERR_WOULDBLOCK else PCP_ERR_SEND_FAILED
      else ret)"

type_synonym sendmsg_call = "in6_addr \<times> u32 \<times> sockaddr \<times> u8 list"

definition pcp_socket_sendto_impl ::
    "(sendmsg_call \<Rightarrow> sys_errno + nat) \<Rightarrow> sys_errno \<Rightarrow> u8 list \<Rightarrow> sockaddr option \<Rightarrow> sockaddr \<Rightarrow> int \<times> sendmsg_call option" where
  "pcp_socket_sendto_impl sendmsg errno buf src_addr dest_addr =
     (case src_addr of
        Some src \<Rightarrow>
          (let call = (sin6_addr src, sin6_scope_id src, dest_addr, buf)
           in (case sendmsg call of Inl _ \<Rightarrow> PCP_SOCKET_ERROR | Inr n \<Rightarrow> int n, Some call))
      | None \<Rightarrow> (send_check errno (length buf) PCP_SOCKET_ERROR, None))"

section \<open>Properties\<close>

lemma bind_loop_busy:
  assumes "\<forall>j<n. bind_sys (k + j) (p + of_nat j) = Some EADDRINUSE"
  shows "bind_loop bind_sys k p = bind_loop bind_sys (k + n) (p + of_nat n)"
  using assms
proof (induction n arbitrary: k p)
  case (Suc n)
  have "bind_sys k p = Some EADDRINUSE" using Suc.prems by force
  then have "bind_loop bind_sys k p = bind_loop bind_sys (Suc k) (p + 1)" by (subst bind_loop.simps) (simp add: pcp_get_error_def)
  moreover have "\<forall>j<n. bind_sys (Suc k + j) (p + 1 + of_nat j) = Some EADDRINUSE" using Suc.prems by (auto simp: algebra_simps)
  ultimately show ?case using Suc.IH [of "Suc k" "p + 1"] by (simp add: algebra_simps)
qed simp

lemma bind_loop_returns_only:
  assumes "bind_loop bind_sys k p = Some r"
  shows "\<exists>n. bind_sys (k + n) (p + of_nat n) \<noteq> Some EADDRINUSE"
proof (rule bind_loop.raw_induct [OF _ assms])
  fix f bs k p y
  assume IH: "\<And>(bs :: nat \<Rightarrow> u16 \<Rightarrow> sys_errno option) k p y.
      f bs k p = Some y \<Longrightarrow> \<exists>n. bs (k + n) (p + of_nat n) \<noteq> Some EADDRINUSE"
    and run: "(case bs k p of
        None \<Rightarrow> Some (Some p)
      | Some e \<Rightarrow> if pcp_get_error e = PCP_ERR_ADDRINUSE then f bs (Suc k) (p + 1) else Some None) = Some y"
  show "\<exists>n. bs (k + n) (p + of_nat n) \<noteq> Some EADDRINUSE"
  proof (cases "bs k p = Some EADDRINUSE")
    case True
    with run have "f bs (Suc k) (p + 1) = Some y" by (simp add: pcp_get_error_def)
    from IH [OF this] obtain n where "bs (Suc k + n) (p + 1 + of_nat n) \<noteq> Some EADDRINUSE" by blast
    then show ?thesis by (intro exI [of _ "Suc n"]) (simp add: algebra_simps)
  qed (auto intro: exI [of _ 0])
qed

text \<open>The calls before \<^verbatim>\<open>bind\<close> succeed; the \<open>n\<close>-th port is taken.\<close>

definition socket_ready :: "socket_sys \<Rightarrow> bool \<Rightarrow> bool" where
  "socket_ready sys domain_inet6 \<longleftrightarrow>
     sys_socket sys \<and> sys_nonblock sys \<and> sys_v6only sys \<and> (domain_inet6 \<longrightarrow> sys_recvpktinfo sys)"

definition try_port :: "socket_sys \<Rightarrow> nat \<Rightarrow> sys_errno option" where
  "try_port sys n = sys_bind sys n (5350 + of_nat n)"

lemma create_is_bind_loop:
  "pcp_socket_create_impl sys d = (if socket_ready sys d then bind_loop (sys_bind sys) 0 5350 else Some None)"
  by (auto simp: pcp_socket_create_impl_def socket_ready_def)

lemma bind_loop_first_free:
  assumes "\<forall>j<n. try_port sys j = Some EADDRINUSE" and "try_port sys n \<noteq> Some EADDRINUSE"
  shows "bind_loop (sys_bind sys) 0 5350 = Some (if try_port sys n = None then Some (5350 + of_nat n) else None)"
proof -
  have "bind_loop (sys_bind sys) 0 5350 = bind_loop (sys_bind sys) n (5350 + of_nat n)"
    using bind_loop_busy [of n "sys_bind sys" 0 5350] assms(1) by (simp add: try_port_def)
  also have "\<dots> = Some (if try_port sys n = None then Some (5350 + of_nat n) else None)"
    using assms(2) by (subst bind_loop.simps) (auto simp: try_port_def pcp_get_error_def split: option.splits sys_errno.splits)
  finally show ?thesis .
qed

text \<open>Property C40: the default socket tries the ports from 5350 on, in order and wrapping at 65535, and is
  bound to the first one that is not in use; an error other than a taken port, or a failing call
  before, gives the invalid socket. The loop has no bound: creation does not return exactly when the
  system goes on answering that the address is in use.
\<close>

theorem socket_create_outcome:
  "(\<not> socket_ready sys d \<longrightarrow> pcp_socket_create_impl sys d = Some None) \<and>
   (pcp_socket_create_impl sys d = None \<longleftrightarrow> socket_ready sys d \<and> (\<forall>n. try_port sys n = Some EADDRINUSE)) \<and>
   (\<forall>n. socket_ready sys d \<longrightarrow> (\<forall>j<n. try_port sys j = Some EADDRINUSE) \<longrightarrow> try_port sys n \<noteq> Some EADDRINUSE \<longrightarrow>
      pcp_socket_create_impl sys d = Some (if try_port sys n = None then Some (5350 + of_nat n) else None))"
proof -
  have "bind_loop (sys_bind sys) 0 5350 \<noteq> None" if "try_port sys m \<noteq> Some EADDRINUSE" for m
  proof -
    define n where "n = (LEAST n. try_port sys n \<noteq> Some EADDRINUSE)"
    have "try_port sys n \<noteq> Some EADDRINUSE" unfolding n_def using that by (rule LeastI)
    moreover have "\<forall>j<n. try_port sys j = Some EADDRINUSE" unfolding n_def using not_less_Least by blast
    ultimately show ?thesis by (simp add: bind_loop_first_free)
  qed
  moreover have "bind_loop (sys_bind sys) 0 5350 = None" if "\<forall>n. try_port sys n = Some EADDRINUSE"
    using that bind_loop_returns_only [of "sys_bind sys" 0 5350] by (cases "bind_loop (sys_bind sys) 0 5350") (auto simp: try_port_def)
  ultimately have "bind_loop (sys_bind sys) 0 5350 = None \<longleftrightarrow> (\<forall>n. try_port sys n = Some EADDRINUSE)" by blast
  then show ?thesis using bind_loop_first_free [of _ sys] by (simp add: create_is_bind_loop)
qed

definition busy_5350 :: socket_sys where
  "busy_5350 = \<lparr> sys_socket = True, sys_nonblock = True, sys_v6only = True, sys_recvpktinfo = True,
     sys_bind = (\<lambda>_ port. if port = 5350 then Some EADDRINUSE else None) \<rparr>"

theorem socket_create_outcome_witness: "pcp_socket_create_impl busy_5350 True = Some (Some 5351)"
proof -
  have "socket_ready busy_5350 True" by (simp add: socket_ready_def busy_5350_def)
  moreover have "try_port busy_5350 0 = Some EADDRINUSE" "try_port busy_5350 1 = None"
    by (simp_all add: try_port_def busy_5350_def)
  ultimately show ?thesis using socket_create_outcome [of busy_5350 True] by (auto dest: spec [of _ 1])
qed

text \<open>A datagram is given to the system exactly when the caller names a source address, and
  it then carries that address and its interface; without one the call fails and nothing is sent. A
  result of at least 0 is the number of bytes the system took. With a source address the failure is
  always \<^verbatim>\<open>-1\<close>, whatever the system's error, and a partial send is not reported as a failure.
\<close>

theorem sendto_outcome:
  "(case pcp_socket_sendto_impl sendmsg errno buf src_addr dest_addr of (ret, call) \<Rightarrow>
      call = map_option (\<lambda>src. (sin6_addr src, sin6_scope_id src, dest_addr, buf)) src_addr \<and>
      (0 \<le> ret \<longleftrightarrow> (\<exists>c n. call = Some c \<and> sendmsg c = Inr n \<and> ret = int n)) \<and>
      (\<forall>c e. call = Some c \<longrightarrow> sendmsg c = Inl e \<longrightarrow> ret = - 1) \<and>
      (call = None \<longrightarrow> ret = (if errno = EWOULDBLOCK then PCP_ERR_WOULDBLOCK else PCP_ERR_SEND_FAILED)))"
  by (cases src_addr; cases errno) (auto simp: pcp_socket_sendto_impl_def send_check_def pcp_get_error_def Let_def split: sum.splits)

text \<open>What was received on an address of the host is answered from that address and interface.\<close>

lemma reply_source:
  assumes "pcp_socket_recvfrom_impl (Inr (n, [Cmsg_ipv6_pktinfo a i])) dst = (r, here)" and "0 < n"
  shows "snd (pcp_socket_sendto_impl sendmsg errno buf (Some here) peer) = Some (a, if IN6_IS_ADDR_LINKLOCAL a then i else 0, peer, buf)"
  using assms by (auto simp: pcp_socket_recvfrom_impl_def pcp_socket_sendto_impl_def Let_def)

text \<open>A send that would block is reported to the library as \<^verbatim>\<open>-1\<close> and not as \<^verbatim>\<open>PCP_ERR_WOULDBLOCK\<close>.\<close>

theorem sendto_outcome_witness:
  "fst (pcp_socket_sendto_impl (\<lambda>_. Inl EWOULDBLOCK) (Other_errno 0) [2, 1]
     (Some (Sockaddr_in6 (v4mapped 1) 0 3)) (Sockaddr_in 2 5351)) = - 1"
  using sendto_outcome [where sendmsg = "\<lambda>_. Inl EWOULDBLOCK" and errno = "Other_errno 0" and buf = "[2, 1]"
    and src_addr = "Some (Sockaddr_in6 (v4mapped 1) 0 3)" and dest_addr = "Sockaddr_in 2 5351"]
  by (auto split: prod.splits)

end
