(* ===== verification/Pcp_Socket_Vt.thy ===== *)
theory Pcp_Socket_Vt
  imports Pcp_Socket Pcp_Pulse
begin

text \<open>
  The table of socket functions a context works with, \<^verbatim>\<open>virt_socket_tb\<close>, and the calls through it; the
  variants of the default functions for Windows; and the event loop on the default table. The system is
  an argument: for each call, counted from the start of the program, what it answers.
\<close>

section \<open>Windows\<close>

datatype wsa_error = WSAEADDRINUSE | WSAEWOULDBLOCK | Other_wsa nat

definition pcp_get_error_win :: "wsa_error \<Rightarrow> pcp_errno" where
  "pcp_get_error_win errnum =
     (case errnum of WSAEADDRINUSE \<Rightarrow> PCP_ERR_ADDRINUSE | WSAEWOULDBLOCK \<Rightarrow> PCP_ERR_WOULDBLOCK | Other_wsa _ \<Rightarrow> PCP_ERR_UNKNOWN)"

text \<open>The arguments are what \<^verbatim>\<open>WSAStartup\<close> and \<^verbatim>\<open>WSACleanup\<close> return.\<close>

definition pcp_win_sock_startup :: "int \<Rightarrow> int" where
  "pcp_win_sock_startup err = (if err \<noteq> 0 then 1 else 0)"

definition pcp_win_sock_cleanup :: "int \<Rightarrow> int" where
  "pcp_win_sock_cleanup ret = (if ret = PCP_SOCKET_ERROR then 1 else 0)"

abbreviation ULONG_MAX :: nat where "ULONG_MAX \<equiv> 4294967295"
abbreviation INT32_MAX :: nat where "INT32_MAX \<equiv> 2147483647"

text \<open>\<open>ioctl\<close> tells whether \<^verbatim>\<open>WSAIoctl\<close> found the extension function, \<open>recvmsg\<close> what it then answers; \<open>errnum\<close>
  is the last error of the thread.\<close>

definition win_recvfrom_impl ::
  "bool \<Rightarrow> unit + (nat \<times> cmsg list) \<Rightarrow> wsa_error \<Rightarrow> nat \<Rightarrow> sockaddr \<Rightarrow> int \<times> sockaddr" where
  "win_recvfrom_impl ioctl recvmsg errnum len dst_addr =
     (if len > ULONG_MAX then (PCP_ERR_RECV_FAILED, dst_addr)
      else if \<not> ioctl then (1, dst_addr)
      else
        let (ret, cmsgs) = (case recvmsg of
              Inl _ \<Rightarrow> (PCP_SOCKET_ERROR, [])
            | Inr (n, cmsgs) \<Rightarrow> (if n > INT32_MAX then PCP_SOCKET_ERROR else int n, cmsgs));
            dst_addr = (if ret > 0 then fold process_cmsg cmsgs dst_addr else dst_addr)
        in (if ret = PCP_SOCKET_ERROR
            then if pcp_get_error_win errnum = PCP_ERR_WOULDBLOCK then PCP_ERR_WOULDBLOCK else PCP_ERR_RECV_FAILED
            else ret, dst_addr))"

text \<open>The control message that carries the source address: an IPv4 address goes without its interface.\<close>

datatype win_pktinfo = Win_pktinfo u32 | Win_pktinfo6 in6_addr u32

definition win_source :: "sockaddr \<Rightarrow> win_pktinfo" where
  "win_source src =
     (if IN6_IS_ADDR_V4MAPPED (sin6_addr src) then Win_pktinfo (s6_3 (sin6_addr src))
      else Win_pktinfo6 (sin6_addr src) (sin6_scope_id src))"

type_synonym wsasend_call = "win_pktinfo \<times> sockaddr \<times> u8 list"

definition win_send_check :: "wsa_error \<Rightarrow> nat \<Rightarrow> int \<Rightarrow> int" where
  "win_send_check errnum len ret =
     (if ret = PCP_SOCKET_ERROR \<or> ret \<noteq> int len
      then if pcp_get_error_win errnum = PCP_ERR_WOULDBLOCK then PCP_ERR_WOULDBLOCK else PCP_ERR_SEND_FAILED
      else ret)"

definition win_sendto_impl ::
  "bool \<Rightarrow> (wsasend_call \<Rightarrow> unit + nat) \<Rightarrow> wsa_error \<Rightarrow> u8 list \<Rightarrow> sockaddr option \<Rightarrow> sockaddr \<Rightarrow> int \<times> wsasend_call option" where
  "win_sendto_impl ioctl sendmsg errnum buf src_addr dest_addr =
     (case src_addr of
        Some src \<Rightarrow>
          if length buf > ULONG_MAX then (PCP_ERR_SEND_FAILED, None)
          else if \<not> ioctl then (1, None)
          else let call = (win_source src, dest_addr, buf)
               in (case sendmsg call of Inl _ \<Rightarrow> PCP_SOCKET_ERROR | Inr n \<Rightarrow> int n, Some call)
      | None \<Rightarrow> (win_send_check errnum (length buf) PCP_SOCKET_ERROR, None))"

section \<open>The table\<close>

text \<open>A datagram that was received: the bytes, where it came from, and the address it was sent to.\<close>

type_synonym datagram = "bytes \<times> sockaddr \<times> sockaddr"

record pcp_socket_vt =
  sock_create :: "(bool \<Rightarrow> u16 option option) option"
  sock_recvfrom :: "(nat \<Rightarrow> int \<times> datagram) option"
  sock_sendto :: "(nat \<Rightarrow> bytes \<Rightarrow> sockaddr option \<Rightarrow> sockaddr \<Rightarrow> int) option"
  sock_close :: "(nat \<Rightarrow> int) option"

text \<open>The calls through the table of a context; a table or an entry that is NULL fails the assertion.\<close>

definition pcp_socket_create :: "pcp_socket_vt option \<Rightarrow> bool \<Rightarrow> u16 option option" where
  "pcp_socket_create vt domain_inet6 = vt \<bind> (\<lambda>t. sock_create t \<bind> (\<lambda>f. f domain_inet6))"

definition pcp_socket_recvfrom :: "pcp_socket_vt option \<Rightarrow> nat \<Rightarrow> (int \<times> datagram) option" where
  "pcp_socket_recvfrom vt n = vt \<bind> (\<lambda>t. sock_recvfrom t \<bind> (\<lambda>f. Some (f n)))"

definition pcp_socket_sendto :: "pcp_socket_vt option \<Rightarrow> nat \<Rightarrow> bytes \<Rightarrow> sockaddr option \<Rightarrow> sockaddr \<Rightarrow> int option" where
  "pcp_socket_sendto vt n buf src_addr dest_addr = vt \<bind> (\<lambda>t. sock_sendto t \<bind> (\<lambda>f. Some (f n buf src_addr dest_addr)))"

definition pcp_socket_close :: "pcp_socket_vt option \<Rightarrow> nat \<Rightarrow> int option" where
  "pcp_socket_close vt n = vt \<bind> (\<lambda>t. sock_close t \<bind> (\<lambda>f. Some (f n)))"

definition pcp_socket_close_impl :: "int \<Rightarrow> int" where
  "pcp_socket_close_impl close_ret = close_ret"

text \<open>What the kernel answers to the calls on the socket.\<close>

record kernel =
  k_setup :: socket_sys
  k_recvmsg :: "nat \<Rightarrow> sys_errno + (bytes \<times> sockaddr \<times> cmsg list)"
  k_sendmsg :: "nat \<Rightarrow> sendmsg_call \<Rightarrow> sys_errno + nat"
  k_errno :: "nat \<Rightarrow> sys_errno"
  k_close :: "nat \<Rightarrow> int"

text \<open>The table of the default functions. Before a receive the caller has zeroed the addresses; the one for
  the local address is a \<^verbatim>\<open>sockaddr_in6\<close>.\<close>

abbreviation zero_sin6 :: sockaddr where
  "zero_sin6 \<equiv> Sockaddr_in6 in6_zero 0 0"

definition default_socket_vt :: "kernel \<Rightarrow> pcp_socket_vt" where
  "default_socket_vt K =
     \<lparr>sock_create = Some (pcp_socket_create_impl (k_setup K)),
      sock_recvfrom = Some (\<lambda>n. case k_recvmsg K n of
          Inl e \<Rightarrow> (fst (pcp_socket_recvfrom_impl (Inl e) zero_sin6), [], Sockaddr_other 0, zero_sin6)
        | Inr (bs, from, cmsgs) \<Rightarrow>
            let (ret, to) = pcp_socket_recvfrom_impl (Inr (length bs, cmsgs)) zero_sin6 in (ret, bs, from, to)),
      sock_sendto = Some (\<lambda>n buf src dest. fst (pcp_socket_sendto_impl (k_sendmsg K n) (k_errno K n) buf src dest)),
      sock_close = Some (\<lambda>n. pcp_socket_close_impl (k_close K n))\<rparr>"


section \<open>The event loop on a table\<close>

text \<open>The socket calls of the library, made through a table. The library always names a source address.\<close>

definition socket_env :: "pcp_socket_vt \<Rightarrow> sockaddr \<Rightarrow> sockaddr \<Rightarrow> env \<Rightarrow> env" where
  "socket_env vt src dest E =
     E\<lparr>env_sendto := (\<lambda>n buf. case pcp_socket_sendto (Some vt) n buf (Some src) dest of None \<Rightarrow> PCP_SOCKET_ERROR | Some ret \<Rightarrow> ret),
       env_recvfrom := (\<lambda>n. case pcp_socket_recvfrom (Some vt) n of
           None \<Rightarrow> Recv_error 0
         | Some (ret, bs, from, to) \<Rightarrow> if ret < 0 then Recv_error (nat (- 1 - ret)) else Recv_data (take (nat ret) bs) from to)\<rparr>"

text \<open>What the documentation of the calls says: no more bytes are sent than were given, and what comes in on an
  IPv6 socket comes from an IPv6 address.\<close>

definition kernel_ok :: "kernel \<Rightarrow> bool" where
  "kernel_ok K \<longleftrightarrow> (\<forall>n a i dest buf k. k_sendmsg K n (a, i, dest, buf) = Inr k \<longrightarrow> k \<le> length buf) \<and>
     (\<forall>n bs from cmsgs. k_recvmsg K n = Inr (bs, from, cmsgs) \<longrightarrow> (\<exists>a p sc. from = Sockaddr_in6 a p sc))"

lemma default_sendto_bounded:
  assumes "kernel_ok K"
  shows "sendto_bounded (socket_env (default_socket_vt K) src dest E)"
  using assms
  by (auto simp: sendto_bounded_def socket_env_def default_socket_vt_def pcp_socket_sendto_def pcp_socket_sendto_impl_def kernel_ok_def
      Let_def split: sum.splits)

lemma default_recv_inet:
  assumes "kernel_ok K"
  shows "recv_inet (socket_env (default_socket_vt K) src dest E)"
  using assms
  by (fastforce simp: recv_inet_def socket_env_def default_socket_vt_def pcp_socket_recvfrom_def pcp_socket_recvfrom_impl_def
      pcp_get_error_def kernel_ok_def Let_def split: sum.splits prod.splits if_splits sys_errno.splits)

lemma socket_env_clock: "clock_from (socket_env vt src dest E) N now \<longleftrightarrow> clock_from E N now"
  by (simp add: clock_from_def socket_env_def)

text \<open>A turn of the event loop on the default table ends, whatever the kernel delivers and refuses.\<close>

lemma default_socket_pulse:
  assumes "kernel_ok K" and "clock_from E N now" and "ctx_wf c"
  shows "yields (pcp_pulse (socket_env (default_socket_vt K) src dest E) t c) (\<lambda>(c', t', r). ctx_wf c')"
  using pcp_pulse_ok [OF default_sendto_bounded [OF assms(1)] default_recv_inet [OF assms(1)], of src dest E N now c t] assms(2,3)
  by (auto simp: socket_env_clock elim: yields_mono)

section \<open>Windows and POSIX\<close>

fun wsa_of :: "sys_errno \<Rightarrow> wsa_error" where
  "wsa_of EADDRINUSE = WSAEADDRINUSE"
| "wsa_of EWOULDBLOCK = WSAEWOULDBLOCK"
| "wsa_of (Other_errno k) = Other_wsa k"

lemma wsa_of_error: "pcp_get_error_win (wsa_of e) = pcp_get_error e"
  by (cases e) (simp_all add: pcp_get_error_win_def pcp_get_error_def)

lemma send_loop_ones:
  assumes "\<forall>n b. length b \<le> length data \<longrightarrow> env_sendto E n b = 1" and "k \<le> length data"
  shows "\<exists>c'. send_loop E sa data k c = Some (c', PCP_ERR_SUCCESS)"
  using assms(2)
proof (induction k arbitrary: c)
  case 0
  then show ?case by (subst send_loop.simps) simp
next
  case (Suc k)
  then show ?case by (subst send_loop.simps) (simp add: assms(1) Let_def)
qed

text \<open>Property C38: the default socket on Windows. As long as \<^verbatim>\<open>WSAIoctl\<close> finds the extension functions and the sizes
  fit their 32 bits, receiving returns what it returns on POSIX for the same answers of the system, with the
  same local address, and so does sending. When \<^verbatim>\<open>WSAIoctl\<close> fails, both report one byte: a datagram of one
  byte although nothing came in, and one byte sent although nothing went out. The library goes on with the rest
  of its message until all of it counts as sent.\<close>

theorem windows_socket_agrees:
  assumes "length buf \<le> ULONG_MAX" and "n \<le> INT32_MAX"
    and "\<And>src. src_addr = Some src \<Longrightarrow> wsasend (win_source src, dest, buf) =
      map_sum (\<lambda>_. ()) id (sendmsg (sin6_addr src, sin6_scope_id src, dest, buf))"
  shows "win_recvfrom_impl True (Inr (n, cmsgs)) (wsa_of e) (length buf) dst = pcp_socket_recvfrom_impl (Inr (n, cmsgs)) dst \<and>
    win_recvfrom_impl True (Inl ()) (wsa_of e) (length buf) dst = pcp_socket_recvfrom_impl (Inl e) dst \<and>
    fst (win_sendto_impl True wsasend (wsa_of e) buf src_addr dest) = fst (pcp_socket_sendto_impl sendmsg e buf src_addr dest) \<and>
    win_recvfrom_impl False r err (length buf) dst = (1, dst) \<and>
    (src_addr \<noteq> None \<longrightarrow> win_sendto_impl False wsasend err buf src_addr dest = (1, None)) \<and>
    (\<forall>E sa c. (\<forall>m b. length b \<le> ULONG_MAX \<longrightarrow> env_sendto E m b = fst (win_sendto_impl False wsasend err b (Some src) dest)) \<longrightarrow>
       (\<exists>c'. send_loop E sa buf (length buf) c = Some (c', PCP_ERR_SUCCESS)))"
proof -
  have "\<exists>c'. send_loop E sa buf (length buf) c = Some (c', PCP_ERR_SUCCESS)"
    if "\<forall>m b. length b \<le> ULONG_MAX \<longrightarrow> env_sendto E m b = fst (win_sendto_impl False wsasend err b (Some src) dest)" for E sa c
    by (rule send_loop_ones) (use that assms(1) in \<open>simp_all add: win_sendto_impl_def\<close>)
  moreover have "fst (win_sendto_impl True wsasend (wsa_of e) buf src_addr dest) = fst (pcp_socket_sendto_impl sendmsg e buf src_addr dest)"
    using assms(1,3) by (cases src_addr)
      (auto simp: win_sendto_impl_def pcp_socket_sendto_impl_def win_send_check_def send_check_def wsa_of_error Let_def split: sum.splits)
  ultimately show ?thesis
    using assms(1,2) by (auto simp: win_recvfrom_impl_def pcp_socket_recvfrom_impl_def win_sendto_impl_def wsa_of_error Let_def)
qed

theorem windows_socket_agrees_witness:
  "fst (win_sendto_impl True (\<lambda>_. Inr 2) WSAEWOULDBLOCK [2, 0] (Some (Sockaddr_in6 (v4mapped 1) 0 0)) (Sockaddr_in 2 5351)) = 2"
  using windows_socket_agrees [where buf = "[2, 0]" and n = 0 and src_addr = "Some (Sockaddr_in6 (v4mapped 1) 0 0)"
      and wsasend = "\<lambda>_. Inr 2" and sendmsg = "\<lambda>_. Inr 2" and e = EWOULDBLOCK and dest = "Sockaddr_in 2 5351"]
  by (simp add: pcp_socket_sendto_impl_def)

end
