(* ===== verification/Pcp_Debug.thy ===== *)
theory Pcp_Debug
  imports Pcp_Server_Sm
begin

text \<open>
  The names the debug log of \<^verbatim>\<open>pcp_event_handler.c\<close> prints for handlers, events and states. Each is an entry of
  a table at the number of the enumerator; an assertion guards the access, and the result \<open>None\<close> is its failure.
  A response carries its result code into the number of an event, so what is logged depends on the network.
\<close>

section \<open>Numbers of the enumerators\<close>

text \<open>The event of a response is \<^verbatim>\<open>FEV_RES_BEGIN + recv_result\<close>, which is 32 bits wide.\<close>

fun event_number :: "pcp_flow_event_e \<Rightarrow> int" where
  "event_number fev_flow_timedout = 0"
| "event_number fev_server_initialized = 1"
| "event_number fev_send = 2"
| "event_number fev_msg_sent = 3"
| "event_number fev_failed = 4"
| "event_number fev_none = 5"
| "event_number fev_server_restarted = 6"
| "event_number fev_ignored = 7"
| "event_number fev_res_success = 8 + uint PCP_RES_SUCCESS"
| "event_number fev_res_unsupp_version = 8 + uint PCP_RES_UNSUPP_VERSION"
| "event_number fev_res_not_authorized = 8 + uint PCP_RES_NOT_AUTHORIZED"
| "event_number fev_res_malformed_request = 8 + uint PCP_RES_MALFORMED_REQUEST"
| "event_number fev_res_unsupp_opcode = 8 + uint PCP_RES_UNSUPP_OPCODE"
| "event_number fev_res_unsupp_option = 8 + uint PCP_RES_UNSUPP_OPTION"
| "event_number fev_res_malformed_option = 8 + uint PCP_RES_MALFORMED_OPTION"
| "event_number fev_res_network_failure = 8 + uint PCP_RES_NETWORK_FAILURE"
| "event_number fev_res_no_resources = 8 + uint PCP_RES_NO_RESOURCES"
| "event_number fev_res_unsupp_protocol = 8 + uint PCP_RES_UNSUPP_PROTOCOL"
| "event_number fev_res_user_ex_quota = 8 + uint PCP_RES_USER_EX_QUOTA"
| "event_number fev_res_cant_provide_ext = 8 + uint PCP_RES_CANNOT_PROVIDE_EXTERNAL"
| "event_number fev_res_address_mismatch = 8 + uint PCP_RES_ADDRESS_MISMATCH"
| "event_number fev_res_exc_remote_peers = 8 + uint PCP_RES_EXCESSIVE_REMOTE_PEERS"
| "event_number (fev_res_other r) = sint (8 + r)"

fun state_number :: "pcp_flow_state_e \<Rightarrow> int" where
  "state_number pfs_any = - 1"
| "state_number pfs_idle = 0"
| "state_number pfs_wait_for_server_init = 1"
| "state_number pfs_send = 2"
| "state_number pfs_wait_resp = 3"
| "state_number pfs_wait_after_short_life_error = 4"
| "state_number pfs_wait_for_lifetime_renew = 5"
| "state_number pfs_send_renew = 6"
| "state_number pfs_failed = 7"

fun sevent_number :: "pcp_event_e \<Rightarrow> int" where
  "sevent_number pcpe_any = 0"
| "sevent_number pcpe_timeout = 1"
| "sevent_number pcpe_io_event = 2"
| "sevent_number pcpe_terminate = 3"

fun sstate_number :: "pcp_server_state_e \<Rightarrow> int" where
  "sstate_number pss_any = - 1"
| "sstate_number pss_unitialized = 0"
| "sstate_number pss_allocated = 1"
| "sstate_number pss_ping = 2"
| "sstate_number pss_wait_ping_resp = 3"
| "sstate_number pss_version_negotiation = 4"
| "sstate_number pss_send_all_msgs = 5"
| "sstate_number pss_wait_io = 6"
| "sstate_number pss_wait_io_calc_nearest_timeout = 7"
| "sstate_number pss_server_restart = 8"
| "sstate_number pss_server_reping = 9"
| "sstate_number pss_set_not_working = 10"
| "sstate_number pss_not_working = 11"

fun fstate_number :: "pcp_fstate_e \<Rightarrow> int" where
  "fstate_number pcp_state_processing = 0"
| "fstate_number pcp_state_succeeded = 1"
| "fstate_number pcp_state_partial_result = 2"
| "fstate_number pcp_state_short_lifetime_error = 3"
| "fstate_number pcp_state_failed = 4"

section \<open>Names\<close>

fun dbg_get_func_name :: "fhandler + shandler \<Rightarrow> string" where
  "dbg_get_func_name (Inl H_send) = ''fhndl_send''"
| "dbg_get_func_name (Inl H_send_renew) = ''fhndl_send_renew''"
| "dbg_get_func_name (Inl H_resend) = ''fhndl_resend''"
| "dbg_get_func_name (Inl H_shortlifeerror) = ''fhndl_shortlifeerror''"
| "dbg_get_func_name (Inl H_received_success) = ''fhndl_received_success''"
| "dbg_get_func_name (Inl H_clear_timeouts) = ''fhndl_clear_timeouts''"
| "dbg_get_func_name (Inl H_waitresp) = ''fhndl_waitresp''"
| "dbg_get_func_name (Inr S_wait_io_receive_msg) = ''handle_wait_io_receive_msg''"
| "dbg_get_func_name (Inr S_ping) = ''handle_server_ping''"
| "dbg_get_func_name (Inr S_wait_ping_resp_timeout) = ''handle_wait_ping_resp_timeout''"
| "dbg_get_func_name (Inr S_wait_ping_resp_recv) = ''handle_wait_ping_resp_recv''"
| "dbg_get_func_name (Inr S_version_negotiation) = ''handle_version_negotiation''"
| "dbg_get_func_name (Inr S_send_all_msgs) = ''handle_send_all_msgs''"
| "dbg_get_func_name (Inr S_server_restart) = ''handle_server_restart''"
| "dbg_get_func_name (Inr S_wait_io_timeout) = ''handle_wait_io_timeout''"
| "dbg_get_func_name (Inr S_set_not_working) = ''handle_server_set_not_working''"
| "dbg_get_func_name (Inr S_not_working) = ''handle_server_not_working''"
| "dbg_get_func_name (Inr S_server_reping) = ''handle_server_reping''"
| "dbg_get_func_name (Inr S_terminate) = ''pcp_terminate_server''"
| "dbg_get_func_name (Inr S_log_unexpected) = ''log_unexepected_state_event''"
| "dbg_get_func_name (Inr S_ignore_events) = ''ignore_events''"

text \<open>An \<^verbatim>\<open>int\<close> compared with a \<^verbatim>\<open>sizeof\<close> is converted to an unsigned 64-bit number.\<close>

definition below_size :: "int \<Rightarrow> nat \<Rightarrow> bool" where
  "below_size k n \<longleftrightarrow> k mod 2 ^ 64 < int n"

definition event_names :: "string list" where
  "event_names =
    [''fev_flow_timedout'', ''fev_server_initialized'', ''fev_send'', ''fev_msg_sent'', ''fev_failed'', ''fev_none'',
     ''fev_server_restarted'', ''fev_ignored'', ''fev_res_success'', ''fev_res_unsupp_version'',
     ''fev_res_not_authorized'', ''fev_res_malformed_request'', ''fev_res_unsupp_opcode'', ''fev_res_unsupp_option'',
     ''fev_res_malformed_option'', ''fev_res_network_failure'', ''fev_res_no_resources'', ''fev_res_unsupp_protocol'',
     ''fev_res_user_ex_quota'', ''fev_res_cant_provide_ext'', ''fev_res_address_mismatch'', ''fev_res_exc_remote_peers'']"

definition dbg_get_event_name :: "int \<Rightarrow> string option" where
  "dbg_get_event_name ev =
     (if \<not> below_size ev (length event_names) then None else Some (if ev \<ge> 0 then event_names ! nat ev else []))"

definition dbg_get_state_name :: "int \<Rightarrow> string option" where
  "dbg_get_state_name s =
     (let state_names = [''pfs_idle'', ''pfs_wait_for_server_init'', ''pfs_send'', ''pfs_wait_resp'',
        ''pfs_wait_after_short_life_error'', ''pfs_wait_for_lifetime_renew'', ''pfs_send_renew'', ''pfs_failed'']
      in if \<not> s < int (length state_names) then None else Some (if s \<ge> 0 then state_names ! nat s else []))"

definition dbg_get_sevent_name :: "int \<Rightarrow> string option" where
  "dbg_get_sevent_name ev =
     (let sevent_names = [''pcpe_any'', ''pcpe_timeout'', ''pcpe_io_event'', ''pcpe_terminate'']
      in if \<not> below_size ev (length sevent_names) then None else Some (sevent_names ! nat ev))"

definition dbg_get_sstate_name :: "int \<Rightarrow> string option" where
  "dbg_get_sstate_name s =
     (let server_state_names = [''pss_unitialized'', ''pss_allocated'', ''pss_ping'', ''pss_wait_ping_resp'',
        ''pss_version_negotiation'', ''pss_send_all_msgs'', ''pss_wait_io'', ''pss_wait_io_calc_nearest_timeout'',
        ''pss_server_restart'', ''pss_server_reping'', ''pss_set_not_working'', ''pss_not_working'']
      in if \<not> s < int (length server_state_names) then None else Some (if s \<ge> 0 then server_state_names ! nat s else []))"

definition dbg_get_fstate_name :: "int \<Rightarrow> string option" where
  "dbg_get_fstate_name s =
     (let flow_state_names = [''pcp_state_processing'', ''pcp_state_succeeded'', ''pcp_state_partial_result'',
        ''pcp_state_short_lifetime_error'', ''pcp_state_failed'']
      in if \<not> below_size s (length flow_state_names) then None else Some (flow_state_names ! nat s))"

section \<open>The log is in range\<close>

fun unnamed :: "pcp_flow_event_e \<Rightarrow> bool" where
  "unnamed (fev_res_other _) = True"
| "unnamed _ = False"

lemma named_event: "\<not> unnamed ev \<Longrightarrow> 0 \<le> event_number ev \<and> event_number ev < 22"
  by (cases ev) simp_all

lemma event_name_named: "\<not> unnamed ev \<Longrightarrow> dbg_get_event_name (event_number ev) = Some (event_names ! nat (event_number ev))"
  using named_event [of ev] by (simp add: dbg_get_event_name_def below_size_def event_names_def)

lemma transition_named: "next_flow_state cur ev = Some nx \<Longrightarrow> \<not> unnamed ev"
  by (cases ev) (auto simp: next_flow_state_def flow_events_sm_def)

lemma handler_event_named: "ev \<in> handler_events h \<Longrightarrow> \<not> unnamed ev"
  by (cases h) auto

lemma handler_result: "run_fhandler h E a m c = Some (c', ev) \<Longrightarrow> ev \<in> handler_events h"
  by (cases h) (auto simp: fhndl_waitresp_def fhndl_resend_def fhndl_send_def fhndl_shortlifeerror_def fhndl_received_success_def
      fhndl_send_renew_def fhndl_clear_timeouts_def Let_def bind_eq_Some_conv case_prod_unfold split: option.split_asm if_split_asm)

lemma state_name_defined: "dbg_get_state_name (state_number st) \<noteq> None"
  by (cases st) (simp_all add: dbg_get_state_name_def)

lemma sstate_name_defined: "dbg_get_sstate_name (sstate_number st) \<noteq> None"
  by (cases st) (simp_all add: dbg_get_sstate_name_def)

lemma sevent_name_defined: "dbg_get_sevent_name (sevent_number ev) \<noteq> None"
  by (cases ev) (simp_all add: dbg_get_sevent_name_def below_size_def)

lemma fstate_name_defined: "dbg_get_fstate_name (fstate_number st) \<noteq> None"
  by (cases st) (simp_all add: dbg_get_fstate_name_def below_size_def)

lemma unnamed_event:
  assumes "14 \<le> r" and "r < 0x80000000 - 8"
  shows "dbg_get_event_name (event_number (fev_res_other r)) = None"
proof -
  have r: "14 \<le> uint r" "uint r < 2147483640" using assms by (simp_all add: word_le_def word_less_def)
  have u: "uint (8 + r) = 8 + uint r" using r by (simp add: uint_word_ariths)
  have "sint (8 + r) = 8 + uint r"
    using r u by (simp add: sint_uint signed_take_bit_int_eq_self)
  then show ?thesis using r by (simp add: dbg_get_event_name_def below_size_def event_names_def)
qed

text \<open>The debug log stays in its tables. Whenever a transition of a flow is logged, the states
  and the event that caused it have names, and so does the event its handler returns; for the states and
  events of the servers, and the states reported to the program, this holds without condition. No two
  handlers and no two events share a name. The event of a response with a result code above 13 has none,
  and its name would fail the assertion: it is never logged because no transition accepts it.\<close>

theorem debug_log_in_range:
  assumes "next_flow_state cur ev = Some nx" and "flow_transition cur nx = Some h" and "run_fhandler h E a m c = Some (c', ev')"
  shows "dbg_get_state_name (state_number cur) \<noteq> None \<and> dbg_get_state_name (state_number nx) \<noteq> None \<and>
    dbg_get_event_name (event_number ev) \<noteq> None \<and> dbg_get_event_name (event_number ev') \<noteq> None \<and>
    (\<forall>st. dbg_get_sstate_name (sstate_number st) \<noteq> None) \<and> (\<forall>e. dbg_get_sevent_name (sevent_number e) \<noteq> None) \<and>
    (\<forall>st. dbg_get_fstate_name (fstate_number st) \<noteq> None) \<and> inj dbg_get_func_name \<and> distinct event_names \<and>
    (\<forall>r\<ge>14. r < 0x80000000 - 8 \<longrightarrow> dbg_get_event_name (event_number (fev_res_other r)) = None)"
proof -
  have "x = y" if "dbg_get_func_name x = dbg_get_func_name y" for x y
    using that by (cases x rule: dbg_get_func_name.cases; cases y rule: dbg_get_func_name.cases) simp_all
  then have "inj dbg_get_func_name" by (rule injI)
  moreover have "distinct event_names" by (simp add: event_names_def)
  ultimately show ?thesis
    using state_name_defined sstate_name_defined sevent_name_defined fstate_name_defined unnamed_event
      event_name_named [OF transition_named [OF assms(1)]] event_name_named [OF handler_event_named [OF handler_result [OF assms(3)]]]
    by blast
qed

theorem debug_log_in_range_witness:
  "dbg_get_event_name (event_number fev_failed) \<noteq> None \<and> dbg_get_event_name (event_number (fev_res_other 14)) = None"
proof -
  have "next_flow_state pfs_send fev_failed = Some pfs_failed" by (simp add: next_flow_state_def flow_events_sm_def)
  moreover have "flow_transition pfs_send pfs_failed = Some H_clear_timeouts" by (simp add: flow_transition_def flow_transitions_def)
  moreover obtain c' ev' where "run_fhandler H_clear_timeouts demo_env 7 None (demo_waiting pfs_send) = Some (c', ev')"
    by (simp add: fhndl_clear_timeouts_def pcp_flow_clear_msg_buf_def demo_waiting_def upd_flow_def)
  ultimately show ?thesis using debug_log_in_range by fastforce
qed

end
