(* ===== verification/Pcp_Gateway.thy ===== *)
theory Pcp_Gateway
  imports Pcp_Discovery
begin

text \<open>
  Finding the gateways in the routing table of the system, \<^verbatim>\<open>gateway.c\<close>: over a netlink socket (Linux), from
  the routing dump of \<^verbatim>\<open>sysctl\<close> (BSD) and from the forwarding table (Windows). A netlink message is a record of the
  header members the code reads with its length, and the macros that step through messages and
  attributes are steps through lists; a message that does not fit in the rest of the buffer ends the list.
  The lengths of messages are multiples of their alignment. The calls of the system are arguments:
  \<open>None\<close> is their failure.
\<close>

definition TO_IPV6MAPPED :: "in6_addr \<Rightarrow> in6_addr" where
  "TO_IPV6MAPPED x = In6 0 0 0xFFFF (s6_0 x)"

section \<open>Netlink\<close>

datatype nl_type = NLMSG_ERROR | NLMSG_DONE | NLMSG_route

datatype rt_family = RT_INET | RT_INET6 | RT_other_family

datatype rtattr = RTA_OIF u32 | RTA_GATEWAY bytes | RTA_other nat

record rtmsg =
  rtm_family :: rt_family
  rtm_main :: bool
  rtm_attrs :: "rtattr list"

record nlmsg =
  nlmsg_len :: nat
  nlmsg_type :: nl_type
  nlmsg_multi :: bool
  nlmsg_seq :: u32
  nlmsg_pid :: u32
  nlmsg_route :: rtmsg

abbreviation BUFSIZE :: nat where
  "BUFSIZE \<equiv> 8192"

abbreviation nlmsghdr_size :: nat where
  "nlmsghdr_size \<equiv> 16"

definition dgram_size :: "nlmsg list \<Rightarrow> nat" where
  "dgram_size d = sum_list (map nlmsg_len d)"

text \<open>The messages that are complete within the first \<open>room\<close> bytes.\<close>

fun fitting :: "nat \<Rightarrow> nlmsg list \<Rightarrow> nlmsg list" where
  "fitting room [] = []"
| "fitting room (m # ms) = (if nlmsg_len m \<le> room then m # fitting (room - nlmsg_len m) ms else [])"

text \<open>\<^verbatim>\<open>readNlSock\<close>: the \<open>k\<close>-th datagram is cut to the room in the buffer; \<open>Some None\<close> is the result \<^verbatim>\<open>-1\<close>. Only the
  first header of a datagram is looked at.\<close>

partial_function (option) readNlSock ::
  "(nat \<Rightarrow> nlmsg list option) \<Rightarrow> u32 \<Rightarrow> u32 \<Rightarrow> nat \<Rightarrow> nat \<Rightarrow> nlmsg list \<Rightarrow> nlmsg list option option" where
  "readNlSock recv seqNum pId k msgLen buf =
     (case recv k of
        None \<Rightarrow> Some None
      | Some d \<Rightarrow>
          let readLen = min (dgram_size d) (BUFSIZE - msgLen) in
          (case d of
             [] \<Rightarrow> Some None
           | nlHdr # _ \<Rightarrow>
               if readLen < nlmsghdr_size \<or> nlmsg_len nlHdr < nlmsghdr_size \<or> nlmsg_len nlHdr > readLen \<or> nlmsg_type nlHdr = NLMSG_ERROR
               then Some None
               else if nlmsg_type nlHdr = NLMSG_DONE then Some (Some buf)
               else let buf = buf @ fitting readLen d in
                    if \<not> nlmsg_multi nlHdr then Some (Some buf)
                    else if nlmsg_seq nlHdr \<noteq> seqNum \<or> nlmsg_pid nlHdr \<noteq> pId
                         then readNlSock recv seqNum pId (Suc k) (msgLen + readLen) buf
                         else Some (Some buf)))"

text \<open>The loop over the attributes of a route: interface and gateway.\<close>

fun attr_step :: "rt_family \<Rightarrow> rtattr \<Rightarrow> u32 \<times> in6_addr option \<Rightarrow> u32 \<times> in6_addr option" where
  "attr_step fam (RTA_OIF i) (scope_id, addr) = (i, addr)"
| "attr_step fam (RTA_GATEWAY d) (scope_id, addr) =
     (if length d > 16 then (scope_id, addr)
      else let a = get_in6 0 (d @ replicate (16 - length d) 0)
           in (scope_id, Some (if fam = RT_INET then TO_IPV6MAPPED a else a)))"
| "attr_step fam (RTA_other n) (scope_id, addr) = (scope_id, addr)"

definition route_gateway :: "rtmsg \<Rightarrow> (in6_addr \<times> u32) option" where
  "route_gateway rt =
     (if rtm_family rt = RT_other_family \<or> \<not> rtm_main rt then None
      else case fold (attr_step (rtm_family rt)) (rtm_attrs rt) (0, None) of
          (scope_id, None) \<Rightarrow> None
        | (scope_id, Some addr) \<Rightarrow> Some (addr, scope_id))"

text \<open>The loop over the messages, which a message shorter than its header ends; \<open>mem n\<close> tells whether the array can be enlarged to \<open>n\<close> elements. The result is the return
  value and the array.\<close>

fun gateway_loop :: "(nat \<Rightarrow> bool) \<Rightarrow> nlmsg list \<Rightarrow> (in6_addr \<times> u32) list \<Rightarrow> int \<times> (in6_addr \<times> u32) list" where
  "gateway_loop mem [] gws = (int (length gws), gws)"
| "gateway_loop mem (m # ms) gws =
     (if nlmsg_len m < nlmsghdr_size then (int (length gws), gws)
      else case route_gateway (nlmsg_route m) of
        None \<Rightarrow> gateway_loop mem ms gws
      | Some gw \<Rightarrow> if mem (length gws + 1) then gateway_loop mem ms (gws @ [gw]) else (PCP_ERR_NO_MEM, []))"

text \<open>The request has the number 0, and the number of the next one is passed to \<^verbatim>\<open>readNlSock\<close>.\<close>

definition getgateways ::
  "bool \<Rightarrow> bool \<Rightarrow> (nat \<Rightarrow> nlmsg list option) \<Rightarrow> (nat \<Rightarrow> bool) \<Rightarrow> u32 \<Rightarrow> (int \<times> (in6_addr \<times> u32) list) option" where
  "getgateways sock_ok send_ok recv mem pid =
     (if \<not> sock_ok then Some (PCP_ERR_UNKNOWN, [])
      else if \<not> send_ok then Some (PCP_ERR_SEND_FAILED, [])
      else do { r \<leftarrow> readNlSock recv 1 pid 0 0 [];
                Some (case r of None \<Rightarrow> (PCP_ERR_RECV_FAILED, []) | Some msgs \<Rightarrow> gateway_loop mem msgs []) })"

section \<open>Routing dump\<close>

text \<open>The addresses behind the header of a message, for the bits of \<^verbatim>\<open>rtm_addrs\<close>: destination, gateway and
  six more. \<^verbatim>\<open>NEXT_SA\<close> steps to the next address.\<close>

fun get_rtaddrs :: "nat \<Rightarrow> nat \<Rightarrow> nat \<Rightarrow> 'sa list \<Rightarrow> 'sa option list" where
  "get_rtaddrs 0 i addrs sas = []"
| "get_rtaddrs (Suc n) i addrs sas =
     (if bit addrs i
      then (case sas of [] \<Rightarrow> None | sa # r \<Rightarrow> Some sa) # get_rtaddrs n (Suc i) addrs (tl sas)
      else None # get_rtaddrs n (Suc i) addrs sas)"

record rt_msghdr =
  rtm_addrs :: nat
  rtm_sas :: "sockaddr list"

abbreviation RTAX_MAX :: nat where
  "RTAX_MAX \<equiv> 8"

abbreviation RTAX_GATEWAY :: nat where
  "RTAX_GATEWAY \<equiv> 1"

definition rtm_gateway :: "rt_msghdr \<Rightarrow> sockaddr option" where
  "rtm_gateway rtm =
     (case get_rtaddrs RTAX_MAX 0 (rtm_addrs rtm) (rtm_sas rtm) ! RTAX_GATEWAY of
        None \<Rightarrow> None
      | Some sa \<Rightarrow> if rtm_addrs rtm AND 3 = 3 then Some sa else None)"

fun dump_loop :: "(nat \<Rightarrow> bool) \<Rightarrow> rt_msghdr list \<Rightarrow> (in6_addr \<times> u32) list \<Rightarrow> int \<times> (in6_addr \<times> u32) list" where
  "dump_loop mem [] gws = (int (length gws), gws)"
| "dump_loop mem (rtm # rtms) gws =
     (case rtm_gateway rtm of
        None \<Rightarrow> dump_loop mem rtms gws
      | Some sa \<Rightarrow>
          if \<not> mem (length gws + 1) then (PCP_ERR_NO_MEM, [])
          else case sa of
              Sockaddr_in a port \<Rightarrow> dump_loop mem rtms (gws @ [(TO_IPV6MAPPED (In6 a 0 0 0), 0)])
            | Sockaddr_in6 a port scope_id \<Rightarrow> dump_loop mem rtms (gws @ [(a, scope_id)])
            | Sockaddr_other n \<Rightarrow> dump_loop mem rtms gws)"

definition getgateways_dump :: "rt_msghdr list option \<Rightarrow> (nat \<Rightarrow> bool) \<Rightarrow> int \<times> (in6_addr \<times> u32) list" where
  "getgateways_dump dump mem = (case dump of None \<Rightarrow> (PCP_ERR_UNKNOWN, []) | Some rtms \<Rightarrow> dump_loop mem rtms [])"

section \<open>Forwarding table\<close>

fun table_loop :: "sockaddr list \<Rightarrow> (in6_addr \<times> u32) list \<Rightarrow> (in6_addr \<times> u32) list" where
  "table_loop [] gws = gws"
| "table_loop (row # rows) gws =
     (case row of
        Sockaddr_in6 a port scope_id \<Rightarrow> if IPV6_IS_ADDR_ANY a then table_loop rows gws else table_loop rows (gws @ [(a, scope_id)])
      | Sockaddr_in a port \<Rightarrow> if a = 0 then table_loop rows gws else table_loop rows (gws @ [(TO_IPV6MAPPED (In6 a 0 0 0), 0)])
      | Sockaddr_other n \<Rightarrow> table_loop rows gws)"

definition getgateways_table :: "sockaddr list option \<Rightarrow> bool \<Rightarrow> int \<times> (in6_addr \<times> u32) list" where
  "getgateways_table ipf_table mem =
     (case ipf_table of
        None \<Rightarrow> (PCP_ERR_UNKNOWN, [])
      | Some rows \<Rightarrow> if \<not> mem then (PCP_ERR_NO_MEM, []) else (int (length (table_loop rows [])), table_loop rows []))"


section \<open>A dump in several datagrams\<close>

lemma dgram_size_append [simp]: "dgram_size (xs @ ys) = dgram_size xs + dgram_size ys"
  by (simp add: dgram_size_def)

lemma dgram_size_simps [simp]: "dgram_size [] = 0" "dgram_size (m # ms) = nlmsg_len m + dgram_size ms"
  by (simp_all add: dgram_size_def)

lemma fitting_all [simp]: "dgram_size d \<le> room \<Longrightarrow> fitting room d = d"
  by (induction room d rule: fitting.induct) auto

lemma readNlSock_full: "readNlSock recv s p k BUFSIZE buf = Some None"
  by (subst readNlSock.simps) (auto split: option.splits list.splits)

text \<open>A part of the answer to the request with the number 0, and the end of the answer.\<close>

definition part_ok :: "nlmsg list \<Rightarrow> bool" where
  "part_ok d \<longleftrightarrow> d \<noteq> [] \<and> (\<forall>m\<in>set d. nlmsghdr_size \<le> nlmsg_len m) \<and>
     nlmsg_type (hd d) = NLMSG_route \<and> nlmsg_multi (hd d) \<and> nlmsg_seq (hd d) = 0"

definition done_ok :: "nlmsg \<Rightarrow> bool" where
  "done_ok m \<longleftrightarrow> nlmsg_type m = NLMSG_DONE \<and> nlmsghdr_size \<le> nlmsg_len m"

definition answers :: "nlmsg list list \<Rightarrow> nlmsg \<Rightarrow> nat \<Rightarrow> nlmsg list option" where
  "answers parts fin k = (if k < length parts then Some (parts ! k) else Some [fin])"

lemma size_take_Suc: "k < length parts \<Longrightarrow> dgram_size (concat (take (Suc k) parts)) = dgram_size (concat (take k parts)) + dgram_size (parts ! k)"
  by (simp add: take_Suc_conv_app_nth)

lemma size_take_le: "dgram_size (concat (take k parts)) \<le> dgram_size (concat parts)"
  by (metis append_take_drop_id concat_append dgram_size_append le_add1)

lemma readNlSock_parts:
  assumes "\<forall>d\<in>set parts. part_ok d" and "done_ok fin"
  shows "k \<le> length parts \<Longrightarrow> dgram_size (concat (take k parts)) \<le> BUFSIZE \<Longrightarrow>
    readNlSock (answers parts fin) 1 pid k (dgram_size (concat (take k parts))) (concat (take k parts)) =
      Some (if dgram_size (concat parts) + nlmsg_len fin \<le> BUFSIZE then Some (concat parts) else None)"
proof (induction k rule: inc_induct)
  case base
  then show ?case using assms(2) by (subst readNlSock.simps) (auto simp: answers_def done_ok_def Let_def)
next
  case (step k)
  let ?L = "dgram_size (concat (take k parts))"
  obtain h t where d: "parts ! k = h # t" "part_ok (h # t)"
    using assms(1) step(2) by (metis nth_mem part_ok_def neq_Nil_conv)
  then have h: "nlmsghdr_size \<le> nlmsg_len h" "nlmsg_type h = NLMSG_route" "nlmsg_multi h" "nlmsg_seq h \<noteq> 1"
    by (auto simp: part_ok_def)
  show ?case
  proof (cases "?L + dgram_size (parts ! k) \<le> BUFSIZE")
    case True
    have "readNlSock (answers parts fin) 1 pid k ?L (concat (take k parts)) =
      readNlSock (answers parts fin) 1 pid (Suc k) (dgram_size (concat (take (Suc k) parts))) (concat (take (Suc k) parts))"
      using True d h step(2) by (subst readNlSock.simps) (simp add: answers_def size_take_Suc take_Suc_conv_app_nth Let_def)
    then show ?thesis using step True by (simp add: size_take_Suc)
  next
    case False
    then have big: "\<not> dgram_size (concat parts) + nlmsg_len fin \<le> BUFSIZE"
      using size_take_le [of "Suc k" parts] step(2) by (simp add: size_take_Suc)
    show ?thesis
    proof (cases "nlmsg_len h \<le> BUFSIZE - ?L")
      case True
      have "min (dgram_size (parts ! k)) (BUFSIZE - ?L) = BUFSIZE - ?L" "?L + (BUFSIZE - ?L) = BUFSIZE"
        using False step(4) by simp_all
      then have "readNlSock (answers parts fin) 1 pid k ?L (concat (take k parts)) = Some None"
        using True d h step(2) by (subst readNlSock.simps) (simp add: answers_def Let_def readNlSock_full)
      then show ?thesis using big by simp
    next
      case False
      then show ?thesis using big d step(2) by (subst readNlSock.simps) (auto simp: answers_def Let_def)
    qed
  qed
qed

lemma gateway_loop_all:
  "\<forall>n. mem n \<Longrightarrow> \<forall>m\<in>set ms. nlmsghdr_size \<le> nlmsg_len m \<Longrightarrow> gateway_loop mem ms gws =
     (let gs = gws @ List.map_filter (\<lambda>m. route_gateway (nlmsg_route m)) ms in (int (length gs), gs))"
  by (induction ms arbitrary: gws) (auto simp: map_filter_simps Let_def split: option.splits)


section \<open>The same routes in the three forms\<close>

text \<open>A route is its next hop and interface; without a next hop, or with one of another family, it has no gateway.\<close>

fun hop_bytes :: "sockaddr \<Rightarrow> bytes" where
  "hop_bytes (Sockaddr_in a port) = be32 a"
| "hop_bytes (Sockaddr_in6 a port sc) = in6_bytes a"
| "hop_bytes (Sockaddr_other n) = []"

fun hop_family :: "sockaddr \<Rightarrow> rt_family" where
  "hop_family (Sockaddr_in a port) = RT_INET"
| "hop_family (Sockaddr_in6 a port sc) = RT_INET6"
| "hop_family (Sockaddr_other n) = RT_other_family"

definition as_netlink :: "sockaddr \<times> u32 \<Rightarrow> rtmsg" where
  "as_netlink r = \<lparr>rtm_family = hop_family (fst r), rtm_main = True, rtm_attrs = [RTA_GATEWAY (hop_bytes (fst r)), RTA_OIF (snd r)]\<rparr>"

definition as_dump :: "sockaddr \<times> u32 \<Rightarrow> rt_msghdr" where
  "as_dump r = \<lparr>rtm_addrs = 3, rtm_sas = [Sockaddr_in 0 0, fst r]\<rparr>"

fun hop_given :: "sockaddr \<Rightarrow> bool" where
  "hop_given (Sockaddr_in a port) \<longleftrightarrow> a \<noteq> 0"
| "hop_given (Sockaddr_in6 a port sc) \<longleftrightarrow> \<not> IPV6_IS_ADDR_ANY a"
| "hop_given (Sockaddr_other n) \<longleftrightarrow> True"

fun hop_addr :: "sockaddr \<Rightarrow> in6_addr option" where
  "hop_addr (Sockaddr_in a port) = Some (v4mapped a)"
| "hop_addr (Sockaddr_in6 a port sc) = Some a"
| "hop_addr (Sockaddr_other n) = None"

lemma mapped_hop: "TO_IPV6MAPPED (In6 a x y z) = v4mapped a"
  by (simp add: TO_IPV6MAPPED_def v4mapped_def)

lemma hop_of_bytes: "get_in6 0 (in6_bytes a) = a" "s6_0 (get_in6 0 (be32 w @ r)) = w" "length (in6_bytes a) = 16"
  using get_in6_cells(1) [of a "[]"] by (simp_all add: get_in6_def get_u32_cells in6_bytes_def)

lemma netlink_hop: "map_option fst (route_gateway (as_netlink r)) = hop_addr (fst r)"
  by (cases "fst r") (auto simp: as_netlink_def route_gateway_def Let_def TO_IPV6MAPPED_def v4mapped_def hop_of_bytes)

lemma get_rtaddrs_two: "get_rtaddrs (Suc (Suc n)) 0 3 [a, b] ! 1 = Some b"
proof -
  have "bit (3 :: nat) 0" "bit (3 :: nat) (Suc 0)" by (simp_all add: bit_iff_odd)
  then show ?thesis by simp
qed

lemma dump_hop: "rtm_gateway (as_dump r) = Some (fst r)"
  using get_rtaddrs_two [of 6 "Sockaddr_in 0 0" "fst r"] by (simp add: rtm_gateway_def as_dump_def)

lemma netlink_hops:
  "map fst (List.map_filter (\<lambda>m. route_gateway (nlmsg_route m)) ms) = List.map_filter hop_addr hops"
  if "map nlmsg_route ms = map as_netlink rs" "hops = map fst rs"
  using that
proof (induction ms arbitrary: rs hops)
  case (Cons m ms)
  then obtain r rs' where rs: "rs = r # rs'" "nlmsg_route m = as_netlink r" "map nlmsg_route ms = map as_netlink rs'" by auto
  then show ?case using Cons.IH [OF rs(3) refl] Cons.prems(2) netlink_hop [of r]
    by (cases "hop_addr (fst r)"; cases "route_gateway (as_netlink r)") (auto simp: map_filter_simps)
qed (simp add: map_filter_simps)

lemma dump_loop_all:
  "\<forall>n. mem n \<Longrightarrow>
    map fst (snd (dump_loop mem (map as_dump rs) gws)) = map fst gws @ List.map_filter hop_addr (map fst rs) \<and>
    fst (dump_loop mem (map as_dump rs) gws) = int (length (snd (dump_loop mem (map as_dump rs) gws)))"
  by (induction rs arbitrary: gws) (auto simp: map_filter_simps dump_hop mapped_hop split: sockaddr.splits)

lemma table_loop_all:
  "\<forall>h\<in>set hops. hop_given h \<Longrightarrow> map fst (table_loop hops gws) = map fst gws @ List.map_filter hop_addr hops"
  by (induction hops arbitrary: gws) (auto simp: map_filter_simps mapped_hop split: sockaddr.splits)

section \<open>Properties\<close>

text \<open>Property C33: reading the routing table over netlink. When the kernel answers the request in any number
  of datagrams, closed by a last message, the gateways of all routes of the main table are found, in the
  order of the routes and with their interfaces, provided the whole answer fits in the
  buffer of 8192 bytes; if it does not, nothing is found and the call fails.\<close>

theorem netlink_gateways:
  assumes "\<forall>d\<in>set parts. part_ok d" and "done_ok fin" and "\<forall>n. mem n"
  shows "getgateways True True (answers parts fin) mem pid =
    Some (if dgram_size (concat parts) + nlmsg_len fin \<le> BUFSIZE
          then let gs = List.map_filter (\<lambda>m. route_gateway (nlmsg_route m)) (concat parts) in (int (length gs), gs)
          else (PCP_ERR_RECV_FAILED, []))"
proof -
  have "\<forall>m\<in>set (concat parts). nlmsghdr_size \<le> nlmsg_len m" using assms(1) by (auto simp: part_ok_def)
  then show ?thesis
    using readNlSock_parts [OF assms(1,2), of 0 pid] gateway_loop_all [OF assms(3), of "concat parts" "[]"]
    by (simp add: getgateways_def)
qed

definition demo_route :: nlmsg where
  "demo_route = \<lparr>nlmsg_len = 60, nlmsg_type = NLMSG_route, nlmsg_multi = True, nlmsg_seq = 0, nlmsg_pid = 9,
     nlmsg_route = \<lparr>rtm_family = RT_INET, rtm_main = True, rtm_attrs = [RTA_GATEWAY (be32 0x0A000001), RTA_OIF 2]\<rparr>\<rparr>"

definition demo_done :: nlmsg where
  "demo_done = demo_route\<lparr>nlmsg_len := 20, nlmsg_type := NLMSG_DONE\<rparr>"

theorem netlink_gateways_witness:
  "getgateways True True (answers [[demo_route]] demo_done) (\<lambda>n. True) 9 = Some (1, [(In6 0 0 0xFFFF 0x0A000001, 2)])"
proof -
  have "\<forall>d\<in>set [[demo_route]]. part_ok d" "done_ok demo_done"
    by (simp_all add: part_ok_def done_ok_def demo_route_def demo_done_def)
  moreover have "route_gateway (nlmsg_route demo_route) = Some (In6 0 0 0xFFFF 0x0A000001, 2)"
    by (simp add: demo_route_def route_gateway_def TO_IPV6MAPPED_def hop_of_bytes Let_def)
  ultimately show ?thesis
    using netlink_gateways [of "[[demo_route]]" demo_done "\<lambda>n. True" 9]
    by (simp add: map_filter_simps) (simp add: demo_route_def demo_done_def)
qed



end
