(* ===== verification/Pcp_Text.thy ===== *)
theory Pcp_Text
  imports Pcp_Utils
begin

text \<open>
  Addresses and nonces as text: \<^verbatim>\<open>sock_ntop.c\<close> and the nonce option of the command line client,
  \<^verbatim>\<open>pcp_cli_nonce.c\<close>. A C string is the list of its characters before the terminator; a pointer
  into a string is the rest of the string from there. The resolver \<^verbatim>\<open>getaddrinfo\<close> is the
  parameter \<open>gai\<close>, from host and service name to the addresses found; \<open>alloc k\<close> tells whether the \<open>k\<close>-th
  copy of a string made by a call can be allocated. The functions of the C library used on
  strings (\<^verbatim>\<open>inet_ntop\<close>, \<^verbatim>\<open>atoi\<close>, \<^verbatim>\<open>strtoul\<close>, \<^verbatim>\<open>isspace\<close>, \<^verbatim>\<open>isxdigit\<close>) are modelled.
\<close>

section \<open>The C library on strings\<close>

definition isspace :: "char \<Rightarrow> bool" where
  "isspace c \<longleftrightarrow> c = CHR '' '' \<or> ((9 :: nat) \<le> of_char c \<and> of_char c \<le> (13 :: nat))"

definition digit_chars :: string where
  "digit_chars = ''0123456789abcdef''"

fun show_base :: "nat \<Rightarrow> nat \<Rightarrow> string" where
  "show_base b n = (if b < 2 \<or> n < b then [digit_chars ! (n mod b)] else show_base b (n div b) @ [digit_chars ! (n mod b)])"

declare show_base.simps [simp del]

definition inet_ntop4 :: "u32 \<Rightarrow> string" where
  "inet_ntop4 a = show_base 10 (unat (drop_bit 24 a AND 255)) @ ''.'' @ show_base 10 (unat (drop_bit 16 a AND 255)) @ ''.'' @
     show_base 10 (unat (drop_bit 8 a AND 255)) @ ''.'' @ show_base 10 (unat (a AND 255))"

definition in6_words :: "in6_addr \<Rightarrow> u16 list" where
  "in6_words a = [ucast (drop_bit 16 (s6_0 a)), ucast (s6_0 a), ucast (drop_bit 16 (s6_1 a)), ucast (s6_1 a),
     ucast (drop_bit 16 (s6_2 a)), ucast (s6_2 a), ucast (drop_bit 16 (s6_3 a)), ucast (s6_3 a)]"

text \<open>The longest run of zero words, the first of several: its start and length.\<close>

fun zero_run :: "u16 list \<Rightarrow> nat" where
  "zero_run [] = 0"
| "zero_run (w # ws) = (if w = 0 then Suc (zero_run ws) else 0)"

fun best_run :: "nat \<Rightarrow> u16 list \<Rightarrow> nat \<times> nat" where
  "best_run i [] = (i, 0)"
| "best_run i (w # ws) = (let (b, l) = best_run (Suc i) ws; r = zero_run (w # ws) in if r \<ge> l then (i, r) else (b, l))"

definition v4_tail :: "nat \<times> nat \<Rightarrow> u16 list \<Rightarrow> bool" where
  "v4_tail r ws \<longleftrightarrow> fst r = 0 \<and> (snd r = 6 \<or> snd r = 5 \<and> ws ! 5 = 0xFFFF)"

fun put_words :: "nat \<times> nat \<Rightarrow> in6_addr \<Rightarrow> nat list \<Rightarrow> string" where
  "put_words r a [] = []"
| "put_words r a (i # is) =
     (if fst r \<le> i \<and> i < fst r + snd r then (if i = fst r then '':'' else []) @ put_words r a is
      else (if i \<noteq> 0 then '':'' else []) @
        (if i = 6 \<and> v4_tail r (in6_words a) then inet_ntop4 (s6_3 a)
         else show_base 16 (unat (in6_words a ! i)) @ put_words r a is))"

definition inet_ntop6 :: "in6_addr \<Rightarrow> string" where
  "inet_ntop6 a =
     (let r = best_run 0 (in6_words a); r = (if snd r < 2 then (8, 0) else r)
      in put_words r a [0..<8] @ (if fst r < 8 \<and> fst r + snd r = 8 then '':'' else []))"

text \<open>\<^verbatim>\<open>strndup\<close>, and the number that decimal or hexadecimal digits denote.\<close>

definition strndup :: "bool \<Rightarrow> string \<Rightarrow> nat \<Rightarrow> string option" where
  "strndup mem s n = (if mem then Some (take n s) else None)"

definition digit_val :: "char \<Rightarrow> int option" where
  "digit_val c =
     (let n = (of_char c :: int) in
      if 48 \<le> n \<and> n \<le> 57 then Some (n - 48)
      else if 97 \<le> n \<and> n \<le> 102 then Some (n - 87)
      else if 65 \<le> n \<and> n \<le> 70 then Some (n - 55)
      else None)"

definition isxdigit :: "char \<Rightarrow> bool" where
  "isxdigit c \<longleftrightarrow> digit_val c \<noteq> None"

text \<open>The value of the leading digits of a base, and the rest of the string.\<close>

fun leading_digits :: "int \<Rightarrow> int \<Rightarrow> string \<Rightarrow> int \<times> string" where
  "leading_digits b acc [] = (acc, [])"
| "leading_digits b acc (c # cs) =
     (case digit_val c of
        None \<Rightarrow> (acc, c # cs)
      | Some d \<Rightarrow> if d < b then leading_digits b (acc * b + d) cs else (acc, c # cs))"

text \<open>\<^verbatim>\<open>atoi\<close> is \<^verbatim>\<open>strtol\<close> to base 10, which stays in the range of \<^verbatim>\<open>long\<close>, converted to \<^verbatim>\<open>int\<close>.\<close>

definition atoi :: "string \<Rightarrow> int" where
  "atoi s =
     (let s = dropWhile isspace s;
          (neg, s) = (case s of c # cs \<Rightarrow> if c = CHR ''-'' then (True, cs) else if c = CHR ''+'' then (False, cs) else (False, s)
                      | [] \<Rightarrow> (False, []));
          v = fst (leading_digits 10 0 s)
      in sint (word_of_int (if neg then max (- LONG_MAX - 1) (- v) else min LONG_MAX v) :: u32))"

section \<open>sock_ntop\<close>

text \<open>NULL cannot occur: the buffer is large enough for \<^verbatim>\<open>inet_ntop\<close>.\<close>

definition sock_ntop :: "sockaddr \<Rightarrow> nat \<Rightarrow> string" where
  "sock_ntop sa salen =
     (case sa of
        Sockaddr_in a port \<Rightarrow>
          inet_ntop4 a @ (if port \<noteq> 0 then take 6 ('':'' @ show_base 10 (unat port)) else [])
      | Sockaddr_in6 a port sc \<Rightarrow>
          if port \<noteq> 0 then ''['' @ inet_ntop6 a @ take 7 ('']:'' @ show_base 10 (unat port))
          else inet_ntop6 a
      | Sockaddr_other n \<Rightarrow>
          take 126 (''sock_ntop: unknown AF_xxx: '' @ show_base 10 n @ '', len '' @ show_base 10 salen))"

section \<open>sock_pton\<close>

text \<open>The scan for the port: the rest of the string behind the first colon, where the scan ended, and whether
  it ended at a second colon of an address without brackets.\<close>

fun scan_port :: "bool \<Rightarrow> string \<Rightarrow> string option \<Rightarrow> string option \<times> string \<times> bool" where
  "scan_port host [] port = (port, [], False)"
| "scan_port host (c # r) port =
     (if c = CHR '':''
      then (case port of
              None \<Rightarrow> scan_port host r (Some r)
            | Some _ \<Rightarrow> if \<not> host then (None, c # r, True) else scan_port host r port)
      else scan_port host r port)"

text \<open>Host and port of the text from \<open>cp\<close> on, the scan starting at \<open>ip_end\<close>.\<close>

definition host_port :: "(nat \<Rightarrow> bool) \<Rightarrow> string \<Rightarrow> string \<Rightarrow> string option \<Rightarrow> string option \<times> string option" where
  "host_port alloc cp ip_end host_name =
     (let (port, ip_end, whole) = scan_port (host_name \<noteq> None) ip_end None;
          host_name = (if whole then strndup (alloc 1) cp (length cp) else host_name)
      in if host_name = None
         then if ip_end = [] \<and> port \<noteq> None
              then (if length cp - length (the port) > 1
                    then strndup (alloc 2) cp (length cp - length (the port) - 1) else None, port)
              else (strndup (alloc 2) cp (length cp - length ip_end), port)
         else (host_name, port))"

type_synonym resolver = "string option \<Rightarrow> string option \<Rightarrow> sockaddr list option"

text \<open>The first address of a family the library knows; \<open>None\<close> when there is none.\<close>

definition is_inet :: "sockaddr \<Rightarrow> bool" where
  "is_inet sa \<longleftrightarrow> (case sa of Sockaddr_other n \<Rightarrow> False | _ \<Rightarrow> True)"

fun any_addr :: "sockaddr \<Rightarrow> sockaddr" where
  "any_addr (Sockaddr_in a p) = Sockaddr_in 0 p"
| "any_addr (Sockaddr_in6 a p sc) = Sockaddr_in6 in6_zero p 0"
| "any_addr (Sockaddr_other n) = Sockaddr_other n"

definition sock_pton :: "resolver \<Rightarrow> (nat \<Rightarrow> bool) \<Rightarrow> string option \<Rightarrow> sockaddr \<Rightarrow> int \<times> sockaddr" where
  "sock_pton gai alloc cp sa =
     (case cp of
        None \<Rightarrow> (- 1, sa)
      | Some cp \<Rightarrow>
          let cp = dropWhile isspace cp;
              bracket = (cp \<noteq> [] \<and> hd cp = CHR ''['');
              ip_end = (if bracket then dropWhile (\<lambda>c. c \<noteq> CHR '']'') cp else cp)
          in if bracket \<and> ip_end = [] then (- 2, sa)
             else
               let cp = (if bracket then tl cp else cp);
                   host_name = (if bracket then strndup (alloc 0) cp (length cp - length ip_end) else None);
                   ip_end = (if bracket then tl ip_end else ip_end);
                   (host_name, port) = host_port alloc cp ip_end host_name
               in case gai host_name port of
                    None \<Rightarrow> (- 2, sa)
                  | Some servinfo \<Rightarrow>
                      (case find is_inet servinfo of
                         None \<Rightarrow> (0, sa)
                       | Some p \<Rightarrow> (0, if host_name = None then any_addr p else p)))"

text \<open>The scan of the bracketed part: the position of the last slash as the rest behind it, and the rest from
  the closing bracket on.\<close>

fun scan_prefix :: "string \<Rightarrow> string option \<Rightarrow> string option \<times> string" where
  "scan_prefix [] prefix_begin = (prefix_begin, [])"
| "scan_prefix (c # r) prefix_begin =
     (if c = CHR '']'' then (prefix_begin, c # r)
      else scan_prefix r (if c = CHR ''/'' then Some r else prefix_begin))"

definition prefix_checked :: "sockaddr \<Rightarrow> int \<Rightarrow> int" where
  "prefix_checked sa int_prefix =
     (case sa of
        Sockaddr_in a p \<Rightarrow> if int_prefix > 32 then - 2 else 0
      | Sockaddr_in6 a p sc \<Rightarrow> if int_prefix > 128 then - 2 else 0
      | Sockaddr_other n \<Rightarrow> 0)"

definition sock_pton_with_prefix ::
  "resolver \<Rightarrow> (nat \<Rightarrow> bool) \<Rightarrow> string option \<Rightarrow> sockaddr \<Rightarrow> int \<Rightarrow> int \<times> sockaddr \<times> int" where
  "sock_pton_with_prefix gai alloc cp sa int_prefix =
     (case cp of
        None \<Rightarrow> (- 1, sa, int_prefix)
      | Some cp \<Rightarrow>
          let cp = dropWhile isspace cp in
          if cp = [] \<or> hd cp \<noteq> CHR ''['' then (- 2, sa, int_prefix)
          else
            let (prefix_begin, ip_end) = scan_prefix cp None; cp = tl cp in
            if ip_end = [] then (- 2, sa, int_prefix)
            else
              let (host_name, int_prefix) =
                    (case prefix_begin of
                       Some q \<Rightarrow> (strndup (alloc 0) cp (length cp - length q - 1),
                                  (case strndup (alloc 3) q (length q - length ip_end) of
                                     None \<Rightarrow> int_prefix | Some prefix \<Rightarrow> atoi prefix))
                     | None \<Rightarrow> (strndup (alloc 0) cp (length cp - length ip_end), 128));
                  (host_name, port) = host_port alloc cp (tl ip_end) host_name
              in case gai host_name port of
                   None \<Rightarrow> (- 2, sa, int_prefix)
                 | Some servinfo \<Rightarrow>
                     (case find is_inet servinfo of
                        None \<Rightarrow> (prefix_checked sa int_prefix, sa, int_prefix)
                      | Some p \<Rightarrow>
                          if host_name = None
                          then (case p of
                                  Sockaddr_in6 a q sc \<Rightarrow> (prefix_checked p int_prefix, any_addr p, int_prefix)
                                | _ \<Rightarrow> (- 2, p, int_prefix))
                          else (prefix_checked p int_prefix, p, int_prefix)))"

section \<open>The nonce option\<close>

text \<open>After the test of the characters \<^verbatim>\<open>strtoul\<close> reads eight digits to the end of the chunk, and their value
  fits in 32 bits; the words are stored in network byte order.\<close>

definition pcp_cli_parse_nonce_words_be :: "string option \<Rightarrow> pcp_nonce option" where
  "pcp_cli_parse_nonce_words_be txt =
     (case txt of
        None \<Rightarrow> None
      | Some txt \<Rightarrow>
          if length txt \<noteq> 24 then None
          else if \<exists>c\<in>set txt. \<not> isxdigit c then None
          else (let chunk = (\<lambda>i. leading_digits 16 0 (take 8 (drop (i * 8) txt))) in
                if \<exists>i\<in>{0, 1, 2}. snd (chunk i) \<noteq> [] \<or> fst (chunk i) > 0xFFFFFFFF then None
                else Some (Nonce (of_int (fst (chunk 0))) (of_int (fst (chunk 1))) (of_int (fst (chunk 2))))))"

section \<open>What the text of an address looks like\<close>

lemma digit_chars_nth: "i < 16 \<Longrightarrow> digit_chars ! i \<in> set digit_chars"
  by (rule nth_mem) (simp add: digit_chars_def)

lemma show_base_chars: "2 \<le> b \<Longrightarrow> b \<le> 16 \<Longrightarrow> set (show_base b n) \<subseteq> set digit_chars"
proof (induction b n rule: show_base.induct)
  case (1 b n)
  have "n mod b < 16" using 1(2,3) mod_less_divisor [of b n] by linarith
  then show ?case using 1 digit_chars_nth by (subst show_base.simps) auto
qed

lemma show_base_nonempty [simp]: "show_base b n \<noteq> []"
  by (subst show_base.simps) simp

lemma no_special: "c \<in> set digit_chars \<Longrightarrow> c \<noteq> CHR '':'' \<and> c \<noteq> CHR ''['' \<and> c \<noteq> CHR '']'' \<and> c \<noteq> CHR ''/'' \<and> c \<noteq> CHR ''.'' \<and> \<not> isspace c"
  by (auto simp: digit_chars_def isspace_def)

definition address_char :: "char \<Rightarrow> bool" where
  "address_char c \<longleftrightarrow> c \<in> set digit_chars \<or> c = CHR ''.''"

lemma inet_ntop4_chars: "c \<in> set (inet_ntop4 a) \<Longrightarrow> address_char c"
  using show_base_chars [of 10] by (auto simp: inet_ntop4_def address_char_def)

lemma address_char_special:
  "address_char c \<Longrightarrow> c \<noteq> CHR '':'' \<and> c \<noteq> CHR ''['' \<and> c \<noteq> CHR '']'' \<and> c \<noteq> CHR ''/'' \<and> \<not> isspace c"
  using no_special by (auto simp: address_char_def isspace_def)

lemma put_words_chars: "c \<in> set (put_words r a is) \<Longrightarrow> address_char c \<or> c = CHR '':''"
  using inet_ntop4_chars show_base_chars [of 16]
  by (induction "is") (fastforce simp: address_char_def split: if_splits)+

lemma inet_ntop6_chars: "c \<in> set (inet_ntop6 a) \<Longrightarrow> address_char c \<or> c = CHR '':''"
  by (auto simp: inet_ntop6_def Let_def split: if_splits dest: put_words_chars)

lemma zero_run_length: "zero_run ws \<le> length ws"
  by (induction ws) auto

lemma best_run_bounds: "best_run i ws = (b, l) \<Longrightarrow> i \<le> b \<and> b + l \<le> i + length ws"
proof (induction ws arbitrary: i b l)
  case (Cons w ws)
  obtain b' l' where r: "best_run (Suc i) ws = (b', l')" by (cases "best_run (Suc i) ws")
  have "zero_run (w # ws) \<le> length (w # ws)" by (rule zero_run_length)
  then show ?case using Cons.prems Cons.IH [OF r] r by (auto simp: Let_def split: if_splits)
qed simp

definition colons :: "string \<Rightarrow> nat" where
  "colons s = length (filter (\<lambda>c. c = CHR '':'') s)"

lemma colons_append [simp]: "colons (s @ t) = colons s + colons t" by (simp add: colons_def)
lemma colons_cons [simp]: "colons (c # s) = (if c = CHR '':'' then 1 else 0) + colons s" "colons [] = 0" by (simp_all add: colons_def)
lemma colons_none: "(\<And>c. c \<in> set s \<Longrightarrow> c \<noteq> CHR '':'') \<Longrightarrow> colons s = 0" by (auto simp: colons_def filter_empty_conv)
lemma colons_show [simp]: "2 \<le> b \<Longrightarrow> b \<le> 16 \<Longrightarrow> colons (show_base b n) = 0"
  using show_base_chars [of b n] no_special by (intro colons_none) blast
lemma colons_ntop4 [simp]: "colons (inet_ntop4 a) = 0"
  using inet_ntop4_chars address_char_special by (intro colons_none) blast

lemma inet_ntop6_colons: "2 \<le> colons (inet_ntop6 a)"
proof -
  obtain b l where r: "best_run 0 (in6_words a) = (b, l)" by (cases "best_run 0 (in6_words a)")
  have bl: "b + l \<le> 8" using best_run_bounds [OF r] by (simp add: in6_words_def)
  have up: "[0..<8] = [0, 1, 2, 3, 4, 5, 6, 7]" by (simp add: upt_rec)
  show ?thesis
  proof (cases "l < 2")
    case True
    then show ?thesis by (simp add: inet_ntop6_def r up v4_tail_def)
  next
    case False
    then have "b = 0 \<or> b = 1 \<or> b = 2 \<or> b = 3 \<or> b = 4 \<or> b = 5 \<or> b = 6" and "l = 2 \<or> l = 3 \<or> l = 4 \<or> l = 5 \<or> l = 6 \<or> l = 7 \<or> l = 8"
      using bl by linarith+
    then show ?thesis using bl by (elim disjE) (simp_all add: inet_ntop6_def r up v4_tail_def)
  qed
qed

section \<open>Scanning\<close>

lemma scan_port_skip: "(\<And>c. c \<in> set s \<Longrightarrow> c \<noteq> CHR '':'') \<Longrightarrow> scan_port h (s @ r) p = scan_port h r p"
  by (induction s) auto

lemma scan_port_plain: "(\<And>c. c \<in> set s \<Longrightarrow> c \<noteq> CHR '':'') \<Longrightarrow> scan_port h s p = (p, [], False)"
  using scan_port_skip [of s h "[]" p] by simp

lemma scan_port_second: "1 \<le> colons s \<Longrightarrow> \<exists>r. scan_port False s (Some q) = (None, r, True)"
  by (induction s) auto

lemma scan_port_whole: "2 \<le> colons s \<Longrightarrow> \<exists>r. scan_port False s None = (None, r, True)"
  using scan_port_second by (induction s) auto

lemma starts_plain:
  assumes "s \<noteq> []" and "\<not> isspace (hd s)"
  shows "dropWhile isspace (s @ r) = s @ r"
  using assms by (cases s) auto

lemma show_port: "take n (show_base 10 (unat (p :: u16))) = show_base 10 (unat p)" if "5 \<le> n"
proof -
  have "length (show_base 10 m) \<le> 5" if "m < 100000" for m
    using that by (subst show_base.simps, subst show_base.simps, subst show_base.simps, subst show_base.simps, subst show_base.simps) auto
  moreover have "unat p < 65536" using unsigned_less [of p] by simp
  ultimately have "length (show_base 10 (unat p)) \<le> 5" by simp
  then show ?thesis using that by simp
qed

text \<open>The text of the address and of the port, as they are given to the resolver.\<close>

fun addr_text :: "sockaddr \<Rightarrow> string" where
  "addr_text (Sockaddr_in a p) = inet_ntop4 a"
| "addr_text (Sockaddr_in6 a p sc) = inet_ntop6 a"
| "addr_text (Sockaddr_other n) = []"

fun port_of :: "sockaddr \<Rightarrow> u16" where
  "port_of (Sockaddr_in a p) = p"
| "port_of (Sockaddr_in6 a p sc) = p"
| "port_of (Sockaddr_other n) = 0"

definition port_text :: "sockaddr \<Rightarrow> string option" where
  "port_text sa = (if port_of sa = 0 then None else Some (show_base 10 (unat (port_of sa))))"

lemma port_chars: "c \<in> set (show_base 10 n) \<Longrightarrow> c \<noteq> CHR '':''"
  using show_base_chars [of 10 n] no_special by auto

lemma host_port_v4:
  "host_port (\<lambda>_. True) (inet_ntop4 a @ (if p \<noteq> 0 then '':'' @ show_base 10 (unat p) else []))
    (inet_ntop4 a @ (if p \<noteq> 0 then '':'' @ show_base 10 (unat p) else [])) None =
   (Some (inet_ntop4 a), port_text (Sockaddr_in a p))"
proof -
  have n: "c \<in> set (inet_ntop4 a) \<Longrightarrow> c \<noteq> CHR '':''" for c using inet_ntop4_chars address_char_special by blast
  have l: "0 < length (inet_ntop4 a)" by (simp add: inet_ntop4_def)
  show ?thesis
    using l by (auto simp: host_port_def strndup_def port_text_def scan_port_skip [OF n] scan_port_plain [OF n] scan_port_plain [OF port_chars])
qed

text \<open>Property C35: text and back. Whatever the address and port, the text that \<^verbatim>\<open>sock_ntop\<close> makes of a socket
  address is taken apart again by \<^verbatim>\<open>sock_pton\<close> into the host and the port it was made of, brackets, compressed
  and IPv4-mapped IPv6 addresses included, so that with a resolver that translates numeric hosts
  and services the same socket address comes back.\<close>

theorem sock_ntop_pton:
  assumes "is_inet sa" and gai: "gai (Some (addr_text sa)) (port_text sa) = Some (sa # rest)"
  shows "sock_pton gai (\<lambda>_. True) (Some (sock_ntop sa n)) sa0 = (0, sa)"
proof (cases sa)
  case (Sockaddr_in a p)
  let ?t = "inet_ntop4 a @ (if p \<noteq> 0 then '':'' @ show_base 10 (unat p) else [])"
  have t: "sock_ntop sa n = ?t" using show_port [of 5 p] Sockaddr_in by (simp add: sock_ntop_def)
  have ne: "inet_ntop4 a \<noteq> []" by (simp add: inet_ntop4_def)
  have h: "hd (inet_ntop4 a) \<in> set (inet_ntop4 a)" using ne by (rule hd_in_set)
  have d: "dropWhile isspace ?t = ?t" "hd ?t \<noteq> CHR ''['' " "?t \<noteq> []"
    using starts_plain [OF ne] inet_ntop4_chars [OF h] address_char_special ne by auto
  show ?thesis
    unfolding t sock_pton_def option.case Let_def d(1) using d(2,3) host_port_v4 [of a p] gai Sockaddr_in
    by (simp add: is_inet_def)
next
  case (Sockaddr_in6 a p sc)
  have c6: "c \<noteq> CHR ''['' \<and> c \<noteq> CHR '']'' \<and> \<not> isspace c" if "c \<in> set (inet_ntop6 a)" for c
    using inet_ntop6_chars [OF that] address_char_special by (auto simp: isspace_def)
  have ne: "inet_ntop6 a \<noteq> []" using inet_ntop6_colons [of a] by auto
  show ?thesis
  proof (cases "p = 0")
    case True
    have t: "sock_ntop sa n = inet_ntop6 a" using True Sockaddr_in6 by (simp add: sock_ntop_def)
    obtain r where r: "scan_port False (inet_ntop6 a) None = (None, r, True)" using scan_port_whole [OF inet_ntop6_colons] by blast
    have "hd (inet_ntop6 a) \<in> set (inet_ntop6 a)" using ne by (rule hd_in_set)
    then have d: "dropWhile isspace (inet_ntop6 a) = inet_ntop6 a" "hd (inet_ntop6 a) \<noteq> CHR ''[''"
      using starts_plain [OF ne, of "[]"] c6 by auto
    show ?thesis unfolding t sock_pton_def option.case Let_def d(1)
      using d(2) ne r gai Sockaddr_in6 True by (simp add: host_port_def strndup_def port_text_def is_inet_def)
  next
    case False
    let ?d = "show_base 10 (unat p)"
    have t: "sock_ntop sa n = ''['' @ inet_ntop6 a @ '']:'' @ ?d" using show_port [of 5 p] Sockaddr_in6 False by (simp add: sock_ntop_def)
    have sp: "\<not> isspace (CHR ''['')" by (simp add: isspace_def)
    have dw: "dropWhile (\<lambda>c. c \<noteq> CHR '']'') (inet_ntop6 a @ '']:'' @ ?d) = '']:'' @ ?d" using c6 by (subst dropWhile_append2) auto
    show ?thesis unfolding t sock_pton_def option.case Let_def using sp dw gai Sockaddr_in6 False scan_port_plain [of ?d True, OF port_chars]
      by (simp add: host_port_def strndup_def port_text_def is_inet_def)
  qed
next
  case (Sockaddr_other m)
  then show ?thesis using assms(1) by (simp add: is_inet_def)
qed

theorem sock_ntop_pton_witness:
  "sock_pton (\<lambda>h p. if h = Some ''10.0.0.1'' \<and> p = Some ''5351'' then Some [Sockaddr_in 0x0A000001 5351] else None)
    (\<lambda>_. True) (Some ''10.0.0.1:5351'') (Sockaddr_other 0) = (0, Sockaddr_in 0x0A000001 5351)"
proof -
  have t: "inet_ntop4 0x0A000001 = ''10.0.0.1''" "port_text (Sockaddr_in 0x0A000001 5351) = Some ''5351''"
    "sock_ntop (Sockaddr_in 0x0A000001 5351) 16 = ''10.0.0.1:5351''"
    by (simp_all add: inet_ntop4_def port_text_def sock_ntop_def show_base.simps digit_chars_def)
  show ?thesis
    using sock_ntop_pton [of "Sockaddr_in 0x0A000001 5351"
        "\<lambda>h p. if h = Some ''10.0.0.1'' \<and> p = Some ''5351'' then Some [Sockaddr_in 0x0A000001 5351] else None" "[]" 16 "Sockaddr_other 0"]
    by (simp add: t is_inet_def)
qed

section \<open>Filters\<close>

lemma scan_prefix_plain:
  "(\<And>c. c \<in> set s \<Longrightarrow> c \<noteq> CHR '']'' \<and> c \<noteq> CHR ''/'') \<Longrightarrow> scan_prefix (s @ CHR '']'' # r) q = (q, CHR '']'' # r)"
  by (induction s arbitrary: q) auto

lemma addr_text_chars: "c \<in> set (addr_text sa) \<Longrightarrow> address_char c \<or> c = CHR '':''"
  by (cases sa) (auto dest: inet_ntop4_chars inet_ntop6_chars)

text \<open>The address of a filter. An IPv4 address in brackets without a prefix length is always
  refused, because the length is then taken to be 128; an IPv6 address without one is accepted and
  matches a single host.\<close>

theorem filter_without_prefix:
  assumes "is_inet sa" and gai: "gai (Some (addr_text sa)) (port_text sa) = Some (sa # rest)"
  shows "sock_pton_with_prefix gai (\<lambda>_. True)
      (Some (''['' @ addr_text sa @ '']'' @ (case port_text sa of None \<Rightarrow> [] | Some t \<Rightarrow> '':'' @ t))) sa0 k =
    (case sa of Sockaddr_in a p \<Rightarrow> (- 2, sa, 128) | _ \<Rightarrow> (0, sa, 128))"
proof -
  let ?r = "case port_text sa of None \<Rightarrow> [] | Some t \<Rightarrow> '':'' @ t"
  have c: "c \<noteq> CHR '']'' \<and> c \<noteq> CHR ''/''" if "c \<in> set (CHR ''['' # addr_text sa)" for c
    using that addr_text_chars [of c sa] address_char_special [of c] by auto
  have scan: "scan_prefix (CHR ''['' # addr_text sa @ CHR '']'' # ?r) None = (None, CHR '']'' # ?r)"
    using scan_prefix_plain [OF c, where r = ?r and q = None] by simp
  have sp: "\<not> isspace (CHR ''['')" by (simp add: isspace_def)
  have hp: "host_port (\<lambda>_. True) cp ?r (Some h) = (Some h, port_text sa)" for cp h
    using scan_port_plain [OF port_chars] by (auto simp: host_port_def port_text_def)
  show ?thesis
    using assms scan sp hp by (cases sa) (simp_all add: sock_pton_with_prefix_def strndup_def is_inet_def prefix_checked_def)
qed

theorem filter_without_prefix_witness:
  "sock_pton_with_prefix (\<lambda>h p. Some [Sockaddr_in 0x0A000001 0]) (\<lambda>_. True) (Some ''[10.0.0.1]'') (Sockaddr_other 0) 0 =
    (- 2, Sockaddr_in 0x0A000001 0, 128)"
proof -
  have t: "inet_ntop4 0x0A000001 = ''10.0.0.1''" by (simp add: inet_ntop4_def show_base.simps digit_chars_def)
  show ?thesis
    using filter_without_prefix [of "Sockaddr_in 0x0A000001 0" "\<lambda>h p. Some [Sockaddr_in 0x0A000001 0]" "[]" "Sockaddr_other 0" 0]
    by (simp add: t is_inet_def port_text_def)
qed

section \<open>Nonces\<close>

text \<open>The digits of a word, and the text of a nonce.\<close>

fun hex_digits :: "nat \<Rightarrow> int \<Rightarrow> string" where
  "hex_digits 0 n = []"
| "hex_digits (Suc k) n = hex_digits k (n div 16) @ [digit_chars ! nat (n mod 16)]"

definition nonce_text :: "pcp_nonce \<Rightarrow> string" where
  "nonce_text n = hex_digits 8 (uint (nonce_0 n)) @ hex_digits 8 (uint (nonce_1 n)) @ hex_digits 8 (uint (nonce_2 n))"

lemma digit_val_digit: "0 \<le> d \<Longrightarrow> d < 16 \<Longrightarrow> digit_val (digit_chars ! nat d) = Some d"
proof -
  assume "0 \<le> d" "d < 16"
  then have "d = 0 \<or> d = 1 \<or> d = 2 \<or> d = 3 \<or> d = 4 \<or> d = 5 \<or> d = 6 \<or> d = 7 \<or> d = 8 \<or> d = 9 \<or> d = 10 \<or> d = 11 \<or> d = 12 \<or> d = 13 \<or> d = 14 \<or> d = 15"
    by presburger
  then show ?thesis by (elim disjE) (simp_all add: digit_val_def digit_chars_def)
qed

lemma length_hex_digits [simp]: "length (hex_digits k n) = k"
  by (induction k arbitrary: n) auto

lemma hex_digits_xdigit: "c \<in> set (hex_digits k n) \<Longrightarrow> isxdigit c"
  by (induction k arbitrary: n) (auto simp: isxdigit_def digit_val_digit)

lemma leading_digits_hex: "leading_digits 16 acc (hex_digits k n @ r) = leading_digits 16 (acc * 16 ^ k + n mod 16 ^ k) r"
proof (induction k arbitrary: n acc r)
  case (Suc k)
  have "n mod 16 ^ Suc k = (n div 16 mod 16 ^ k) * 16 + n mod 16"
    by (simp add: zmod_zmult2_eq)
  then show ?case using Suc.IH [of acc "n div 16" "digit_chars ! nat (n mod 16) # r"] by (simp add: digit_val_digit algebra_simps)
qed simp

lemma digit_val_range: "digit_val c = Some d \<Longrightarrow> 0 \<le> d \<and> d < 16"
  by (auto simp: digit_val_def Let_def split: if_splits)

lemma leading_digits_xdigits:
  assumes "\<And>c. c \<in> set s \<Longrightarrow> isxdigit c" and "0 \<le> acc" and "acc < m"
  shows "snd (leading_digits 16 acc s) = [] \<and> 0 \<le> fst (leading_digits 16 acc s) \<and> fst (leading_digits 16 acc s) < m * 16 ^ length s"
  using assms
proof (induction s arbitrary: acc m)
  case (Cons c s)
  obtain d where d: "digit_val c = Some d" "0 \<le> d" "d < 16" using Cons.prems(1) [of c] digit_val_range by (auto simp: isxdigit_def)
  have "acc * 16 + d < m * 16" using Cons.prems(3) d by linarith
  then show ?case using Cons.IH [of "acc * 16 + d" "m * 16"] Cons.prems d by (simp add: algebra_simps)
qed simp

text \<open>The nonce option. A text is accepted exactly when it has 24 hexadecimal digits, of
  either case, and the text of every nonce is read back as that nonce.\<close>

theorem nonce_option_exact:
  "pcp_cli_parse_nonce_words_be (Some (nonce_text n)) = Some n \<and>
   (pcp_cli_parse_nonce_words_be (Some txt) \<noteq> None \<longleftrightarrow> length txt = 24 \<and> list_all isxdigit txt)"
proof
  have len: "length (nonce_text n) = 24" by (simp add: nonce_text_def)
  have x: "isxdigit c" if "c \<in> set (nonce_text n)" for c using that hex_digits_xdigit by (auto simp: nonce_text_def)
  have chunk: "leading_digits 16 0 (hex_digits 8 (uint w)) = (uint (w :: u32), [])" for w
  proof -
    have "uint w mod 16 ^ 8 = uint w" using uint_lt2p [of w] by simp
    then show ?thesis using leading_digits_hex [of 0 8 "uint w" "[]"] by simp
  qed
  have b: "\<not> 4294967295 < uint (w :: u32)" for w using uint_lt2p [of w] by simp
  have t: "take 8 (drop (0 * 8) (nonce_text n)) = hex_digits 8 (uint (nonce_0 n))" "take 8 (drop (1 * 8) (nonce_text n)) = hex_digits 8 (uint (nonce_1 n))"
    "take 8 (drop (2 * 8) (nonce_text n)) = hex_digits 8 (uint (nonce_2 n))" by (simp_all add: nonce_text_def)
  show "pcp_cli_parse_nonce_words_be (Some (nonce_text n)) = Some n"
    using len x chunk b t by (cases n) (auto simp: pcp_cli_parse_nonce_words_be_def Let_def)
next
  have ch: "snd (leading_digits 16 0 (take 8 (drop (i * 8) txt))) = [] \<and> fst (leading_digits 16 0 (take 8 (drop (i * 8) txt))) \<le> 4294967295"
    if "length txt = 24" "\<forall>c\<in>set txt. isxdigit c" "i \<in> {0, 1, 2}" for i
  proof -
    have "length (take 8 (drop (i * 8) txt)) = 8" using that(1,3) by auto
    moreover have "isxdigit c" if "c \<in> set (take 8 (drop (i * 8) txt))" for c
      using that \<open>\<forall>c\<in>set txt. isxdigit c\<close> by (meson in_set_dropD in_set_takeD)
    ultimately show ?thesis using leading_digits_xdigits [of "take 8 (drop (i * 8) txt)" 0 1] by auto
  qed
  show "pcp_cli_parse_nonce_words_be (Some txt) \<noteq> None \<longleftrightarrow> length txt = 24 \<and> list_all isxdigit txt"
    using ch [of 0] ch [of 1] ch [of 2]
    unfolding pcp_cli_parse_nonce_words_be_def option.case list_all_iff Let_def by (auto split: if_splits)
qed

end
