(* ===== verification/Pcp_Logger.thy ===== *)
theory Pcp_Logger
  imports Pcp_Text
begin

text \<open>
  The logger, \<^verbatim>\<open>pcp_logger.c\<close>: the level read from the environment, the buffer that grows until a message fits, and
  the line the default logger prints. \<^verbatim>\<open>vsnprintf\<close> and the allocator are arguments.
\<close>

section \<open>The level\<close>

text \<open>\<^verbatim>\<open>strtol\<close> to base 0: the value and the rest of the text behind the digits, all of the text when there are none.\<close>

definition strtol_auto :: "string \<Rightarrow> int \<times> string" where
  "strtol_auto txt0 =
     (let s = dropWhile isspace txt0;
          (neg, s) = (case s of c # cs \<Rightarrow> if c = CHR ''-'' then (True, cs) else if c = CHR ''+'' then (False, cs) else (False, s)
                      | [] \<Rightarrow> (False, []));
          hex = (length s \<ge> 3 \<and> take 1 s = ''0'' \<and> s ! 1 \<in> set ''xX'' \<and> isxdigit (s ! 2));
          base = (if hex then 16 else if take 1 s = ''0'' then 8 else 10);
          s = (if hex then drop 2 s else s);
          (v, rest) = leading_digits base 0 s
      in (if neg then max (- LONG_MAX - 1) (- v) else min LONG_MAX v, if rest = s then txt0 else rest))"

text \<open>The largest level depends on the build.\<close>

definition pcp_logger_init :: "int \<Rightarrow> string option \<Rightarrow> int \<Rightarrow> int" where
  "pcp_logger_init max_level env pcp_log_level =
     (case env of
        None \<Rightarrow> pcp_log_level
      | Some e \<Rightarrow> (case strtol_auto e of (lvl, ret) \<Rightarrow>
          if ret = [] \<and> 0 \<le> lvl \<and> lvl \<le> max_level then lvl else pcp_log_level))"

section \<open>The message\<close>

text \<open>\<^verbatim>\<open>vsnprintf\<close> writes at most \<open>sz - 1\<close> characters and returns a number; \<open>mem k\<close> is the \<open>k\<close>-th allocation. The size is an \<^verbatim>\<open>int\<close> and must not
  overflow. The result is what the logger is called with, if it is.\<close>

abbreviation (input) INT_MAX :: nat where
  "INT_MAX \<equiv> 2147483647"

type_synonym formatter = "nat \<Rightarrow> int \<times> string"

partial_function (option) format_loop :: "formatter \<Rightarrow> (nat \<Rightarrow> bool) \<Rightarrow> nat \<Rightarrow> nat \<Rightarrow> string option option" where
  "format_loop vsnprintf mem k sz =
     (case vsnprintf sz of (n, p) \<Rightarrow>
        if n > - 1 \<and> n < int sz then Some (Some p)
        else let sz = (if n > - 1 then nat n + 1 else sz * 2) in
             if sz > INT_MAX then None else if \<not> mem k then Some None else format_loop vsnprintf mem (Suc k) sz)"

definition pcp_logger :: "formatter \<Rightarrow> (nat \<Rightarrow> bool) \<Rightarrow> bool \<Rightarrow> int \<Rightarrow> int \<Rightarrow> string option option" where
  "pcp_logger vsnprintf mem logger pcp_log_level log_level =
     (if log_level > pcp_log_level then Some None
      else if \<not> mem 0 then Some None
      else do { p \<leftarrow> format_loop vsnprintf mem 1 256; Some (if logger then p else None) })"

section \<open>The default logger\<close>

definition log_prefix :: "nat \<Rightarrow> string" where
  "log_prefix mode =
     (if mode = 1 \<or> mode = 4 then ''ERROR'' else if mode = 2 then ''WARNING'' else if mode = 3 then ''INFO''
      else if mode = 5 then ''DEBUG'' else ''UNKNOWN'')"

text \<open>The time since the first message, in microseconds, and the time of the first message, which is kept.\<close>

definition log_time :: "timeval \<Rightarrow> timeval \<Rightarrow> u64 \<times> timeval" where
  "log_time prev cur =
     (if tv_sec prev = 0 \<and> tv_usec prev = 0 then (0, cur)
      else (word_of_int ((tv_sec cur - tv_sec prev) * 1000000 + (tv_usec cur - tv_usec prev)), prev))"

text \<open>Fields padded on the left, and on the right.\<close>

definition pad_left :: "char \<Rightarrow> nat \<Rightarrow> string \<Rightarrow> string" where
  "pad_left c n s = replicate (n - length s) c @ s"

definition pad_right :: "nat \<Rightarrow> string \<Rightarrow> string" where
  "pad_right n s = s @ replicate (n - length s) (CHR '' '')"

text \<open>A \<^verbatim>\<open>long long int\<close> printed as an unsigned number.\<close>

definition unsigned_of :: "int \<Rightarrow> nat" where
  "unsigned_of i = unat (word_of_int i :: u64)"

definition default_logfn :: "timeval \<Rightarrow> timeval \<Rightarrow> nat \<Rightarrow> string \<Rightarrow> timeval \<times> string" where
  "default_logfn prev cur mode msg =
     (let (diff, prev) = log_time prev cur; d = unat diff in
      (prev, pad_left (CHR '' '') 3 (show_base 10 (unsigned_of (sint diff sdiv 1000000))) @ ''s '' @
        pad_left (CHR ''0'') 3 (show_base 10 (d mod 1000000 div 1000)) @ ''ms '' @
        pad_left (CHR ''0'') 3 (show_base 10 (unsigned_of (sint diff smod 1000))) @ ''us '' @ pad_right 7 (log_prefix mode) @ '': '' @ msg @ [CHR 0x0A]))"

section \<open>Properties\<close>

text \<open>Both conventions for \<^verbatim>\<open>vsnprintf\<close>: a text that does not fit is reported by its length, or by \<^verbatim>\<open>-1\<close>.\<close>

definition formats :: "string \<Rightarrow> formatter \<Rightarrow> bool" where
  "formats msg vsnprintf \<longleftrightarrow> (\<forall>sz>0. snd (vsnprintf sz) = take (sz - 1) msg \<and>
     (if length msg < sz then fst (vsnprintf sz) = int (length msg)
      else fst (vsnprintf sz) = - 1 \<or> fst (vsnprintf sz) = int (length msg)))"

lemma format_fits:
  assumes "formats msg vs" and "length msg < sz"
  shows "format_loop vs mem k sz = Some (Some msg)"
proof -
  have "0 < sz" using assms(2) by simp
  then have "fst (vs sz) = int (length msg)" "snd (vs sz) = take (sz - 1) msg" using assms by (simp_all add: formats_def)
  then show ?thesis using assms(2) by (subst format_loop.simps) (cases "vs sz"; simp)
qed

lemma format_loop_all:
  assumes "formats msg vs" and "\<forall>k. mem k" and "2 * length msg < INT_MAX" and "0 < sz"
  shows "format_loop vs mem k sz = Some (Some msg)"
  using assms(4)
proof (induction "length msg + 1 - sz" arbitrary: sz k rule: less_induct)
  case less
  show ?case
  proof (cases "length msg < sz")
    case True
    then show ?thesis using format_fits [OF assms(1)] by simp
  next
    case False
    then have "fst (vs sz) = - 1 \<or> fst (vs sz) = int (length msg)" using assms(1) less.prems unfolding formats_def by meson
    then consider "fst (vs sz) = - 1" | "fst (vs sz) = int (length msg)" by blast
    then show ?thesis
    proof cases
      case 1
      have "format_loop vs mem (Suc k) (sz * 2) = Some (Some msg)" using less.hyps [of "sz * 2" "Suc k"] less.prems False by simp
      then show ?thesis using 1 False assms(2,3) by (subst format_loop.simps) (cases "vs sz"; simp add: Let_def)
    next
      case 2
      have "format_loop vs mem (Suc k) (length msg + 1) = Some (Some msg)" using format_fits [OF assms(1)] by simp
      then show ?thesis using 2 False assms(2,3) by (subst format_loop.simps) (cases "vs sz"; simp add: Let_def)
    qed
  qed
qed

text \<open>A message is logged whole. Whatever its length, below half the range of \<^verbatim>\<open>int\<close>, and whichever way the C library reports
  that a text did not fit, the buffer grows until it does, and the logger gets the complete
  text; a message above the level is dropped.\<close>

theorem logged_whole:
  assumes "formats msg vsnprintf" and "\<forall>k. mem k" and "2 * length msg < 2147483647"
  shows "pcp_logger vsnprintf mem True level l = Some (if l \<le> level then Some msg else None)"
proof -
  have "mem 0" using assms(2) by blast
  moreover have "format_loop vsnprintf mem 1 256 = Some (Some msg)" by (rule format_loop_all [OF assms]) simp
  ultimately show ?thesis by (simp add: pcp_logger_def)
qed

theorem logged_whole_witness:
  "pcp_logger (\<lambda>sz. (if sz \<le> 300 then - 1 else 300, take (sz - 1) (replicate 300 (CHR ''x'')))) (\<lambda>k. True) True 5 3 =
    Some (Some (replicate 300 (CHR ''x'')))"
  using logged_whole [of "replicate 300 (CHR ''x'')" "\<lambda>sz. (if sz \<le> 300 then - 1 else 300, take (sz - 1) (replicate 300 (CHR ''x'')))"
      "\<lambda>k. True" 5 3]
  by (simp add: formats_def)

text \<open>An environment variable that is set to nothing switches logging off.\<close>

lemma empty_level_is_none: "0 \<le> max_level \<Longrightarrow> pcp_logger_init max_level (Some []) lvl = 0"
  by (simp add: pcp_logger_init_def strtol_auto_def)

end
