(* ===== verification/Pcp_Getopt.thy ===== *)
theory Pcp_Getopt
  imports Pcp_Text
begin

text \<open>
  The command line scanner both programs are built with where the system has none,
  \<^verbatim>\<open>win_utils/getopt_long.c\<close>. The global variables are the record \<open>getopt\<close>, with the static pointer
  \<^verbatim>\<open>place\<close> as the text it points to; the messages on standard error are left out, and with them
  \<^verbatim>\<open>opterr\<close>. \<^verbatim>\<open>argv\<close> is the list of arguments, the name of the program first; the element behind the
  last one is NULL. Return values are numbers, letters being their codes.
\<close>

section \<open>State\<close>

record getopt =
  optind :: nat
  optopt :: int
  optarg :: "string option"
  optreset :: bool
  place :: string
  longindex :: nat
  optflags :: "nat \<Rightarrow> int"

datatype has_arg = no_argument | required_argument | optional_argument

record long_option =
  lo_name :: string
  lo_has_arg :: has_arg
  lo_flag :: "nat option"
  lo_val :: int

abbreviation code :: "char \<Rightarrow> int" where
  "code c \<equiv> of_char c"

abbreviation BADCH :: int where
  "BADCH \<equiv> code (CHR ''?'')"

abbreviation BADARG :: int where
  "BADARG \<equiv> code (CHR '':'')"

definition getopt_start :: getopt where
  "getopt_start = \<lparr>optind = 1, optopt = 0, optarg = None, optreset = False, place = '''', longindex = 0, optflags = (\<lambda>_. 0)\<rparr>"

text \<open>An element of \<^verbatim>\<open>argv\<close>; NULL is \<open>None\<close>.\<close>

definition arg_at :: "string list \<Rightarrow> nat \<Rightarrow> string option" where
  "arg_at nargv i = (if i < length nargv then Some (nargv ! i) else None)"

section \<open>Letters\<close>

text \<open>The option letter at \<^verbatim>\<open>place\<close>.\<close>

definition getopt_letter :: "string list \<Rightarrow> string \<Rightarrow> getopt \<Rightarrow> getopt \<times> int" where
  "getopt_letter nargv ostr g =
     (let c = hd (place g); rest = tl (place g); g = g\<lparr>optopt := code c, place := rest\<rparr>;
          g1 = (if rest = [] then g\<lparr>optind := optind g + 1\<rparr> else g)
      in if c = CHR '':'' \<or> c \<notin> set ostr
         then if c = CHR ''-'' then (g, - 1) else (g1, BADCH)
         else
           let oli = tl (dropWhile (\<lambda>d. d \<noteq> c) ostr) in
           if oli = [] \<or> hd oli \<noteq> CHR '':'' then (g1\<lparr>optarg := None\<rparr>, code c)
           else if rest \<noteq> [] then (g\<lparr>optarg := Some rest, place := [], optind := optind g + 1\<rparr>, code c)
           else if length nargv \<le> optind g + 1 then (g\<lparr>optind := optind g + 1, place := []\<rparr>, BADARG)
           else (g\<lparr>optarg := Some (nargv ! (optind g + 1)), place := [], optind := optind g + 2\<rparr>, code c))"

definition getopt_internal :: "string list \<Rightarrow> string \<Rightarrow> getopt \<Rightarrow> getopt \<times> int" where
  "getopt_internal nargv ostr g =
     (if optreset g \<or> place g = []
      then
        let g = g\<lparr>optreset := False\<rparr> in
        if optind g \<ge> length nargv then (g\<lparr>place := []\<rparr>, - 1)
        else
          let p = nargv ! optind g in
          if p = [] \<or> hd p \<noteq> CHR ''-'' then (g\<lparr>place := []\<rparr>, - 1)
          else if tl p = [] then getopt_letter nargv ostr (g\<lparr>place := p\<rparr>)
          else if hd (tl p) = CHR ''-'' then (g\<lparr>place := []\<rparr>, - 2)
          else getopt_letter nargv ostr (g\<lparr>place := tl p\<rparr>)
      else getopt_letter nargv ostr g)"

section \<open>Long options\<close>

text \<open>The search in the table of long options: the first name equal to the text wins, otherwise the first name
  the text is a beginning of.\<close>

fun match_long :: "string \<Rightarrow> long_option list \<Rightarrow> nat \<Rightarrow> nat option \<Rightarrow> nat option" where
  "match_long nm [] i m = m"
| "match_long nm (o1 # os) i m =
     (if take (length nm) (lo_name o1) \<noteq> nm then match_long nm os (Suc i) m
      else if length (lo_name o1) = length nm then Some i
      else match_long nm os (Suc i) (if m = None then Some i else m))"

text \<open>The long option at \<^verbatim>\<open>nargv[optind]\<close>, which begins with two dashes.\<close>

definition long_name :: "string list \<Rightarrow> long_option list \<Rightarrow> getopt \<Rightarrow> getopt \<times> int" where
  "long_name nargv long_options g =
     (let current_argv = drop 2 (nargv ! optind g); g = g\<lparr>optind := optind g + 1\<rparr> in
      if current_argv = [] then (g, - 1)
      else
        let nm = takeWhile (\<lambda>c. c \<noteq> CHR ''='') current_argv;
            has_equal = (if CHR ''='' \<in> set current_argv then Some (drop (length nm + 1) current_argv) else None)
        in case match_long nm long_options 0 None of
             None \<Rightarrow> (g, BADCH)
           | Some m \<Rightarrow>
               let opt = long_options ! m;
                   g = (if lo_has_arg opt = no_argument then g
                        else if has_equal \<noteq> None then g\<lparr>optarg := has_equal\<rparr>
                        else g\<lparr>optarg := arg_at nargv (optind g), optind := optind g + 1\<rparr>)
               in if lo_has_arg opt = required_argument \<and> optarg g = None then (g, BADARG)
                  else case lo_flag opt of
                      Some fl \<Rightarrow> (g\<lparr>optflags := (optflags g)(fl := lo_val opt), longindex := m\<rparr>, 0)
                    | None \<Rightarrow> (g\<lparr>longindex := m\<rparr>, lo_val opt))"

definition getopt_long :: "string list \<Rightarrow> string \<Rightarrow> long_option list \<Rightarrow> getopt \<Rightarrow> getopt \<times> int" where
  "getopt_long nargv options long_options g =
     (let (g, retval) = getopt_internal nargv options g in
      if retval \<noteq> - 2 then (g, retval) else long_name nargv long_options g)"

section \<open>The loop of a program over its options\<close>

text \<open>\<^verbatim>\<open>while ((c = getopt_long(...)) != -1)\<close> around a body that handles one option and may end the program
  (\<open>Inl\<close>); a body that goes wrong is \<open>None\<close>. A body sees the result, \<^verbatim>\<open>option_index\<close> and \<^verbatim>\<open>optarg\<close>.\<close>

type_synonym ('e, 's) option_body = "int \<Rightarrow> nat \<Rightarrow> string option \<Rightarrow> 's \<Rightarrow> ('e + 's) option"

partial_function (option) option_loop ::
  "string list \<Rightarrow> string \<Rightarrow> long_option list \<Rightarrow> ('e, 's) option_body \<Rightarrow> getopt \<Rightarrow> 's \<Rightarrow> ('e + 's) option" where
  "option_loop argv ostr los body g s =
     (let (g, c) = getopt_long argv ostr los g in
      if c = - 1 then Some (Inr s)
      else do { r \<leftarrow> body c (longindex g) (optarg g) s;
                case r of Inl e \<Rightarrow> Some (Inl e) | Inr s \<Rightarrow> option_loop argv ostr los body g s })"


section \<open>Every call makes progress\<close>

text \<open>An option letter that takes an argument; a table whose options all return 0, as the tables of the
  programs do.\<close>

definition takes_arg :: "string \<Rightarrow> char \<Rightarrow> bool" where
  "takes_arg ostr c \<longleftrightarrow> c \<noteq> CHR '':'' \<and> c \<in> set ostr \<and>
     (let oli = tl (dropWhile (\<lambda>d. d \<noteq> c) ostr) in oli \<noteq> [] \<and> hd oli = CHR '':'')"

definition plain_table :: "long_option list \<Rightarrow> bool" where
  "plain_table los \<longleftrightarrow> (\<forall>o1\<in>set los. lo_flag o1 = None \<and> lo_val o1 = 0)"

text \<open>What holds between two calls, and what a call decreases.\<close>

definition scanning :: "string list \<Rightarrow> getopt \<Rightarrow> bool" where
  "scanning argv g \<longleftrightarrow> \<not> optreset g \<and> (place g \<noteq> [] \<longrightarrow> optind g < length argv)"

definition left_over :: "string list \<Rightarrow> getopt \<Rightarrow> nat \<times> nat" where
  "left_over argv g =
     (length argv - optind g, if place g = [] then Suc (length (argv ! optind g)) else length (place g))"

definition delivered :: "string \<Rightarrow> long_option list \<Rightarrow> int \<Rightarrow> nat \<Rightarrow> string option \<Rightarrow> bool" where
  "delivered ostr los c i a \<longleftrightarrow>
     (\<forall>ch. c = code ch \<longrightarrow> takes_arg ostr ch \<longrightarrow> a \<noteq> None) \<and>
     (c = 0 \<longrightarrow> i < length los \<and> (lo_has_arg (los ! i) = required_argument \<longrightarrow> a \<noteq> None))"

lemma code_bounds: "0 \<le> code c" "code c < 256"
  using of_char_mod_256 [of c, where 'a = int] by (metis pos_mod_sign pos_mod_bound zero_less_numeral)+

lemma code_not_negative [simp]: "code c \<noteq> - 1" "code c \<noteq> - 2"
  using code_bounds(1) [of c] by linarith+

lemma code_zero: "code c = 0 \<longleftrightarrow> c = CHR 0x00"
proof
  assume "code c = 0"
  then have "code c = code (CHR 0x00)" by simp
  then show "c = CHR 0x00" by (simp only: of_char_eq_iff)
qed simp

lemma badarg_codes: "BADCH = code ch \<longleftrightarrow> ch = CHR ''?''" "BADARG = code ch \<longleftrightarrow> ch = CHR '':''"
  by (metis of_char_eq_iff)+

lemma getopt_letter_progress:
  assumes "getopt_letter argv ostr g = (g', c)" and "place g \<noteq> []" and "optind g < length argv" and "\<not> optreset g" and "c \<noteq> - 1"
  shows "scanning argv g'"
    and "optind g < optind g' \<or> optind g' = optind g \<and> place g' \<noteq> [] \<and> length (place g') < length (place g)"
  using assms by (auto simp: getopt_letter_def Let_def scanning_def simp del: of_char_Char split: if_splits)

lemma getopt_letter_delivers:
  assumes "getopt_letter argv ostr g = (g', c)" and "c \<noteq> - 1" and "CHR ''?'' \<notin> set ostr" and "CHR 0x00 \<notin> set ostr"
  shows "c \<noteq> - 2 \<and> c \<noteq> 0 \<and> (\<forall>ch. c = code ch \<longrightarrow> takes_arg ostr ch \<longrightarrow> optarg g' \<noteq> None)"
  using assms by (auto simp: getopt_letter_def Let_def takes_arg_def badarg_codes code_zero simp del: of_char_Char split: if_splits)


lemma getopt_internal_progress:
  assumes "getopt_internal argv ostr g = (g', c)" and "scanning argv g" and "c \<noteq> - 1" and "c \<noteq> - 2"
  shows "scanning argv g'" and "(left_over argv g', left_over argv g) \<in> less_than <*lex*> less_than"
proof -
  obtain g1 where l: "getopt_letter argv ostr g1 = (g', c)" and p: "place g1 \<noteq> []" and o: "optind g1 = optind g"
    and i: "optind g < length argv" and r: "\<not> optreset g1" and le: "length (place g1) \<le> snd (left_over argv g)"
      "place g = [] \<Longrightarrow> length (place g1) < snd (left_over argv g)"
  proof (cases "place g = []")
    case True
    then show ?thesis using assms(1,3,4) that
      by (auto simp: getopt_internal_def Let_def left_over_def split: if_splits)
  next
    case False
    then show ?thesis using assms that [of g] by (auto simp: getopt_internal_def scanning_def left_over_def)
  qed
  note * = getopt_letter_progress [OF l p _ r assms(3)]
  show "scanning argv g'" using *(1) o i by simp
  show "(left_over argv g', left_over argv g) \<in> less_than <*lex*> less_than"
    using *(2) o i le by (auto simp: left_over_def)
qed

lemma getopt_internal_delivers:
  assumes "getopt_internal argv ostr g = (g', c)" and "c \<noteq> - 1" and "c \<noteq> - 2" and "CHR ''?'' \<notin> set ostr" and "CHR 0x00 \<notin> set ostr"
  shows "delivered ostr los c (longindex g') (optarg g')"
proof -
  obtain g1 where "getopt_letter argv ostr g1 = (g', c)"
    using assms(1-3) by (auto simp: getopt_internal_def Let_def split: if_splits)
  from getopt_letter_delivers [OF this assms(2,4,5)] show ?thesis by (auto simp: delivered_def)
qed

lemma getopt_internal_long:
  assumes "getopt_internal argv ostr g = (g', - 2)" "CHR ''?'' \<notin> set ostr" and "CHR 0x00 \<notin> set ostr"
  shows "optind g' = optind g \<and> optind g < length argv \<and> place g' = [] \<and> \<not> optreset g' \<and> longindex g' = longindex g \<and> optarg g' = optarg g"
  using assms getopt_letter_delivers [of argv ostr _ g' "- 2"]
  by (auto simp: getopt_internal_def Let_def split: if_splits)

lemma match_long_bound:
  assumes "match_long nm los i m = Some k" and "\<And>j. m = Some j \<Longrightarrow> j < i + length los"
  shows "k < i + length los"
  using assms
proof (induction los arbitrary: i m)
  case (Cons o1 os)
  then show ?case by (fastforce split: if_splits)
qed auto


definition letters_ok :: "string \<Rightarrow> bool" where
  "letters_ok ostr \<longleftrightarrow> CHR ''?'' \<notin> set ostr \<and> CHR 0x00 \<notin> set ostr"

lemma getopt_long_progress:
  assumes call: "getopt_long argv ostr los g = (g', c)" and sc: "scanning argv g" and go: "c \<noteq> - 1"
    and ok: "letters_ok ostr" "plain_table los"
  shows "scanning argv g' \<and> (left_over argv g', left_over argv g) \<in> less_than <*lex*> less_than \<and> delivered ostr los c (longindex g') (optarg g')"
proof -
  obtain g1 r where int: "getopt_internal argv ostr g = (g1, r)" by force
  show ?thesis
  proof (cases "r = - 2")
    case False
    then have "g' = g1" "c = r" using call int by (auto simp: getopt_long_def)
    then show ?thesis
      using getopt_internal_progress [OF int sc] getopt_internal_delivers [OF int] go False ok by (auto simp: letters_ok_def)
  next
    case True
    then have i: "optind g1 = optind g \<and> optind g < length argv \<and> place g1 = [] \<and> \<not> optreset g1"
      using getopt_internal_long [of argv ostr g g1] int ok by (auto simp: letters_ok_def)
    define nm where "nm = takeWhile (\<lambda>c. c \<noteq> CHR ''='') (drop 2 (argv ! optind g))"
    have "optind g' > optind g \<and> place g' = [] \<and> \<not> optreset g'"
      using call int True i go by (auto simp: getopt_long_def long_name_def Let_def split: if_splits option.splits)
    moreover have "delivered ostr los c (longindex g') (optarg g')"
    proof (cases "match_long nm los 0 None")
      case None
      then have "c = BADCH" using call int True i go by (auto simp: getopt_long_def long_name_def Let_def nm_def split: if_splits)
      then show ?thesis using ok(1) by (auto simp: delivered_def takes_arg_def letters_ok_def badarg_codes code_zero simp del: of_char_Char)
    next
      case (Some m)
      then have m: "m < length los" using match_long_bound [of nm los 0 None m] by simp
      then have pl: "lo_flag (los ! m) = None" "lo_val (los ! m) = 0" using ok(2) by (auto simp: plain_table_def)
      have "c = BADARG \<or> c = 0 \<and> longindex g' = m \<and> (lo_has_arg (los ! m) = required_argument \<longrightarrow> optarg g' \<noteq> None)"
        using call int True i go Some pl
        by (auto simp: getopt_long_def long_name_def Let_def nm_def simp del: of_char_Char split: if_splits)
      then show ?thesis using ok(1) m
        by (auto simp: delivered_def takes_arg_def letters_ok_def badarg_codes code_zero eq_commute [of 0 "code _"] simp del: of_char_Char)
    qed
    ultimately show ?thesis using i by (auto simp: scanning_def left_over_def)
  qed
qed


section \<open>Programs\<close>

text \<open>A program handles one option at a time: its body keeps an invariant of the program's state, or ends the
  program, whenever the option that needs an argument comes with one. This is all a program can rely on,
  and it makes the loop over all options end.\<close>

locale option_program =
  fixes ostr :: string and los :: "long_option list" and body :: "('e, 's) option_body"
    and ends :: "'e \<Rightarrow> bool" and keeps :: "'s \<Rightarrow> bool"
  assumes letters: "letters_ok ostr" and table: "plain_table los"
    and body_keeps: "keeps s \<Longrightarrow> delivered ostr los c i a \<Longrightarrow>
      yields (body c i a s) (\<lambda>r. case r of Inl e \<Rightarrow> ends e | Inr s \<Rightarrow> keeps s)"
begin

lemma loop_from:
  "scanning argv g \<Longrightarrow> keeps s \<Longrightarrow>
    yields (option_loop argv ostr los body g s) (\<lambda>r. case r of Inl e \<Rightarrow> ends e | Inr s \<Rightarrow> keeps s)"
proof (induction "left_over argv g" arbitrary: g s rule: wf_induct_rule [OF wf_lex_prod [OF wf_less_than wf_less_than]])
  case 1
  obtain g' c where call: "getopt_long argv ostr los g = (g', c)" by force
  show ?case
  proof (cases "c = - 1")
    case True
    then show ?thesis using call 1(3) by (subst option_loop.simps) simp
  next
    case False
    note p = getopt_long_progress [OF call 1(2) False letters table]
    from body_keeps [OF 1(3), of c "longindex g'" "optarg g'"] p obtain r where r: "body c (longindex g') (optarg g') s = Some r" "case r of Inl e \<Rightarrow> ends e | Inr s \<Rightarrow> keeps s"
      by (auto elim: yieldsE)
    show ?thesis using r False p 1(1) [of g'] by (subst option_loop.simps) (auto simp: call split: sum.splits)
  qed
qed

lemma loop_ends:
  "keeps s \<Longrightarrow> yields (option_loop argv ostr los body getopt_start s) (\<lambda>r. case r of Inl e \<Rightarrow> ends e | Inr s \<Rightarrow> keeps s)"
  by (rule loop_from) (simp_all add: scanning_def getopt_start_def)

end


section \<open>What a command line means\<close>

text \<open>The ways to write options: letters without an argument in one argument, a letter with its argument
  in the same or in the next argument of the command line, and the three forms of a long option.\<close>

datatype opt_use =
    Letters string
  | Letter_joined char string
  | Letter_next char string
  | Long nat
  | Long_equals nat string
  | Long_next nat string

fun written :: "long_option list \<Rightarrow> opt_use \<Rightarrow> string list" where
  "written los (Letters cs) = [CHR ''-'' # cs]"
| "written los (Letter_joined c a) = [CHR ''-'' # c # a]"
| "written los (Letter_next c a) = [[CHR ''-'', c], a]"
| "written los (Long i) = [''--'' @ lo_name (los ! i)]"
| "written los (Long_equals i a) = [''--'' @ lo_name (los ! i) @ CHR ''='' # a]"
| "written los (Long_next i a) = [''--'' @ lo_name (los ! i), a]"

lemma written_nonempty [simp]: "written los u \<noteq> []"
  by (cases u) simp_all

definition long_ok :: "long_option list \<Rightarrow> nat \<Rightarrow> bool" where
  "long_ok los i \<longleftrightarrow> i < length los \<and> lo_name (los ! i) \<noteq> [] \<and> CHR ''='' \<notin> set (lo_name (los ! i)) \<and>
     lo_flag (los ! i) = None \<and> lo_val (los ! i) = 0 \<and> distinct (map lo_name los)"

fun use_ok :: "string \<Rightarrow> long_option list \<Rightarrow> opt_use \<Rightarrow> bool" where
  "use_ok ostr los (Letters cs) \<longleftrightarrow> cs \<noteq> [] \<and> (\<forall>c\<in>set cs. c \<in> set ostr \<and> c \<noteq> CHR '':'' \<and> c \<noteq> CHR ''-'' \<and> \<not> takes_arg ostr c)"
| "use_ok ostr los (Letter_joined c a) \<longleftrightarrow> takes_arg ostr c \<and> c \<noteq> CHR ''-'' \<and> a \<noteq> []"
| "use_ok ostr los (Letter_next c a) \<longleftrightarrow> takes_arg ostr c \<and> c \<noteq> CHR ''-''"
| "use_ok ostr los (Long i) \<longleftrightarrow> long_ok los i \<and> lo_has_arg (los ! i) = no_argument"
| "use_ok ostr los (Long_equals i a) \<longleftrightarrow> long_ok los i \<and> lo_has_arg (los ! i) \<noteq> no_argument"
| "use_ok ostr los (Long_next i a) \<longleftrightarrow> long_ok los i \<and> lo_has_arg (los ! i) \<noteq> no_argument"

text \<open>The calls of the body an option stands for. A letter leaves \<^verbatim>\<open>option_index\<close> as it was, and a long option
  without an argument leaves \<^verbatim>\<open>optarg\<close>.\<close>

fun calls :: "opt_use \<Rightarrow> (int \<times> nat option \<times> string option option) list" where
  "calls (Letters cs) = map (\<lambda>c. (code c, None, Some None)) cs"
| "calls (Letter_joined c a) = [(code c, None, Some (Some a))]"
| "calls (Letter_next c a) = [(code c, None, Some (Some a))]"
| "calls (Long i) = [(0, Some i, None)]"
| "calls (Long_equals i a) = [(0, Some i, Some (Some a))]"
| "calls (Long_next i a) = [(0, Some i, Some (Some a))]"

fun run_calls ::
  "('e, 's) option_body \<Rightarrow> (int \<times> nat option \<times> string option option) list \<Rightarrow> nat \<Rightarrow> string option \<Rightarrow> 's \<Rightarrow>
    (nat \<Rightarrow> string option \<Rightarrow> 's \<Rightarrow> ('e + 's) option) \<Rightarrow> ('e + 's) option" where
  "run_calls body [] i a s k = k i a s"
| "run_calls body ((c, i', a') # cs) i a s k =
     (let i = (case i' of None \<Rightarrow> i | Some j \<Rightarrow> j); a = (case a' of None \<Rightarrow> a | Some b \<Rightarrow> b) in
      do { r \<leftarrow> body c i a s; case r of Inl e \<Rightarrow> Some (Inl e) | Inr s \<Rightarrow> run_calls body cs i a s k })"

lemma run_calls_append:
  "run_calls body (xs @ ys) i a s k = run_calls body xs i a s (\<lambda>i a s. run_calls body ys i a s k)"
  by (induction body xs i a s k rule: run_calls.induct) (auto simp: Let_def intro!: Option.bind_cong split: sum.splits)

definition ready :: "string list \<Rightarrow> getopt \<Rightarrow> string list \<Rightarrow> nat \<Rightarrow> string option \<Rightarrow> bool" where
  "ready argv g rs i a \<longleftrightarrow> place g = [] \<and> \<not> optreset g \<and> drop (optind g) argv = rs \<and> longindex g = i \<and> optarg g = a"

lemma drop_Cons_nth: "drop n xs = x # rs \<longleftrightarrow> n < length xs \<and> xs ! n = x \<and> drop (Suc n) xs = rs"
proof (cases "n < length xs")
  case True
  then show ?thesis using Cons_nth_drop_Suc [OF True] by auto
qed simp

lemma loop_step:
  assumes "getopt_long argv ostr los g = (g', c)" and "c \<noteq> - 1"
  shows "option_loop argv ostr los body g s =
    Option.bind (body c (longindex g') (optarg g') s) (case_sum (\<lambda>e. Some (Inl e)) (option_loop argv ostr los body g'))"
  using assms by (subst option_loop.simps) simp

lemma take_is_prefix: "take (length xs) ys = xs \<Longrightarrow> length ys = length xs \<Longrightarrow> ys = xs"
  by simp

lemma match_long_exact:
  assumes "j < length los" and "distinct (map lo_name los)" and "nm = lo_name (los ! j)"
  shows "match_long nm los i m = Some (i + j)"
  using assms
proof (induction los arbitrary: i j m)
  case (Cons o1 os)
  show ?case
  proof (cases j)
    case 0
    then show ?thesis using Cons.prems by simp
  next
    case (Suc k)
    then have "k < length os" "nm = lo_name (os ! k)" using Cons.prems by auto
    then have "nm \<in> lo_name ` set os" by simp
    then have "lo_name o1 \<noteq> nm" using Cons.prems(2) by auto
    then show ?thesis using Cons.IH [of k "Suc i"] Cons.prems Suc by auto
  qed
qed simp

lemma no_reset [simp]: "\<not> optreset g \<Longrightarrow> g\<lparr>optreset := False\<rparr> = g"
  by (cases g) simp

lemma ready_first:
  assumes "ready argv g ((CHR ''-'' # cs) # rs) i a" and "cs \<noteq> []" and "hd cs \<noteq> CHR ''-''"
  shows "option_loop argv ostr los body g s = option_loop argv ostr los body (g\<lparr>place := cs\<rparr>) s"
proof -
  have "getopt_internal argv ostr g = getopt_internal argv ostr (g\<lparr>place := cs\<rparr>)"
    using assms by (simp add: ready_def drop_Cons_nth getopt_internal_def Let_def)
  then show ?thesis by (subst (1 2) option_loop.simps) (simp add: getopt_long_def)
qed

lemma letter_step:
  assumes "getopt_letter argv ostr g = (g', c)" and "place g \<noteq> []" and "\<not> optreset g" and "0 \<le> c"
  shows "option_loop argv ostr los body g s =
    Option.bind (body c (longindex g') (optarg g') s) (case_sum (\<lambda>e. Some (Inl e)) (option_loop argv ostr los body g'))"
  using assms by (intro loop_step) (auto simp: getopt_long_def getopt_internal_def)

lemma loop_letters:
  assumes "\<forall>c\<in>set cs. c \<in> set ostr \<and> c \<noteq> CHR '':'' \<and> c \<noteq> CHR ''-'' \<and> \<not> takes_arg ostr c" and "cs \<noteq> []"
    and "place g = cs" "\<not> optreset g" "optind g < length argv" "longindex g = i"
    and k: "\<And>g' i' a' s'. ready argv g' (drop (Suc (optind g)) argv) i' a' \<Longrightarrow> option_loop argv ostr los body g' s' = k i' a' s'"
  shows "option_loop argv ostr los body g s = run_calls body (map (\<lambda>c. (code c, None, Some None)) cs) i a s k"
  using assms
proof (induction cs arbitrary: g a s)
  case (Cons c cs)
  define g' where "g' = (g\<lparr>optopt := code c, place := cs\<rparr>)\<lparr>optind := (if cs = [] then optind g + 1 else optind g), optarg := None\<rparr>"
  have sel: "longindex g' = i" "optarg g' = None" using Cons.prems(6) by (simp_all add: g'_def)
  have "getopt_letter argv ostr g = (g', code c)"
    using Cons.prems(1,3) by (auto simp: getopt_letter_def Let_def takes_arg_def g'_def)
  then have step: "option_loop argv ostr los body g s =
    Option.bind (body (code c) i None s) (case_sum (\<lambda>e. Some (Inl e)) (option_loop argv ostr los body g'))"
    using letter_step [of argv ostr g g' "code c" los body s] Cons.prems(3,4) code_bounds(1) sel by simp
  have "option_loop argv ostr los body g' s' = run_calls body (map (\<lambda>c. (code c, None, Some None)) cs) i None s' k" for s'
  proof (cases "cs = []")
    case True
    then show ?thesis using Cons.prems(7) [of g' i None s'] Cons.prems(4,6) by (simp add: ready_def g'_def)
  next
    case False
    then show ?thesis using Cons.IH [of g' s' None] Cons.prems by (simp add: g'_def)
  qed
  then have "option_loop argv ostr los body g' = (\<lambda>s'. run_calls body (map (\<lambda>c. (code c, None, Some None)) cs) i None s' k)" by blast
  then show ?case using step by simp
qed simp


lemma loop_letter_arg:
  assumes "takes_arg ostr c" and "place g = c # b" "\<not> optreset g" "longindex g = i"
    and "b = [] \<Longrightarrow> arg_at argv (optind g + 1) = Some d" "b \<noteq> [] \<Longrightarrow> d = b"
    and k: "\<And>g' s'. ready argv g' (drop (if b = [] then optind g + 2 else optind g + 1) argv) i (Some d) \<Longrightarrow>
      option_loop argv ostr los body g' s' = k i (Some d) s'"
  shows "option_loop argv ostr los body g s = run_calls body [(code c, None, Some (Some d))] i a s k"
proof -
  define g' where "g' = g\<lparr>optopt := code c, place := [], optarg := Some d, optind := (if b = [] then optind g + 2 else optind g + 1)\<rparr>"
  have "getopt_letter argv ostr g = (g', code c)"
    using assms(1,2,5,6) by (auto simp: getopt_letter_def Let_def takes_arg_def g'_def arg_at_def split: if_splits)
  moreover have "ready argv g' (drop (if b = [] then optind g + 2 else optind g + 1) argv) i (Some d)"
    using assms(3,4) by (simp add: ready_def g'_def)
  moreover from this have "option_loop argv ostr los body g' = k i (Some d)" using k by blast
  ultimately show ?thesis
    using letter_step [of argv ostr g g' "code c" los body s] assms(2,3) code_bounds(1) by (simp add: ready_def Let_def)
qed

lemma drop_same_length: "drop (length xs - length (drop n xs)) xs = drop n xs"
  by (cases "n \<le> length xs") simp_all

lemma loop_long:
  assumes rd: "ready argv g ((''--'' @ lo_name (los ! j) @ eq) # rs) i a" and ok: "long_ok los j"
    and shape: "(case b of None \<Rightarrow> eq = [] \<and> lo_has_arg (los ! j) = no_argument \<and> rs' = rs
      | Some d \<Rightarrow> lo_has_arg (los ! j) \<noteq> no_argument \<and> (eq = CHR ''='' # d \<and> rs' = rs \<or> eq = [] \<and> rs = d # rs'))"
    and k: "\<And>g' a' s'. ready argv g' rs' j a' \<Longrightarrow> option_loop argv ostr los body g' s' = k j a' s'"
  shows "option_loop argv ostr los body g s = run_calls body [(0, Some j, map_option Some b)] i a s k"
proof -
  note r = rd [unfolded ready_def drop_Cons_nth]
  let ?e = "case b of None \<Rightarrow> a | Some d \<Rightarrow> Some d"
  define g' where "g' = g\<lparr>optind := length argv - length rs', optarg := ?e, longindex := j\<rparr>"
  have m: "match_long (lo_name (los ! j)) los 0 None = Some j"
    using match_long_exact [of j los _ 0] ok by (simp add: long_ok_def)
  have tw: "takeWhile (\<lambda>c. c \<noteq> CHR ''='') (lo_name (los ! j) @ eq) = lo_name (los ! j)"
  proof -
    have "takeWhile (\<lambda>c. c \<noteq> CHR ''='') eq = []" using shape by (auto split: option.splits)
    moreover have "\<forall>c\<in>set (lo_name (los ! j)). c \<noteq> CHR ''=''" using ok by (auto simp: long_ok_def)
    ultimately show ?thesis by (subst takeWhile_append2) simp_all
  qed
  have int: "getopt_internal argv ostr g = (g, - 2)" using r by (simp add: getopt_internal_def Let_def)
  have cur: "drop 2 (argv ! optind g) = lo_name (los ! j) @ eq" and a: "optarg g = a" using r by simp_all
  have len: "length argv - length rs = Suc (optind g)" using r by auto
  have lo: "lo_name (los ! j) \<noteq> []" "CHR ''='' \<notin> set (lo_name (los ! j))" "lo_flag (los ! j) = None" "lo_val (los ! j) = 0"
    using ok by (simp_all add: long_ok_def)
  have "long_name argv los g = (g', 0)"
  proof (cases b)
    case None
    then have "eq = []" "lo_has_arg (los ! j) = no_argument" "rs' = rs" using shape by simp_all
    then show ?thesis using None cur a len lo m tw by (cases g) (simp add: long_name_def g'_def Let_def del: takeWhile_eq_all_conv)
  next
    case (Some d)
    then have h: "lo_has_arg (los ! j) \<noteq> no_argument" "eq = CHR ''='' # d \<and> rs' = rs \<or> eq = [] \<and> rs = d # rs'" using shape by simp_all
    from h(2) show ?thesis
    proof
      assume "eq = CHR ''='' # d \<and> rs' = rs"
      then show ?thesis using h(1) cur len lo m tw Some by (simp add: long_name_def g'_def Let_def del: takeWhile_eq_all_conv)
    next
      assume e: "eq = [] \<and> rs = d # rs'"
      then have "arg_at argv (Suc (optind g)) = Some d" "length argv - length rs' = Suc (Suc (optind g))"
        using r by (auto simp: drop_Cons_nth arg_at_def)
      then show ?thesis using e h(1) cur lo m tw Some by (simp add: long_name_def g'_def Let_def del: takeWhile_eq_all_conv)
    qed
  qed
  moreover have "\<exists>n. rs' = drop n argv" using r shape by (auto simp: drop_Cons_nth split: option.splits)
  then have "drop (length argv - length rs') argv = rs'" using drop_same_length by metis
  then have "ready argv g' rs' j ?e" using r by (auto simp: ready_def g'_def)
  moreover from this have "option_loop argv ostr los body g' = k j ?e" using k by blast
  ultimately show ?thesis
    using loop_step [of argv ostr los g g' 0 body s] int by (simp add: getopt_long_def ready_def Let_def split: option.splits)
qed


lemma loop_use:
  assumes "ready argv g (written los u @ rs) i a" and "use_ok ostr los u"
    and k: "\<And>g' i' a' s'. ready argv g' rs i' a' \<Longrightarrow> option_loop argv ostr los body g' s' = k i' a' s'"
  shows "option_loop argv ostr los body g s = run_calls body (calls u) i a s k"
proof (cases u)
  case (Letters cs)
  then have r: "ready argv g ((CHR ''-'' # cs) # rs) i a" and cs: "cs \<noteq> []" "hd cs \<noteq> CHR ''-''"
    using assms(1,2) by auto
  show ?thesis unfolding Letters calls.simps ready_first [OF r cs]
    by (rule loop_letters) (use assms(2) Letters r k in \<open>auto simp: ready_def drop_Cons_nth\<close>)
next
  case (Letter_joined c b)
  then have r: "ready argv g ((CHR ''-'' # c # b) # rs) i a" using assms(1) by simp
  have "option_loop argv ostr los body (g\<lparr>place := c # b\<rparr>) s = run_calls body [(code c, None, Some (Some b))] i a s k"
    by (rule loop_letter_arg [where b = b]) (use assms(2) Letter_joined r k in \<open>auto simp: ready_def drop_Cons_nth\<close>)
  then show ?thesis using ready_first [OF r, of ostr los body s] assms(2) Letter_joined by simp
next
  case (Letter_next c b)
  then have r: "ready argv g ([CHR ''-'', c] # b # rs) i a" using assms(1) by simp
  have "option_loop argv ostr los body (g\<lparr>place := [c]\<rparr>) s = run_calls body [(code c, None, Some (Some b))] i a s k"
    by (rule loop_letter_arg [where b = "[]"]) (use assms(2) Letter_next r k in \<open>auto simp: ready_def drop_Cons_nth arg_at_def\<close>)
  then show ?thesis using ready_first [OF r, of ostr los body s] assms(2) Letter_next by simp
next
  case (Long j)
  then show ?thesis using loop_long [of argv g los j "[]" rs i a rs None ostr body k s] assms by simp
next
  case (Long_equals j b)
  then show ?thesis using loop_long [of argv g los j "CHR ''='' # b" rs i a rs "Some b" ostr body k s] assms by simp
next
  case (Long_next j b)
  then show ?thesis using loop_long [of argv g los j "[]" "b # rs" i a rs "Some b" ostr body k s] assms by simp
qed

text \<open>The arguments at which the scan stops.\<close>

definition stops :: "string \<Rightarrow> string list \<Rightarrow> bool" where
  "stops ostr rest \<longleftrightarrow> rest = [] \<or> hd rest = ''--'' \<or> hd rest = [] \<or> hd (hd rest) \<noteq> CHR ''-'' \<or>
     hd rest = ''-'' \<and> CHR ''-'' \<notin> set ostr"

lemma loop_stops:
  assumes "ready argv g rest i a" and "stops ostr rest"
  shows "option_loop argv ostr los body g s = Some (Inr s)"
proof -
  have "snd (getopt_long argv ostr los g) = - 1"
  proof (cases rest)
    case Nil
    then show ?thesis using assms(1) by (simp add: ready_def getopt_long_def getopt_internal_def)
  next
    case (Cons x xs)
    then have x: "place g = []" "\<not> optreset g" "optind g < length argv" "argv ! optind g = x"
      using assms(1) by (simp_all add: ready_def drop_Cons_nth)
    from assms(2) Cons consider "x = ''--''" | "x = [] \<or> hd x \<noteq> CHR ''-''" | "x = ''-''" "CHR ''-'' \<notin> set ostr"
      by (auto simp: stops_def)
    then show ?thesis
      by cases (use x in \<open>simp_all add: getopt_long_def getopt_internal_def getopt_letter_def long_name_def\<close>)
  qed
  then show ?thesis by (subst option_loop.simps) (auto split: prod.splits)
qed

lemma loop_uses:
  assumes "ready argv g (concat (map (written los) us) @ rest) i a" and "\<forall>u\<in>set us. use_ok ostr los u" and "stops ostr rest"
  shows "option_loop argv ostr los body g s = run_calls body (concat (map calls us)) i a s (\<lambda>_ _ s. Some (Inr s))"
  using assms
proof (induction us arbitrary: g i a s)
  case Nil
  then show ?case by (simp add: loop_stops)
next
  case (Cons u us)
  have "option_loop argv ostr los body g s =
    run_calls body (calls u) i a s (\<lambda>i a s. run_calls body (concat (map calls us)) i a s (\<lambda>_ _ s. Some (Inr s)))"
    by (rule loop_use [of argv g los u "concat (map (written los) us) @ rest"]) (use Cons in auto)
  then show ?case by (simp add: run_calls_append)
qed

end
