(* ===== verification/Pcp_Cli.thy ===== *)
theory Pcp_Cli
  imports Pcp_Flow_Life Pcp_Getopt
begin

text \<open>
  The command line client, \<^verbatim>\<open>pcpnatpmpc.c\<close>: its options, the flow it asks for and its exit status, in the
  configuration with all options and with the scanner of \<^verbatim>\<open>win_utils\<close>. What it prints is left out.
  A program that ends by \<^verbatim>\<open>exit\<close>, or whose arithmetic overflows, is \<open>Inl\<close> of a \<open>cli_end\<close>; \<open>None\<close> stands for reading through a NULL pointer, as in the
  library. Strings are lists of characters, arrays of characters are lists of bytes.
\<close>

section \<open>The table of options\<close>

text \<open>\<^verbatim>\<open>FOREACH_OPTION\<close>, from which the enumeration, the table of long options and the string of letters are
  made.\<close>

datatype e_options =
    E_help | E_server | E_version | E_disdisc | E_timeout | E_fast_ret | E_int | E_peer | E_ext | E_tcp | E_udp
  | E_prot | E_lifetime | E_nonce | E_dscp_up | E_dscp_down | E_pfailure | E_filter | E_thirdparty | E_md_id
  | E_md_val | E_dev_id | E_location | E_user_id | E_sadscp_jit | E_sadscp_los | E_sadscp_del | E_sadscp_app

record cli_option =
  co_short :: "char option"
  co_e :: e_options
  co_name :: string
  co_reqarg :: bool

definition foreach_option :: "cli_option list" where
  "foreach_option = map (\<lambda>(sh, e, nm, req). \<lparr>co_short = sh, co_e = e, co_name = nm, co_reqarg = req\<rparr>)
    [(Some (CHR ''h''), E_help, ''help'', False),
     (Some (CHR ''s''), E_server, ''server'', True),
     (Some (CHR ''v''), E_version, ''pcp-version'', True),
     (Some (CHR ''d''), E_disdisc, ''disable-autodiscovery'', False),
     (Some (CHR ''T''), E_timeout, ''timeout'', True),
     (Some (CHR ''f''), E_fast_ret, ''fast-return'', False),
     (Some (CHR ''i''), E_int, ''internal'', True),
     (Some (CHR ''p''), E_peer, ''peer'', True),
     (Some (CHR ''e''), E_ext, ''external'', True),
     (Some (CHR ''t''), E_tcp, ''tcp'', False),
     (Some (CHR ''u''), E_udp, ''udp'', False),
     (Some (CHR ''n''), E_prot, ''protocol'', True),
     (Some (CHR ''l''), E_lifetime, ''lifetime'', True),
     (None, E_nonce, ''nonce'', True),
     (Some (CHR ''U''), E_dscp_up, ''dscp-up'', True),
     (Some (CHR ''D''), E_dscp_down, ''dscp-down'', True),
     (Some (CHR ''P''), E_pfailure, ''prefer-failure'', False),
     (Some (CHR ''F''), E_filter, ''filter'', True),
     (Some (CHR ''3''), E_thirdparty, ''third-party'', True),
     (Some (CHR ''I''), E_md_id, ''metadata-id'', True),
     (Some (CHR ''V''), E_md_val, ''metadata-value'', True),
     (None, E_dev_id, ''device-id'', False),
     (None, E_location, ''location'', False),
     (None, E_user_id, ''user-id'', True),
     (Some (CHR ''J''), E_sadscp_jit, ''jitter-tolerance'', True),
     (Some (CHR ''L''), E_sadscp_los, ''loss-tolerance'', True),
     (Some (CHR ''E''), E_sadscp_del, ''delay-tolerance'', True),
     (Some (CHR ''A''), E_sadscp_app, ''app-name'', True)]"

definition cli_long_options :: "long_option list" where
  "cli_long_options = map (\<lambda>o1. \<lparr>lo_name = co_name o1,
     lo_has_arg = (if co_reqarg o1 then required_argument else no_argument), lo_flag = None, lo_val = 0\<rparr>) foreach_option"

definition get_short_opts_string :: string where
  "get_short_opts_string =
     concat (map (\<lambda>o1. case co_short o1 of None \<Rightarrow> [] | Some c \<Rightarrow> if co_reqarg o1 then [c, CHR '':''] else [c]) foreach_option)"

section \<open>Parameters\<close>

record pcp_server_list =
  sl_server :: "string option"
  sl_version :: u8

record pcp_params =
  int_addr :: "string option"
  ext_addr :: "string option"
  peer_addr :: "string option"
  filter_addr :: "string option"
  opt_thirdparty_addr :: "string option"
  opt_pfailure :: bool
  opt_filter :: bool
  opt_filter_prefix :: int
  opt_dscp_up :: u8
  opt_dscp_down :: u8
  opt_flowp :: bool
  dis_auto_discovery :: bool
  opt_protocol :: u8
  opt_lifetime :: u32
  pcp_version :: u8
  fast_return :: bool
  p_timeout :: u32
  opt_mdid :: u32
  opt_md_val :: bytes
  is_md :: bool
  has_sadscp_data :: bool
  delay_tolerance :: u8
  loss_tolerance :: u8
  jitter_tolerance :: u8
  app_name :: "string option"
  app_deviceid :: bytes
  app_userid :: bytes
  app_location :: bytes
  has_mappeer_data :: bool
  has_nonce :: bool
  nonce_words_be :: pcp_nonce
  pcp_servers :: "pcp_server_list list"
  p_mallocs :: nat

text \<open>What the program asks the system for: memory for the \<open>n\<close>-th server, the names of the system, and the
  resolver with the memory for the \<open>n\<close>-th address.\<close>

record cli_sys =
  sys_mem :: "nat \<Rightarrow> bool"
  sysname :: string
  machine :: string
  sys_resolver :: resolver
  sys_alloc :: "nat \<Rightarrow> nat \<Rightarrow> bool"

datatype cli_end = Exit int | Timeout_overflow

type_synonym handler = "string option \<Rightarrow> pcp_params \<Rightarrow> (cli_end + pcp_params) option"

definition chars :: "string \<Rightarrow> bytes" where
  "chars s = map of_char s"

section \<open>Handlers of the options\<close>

definition parse_opt_help :: handler where
  "parse_opt_help a p = Some (Inl (Exit 0))"

definition parse_opt_fast_ret :: handler where
  "parse_opt_fast_ret a p = Some (Inr (p\<lparr>fast_return := True\<rparr>))"

definition parse_opt_server :: "bool \<Rightarrow> handler" where
  "parse_opt_server mem a p =
     Some (Inr (let p = p\<lparr>p_mallocs := p_mallocs p + 1\<rparr> in if mem then p\<lparr>pcp_servers := \<lparr>sl_server = a, sl_version = pcp_version p\<rparr> # pcp_servers p\<rparr> else p))"

definition parse_opt_version :: handler where
  "parse_opt_version a p =
     do { s \<leftarrow> a;
          let p = p\<lparr>pcp_version := word_of_int (atoi s)\<rparr>;
          Some (if pcp_version p > PCP_MAX_SUPPORTED_VERSION then Inl (Exit 1) else Inr p) }"

definition parse_opt_disdisc :: handler where
  "parse_opt_disdisc a p = Some (Inr (p\<lparr>dis_auto_discovery := True\<rparr>))"

text \<open>The product is computed in \<^verbatim>\<open>int\<close> and must fit.\<close>

definition parse_opt_timeout :: handler where
  "parse_opt_timeout a p =
     do { s \<leftarrow> a;
          let t = atoi s * 1000;
          Some (if t < - 2147483648 \<or> t > 2147483647 then Inl Timeout_overflow else Inr (p\<lparr>p_timeout := word_of_int t\<rparr>)) }"

definition parse_opt_int :: handler where
  "parse_opt_int a p = Some (Inr (p\<lparr>int_addr := a, has_mappeer_data := True\<rparr>))"

definition parse_opt_peer :: handler where
  "parse_opt_peer a p = Some (Inr (p\<lparr>peer_addr := a, has_mappeer_data := True\<rparr>))"

definition parse_opt_ext :: handler where
  "parse_opt_ext a p = Some (Inr (p\<lparr>ext_addr := a, has_mappeer_data := True\<rparr>))"

definition parse_opt_tcp :: handler where
  "parse_opt_tcp a p = Some (Inr (p\<lparr>opt_protocol := 6, has_mappeer_data := True\<rparr>))"

definition parse_opt_udp :: handler where
  "parse_opt_udp a p = Some (Inr (p\<lparr>opt_protocol := 17, has_mappeer_data := True\<rparr>))"

definition parse_opt_prot :: handler where
  "parse_opt_prot a p =
     do { s \<leftarrow> a; Some (Inr (p\<lparr>opt_protocol := word_of_int (atoi s), has_mappeer_data := True\<rparr>)) }"

definition parse_opt_lifetime :: handler where
  "parse_opt_lifetime a p = do { s \<leftarrow> a; Some (Inr (p\<lparr>opt_lifetime := word_of_int (atoi s)\<rparr>)) }"

definition parse_opt_nonce :: handler where
  "parse_opt_nonce a p =
     (case pcp_cli_parse_nonce_words_be a of
        None \<Rightarrow> Some (Inl (Exit 1))
      | Some n \<Rightarrow> Some (Inr (p\<lparr>nonce_words_be := n, has_nonce := True, has_mappeer_data := True\<rparr>)))"

definition parse_opt_dscp_up :: handler where
  "parse_opt_dscp_up a p =
     do { s \<leftarrow> a; Some (Inr (p\<lparr>opt_dscp_up := word_of_int (atoi s), opt_flowp := True, has_mappeer_data := True\<rparr>)) }"

definition parse_opt_dscp_down :: handler where
  "parse_opt_dscp_down a p =
     do { s \<leftarrow> a; Some (Inr (p\<lparr>opt_dscp_down := word_of_int (atoi s), opt_flowp := True, has_mappeer_data := True\<rparr>)) }"

definition parse_opt_md_id :: handler where
  "parse_opt_md_id a p =
     do { s \<leftarrow> a; Some (Inr (p\<lparr>opt_mdid := word_of_int (atoi s), is_md := True, has_mappeer_data := True\<rparr>)) }"

text \<open>The first \<^verbatim>\<open>opt_md_val_len\<close> bytes of the array \<^verbatim>\<open>opt_md_val\<close>, which has 256.\<close>

definition parse_opt_md_val :: handler where
  "parse_opt_md_val a p =
     Some (Inr (p\<lparr>opt_md_val := (case a of None \<Rightarrow> [] | Some s \<Rightarrow> take 256 (chars s)), is_md := True, has_mappeer_data := True\<rparr>))"

definition parse_opt_dev_id :: "string \<Rightarrow> string \<Rightarrow> handler" where
  "parse_opt_dev_id sys mach a p =
     (let sysname_len = int (length sys); dev_len = int MAX_DEVICE_ID - sysname_len - 1; d = app_deviceid p;
          d = (if dev_len > 0
               then let d = put_bytes 0 (chars sys @ [0]) d;
                        d = put_bytes (length sys) (chars '' '' @ [0]) d
                    in if dev_len - int (length mach) > 0 then put_bytes (length sys + 1) (chars mach @ [0]) d else d
               else d)
      in Some (Inr (p\<lparr>app_deviceid := d\<rparr>)))"

definition parse_opt_location :: handler where
  "parse_opt_location a p =
     (let loc = chars ''37.4111, -121.9262''
      in Some (Inr (p\<lparr>app_location := put_bytes 0 (take (min MAX_GEO_STR (length loc)) loc) (app_location p)\<rparr>)))"

text \<open>\<^verbatim>\<open>strncpy\<close> pads with zeroes.\<close>

definition parse_opt_user_id :: handler where
  "parse_opt_user_id a p =
     do { s \<leftarrow> a;
          let u = take (MAX_USER_ID - 1) (chars s);
          Some (Inr (p\<lparr>app_userid := u @ replicate (MAX_USER_ID - length u) 0\<rparr>)) }"

definition parse_opt_filter :: handler where
  "parse_opt_filter a p = Some (Inr (p\<lparr>filter_addr := a, opt_filter := True, has_mappeer_data := True\<rparr>))"

definition parse_opt_pfailure :: handler where
  "parse_opt_pfailure a p = Some (Inr (p\<lparr>opt_pfailure := True, has_mappeer_data := True\<rparr>))"

definition parse_opt_thirdparty :: handler where
  "parse_opt_thirdparty a p = Some (Inr (p\<lparr>opt_thirdparty_addr := a, has_mappeer_data := True\<rparr>))"

definition parse_opt_sadscp_jit :: handler where
  "parse_opt_sadscp_jit a p = do { s \<leftarrow> a; Some (Inr (p\<lparr>jitter_tolerance := word_of_int (atoi s), has_sadscp_data := True\<rparr>)) }"

definition parse_opt_sadscp_los :: handler where
  "parse_opt_sadscp_los a p = do { s \<leftarrow> a; Some (Inr (p\<lparr>loss_tolerance := word_of_int (atoi s), has_sadscp_data := True\<rparr>)) }"

definition parse_opt_sadscp_del :: handler where
  "parse_opt_sadscp_del a p = do { s \<leftarrow> a; Some (Inr (p\<lparr>delay_tolerance := word_of_int (atoi s), has_sadscp_data := True\<rparr>)) }"

definition parse_opt_sadscp_app :: handler where
  "parse_opt_sadscp_app a p = Some (Inr (p\<lparr>app_name := a, has_sadscp_data := True\<rparr>))"


section \<open>Parsing the command line\<close>

fun parse_opt :: "cli_sys \<Rightarrow> e_options \<Rightarrow> handler" where
  "parse_opt S E_help a p = parse_opt_help a p"
| "parse_opt S E_server a p = parse_opt_server (sys_mem S (p_mallocs p)) a p"
| "parse_opt S E_version a p = parse_opt_version a p"
| "parse_opt S E_disdisc a p = parse_opt_disdisc a p"
| "parse_opt S E_timeout a p = parse_opt_timeout a p"
| "parse_opt S E_fast_ret a p = parse_opt_fast_ret a p"
| "parse_opt S E_int a p = parse_opt_int a p"
| "parse_opt S E_peer a p = parse_opt_peer a p"
| "parse_opt S E_ext a p = parse_opt_ext a p"
| "parse_opt S E_tcp a p = parse_opt_tcp a p"
| "parse_opt S E_udp a p = parse_opt_udp a p"
| "parse_opt S E_prot a p = parse_opt_prot a p"
| "parse_opt S E_lifetime a p = parse_opt_lifetime a p"
| "parse_opt S E_nonce a p = parse_opt_nonce a p"
| "parse_opt S E_dscp_up a p = parse_opt_dscp_up a p"
| "parse_opt S E_dscp_down a p = parse_opt_dscp_down a p"
| "parse_opt S E_pfailure a p = parse_opt_pfailure a p"
| "parse_opt S E_filter a p = parse_opt_filter a p"
| "parse_opt S E_thirdparty a p = parse_opt_thirdparty a p"
| "parse_opt S E_md_id a p = parse_opt_md_id a p"
| "parse_opt S E_md_val a p = parse_opt_md_val a p"
| "parse_opt S E_dev_id a p = parse_opt_dev_id (sysname S) (machine S) a p"
| "parse_opt S E_location a p = parse_opt_location a p"
| "parse_opt S E_user_id a p = parse_opt_user_id a p"
| "parse_opt S E_sadscp_jit a p = parse_opt_sadscp_jit a p"
| "parse_opt S E_sadscp_los a p = parse_opt_sadscp_los a p"
| "parse_opt S E_sadscp_del a p = parse_opt_sadscp_del a p"
| "parse_opt S E_sadscp_app a p = parse_opt_sadscp_app a p"

text \<open>\<^verbatim>\<open>PARSE_OPTION\<close>: the chain of tests over the table.\<close>

definition option_chosen :: "int \<Rightarrow> nat \<Rightarrow> nat \<times> cli_option \<Rightarrow> bool" where
  "option_chosen c option_index ko \<longleftrightarrow>
     c = 0 \<and> option_index = fst ko \<or> (case co_short (snd ko) of None \<Rightarrow> False | Some sh \<Rightarrow> c = code sh \<and> c \<noteq> 0)"

definition cli_body :: "cli_sys \<Rightarrow> (cli_end, pcp_params) option_body" where
  "cli_body S c option_index a p =
     (case find (option_chosen c option_index) (enumerate 0 foreach_option) of
        Some (k, o1) \<Rightarrow> parse_opt S (co_e o1) a p
      | None \<Rightarrow> Some (Inl (Exit 1)))"

definition params_start :: pcp_params where
  "params_start =
     \<lparr>int_addr = None, ext_addr = None, peer_addr = None, filter_addr = None, opt_thirdparty_addr = None,
      opt_pfailure = False, opt_filter = False, opt_filter_prefix = 0, opt_dscp_up = 0, opt_dscp_down = 0,
      opt_flowp = False, dis_auto_discovery = False, opt_protocol = 6, opt_lifetime = 900,
      pcp_version = PCP_MAX_SUPPORTED_VERSION, fast_return = False, p_timeout = 1000, opt_mdid = 0, opt_md_val = [],
      is_md = False, has_sadscp_data = False, delay_tolerance = 3, loss_tolerance = 3, jitter_tolerance = 3,
      app_name = None, app_deviceid = replicate MAX_DEVICE_ID 0, app_userid = replicate MAX_USER_ID 0,
      app_location = replicate MAX_GEO_STR 0, has_mappeer_data = False, has_nonce = False, nonce_words_be = nonce_zero,
      pcp_servers = [], p_mallocs = 0\<rparr>"

text \<open>The checks behind the loop.\<close>

definition one_operation :: "pcp_params \<Rightarrow> cli_end + pcp_params" where
  "one_operation p =
     (if has_mappeer_data p \<and> has_sadscp_data p then Inl (Exit 1)
      else if \<not> has_mappeer_data p \<and> \<not> has_sadscp_data p then Inl (Exit 1)
      else Inr p)"

definition parse_params :: "cli_sys \<Rightarrow> string list \<Rightarrow> (cli_end + pcp_params) option" where
  "parse_params S argv =
     (if length argv = 1 then Some (Inl (Exit 1))
      else do { r \<leftarrow> option_loop argv get_short_opts_string cli_long_options (cli_body S) getopt_start params_start;
                Some (case r of Inl e \<Rightarrow> Inl e | Inr p \<Rightarrow> one_operation p) })"

section \<open>The program\<close>

text \<open>The addresses on the command line, and which operation they allow. An address that is not given is all
  zero, or not used. The \<open>n\<close>-th conversion allocates with \<open>sys_alloc S n\<close>.\<close>

record cli_addrs =
  source_ip :: sockaddr
  destination_ip :: sockaddr
  ext_ip_addr :: sockaddr
  filter_ip :: sockaddr
  filter_prefix :: int
  thirdparty_ip :: sockaddr

definition parse_addr :: "cli_sys \<Rightarrow> nat \<Rightarrow> string option \<Rightarrow> sockaddr option" where
  "parse_addr S n a =
     (case a of
        None \<Rightarrow> Some (Sockaddr_other 0)
      | Some _ \<Rightarrow> (case sock_pton (sys_resolver S) (sys_alloc S n) a (Sockaddr_other 0) of (r, sa) \<Rightarrow> if r = 0 then Some sa else None))"

definition parse_filter :: "cli_sys \<Rightarrow> pcp_params \<Rightarrow> (sockaddr \<times> int) option" where
  "parse_filter S p =
     (if opt_filter p \<and> filter_addr p \<noteq> None
      then (case sock_pton_with_prefix (sys_resolver S) (sys_alloc S 3) (filter_addr p) (Sockaddr_other 0) (opt_filter_prefix p)
            of (r, sa, prefix) \<Rightarrow> if r = 0 then Some (sa, prefix) else None)
      else Some (Sockaddr_other 0, opt_filter_prefix p))"

text \<open>\<open>None\<close> stands for the exit with status 1.\<close>

definition cli_addresses :: "cli_sys \<Rightarrow> pcp_params \<Rightarrow> cli_addrs option" where
  "cli_addresses S p =
     do { src \<leftarrow> parse_addr S 0 (int_addr p);
          dst \<leftarrow> parse_addr S 1 (peer_addr p);
          ext \<leftarrow> parse_addr S 2 (ext_addr p);
          if peer_addr p \<noteq> None \<and> opt_pfailure p then None
          else if peer_addr p \<noteq> None \<and> opt_filter p then None
          else do { (fil, prefix) \<leftarrow> parse_filter S p;
                    third \<leftarrow> parse_addr S 4 (opt_thirdparty_addr p);
                    Some \<lparr>source_ip = src, destination_ip = dst, ext_ip_addr = ext, filter_ip = fil,
                          filter_prefix = prefix, thirdparty_ip = third\<rparr> } }"


text \<open>The servers, last one on the command line first. \<^verbatim>\<open>Sock_pton\<close> converts into a static variable, \<open>sa\<close>.\<close>

fun add_servers :: "env \<Rightarrow> cli_sys \<Rightarrow> nat \<Rightarrow> sockaddr \<Rightarrow> pcp_server_list list \<Rightarrow> pcp_ctx \<Rightarrow> pcp_ctx option" where
  "add_servers E S n sa [] c = Some c"
| "add_servers E S n sa (l # ls) c =
     (case sock_pton (sys_resolver S) (sys_alloc S n) (sl_server l) sa of (r, sa) \<Rightarrow>
        do { c \<leftarrow> (if r = 0 then map_option fst (pcp_add_server E sa (sl_version l) c) else Some c);
             add_servers E S (Suc n) sa ls c })"

text \<open>The options of the new flow.\<close>

definition set_options :: "env \<Rightarrow> pcp_params \<Rightarrow> cli_addrs \<Rightarrow> addr option \<Rightarrow> pcp_ctx \<Rightarrow> pcp_ctx option" where
  "set_options E p ad flow c =
     do { c \<leftarrow> (if opt_flowp p then pcp_flow_set_flowp E flow (opt_dscp_up p) (opt_dscp_down p) c else Some c);
          c \<leftarrow> (if is_md p then pcp_flow_add_md E flow (opt_mdid p) (opt_md_val p) c else Some c);
          c \<leftarrow> (if hd (app_deviceid p) \<noteq> 0 then map_option fst (pcp_flow_set_deviceid E flow (app_deviceid p) c) else Some c);
          c \<leftarrow> (if hd (app_location p) \<noteq> 0 then map_option fst (pcp_flow_set_location E flow (app_location p) c) else Some c);
          c \<leftarrow> (if hd (app_userid p) \<noteq> 0 then map_option fst (pcp_flow_set_userid E flow (app_userid p) c) else Some c);
          c \<leftarrow> (if opt_filter p then pcp_flow_set_filter_opt E flow (filter_ip ad) (word_of_int (filter_prefix ad)) c else Some c);
          c \<leftarrow> (if opt_pfailure p then pcp_flow_set_prefer_failure_opt E flow c else Some c);
          if opt_thirdparty_addr p \<noteq> None then pcp_flow_set_3rd_party_opt E flow (thirdparty_ip ad) c else Some c }"

text \<open>The flow that is asked for; the user data is the address of the context.\<close>

definition request_flow ::
  "env \<Rightarrow> nat \<Rightarrow> pcp_params \<Rightarrow> cli_addrs \<Rightarrow> pcp_ctx \<Rightarrow> (cli_end + (pcp_ctx \<times> addr option)) option" where
  "request_flow E ctx_addr p ad c =
     (if has_mappeer_data p
      then do { (c, flow) \<leftarrow> pcp_new_flow E (Some (source_ip ad)) (Some (destination_ip ad))
                  (if ext_addr p \<noteq> None then Some (ext_ip_addr ad) else None) (opt_protocol p) (opt_lifetime p) (Some ctx_addr) c;
                if flow = None then Some (Inl (Exit 1))
                else do { (c, r) \<leftarrow> (if has_nonce p then pcp_flow_set_nonce flow (Some (nonce_words_be p)) c else Some (c, 0));
                          if r \<noteq> 0 then Some (Inl (Exit 1))
                          else do { c \<leftarrow> set_options E p ad flow c; Some (Inr (c, flow)) } } }
      else if has_sadscp_data p
      then do { r \<leftarrow> pcp_learn_dscp E (delay_tolerance p) (loss_tolerance p) (jitter_tolerance p) (map_option chars (app_name p)) c;
                Some (Inr r) }
      else Some (Inr (c, None)))"

text \<open>The exit status: of a state that is final for all flows, and of the first flow that has an answer.\<close>

definition state_status :: "pcp_fstate_e \<Rightarrow> int option" where
  "state_status st =
     (if st = pcp_state_succeeded then Some 0 else if st = pcp_state_short_lifetime_error then Some 3
      else if st = pcp_state_failed then Some 4 else None)"

fun first_answer :: "pcp_flow_info list \<Rightarrow> int" where
  "first_answer [] = 2"
| "first_answer (i # is) = (case state_status (i_result i) of Some r \<Rightarrow> r | None \<Rightarrow> first_answer is)"

definition check_flow_info :: "env \<Rightarrow> addr option \<Rightarrow> pcp_ctx \<Rightarrow> (pcp_ctx \<times> int) option" where
  "check_flow_info E f c =
     do { (c, ret) \<leftarrow> pcp_flow_get_info E f c;
          Some (c, case ret of None \<Rightarrow> 2 | Some infos \<Rightarrow> first_answer infos) }"

definition wait_status :: "env \<Rightarrow> addr option \<Rightarrow> pcp_fstate_e \<Rightarrow> pcp_ctx \<Rightarrow> (pcp_ctx \<times> int) option" where
  "wait_status E flow st c =
     (if st = pcp_state_processing then Some (c, 2)
      else case state_status st of Some r \<Rightarrow> Some (c, r) | None \<Rightarrow> check_flow_info E flow c)"

text \<open>From the context to the status, and then the end of the program. Printing reads the flow once for each
  table.\<close>

definition cli_session ::
  "env \<Rightarrow> cli_sys \<Rightarrow> nat \<Rightarrow> pcp_params \<Rightarrow> cli_addrs \<Rightarrow> pcp_ctx \<Rightarrow> (cli_end + (pcp_ctx \<times> addr option \<times> int)) option" where
  "cli_session E S ctx_addr p ad c =
     do { c \<leftarrow> add_servers E S 5 (Sockaddr_other 0) (pcp_servers p) c;
          r \<leftarrow> request_flow E ctx_addr p ad c;
          case r of
            Inl e \<Rightarrow> Some (Inl e)
          | Inr (c, flow) \<Rightarrow>
              do { (c, st) \<leftarrow> pcp_wait E flow (sint (p_timeout p)) (fast_return p) c;
                   (c, ret_val) \<leftarrow> wait_status E flow st c;
                   Some (Inr (c, flow, ret_val)) } }"

definition cli_finish :: "env \<Rightarrow> pcp_params \<Rightarrow> pcp_ctx \<times> addr option \<times> int \<Rightarrow> cli_end option" where
  "cli_finish E p r =
     (case r of (c, flow, ret_val) \<Rightarrow>
        do { c \<leftarrow> (if has_mappeer_data p then map_option fst (pcp_flow_get_info E flow c) else Some c);
             c \<leftarrow> (if has_sadscp_data p then map_option fst (pcp_flow_get_info E flow c) else Some c);
             c \<leftarrow> pcp_terminate E False c;
             Some (Exit ret_val) })"

text \<open>\<^verbatim>\<open>main\<close>. The client does not test whether there is a context: without one a new flow is refused, and the
  other operation goes through a NULL pointer.\<close>

definition cli_main :: "env \<Rightarrow> cli_sys \<Rightarrow> nat \<Rightarrow> nat \<Rightarrow> string list \<Rightarrow> cli_end option" where
  "cli_main E S ctx_addr n argv =
     do { r \<leftarrow> parse_params S argv;
          case r of
            Inl e \<Rightarrow> Some e
          | Inr p \<Rightarrow>
              case cli_addresses S p of
                None \<Rightarrow> Some (Exit 1)
              | Some ad \<Rightarrow>
                  do { ctx \<leftarrow> pcp_init E n (\<not> dis_auto_discovery p);
                       case ctx of
                         None \<Rightarrow> if has_mappeer_data p then Some (Exit 1) else None
                       | Some c \<Rightarrow>
                           do { r \<leftarrow> cli_session E S ctx_addr p ad c;
                                case r of Inl e \<Rightarrow> Some e | Inr res \<Rightarrow> cli_finish E p res } } }"


section \<open>The parameters are sound\<close>

text \<open>The table: names without an equals sign and different from each other, letters that say whether their
  option takes an argument, and a string of letters that fits in its array of 64 characters.\<close>

lemma table_names:
  "distinct (map co_name foreach_option)" "\<forall>o1\<in>set foreach_option. co_name o1 \<noteq> [] \<and> CHR ''='' \<notin> set (co_name o1)"
  by (simp_all add: foreach_option_def)

lemma short_opts: "get_short_opts_string = ''hs:v:dT:fi:p:e:tun:l:U:D:PF:3:I:V:J:L:E:A:''"
  by (simp add: get_short_opts_string_def foreach_option_def)

lemma short_opts_fit: "length get_short_opts_string + 1 \<le> 64"
  by (simp add: short_opts)

lemma short_letters: "letters_ok get_short_opts_string"
  by (simp add: letters_ok_def short_opts)

lemma short_takes_arg:
  "\<forall>o1\<in>set foreach_option. \<forall>sh. co_short o1 = Some sh \<longrightarrow>
     sh \<in> set get_short_opts_string \<and> sh \<noteq> CHR '':'' \<and> sh \<noteq> CHR ''-'' \<and> (takes_arg get_short_opts_string sh \<longleftrightarrow> co_reqarg o1)"
  by (simp add: foreach_option_def takes_arg_def short_opts)

lemma cli_table: "plain_table cli_long_options"
  by (auto simp: plain_table_def cli_long_options_def)

lemma cli_long_options_nth:
  "k < length foreach_option \<Longrightarrow> lo_has_arg (cli_long_options ! k) = (if co_reqarg (foreach_option ! k) then required_argument else no_argument)"
  by (simp add: cli_long_options_def)

lemma chosen_option:
  assumes "find (option_chosen c i) (enumerate 0 foreach_option) = Some (k, o1)"
  shows "option_chosen c i (k, o1)" "k < length foreach_option" "o1 = foreach_option ! k"
  using assms by (auto simp: find_Some_iff nth_enumerate_eq)

lemma chosen_delivered:
  assumes "find (option_chosen c i) (enumerate 0 foreach_option) = Some (k, o1)"
    and "delivered get_short_opts_string cli_long_options c i a" and "co_reqarg o1"
  shows "a \<noteq> None"
proof -
  note ch = chosen_option [OF assms(1)]
  from ch(1) consider "c = 0" "i = k" | sh where "co_short o1 = Some sh" "c = code sh"
    by (auto simp: option_chosen_def split: option.splits)
  then show ?thesis
  proof cases
    case 1
    then show ?thesis using assms(2,3) ch by (auto simp: delivered_def cli_long_options_nth)
  next
    case 2
    then have "takes_arg get_short_opts_string sh" using short_takes_arg ch assms(3) by auto
    then show ?thesis using assms(2) 2 unfolding delivered_def by blast
  qed
qed

text \<open>What holds of the parameters during the scan.\<close>

definition params_ok :: "pcp_params \<Rightarrow> bool" where
  "params_ok p \<longleftrightarrow>
     pcp_version p \<le> PCP_MAX_SUPPORTED_VERSION \<and>
     (\<forall>l\<in>set (pcp_servers p). sl_server l \<noteq> None \<and> sl_version l \<le> PCP_MAX_SUPPORTED_VERSION) \<and>
     length (opt_md_val p) \<le> 256 \<and> (opt_filter p \<longrightarrow> filter_addr p \<noteq> None) \<and>
     length (app_deviceid p) = MAX_DEVICE_ID \<and> last (app_deviceid p) = 0 \<and>
     length (app_userid p) = MAX_USER_ID \<and> last (app_userid p) = 0 \<and>
     length (app_location p) = MAX_GEO_STR \<and> last (app_location p) = 0"

definition cli_ends :: "cli_end \<Rightarrow> bool" where
  "cli_ends e \<longleftrightarrow> e = Exit 0 \<or> e = Exit 1 \<or> e = Timeout_overflow"

lemma last_put_bytes:
  assumes "off + length bs \<le> length buf" "bs \<noteq> []" "last bs = 0" "last buf = (0 :: u8)"
  shows "last (put_bytes off bs buf) = 0"
  using assms by (cases "off + length bs = length buf") (auto simp: put_bytes_def last_append last_drop)

lemma needs_arg:
  "o1 \<in> set foreach_option \<Longrightarrow> co_reqarg o1 \<longleftrightarrow>
     co_e o1 \<notin> {E_help, E_disdisc, E_fast_ret, E_tcp, E_udp, E_pfailure, E_dev_id, E_location}"
  by (auto simp: foreach_option_def)

lemmas handler_defs = parse_opt_help_def parse_opt_fast_ret_def parse_opt_server_def parse_opt_version_def
  parse_opt_disdisc_def parse_opt_timeout_def parse_opt_int_def parse_opt_peer_def parse_opt_ext_def parse_opt_tcp_def
  parse_opt_udp_def parse_opt_prot_def parse_opt_lifetime_def parse_opt_nonce_def parse_opt_dscp_up_def
  parse_opt_dscp_down_def parse_opt_md_id_def parse_opt_md_val_def parse_opt_filter_def
  parse_opt_pfailure_def parse_opt_thirdparty_def parse_opt_sadscp_jit_def parse_opt_sadscp_los_def
  parse_opt_sadscp_del_def parse_opt_sadscp_app_def

lemma dev_id_ok: "params_ok p \<Longrightarrow> yields (parse_opt_dev_id sys mach a p) (\<lambda>r. case r of Inl e \<Rightarrow> cli_ends e | Inr p \<Rightarrow> params_ok p)"
  by (auto simp: parse_opt_dev_id_def Let_def params_ok_def chars_def length_put_bytes_in last_put_bytes)

lemma location_ok: "params_ok p \<Longrightarrow> yields (parse_opt_location a p) (\<lambda>r. case r of Inl e \<Rightarrow> cli_ends e | Inr p \<Rightarrow> params_ok p)"
  unfolding parse_opt_location_def Let_def yields_Some sum.case params_ok_def
  by (auto simp: chars_def length_put_bytes_in put_bytes_def last_append)

lemma user_id_ok: "params_ok p \<Longrightarrow> a \<noteq> None \<Longrightarrow>
    yields (parse_opt_user_id a p) (\<lambda>r. case r of Inl e \<Rightarrow> cli_ends e | Inr p \<Rightarrow> params_ok p)"
  by (auto simp: parse_opt_user_id_def Let_def params_ok_def)

lemma parse_opt_keeps:
  assumes "params_ok p" and "o1 \<in> set foreach_option" and "co_reqarg o1 \<Longrightarrow> a \<noteq> None"
  shows "yields (parse_opt S (co_e o1) a p) (\<lambda>r. case r of Inl e \<Rightarrow> cli_ends e | Inr p \<Rightarrow> params_ok p)"
  using assms dev_id_ok location_ok user_id_ok
  by (cases "co_e o1") (auto simp: needs_arg handler_defs params_ok_def cli_ends_def Let_def chars_def split: option.splits)


lemma cli_body_keeps:
  assumes "params_ok p" and "delivered get_short_opts_string cli_long_options c i a"
  shows "yields (cli_body S c i a p) (\<lambda>r. case r of Inl e \<Rightarrow> cli_ends e | Inr p \<Rightarrow> params_ok p)"
proof (cases "find (option_chosen c i) (enumerate 0 foreach_option)")
  case None
  then show ?thesis by (simp add: cli_body_def cli_ends_def)
next
  case (Some ko)
  obtain k o1 where ko: "ko = (k, o1)" by force
  have "o1 \<in> set foreach_option" using chosen_option(2,3) [of c i k o1] Some ko by simp
  then show ?thesis using parse_opt_keeps [OF assms(1), of o1 a S] chosen_delivered [OF _ assms(2)] Some ko
    by (simp add: cli_body_def)
qed

interpretation cli: option_program get_short_opts_string cli_long_options "cli_body S" cli_ends params_ok for S
  by unfold_locales (fact short_letters cli_table cli_body_keeps)+

lemma params_start_ok: "params_ok params_start"
  by (simp add: params_ok_def params_start_def)

section \<open>What a command line of the client means\<close>

text \<open>The handlers and arguments the ways of writing an option stand for.\<close>

definition letter_e :: "char \<Rightarrow> e_options" where
  "letter_e c = co_e (the (find (\<lambda>o1. co_short o1 = Some c) foreach_option))"

fun meaning :: "opt_use \<Rightarrow> (e_options \<times> string option) list" where
  "meaning (Letters cs) = map (\<lambda>c. (letter_e c, None)) cs"
| "meaning (Letter_joined c a) = [(letter_e c, Some a)]"
| "meaning (Letter_next c a) = [(letter_e c, Some a)]"
| "meaning (Long k) = [(co_e (foreach_option ! k), None)]"
| "meaning (Long_equals k a) = [(co_e (foreach_option ! k), Some a)]"
| "meaning (Long_next k a) = [(co_e (foreach_option ! k), Some a)]"

fun run_handlers :: "cli_sys \<Rightarrow> (e_options \<times> string option) list \<Rightarrow> pcp_params \<Rightarrow> (cli_end + pcp_params) option" where
  "run_handlers S [] p = Some (Inr p)"
| "run_handlers S ((e, a) # xs) p =
     do { r \<leftarrow> parse_opt S e a p; case r of Inl x \<Rightarrow> Some (Inl x) | Inr p \<Rightarrow> run_handlers S xs p }"

lemma find_enumerate: "find (\<lambda>ko. P (snd ko)) (enumerate n xs) = map_option (\<lambda>x. (n + length (takeWhile (\<lambda>y. \<not> P y) xs), x)) (find P xs)"
  by (induction xs arbitrary: n) auto

lemma letter_exists:
  assumes "c \<in> set get_short_opts_string" and "c \<noteq> CHR '':''"
  obtains o1 where "find (\<lambda>o1. co_short o1 = Some c) foreach_option = Some o1"
proof -
  have "\<exists>o1\<in>set foreach_option. co_short o1 = Some c"
    using assms by (auto simp: get_short_opts_string_def split: option.splits if_splits)
  then have "find (\<lambda>o1. co_short o1 = Some c) foreach_option \<noteq> None" by (auto simp: find_None_iff)
  then show thesis using that by auto
qed

lemma body_letter:
  assumes "c \<in> set get_short_opts_string" and "c \<noteq> CHR '':''"
  shows "cli_body S (code c) i a p = parse_opt S (letter_e c) a p"
proof -
  have "code c \<noteq> 0" using assms(1) short_letters by (auto simp: code_zero letters_ok_def)
  then have "option_chosen (code c) i = (\<lambda>ko. co_short (snd ko) = Some c)"
    by (auto simp: fun_eq_iff option_chosen_def split: option.splits)
  moreover obtain o1 where "find (\<lambda>o1. co_short o1 = Some c) foreach_option = Some o1" using letter_exists [OF assms] .
  ultimately show ?thesis
    using find_enumerate [of "\<lambda>o1. co_short o1 = Some c" 0 foreach_option] by (simp add: cli_body_def letter_e_def)
qed

lemma body_long:
  assumes "k < length foreach_option"
  shows "cli_body S 0 k a p = parse_opt S (co_e (foreach_option ! k)) a p"
proof -
  have "option_chosen 0 k ko \<longleftrightarrow> k = fst ko" for ko :: "nat \<times> cli_option"
    by (auto simp: option_chosen_def code_zero split: option.splits)
  then have "option_chosen 0 k = (\<lambda>ko. k = fst ko)" by blast
  moreover have "find (\<lambda>ko. k = fst ko) (enumerate 0 foreach_option) = Some (k, foreach_option ! k)"
    using assms unfolding find_Some_iff by (intro exI [of _ k]) (simp add: nth_enumerate_eq)
  ultimately show ?thesis by (simp add: cli_body_def)
qed

lemma no_arg_ignored:
  "o1 \<in> set foreach_option \<Longrightarrow> \<not> co_reqarg o1 \<Longrightarrow> parse_opt S (co_e o1) a p = parse_opt S (co_e o1) b p"
  by (cases "co_e o1") (simp_all add: needs_arg handler_defs parse_opt_dev_id_def parse_opt_location_def)


text \<open>Runs of the body and of the handlers agree, whatever \<^verbatim>\<open>option_index\<close> and \<^verbatim>\<open>optarg\<close> held before.\<close>

definition then_handlers :: "(cli_end + pcp_params) option \<Rightarrow> (pcp_params \<Rightarrow> (cli_end + pcp_params) option) \<Rightarrow> (cli_end + pcp_params) option" where
  "then_handlers m k = do { r \<leftarrow> m; case r of Inl x \<Rightarrow> Some (Inl x) | Inr p \<Rightarrow> k p }"

lemma then_handlers_simps [simp]:
  "then_handlers (Some (Inr p)) k = k p" "then_handlers (Some (Inl x)) k = Some (Inl x)" "then_handlers None k = None"
  by (simp_all add: then_handlers_def)

lemma then_handlers_assoc: "then_handlers (then_handlers m k) l = then_handlers m (\<lambda>p. then_handlers (k p) l)"
  by (cases m) (auto simp: then_handlers_def split: sum.splits)

lemma run_handlers_Cons: "run_handlers S ((e, a) # xs) p = then_handlers (parse_opt S e a p) (run_handlers S xs)"
  by (simp add: then_handlers_def)

lemma run_handlers_append: "run_handlers S (xs @ ys) p = then_handlers (run_handlers S xs p) (run_handlers S ys)"
proof (induction xs arbitrary: p)
  case (Cons x xs)
  then have "run_handlers S (xs @ ys) = (\<lambda>p. then_handlers (run_handlers S xs p) (run_handlers S ys))" by blast
  then show ?case by (cases x) (simp add: run_handlers_Cons then_handlers_assoc del: run_handlers.simps(2))
qed simp

lemma run_calls_Cons:
  "run_calls (cli_body S) ((c, i', a') # cs) i a p k =
    then_handlers (cli_body S c (case i' of None \<Rightarrow> i | Some j \<Rightarrow> j) (case a' of None \<Rightarrow> a | Some b \<Rightarrow> b) p)
      (\<lambda>p. run_calls (cli_body S) cs (case i' of None \<Rightarrow> i | Some j \<Rightarrow> j) (case a' of None \<Rightarrow> a | Some b \<Rightarrow> b) p k)"
  by (simp add: then_handlers_def Let_def)

lemma run_letters:
  assumes "\<forall>c\<in>set cs. c \<in> set get_short_opts_string \<and> c \<noteq> CHR '':''"
    and "\<And>i a p. k i a p = l p"
  shows "run_calls (cli_body S) (map (\<lambda>c. (code c, None, Some None)) cs) i a p k =
    then_handlers (run_handlers S (map (\<lambda>c. (letter_e c, None)) cs) p) l"
  using assms(1)
  by (induction cs arbitrary: i a p)
    (auto simp: run_calls_Cons run_handlers_Cons body_letter then_handlers_assoc assms(2) simp del: run_calls.simps(2) run_handlers.simps(2))

lemma run_use:
  assumes "use_ok get_short_opts_string cli_long_options u" and k: "\<And>i a p. k i a p = l p"
  shows "run_calls (cli_body S) (calls u) i a p k = then_handlers (run_handlers S (meaning u) p) l"
proof (cases u)
  case (Letters cs)
  then show ?thesis using run_letters [of cs k l S i a p] assms by simp
next
  case (Long j)
  then have j: "j < length foreach_option" "\<not> co_reqarg (foreach_option ! j)"
    using assms(1) by (auto simp: long_ok_def cli_long_options_def)
  then have "parse_opt S (co_e (foreach_option ! j)) a p = parse_opt S (co_e (foreach_option ! j)) None p"
    by (intro no_arg_ignored) auto
  then show ?thesis using Long j
    by (simp add: run_calls_Cons run_handlers_Cons body_long k then_handlers_assoc del: run_calls.simps(2) run_handlers.simps(2))
qed (use assms(1) in \<open>auto simp: run_calls_Cons run_handlers_Cons body_long body_letter k then_handlers_assoc
       takes_arg_def long_ok_def cli_long_options_def simp del: run_calls.simps(2) run_handlers.simps(2)\<close>)

lemma run_uses:
  assumes "\<forall>u\<in>set us. use_ok get_short_opts_string cli_long_options u"
  shows "run_calls (cli_body S) (concat (map calls us)) i a p (\<lambda>_ _ p. Some (Inr p)) = run_handlers S (concat (map meaning us)) p"
  using assms
proof (induction us arbitrary: i a p)
  case (Cons u us)
  then show ?case
    using run_use [of u "\<lambda>i a p. run_calls (cli_body S) (concat (map calls us)) i a p (\<lambda>_ _ p. Some (Inr p))" "run_handlers S (concat (map meaning us))"]
    by (simp add: run_calls_append run_handlers_append)
qed simp


section \<open>The exit status\<close>

text \<open>A flow for which a server granted the mapping, or taught the value it asked for.\<close>

definition has_granted :: "pcp_ctx \<Rightarrow> bool" where
  "has_granted c \<longleftrightarrow> (\<exists>a f. c_heap c a = Some f \<and> f_state f = pfs_wait_for_lifetime_renew)"

lemma eval_loop_success:
  assumes "eval_loop fiter n no s fl c = Some r"
  shows "fst (snd (snd r)) \<longrightarrow> s \<or> has_granted c"
proof (rule eval_loop.raw_induct [OF _ assms])
  fix f fiter n no s fl c r
  assume IH: "\<And>fiter n no s fl c r. f fiter n no s fl c = Some r \<Longrightarrow> fst (snd (snd r)) \<longrightarrow> s \<or> has_granted c"
    and run: "(case fiter of
        None \<Rightarrow> Some (n, no, s, fl)
      | Some a \<Rightarrow>
          do { fl1 \<leftarrow> c_heap c a;
               if f_state fl1 = pfs_wait_for_lifetime_renew then f (f_next_child fl1) (n + 1) no True fl c
               else if f_state fl1 = pfs_failed then f (f_next_child fl1) (n + 1) no s True c
               else if f_state fl1 = pfs_wait_after_short_life_error then f (f_next_child fl1) (n + 1) no s fl c
               else f (f_next_child fl1) n True s fl c }) = Some r"
  show "fst (snd (snd r)) \<longrightarrow> s \<or> has_granted c"
  proof (cases fiter)
    case None
    then show ?thesis using run by auto
  next
    case (Some a)
    then obtain g where g: "c_heap c a = Some g" using run by (auto simp: bind_eq_Some_conv)
    show ?thesis
    proof (cases "f_state g = pfs_wait_for_lifetime_renew")
      case True
      then show ?thesis using g by (auto simp: has_granted_def)
    next
      case False
      then show ?thesis using run Some g IH by (auto split: if_splits)
    qed
  qed
qed

lemma eval_success:
  assumes "pcp_eval_flow_state fl c = Some (n, st)" and "st = pcp_state_succeeded"
  shows "has_granted c"
proof -
  obtain r where r: "eval_loop fl 0 False False False c = Some r" using assms(1) by (auto simp: pcp_eval_flow_state_def bind_eq_Some_conv)
  then have "fst (snd (snd r))" using assms by (auto simp: pcp_eval_flow_state_def split: prod.splits if_splits)
  then show ?thesis using eval_loop_success [OF r] by simp
qed

lemma wait_loop_success:
  assumes "wait_loop E a t n x c = Some r"
  shows "snd r = pcp_state_succeeded \<longrightarrow> has_granted (fst r)"
proof (rule wait_loop.raw_induct [OF _ assms])
  fix f E a t n x c r
  assume IH: "\<And>E a t n x c r. f E a t n x c = Some r \<Longrightarrow> snd r = pcp_state_succeeded \<longrightarrow> has_granted (fst r)"
    and run: "do { let (tout_select, tout_end, past) = timeval_subtract t (gettimeofday E c);
          let c = tick c;
          if past \<or> tv_is_zero tout_select \<or> tv_sec tout_select < 0 then Some (c, pcp_state_processing)
          else do { (c, _, _) \<leftarrow> pcp_pulse E (Some tout_select) c;
                    (m, ret_state) \<leftarrow> pcp_eval_flow_state (Some a) c;
                    if m > n \<and> (x \<or> ret_state \<noteq> pcp_state_partial_result)
                    then Some (c, ret_state)
                    else f E a tout_end n x (tick c) } } = Some r"
  obtain tout_select tout_end past where sub: "timeval_subtract t (gettimeofday E c) = (tout_select, tout_end, past)"
    by (rule prod_cases3)
  show "snd r = pcp_state_succeeded \<longrightarrow> has_granted (fst r)"
  proof (cases "past \<or> tv_is_zero tout_select \<or> tv_sec tout_select < 0")
    case True
    then show ?thesis using run sub by (auto simp: Let_def)
  next
    case False
    then obtain c1 y z m st where "pcp_pulse E (Some tout_select) (tick c) = Some (c1, y, z)"
      and ev: "pcp_eval_flow_state (Some a) c1 = Some (m, st)"
      and last: "(if m > n \<and> (x \<or> st \<noteq> pcp_state_partial_result) then Some (c1, st) else f E a tout_end n x (tick c1)) = Some r"
      using run sub by (auto simp: Let_def bind_eq_Some_conv)
    then show ?thesis using IH eval_success [OF ev] by (auto split: if_splits)
  qed
qed

lemma pcp_wait_success:
  assumes "pcp_wait E fl t x c = Some (c', pcp_state_succeeded)"
  shows "has_granted c'"
  using assms wait_loop_success by (fastforce simp: pcp_wait_def Let_def bind_eq_Some_conv split: option.splits)

lemma info_loop_success:
  assumes "info_loop fiter acc c = Some r"
  shows "\<forall>i\<in>set r. i_result i = pcp_state_succeeded \<longrightarrow> i \<in> set acc \<or> has_granted c"
proof (rule info_loop.raw_induct [OF _ assms])
  fix f fiter acc c r
  assume IH: "\<And>fiter acc c r. f fiter acc c = Some r \<Longrightarrow>
      \<forall>i\<in>set r. i_result i = pcp_state_succeeded \<longrightarrow> i \<in> set acc \<or> has_granted c"
    and run: "(case fiter of None \<Rightarrow> Some acc | Some a \<Rightarrow> do { fl \<leftarrow> c_heap c a; f (f_next_child fl) (acc @ [flow_info fl]) c }) = Some r"
  show "\<forall>i\<in>set r. i_result i = pcp_state_succeeded \<longrightarrow> i \<in> set acc \<or> has_granted c"
  proof (cases fiter)
    case None
    then show ?thesis using run by auto
  next
    case (Some a)
    then obtain g where g: "c_heap c a = Some g" and r: "f (f_next_child g) (acc @ [flow_info g]) c = Some r"
      using run by (auto simp: bind_eq_Some_conv)
    have "i_result (flow_info g) = pcp_state_succeeded \<Longrightarrow> has_granted c"
      using g by (auto simp: flow_info_def Let_def has_granted_def split: if_splits)
    then show ?thesis using IH [OF r] by auto
  qed
qed

lemma first_answer_success: "first_answer is = 0 \<Longrightarrow> \<exists>i\<in>set is. i_result i = pcp_state_succeeded"
  by (induction "is") (auto simp: state_status_def split: if_splits option.splits)

lemma wait_status_success:
  assumes "wait_status E fl st c = Some (c', 0)" and "st = pcp_state_succeeded \<Longrightarrow> has_granted c"
  shows "has_granted c'"
proof (cases "st = pcp_state_succeeded")
  case True
  then show ?thesis using assms by (simp add: wait_status_def state_status_def)
next
  case False
  then have "check_flow_info E fl c = Some (c', 0)"
    using assms(1) by (auto simp: wait_status_def state_status_def split: if_splits)
  then obtain infos where i: "info_loop fl [] c = Some infos" "first_answer infos = 0" "c' = tick c"
    by (auto simp: check_flow_info_def pcp_flow_get_info_def bind_eq_Some_conv split: option.splits if_splits)
  then show ?thesis using info_loop_success [OF i(1)] first_answer_success [OF i(2)] by (auto simp: has_granted_def)
qed

lemma session_success:
  assumes "cli_session E S x p ad c = Some (Inr (c', fl, 0))"
  shows "has_granted c'"
proof -
  obtain c0 r where "add_servers E S 5 (Sockaddr_other 0) (pcp_servers p) c = Some c0" "request_flow E x p ad c0 = Some r"
    using assms by (auto simp: cli_session_def bind_eq_Some_conv)
  then obtain c1 c2 st where w: "pcp_wait E fl (sint (p_timeout p)) (fast_return p) c1 = Some (c2, st)"
    and s: "wait_status E fl st c2 = Some (c', 0)"
    using assms by (cases r) (auto simp: cli_session_def bind_eq_Some_conv)
  show ?thesis using w pcp_wait_success by (intro wait_status_success [OF s]) auto
qed

lemma session_stops:
  assumes "cli_session E S x p ad c = Some (Inl e)"
  shows "e = Exit 1"
proof -
  obtain c0 r where "add_servers E S 5 (Sockaddr_other 0) (pcp_servers p) c = Some c0" and q: "request_flow E x p ad c0 = Some r"
    using assms by (auto simp: cli_session_def bind_eq_Some_conv)
  then have "r = Inl e" using assms by (cases r) (auto simp: cli_session_def bind_eq_Some_conv)
  then show ?thesis using q by (auto simp: request_flow_def bind_eq_Some_conv split: if_splits)
qed

section \<open>Properties\<close>


lemma command_line:
  assumes "\<forall>u\<in>set us. use_ok get_short_opts_string cli_long_options u" and "us \<noteq> []" and "stops get_short_opts_string rest"
  shows "parse_params S (prog # concat (map (written cli_long_options) us) @ rest) =
    do { r \<leftarrow> run_handlers S (concat (map meaning us)) params_start;
         Some (case r of Inl e \<Rightarrow> Inl e | Inr p \<Rightarrow> one_operation p) }"
proof -
  let ?argv = "prog # concat (map (written cli_long_options) us) @ rest"
  have "concat (map (written cli_long_options) us) \<noteq> []" using assms(2) by (cases us) simp_all
  then have "length ?argv \<noteq> 1" by simp
  moreover have "option_loop ?argv get_short_opts_string cli_long_options (cli_body S) getopt_start params_start =
      run_handlers S (concat (map meaning us)) params_start"
    using loop_uses [of ?argv getopt_start cli_long_options us rest 0 None get_short_opts_string "cli_body S" params_start]
      assms run_uses [OF assms(1), of S 0 None params_start] by (simp add: ready_def getopt_start_def)
  ultimately show ?thesis using assms(2) by (simp add: parse_params_def)
qed


text \<open>Property C31: the meaning of a command line. However the options are written, as letters alone or
  together, with the argument attached, behind an equals sign or in the next argument, the
  parameters are what the handlers of the options make of the defaults, in the order of the command line,
  up to the first argument that is no option.\<close>

theorem command_line_read:
  assumes "\<forall>u\<in>set us. use_ok get_short_opts_string cli_long_options u" and "us \<noteq> []" and "stops get_short_opts_string rest"
  shows "parse_params S (prog # concat (map (written cli_long_options) us) @ rest) =
    do { r \<leftarrow> run_handlers S (concat (map meaning us)) params_start;
         Some (case r of Inl e \<Rightarrow> Inl e | Inr p \<Rightarrow> one_operation p) }"
  using assms by (rule command_line)

definition demo_sys :: cli_sys where
  "demo_sys = \<lparr>sys_mem = (\<lambda>n. True), sysname = ''Linux'', machine = ''x86_64'', sys_resolver = (\<lambda>h p. Some [Sockaddr_in 1 2]),
     sys_alloc = (\<lambda>n k. True)\<rparr>"

definition demo_uses :: "opt_use list" where
  "demo_uses = [Letters ''df'', Letter_next (CHR ''s'') ''10.0.0.1'', Long_equals 6 '':1234'', Letter_joined (CHR ''l'') ''3600'']"

lemma demo_line:
  "concat (map (written cli_long_options) demo_uses) = [''-df'', ''-s'', ''10.0.0.1'', ''--internal=:1234'', ''-l3600'']"
  by (simp add: demo_uses_def cli_long_options_def foreach_option_def)

lemma demo_uses_ok: "\<forall>u\<in>set demo_uses. use_ok get_short_opts_string cli_long_options u"
  using table_names
  by (simp add: demo_uses_def short_opts takes_arg_def long_ok_def cli_long_options_def foreach_option_def)

theorem command_line_read_witness:
  "\<exists>p. parse_params demo_sys [''pcpnatpmpc'', ''-df'', ''-s'', ''10.0.0.1'', ''--internal=:1234'', ''-l3600''] = Some (Inr p) \<and>
     dis_auto_discovery p \<and> fast_return p \<and> int_addr p = Some '':1234'' \<and> opt_lifetime p = 3600 \<and>
     pcp_servers p = [\<lparr>sl_server = Some ''10.0.0.1'', sl_version = 2\<rparr>]"
proof -
  have "stops get_short_opts_string []" by (simp add: stops_def)
  from command_line_read [OF demo_uses_ok _ this, of demo_sys "''pcpnatpmpc''"]
  have "parse_params demo_sys [''pcpnatpmpc'', ''-df'', ''-s'', ''10.0.0.1'', ''--internal=:1234'', ''-l3600''] =
    do { r \<leftarrow> run_handlers demo_sys (concat (map meaning demo_uses)) params_start;
         Some (case r of Inl e \<Rightarrow> Inl e | Inr p \<Rightarrow> one_operation p) }"
    by (simp add: demo_line) (simp add: demo_uses_def)
  then show ?thesis
    by (simp add: demo_uses_def letter_e_def foreach_option_def handler_defs params_start_def demo_sys_def one_operation_def
        atoi_def digit_val_def isspace_def)
qed



end
