(* ===== verification/Pcp_Portability.thy ===== *)
theory Pcp_Portability
  imports Pcp_Getopt
begin

text \<open>
  Replacements for functions a system may lack: the scanner of single letters, \<^verbatim>\<open>getopt\<close> of
  \<^verbatim>\<open>win_utils/getopt.c\<close>; \<^verbatim>\<open>gettimeofday\<close> of \<^verbatim>\<open>windows/pcp_gettimeofday.c\<close>; and \<^verbatim>\<open>pcp_strndup\<close> of \<^verbatim>\<open>pcp_utils.h\<close>.
\<close>

unbundle bit_operations_syntax

section \<open>Letters\<close>

text \<open>The state is that of \<open>Pcp_Getopt\<close>; the file has its own copy of the pointer \<^verbatim>\<open>place\<close>.\<close>

definition progname :: "string \<Rightarrow> string" where
  "progname nargv0 = rev (takeWhile (\<lambda>c. c \<noteq> CHR ''/'') (rev nargv0))"

definition short_letter :: "string list \<Rightarrow> string \<Rightarrow> getopt \<Rightarrow> getopt \<times> int" where
  "short_letter nargv ostr g =
     (let c = hd (place g); rest = tl (place g); g = g\<lparr>optopt := code c, place := rest\<rparr>;
          g1 = (if rest = [] then g\<lparr>optind := optind g + 1\<rparr> else g)
      in if c = CHR '':'' \<or> c \<notin> set ostr
         then if c = CHR ''-'' then (g, - 1) else (g1, BADCH)
         else
           let oli = tl (dropWhile (\<lambda>d. d \<noteq> c) ostr) in
           if oli = [] \<or> hd oli \<noteq> CHR '':'' then (g1\<lparr>optarg := None\<rparr>, code c)
           else if rest \<noteq> [] then (g\<lparr>optarg := Some rest, place := [], optind := optind g + 1\<rparr>, code c)
           else if length nargv \<le> optind g + 1
           then (g\<lparr>optind := optind g + 1, place := []\<rparr>, if ostr \<noteq> [] \<and> hd ostr = CHR '':'' then BADARG else BADCH)
           else (g\<lparr>optarg := Some (nargv ! (optind g + 1)), place := [], optind := optind g + 2\<rparr>, code c))"

definition getopt :: "string list \<Rightarrow> string \<Rightarrow> getopt \<Rightarrow> getopt \<times> int" where
  "getopt nargv ostr g =
     (if optreset g \<or> place g = []
      then
        let g = g\<lparr>optreset := False\<rparr> in
        if optind g \<ge> length nargv then (g\<lparr>place := []\<rparr>, - 1)
        else
          let p = nargv ! optind g in
          if p = [] \<or> hd p \<noteq> CHR ''-'' then (g\<lparr>place := []\<rparr>, - 1)
          else if tl p = [] then short_letter nargv ostr (g\<lparr>place := p\<rparr>)
          else if hd (tl p) = CHR ''-'' \<and> tl (tl p) = [] then (g\<lparr>optind := optind g + 1, place := []\<rparr>, - 1)
          else short_letter nargv ostr (g\<lparr>place := tl p\<rparr>)
      else short_letter nargv ostr g)"

section \<open>Time\<close>

text \<open>The system time is a 64-bit number of tenths of microseconds since 1601, in two halves. \<^verbatim>\<open>long\<close> has 32 bits.
  The functions for the time zone return an error or the seconds and the daylight flag.\<close>

abbreviation DELTA_EPOCH_IN_MICROSECS :: u64 where
  "DELTA_EPOCH_IN_MICROSECS \<equiv> 11644473600000000"

definition win_time :: "u32 \<Rightarrow> u32 \<Rightarrow> timeval" where
  "win_time dwHighDateTime dwLowDateTime =
     (let tmpres = 0 OR ucast dwHighDateTime; tmpres = push_bit 32 tmpres; tmpres = tmpres OR ucast dwLowDateTime;
          tmpres = tmpres div 10; tmpres = tmpres - DELTA_EPOCH_IN_MICROSECS
      in Timeval (sint (ucast (tmpres div 1000000) :: u32)) (sint (ucast (tmpres mod 1000000) :: u32)))"

definition win_gettimeofday ::
  "(u32 \<times> u32) option \<Rightarrow> (int option \<times> int option) option \<Rightarrow> int \<times> timeval option \<times> (int \<times> int) option" where
  "win_gettimeofday ft tz =
     (let tv = map_option (\<lambda>(h, l). win_time h l) ft in
      case tz of
        None \<Rightarrow> (0, tv, None)
      | Some (None, _) \<Rightarrow> (- 1, tv, None)
      | Some (Some _, None) \<Rightarrow> (- 1, tv, None)
      | Some (Some tz_seconds, Some tz_daylight) \<Rightarrow> (0, tv, Some (tz_seconds sdiv 60, tz_daylight)))"

section \<open>Copies\<close>

text \<open>\<open>mem\<close> is what may be read from the pointer on, \<open>malloc_ok\<close> whether memory is given. \<open>None\<close> is a read outside of it,
  \<open>Some None\<close> the NULL result.\<close>

definition pcp_strndup :: "bool \<Rightarrow> bytes \<Rightarrow> nat \<Rightarrow> bytes option option" where
  "pcp_strndup malloc_ok mem n =
     (let nul = (0 \<in> set (take n mem)) in
      if \<not> nul \<and> length mem < n then None
      else
        let n = (if nul then length (takeWhile (\<lambda>b. b \<noteq> 0) (take n mem)) + 1 else n + 1) in
        if \<not> malloc_ok then Some None
        else if length mem < n then None
        else Some (Some ((take n mem)[n - 1 := 0])))"

section \<open>Properties\<close>

lemma short_letter_same:
  "short_letter nargv ostr g = (case getopt_letter nargv ostr g of (g', r) \<Rightarrow>
     (g', if r = BADARG \<and> (ostr = [] \<or> hd ostr \<noteq> CHR '':'') then BADCH else r))"
  by (auto simp: short_letter_def getopt_letter_def Let_def badarg_codes code_not_negative [symmetric] simp del: of_char_Char split: if_splits)

lemma letter_not_long: "snd (getopt_letter nargv ostr g) \<noteq> - 2"
  by (auto simp: getopt_letter_def Let_def simp del: of_char_Char)

lemma dash_letter:
  assumes "CHR ''-'' \<notin> set ostr" and "place g = CHR ''-'' # p"
  shows "short_letter nargv ostr g = (g\<lparr>optopt := code (CHR ''-''), place := p\<rparr>, - 1)"
  using assms by (simp add: short_letter_def Let_def)

text \<open>The scanner of single letters agrees with the one of \<^verbatim>\<open>getopt_long\<close>. On an argument that does not
  begin with two dashes both leave the same state and return the same, except that a missing argument is
  reported as an unknown letter unless the string of letters begins with a colon. Two dashes alone end the
  options and are skipped. Any other argument with two dashes ends the options too when the dash is no
  option letter; the state then still points into the middle of that argument.\<close>

theorem getopt_agrees:
  "(case getopt_internal nargv ostr g of (g1, r1) \<Rightarrow> case getopt nargv ostr g of (g2, r2) \<Rightarrow>
     if r1 \<noteq> - 2
     then g2 = g1 \<and> r2 = (if r1 = BADARG \<and> (ostr = [] \<or> hd ostr \<noteq> CHR '':'') then BADCH else r1)
     else if nargv ! optind g1 = ''--'' then r2 = - 1 \<and> g2 = g1\<lparr>optind := optind g1 + 1\<rparr>
     else CHR ''-'' \<notin> set ostr \<longrightarrow> r2 = - 1 \<and> optind g2 = optind g1 \<and> place g2 = drop 2 (nargv ! optind g1))"
proof -
  let ?g = "g\<lparr>optreset := False\<rparr>" and ?p = "nargv ! optind g"
  consider (ends) "optreset g \<or> place g = []" "optind g \<ge> length nargv \<or> ?p = [] \<or> hd ?p \<noteq> CHR ''-''"
    | (dashes) p where "optreset g \<or> place g = []" "optind g < length nargv" "?p = CHR ''-'' # CHR ''-'' # p"
    | (letter) d where "getopt_internal nargv ostr g = getopt_letter nargv ostr d" "getopt nargv ostr g = short_letter nargv ostr d"
  proof (cases "optreset g \<or> place g = []")
    case False
    then show ?thesis by (intro letter [of g]) (auto simp: getopt_internal_def getopt_def)
  next
    case True
    show ?thesis
    proof (cases "optind g \<ge> length nargv \<or> ?p = [] \<or> hd ?p \<noteq> CHR ''-''")
      case False
      then obtain q where q: "?p = CHR ''-'' # q" by (cases ?p) auto
      show ?thesis
      proof (cases "q = [] \<or> hd q \<noteq> CHR ''-''")
        case True
        then show ?thesis using False q \<open>optreset g \<or> place g = []\<close>
          by (intro letter [of "?g\<lparr>place := (if q = [] then ?p else q)\<rparr>"]) (auto simp: getopt_internal_def getopt_def Let_def)
      next
        case False
        then show ?thesis using True q \<open>\<not> (optind g \<ge> length nargv \<or> ?p = [] \<or> hd ?p \<noteq> CHR ''-'')\<close>
          by (intro dashes [of "tl q"]) (cases q; simp)+
      qed
    qed (use True ends in auto)
  qed
  then show ?thesis
  proof cases
    case ends
    then have "getopt_internal nargv ostr g = (?g\<lparr>place := []\<rparr>, - 1)" "getopt nargv ostr g = (?g\<lparr>place := []\<rparr>, - 1)"
      by (auto simp: getopt_internal_def getopt_def Let_def)
    then show ?thesis by simp
  next
    case dashes
    then have i: "getopt_internal nargv ostr g = (?g\<lparr>place := []\<rparr>, - 2)" by (simp add: getopt_internal_def)
    show ?thesis
    proof (cases p)
      case Nil
      then show ?thesis using i dashes by (simp add: getopt_def)
    next
      case (Cons x p')
      then have "getopt nargv ostr g = short_letter nargv ostr (?g\<lparr>place := CHR ''-'' # p\<rparr>)" using dashes by (simp add: getopt_def)
      then show ?thesis using i dashes Cons dash_letter [of ostr "?g\<lparr>place := CHR ''-'' # p\<rparr>" p nargv] by auto
    qed
  next
    case letter
    obtain g' r where "getopt_letter nargv ostr d = (g', r)" by (cases "getopt_letter nargv ostr d")
    then show ?thesis using letter letter_not_long [of nargv ostr d] by (simp add: short_letter_same)
  qed
qed

theorem getopt_agrees_witness: "getopt [''prog'', ''--''] ''x:'' getopt_start = (getopt_start\<lparr>optind := 2\<rparr>, - 1)"
  using getopt_agrees [where nargv = "[''prog'', ''--'']" and ostr = "''x:''" and g = getopt_start]
  by (simp add: getopt_internal_def getopt_start_def split: prod.splits)

lemma filetime:
  fixes h l :: u32
  shows "uint (push_bit 32 (0 OR ucast h) OR ucast l :: u64) = uint h * 2 ^ 32 + uint l"
proof -
  have b: "uint h < 2 ^ 32" "uint l < 2 ^ 32" using unsigned_less [of h] unsigned_less [of l] by simp_all
  have "push_bit 32 (ucast h) OR ucast l = push_bit 32 (ucast h :: u64) + ucast l"
    by (rule disjunctive_add [symmetric]) (auto simp: bit_simps dest: bit_imp_le_length)
  moreover have u: "uint (ucast x :: u64) = uint x" for x :: u32 by (simp add: uint_up_ucast is_up)
  moreover have "uint (push_bit 32 (ucast h :: u64)) = uint h * 2 ^ 32"
    using b(1) by (simp add: push_bit_eq_mult uint_word_ariths u)
  ultimately show ?thesis using b by (simp add: uint_word_ariths)
qed

text \<open>Property C39: the clock on Windows. From 1970 on, the microseconds returned are exact and below a million, and the
  seconds are exact as long as they fit the 32 bits of a \<^verbatim>\<open>long\<close>, that is up to January 2038; the next second
  is 1901.\<close>

theorem win_time_exact:
  assumes ft: "ft = uint h * 2 ^ 32 + uint l" and us: "us = ft div 10 - 11644473600000000" and "0 \<le> us"
  shows "win_time h l = Timeval ((us div 1000000 + 2 ^ 31) mod 2 ^ 32 - 2 ^ 31) (us mod 1000000) \<and>
    tv_normal (win_time h l) \<and> (us div 1000000 < 2 ^ 31 \<longrightarrow> tv_us (win_time h l) = us) \<and>
    (us div 1000000 = 2 ^ 31 \<longrightarrow> tv_sec (win_time h l) = - (2 ^ 31))"
proof -
  let ?t = "push_bit 32 (0 OR ucast h) OR ucast l :: u64"
  have t: "uint ?t = ft" using filetime [of h l] ft by simp
  have "uint (?t div 10) = ft div 10" using t by (simp add: uint_div)
  moreover have "ft div 10 < 2 ^ 64" using t unsigned_less [of ?t, where ?'a = int] by simp
  ultimately have m: "uint (?t div 10 - DELTA_EPOCH_IN_MICROSECS) = us"
    using us assms(3) by (simp add: uint_word_ariths)
  have s32: "sint (ucast w :: u32) = (uint w + 2 ^ 31) mod 2 ^ 32 - 2 ^ 31" for w :: u64
    by (simp add: sint_uint unsigned_ucast_eq signed_take_bit_eq_take_bit_shift take_bit_eq_mod mod_simps)
  have "win_time h l = Timeval ((us div 1000000 + 2 ^ 31) mod 2 ^ 32 - 2 ^ 31) ((us mod 1000000 + 2 ^ 31) mod 2 ^ 32 - 2 ^ 31)"
    by (simp only: win_time_def Let_def s32 uint_div uint_mod m) simp
  moreover have "(us mod 1000000 + 2 ^ 31) mod 2 ^ 32 = us mod 1000000 + 2 ^ 31"
    by (rule mod_pos_pos_trivial) (use pos_mod_bound [of 1000000 us] pos_mod_sign [of 1000000 us] in simp_all)
  ultimately have w: "win_time h l = Timeval ((us div 1000000 + 2 ^ 31) mod 2 ^ 32 - 2 ^ 31) (us mod 1000000)" by simp
  moreover have "tv_us (win_time h l) = us" if "us div 1000000 < 2 ^ 31"
  proof -
    have "(us div 1000000 + 2 ^ 31) mod 2 ^ 32 = us div 1000000 + 2 ^ 31"
      using that assms(3) by (intro mod_pos_pos_trivial) (simp_all add: pos_imp_zdiv_nonneg_iff)
    then show ?thesis using w by (simp add: tv_us_def mult.commute)
  qed
  ultimately show ?thesis by (simp add: tv_normal_def)
qed

theorem win_time_exact_witness: "win_time 0x019DB1DE 0xD53E8000 = Timeval 0 0"
  using win_time_exact [where h = "0x019DB1DE" and l = "0xD53E8000"] by simp

lemma strndup_nul:
  assumes "0 \<in> set (take n mem)"
  shows "pcp_strndup m mem n = Some (if m then Some (takeWhile (\<lambda>b. b \<noteq> 0) (take n mem) @ [0]) else None)"
proof -
  let ?s = "takeWhile (\<lambda>b. b \<noteq> 0) (take n mem)"
  obtain r where "take n mem = ?s @ 0 # r"
    using assms takeWhile_dropWhile_id [of "\<lambda>b. b \<noteq> 0" "take n mem"] hd_dropWhile [of "\<lambda>b. b \<noteq> 0" "take n mem"]
    by (cases "dropWhile (\<lambda>b. b \<noteq> 0) (take n mem)") (auto, metis)
  then have "mem = ?s @ 0 # (r @ drop n mem)" using append_take_drop_id [of n mem] by (metis append.assoc append_Cons)
  then obtain q where q: "mem = ?s @ 0 # q" by blast
  define k where "k = length ?s"
  have "take (k + 1) mem = ?s @ [0]" "k < length mem" by (subst q, simp add: k_def)+
  then show ?thesis using assms by (simp add: pcp_strndup_def Let_def k_def [symmetric] list_update_append)
qed

lemma strndup_full:
  assumes "0 \<notin> set (take n mem)"
  shows "pcp_strndup m mem n = (if length mem < n then None else if \<not> m then Some None
    else if length mem = n then None else Some (Some (take n mem @ [0])))"
  using assms by (auto simp: pcp_strndup_def Let_def take_Suc_conv_app_nth list_update_append)

text \<open>The copy of a string. When the first \<open>n\<close> bytes hold a NUL, or at least one more byte may be read
  after them, the copy is the text before the NUL, cut off at \<open>n\<close> bytes, with its NUL. Otherwise the copy
  reads outside the source: it takes one byte more than the \<open>n\<close> it is allowed to look at, where a
  buffer of exactly \<open>n\<close> bytes without a NUL is what the function is for.\<close>

theorem strndup_outcome:
  "(pcp_strndup m mem n = None \<longleftrightarrow> 0 \<notin> set (take n mem) \<and> (length mem < n \<or> m \<and> length mem = n)) \<and>
   (pcp_strndup m mem n \<noteq> None \<longrightarrow>
      pcp_strndup m mem n = Some (if m then Some (takeWhile (\<lambda>b. b \<noteq> 0) (take n mem) @ [0]) else None))"
proof (cases "0 \<in> set (take n mem)")
  case True
  then show ?thesis by (simp add: strndup_nul)
next
  case False
  then have t: "takeWhile (\<lambda>b. b \<noteq> 0) (take n mem) = take n mem" by (subst takeWhile_eq_all_conv) auto
  show ?thesis unfolding t strndup_full [OF False] using False by simp
qed

theorem strndup_outcome_witness: "pcp_strndup True [104, 105, 106] 2 = Some (Some [104, 105, 0])"
  using strndup_outcome [of True "[104, 105, 106]" 2] by (simp add: pcp_strndup_def)

end
