(* ===== verification/Pcp_Test_Server.thy ===== *)
theory Pcp_Test_Server
  imports Pcp_Msg
begin

text \<open>
  The server the library is tested against, \<^verbatim>\<open>test-server/pcp-server.c\<close>: it checks a request while
  printing it, turns the buffer into a response in place and sends it back. What is printed and logged is
  left out; what printing reads is not: \<open>None\<close> stands for reading or writing outside the buffer
  \<^verbatim>\<open>buf\<close> of the pulse, or outside the array the metadata option is copied to. Reading a string in the buffer stays
  inside it, because the buffer is zeroed and its last byte never received. The socket and the clock are arguments of the pulse.
\<close>

section \<open>State\<close>

record options_occur =
  third_party_occur :: bool
  pfailure_occur :: bool

record server_info =
  server_version :: u8
  end_after_recv :: u8
  default_result_code :: u8
  ext_ip :: in6_addr
  app_bit :: u8
  ret_dscp :: u8
  info_tv :: timeval
  epoch_time_start :: int

record pcp_test_server =
  ts_info :: server_info
  ts_timeout_time :: timeval
  ts_remaining_messages :: int
  ts_running :: bool

definition reset_option_occur :: options_occur where
  "reset_option_occur = \<lparr>third_party_occur = False, pfailure_occur = False\<rparr>"

section \<open>Checking a request\<close>

text \<open>One option: the result code, what remains and what is processed.\<close>

definition print_PCP_options ::
  "bytes \<Rightarrow> int \<Rightarrow> nat \<Rightarrow> options_occur \<Rightarrow> (u32 \<times> int \<times> nat \<times> options_occur) option" where
  "print_PCP_options buf remain processed opt_occ =
     (let opcode = get_u8 1 buf AND 0x7F; code = get_u8 processed buf;
          room = (\<lambda>n. processed + n \<le> length buf);
          next = (\<lambda>res occ n. Some (res, remain - int n, processed + n, occ))
      in if \<not> room 1 then None
         else if code = PCP_OPTION_3RD_PARTY then
           if \<not> room 20 then None
           else next (if third_party_occur opt_occ then PCP_RES_MALFORMED_OPTION else PCP_RES_SUCCESS)
                  (opt_occ\<lparr>third_party_occur := True\<rparr>) 20
         else if code = PCP_OPTION_PREF_FAIL then
           next (if pfailure_occur opt_occ then PCP_RES_MALFORMED_OPTION
                 else if opcode \<noteq> PCP_OPCODE_MAP then PCP_RES_MALFORMED_REQUEST else PCP_RES_SUCCESS)
             (opt_occ\<lparr>pfailure_occur := True\<rparr>) 4
         else if code = PCP_OPTION_FILTER then
           if \<not> room 24 then None
           else next (if opcode \<noteq> PCP_OPCODE_MAP then PCP_RES_MALFORMED_REQUEST else PCP_RES_SUCCESS) opt_occ 24
         else if code = PCP_OPTION_FLOW_PRIORITY then
           if \<not> room 6 then None else next PCP_RES_SUCCESS opt_occ 8
         else if code = PCP_OPTION_METADATA then
           if \<not> room 8 then None
           else let len = unat (get_u16 (processed + 2) buf)
                in if \<not> room (8 + len) \<or> len > PCP_MAX_LEN then None else next PCP_RES_SUCCESS opt_occ (4 + len)
         else if code = PCP_OPTION_LOCATION then
           if \<not> room 5 then None else next PCP_RES_SUCCESS opt_occ (4 + MAX_GEO_STR)
         else if code = PCP_OPTION_USERID then
           if \<not> room 5 then None else next PCP_RES_SUCCESS opt_occ (4 + MAX_USER_ID)
         else if code = PCP_OPTION_DEVICEID then
           if \<not> room 5 then None else next PCP_RES_SUCCESS opt_occ (4 + MAX_DEVICE_ID)
         else Some (PCP_RES_SUCCESS, 0, processed, opt_occ))"

lemma print_PCP_options_decreases:
  "print_PCP_options buf remain processed occ = Some (res, remain', processed', occ') \<Longrightarrow> 0 < remain \<Longrightarrow> remain' < remain"
  by (auto simp: print_PCP_options_def Let_def split: if_splits) (rule less_le_trans [of _ 0], simp_all)

text \<open>The loop over the options keeps the result code of the last one.\<close>

function options_loop :: "bytes \<Rightarrow> options_occur \<Rightarrow> int \<Rightarrow> nat \<Rightarrow> u32 \<Rightarrow> u32 option" where
  "options_loop buf occ remain processed res =
     (if remain > 0
      then case print_PCP_options buf remain processed occ of
          None \<Rightarrow> None
        | Some (res, remain, processed, occ) \<Rightarrow> options_loop buf occ remain processed res
      else Some res)"
  by pat_completeness auto
termination
  by (relation "measure (\<lambda>(buf, occ, remain, processed, res). nat remain)")
    (auto dest: print_PCP_options_decreases)

declare options_loop.simps [simp del]

definition printPCPreq :: "bytes \<Rightarrow> int \<Rightarrow> u8 \<Rightarrow> u32 option" where
  "printPCPreq buf req_size version =
     (let ver = get_u8 0 buf; opcode = get_u8 1 buf AND 0x7F; rest = req_size - 24;
          opts = (\<lambda>remain processed. options_loop buf reset_option_occur remain processed PCP_RES_SUCCESS)
      in if req_size > int PCP_MAX_LEN \<or> req_size < 4 \<or> req_size mod 4 \<noteq> 0 then Some PCP_RES_MALFORMED_REQUEST
         else if ver > version then Some PCP_RES_UNSUPP_VERSION
         else if ver = 1 then
           if opcode = PCP_OPCODE_MAP then (if rest - 24 < 0 then Some PCP_RES_MALFORMED_OPTION else opts (rest - 24) 48)
           else if opcode = PCP_OPCODE_PEER then (if rest - 24 < 0 then Some PCP_RES_MALFORMED_OPTION else opts (rest - 24) 68)
           else Some PCP_RES_SUCCESS
         else if ver = 2 then
           if opcode = PCP_OPCODE_MAP then (if rest - 36 < 0 then Some PCP_RES_MALFORMED_OPTION else opts (rest - 36) 60)
           else if opcode = PCP_OPCODE_PEER then (if rest - 56 < 0 then Some PCP_RES_MALFORMED_OPTION else opts (rest - 56) 80)
           else if opcode = PCP_OPCODE_SADSCP then
             (if rest < 14 then Some PCP_RES_MALFORMED_REQUEST
              else let sadscp_size = 14 + unat (get_u8 37 buf) in opts (rest - int sadscp_size) (24 + sadscp_size))
           else Some PCP_RES_SUCCESS
         else Some PCP_RES_UNSUPP_VERSION)"

section \<open>Responding\<close>

definition create_response :: "int \<Rightarrow> bytes \<Rightarrow> u32 \<Rightarrow> server_info \<Rightarrow> bytes" where
  "create_response now buf pcp_result_code info =
     (let buf = put_u8 2 0 buf;
          buf = put_bytes 12 (replicate 12 0) buf;
          buf = put_u8 1 (get_u8 1 buf OR 0x80) buf;
          buf = put_u8 3 (ucast pcp_result_code) buf;
          buf = put_u32 8 (word_of_int (now - epoch_time_start info)) buf
      in if pcp_result_code = PCP_RES_UNSUPP_VERSION then put_u8 0 (server_version info) buf
         else
           let buf = (if get_u8 1 buf AND 0x7F = PCP_OPCODE_MAP
                      then if get_u8 0 buf = 1 then put_bytes 32 (in6_bytes (ext_ip info)) buf
                           else if get_u8 0 buf = 2 then put_bytes 44 (in6_bytes (ext_ip info)) buf
                           else buf
                      else buf)
           in if get_u8 1 buf AND 0x7F = PCP_OPCODE_SADSCP
              then put_u8 36 (push_bit 7 (app_bit info) OR ret_dscp info) buf else buf)"

text \<open>The part of the pulse that handles a datagram: what is sent back.\<close>

definition serve :: "int \<Rightarrow> server_info \<Rightarrow> bytes \<Rightarrow> nat \<Rightarrow> bytes option" where
  "serve now info buf numbytes =
     do { pcp_result_code \<leftarrow> printPCPreq buf (int numbytes) (server_version info);
          Some (take numbytes (create_response now buf
            (if default_result_code info = 255 then pcp_result_code else ucast (default_result_code info)) info)) }"

section \<open>The server\<close>

definition pcp_test_server_start :: "timeval \<Rightarrow> server_info \<Rightarrow> pcp_test_server" where
  "pcp_test_server_start tod info =
     (let usec = tv_usec tod + tv_usec (info_tv info);
          sec = tv_sec tod + tv_sec (info_tv info) + usec sdiv 1000000
      in \<lparr>ts_info = info, ts_timeout_time = Timeval sec (usec smod 1000000),
          ts_remaining_messages = (if end_after_recv info \<noteq> 0 then uint (end_after_recv info) else - 1), ts_running = True\<rparr>)"

definition pcp_test_server_stop :: "pcp_test_server \<Rightarrow> pcp_test_server" where
  "pcp_test_server_stop server = server\<lparr>ts_running := False\<rparr>"

text \<open>What happens during a pulse: the time at its start, what \<^verbatim>\<open>select\<close> returns and the time then, and the datagram.\<close>

record pulse_input =
  pi_tod :: timeval
  pi_select :: int
  pi_tod_after :: timeval
  pi_recv :: "bytes option"
  pi_time :: int

definition pcp_test_server_pulse ::
  "pulse_input \<Rightarrow> pcp_test_server \<Rightarrow> (pcp_test_server \<times> int \<times> bytes option) option" where
  "pcp_test_server_pulse i server =
     (let info = ts_info server; timed = \<not> tv_is_zero (info_tv info) in
      if \<not> ts_running server then Some (server, 0, None)
      else
        let (_, t, over) = timeval_subtract (ts_timeout_time server) (pi_tod i);
            server = (if timed then server\<lparr>ts_timeout_time := t\<rparr> else server)
        in if timed \<and> over then Some (pcp_test_server_stop server, 0, None)
           else if pi_select i \<le> 0 then
             let (_, t, r) = timeval_comp (pi_tod_after i) (ts_timeout_time server);
                 check = (pi_select i = 0 \<and> timed);
                 server = (if check then server\<lparr>ts_timeout_time := t\<rparr> else server);
                 server = (if check \<and> r \<ge> 0 then pcp_test_server_stop server else server)
             in Some (server, if pi_select i < 0 then - 1 else 0, None)
           else case pi_recv i of
               None \<Rightarrow> Some (server, - 1, None)
             | Some datagram \<Rightarrow>
                 let d = take (PCP_MAX_LEN - 1) datagram in
                 do { reply \<leftarrow> serve (pi_time i) info (d @ replicate (PCP_MAX_LEN - length d) 0) (length d);
                      let server = (if ts_remaining_messages server > 0
                                    then let n = ts_remaining_messages server - 1;
                                             server = server\<lparr>ts_remaining_messages := n\<rparr>
                                         in if n = 0 then pcp_test_server_stop server else server
                                    else server);
                      Some (server, 1, Some reply) })"

text \<open>\<^verbatim>\<open>execPCPServer\<close>: pulses until the server stops, on the inputs of the pulses.\<close>

fun execPCPServer :: "pulse_input list \<Rightarrow> pcp_test_server \<Rightarrow> (pcp_test_server \<times> int \<times> bytes list) option" where
  "execPCPServer [] server = Some (server, 0, [])"
| "execPCPServer (i # is) server =
     (if \<not> ts_running server then Some (server, 0, [])
      else do { (server, r, reply) \<leftarrow> pcp_test_server_pulse i server;
                if r < 0 then Some (pcp_test_server_stop server, 1, [])
                else do { (server, r, replies) \<leftarrow> execPCPServer is server;
                          Some (server, r, (case reply of None \<Rightarrow> [] | Some b \<Rightarrow> [b]) @ replies) } })"

section \<open>Properties\<close>

lemma options_loop_done: "remain \<le> 0 \<Longrightarrow> options_loop buf occ remain processed res = Some res"
  by (subst options_loop.simps) simp

definition metadata_request :: "u16 \<Rightarrow> bytes" where
  "metadata_request len = [2, PCP_OPCODE_MAP] @ replicate 58 0 @ [PCP_OPTION_METADATA, 0] @ be16 len @ replicate 1036 0"

text \<open>The metadata option of the test server. The length of the option is not checked against the
  request: a MAP request of 68 bytes whose only option claims more metadata than the buffer
  holds makes the server copy beyond it.\<close>

theorem metadata_overflow:
  assumes "1032 < len"
  shows "printPCPreq (metadata_request len) 68 2 = None"
proof -
  let ?b = "metadata_request len"
  have at: "get_u8 0 ?b = 2" "get_u8 1 ?b = 1" "get_u8 60 ?b = 100" "length ?b = PCP_MAX_LEN"
    by (simp_all add: metadata_request_def get_u8_def nth_append)
  have "?b ! 62 = ucast (drop_bit 8 len)" "?b ! 63 = ucast len"
    by (simp_all add: metadata_request_def nth_append be16_def)
  then have len: "get_u16 62 ?b = len" using of_be16_be16 by (simp add: get_u16_def)
  have l: "1032 < unat len" using assms by (simp add: word_less_nat_alt)
  have "print_PCP_options ?b 8 60 reset_option_occur = None" using at len l by (simp add: print_PCP_options_def Let_def)
  then show ?thesis using at by (simp add: printPCPreq_def Let_def options_loop.simps)
qed

theorem metadata_overflow_witness: "printPCPreq (metadata_request 2000) 68 2 = None"
  using metadata_overflow [of 2000] by simp

definition delivers :: "server_info \<Rightarrow> pulse_input \<Rightarrow> bool" where
  "delivers info i \<longleftrightarrow> 0 < pi_select i \<and> (\<exists>d. pi_recv i = Some d \<and>
     serve (pi_time i) info (take (PCP_MAX_LEN - 1) d @ replicate (PCP_MAX_LEN - length (take (PCP_MAX_LEN - 1) d)) 0)
       (length (take (PCP_MAX_LEN - 1) d)) \<noteq> None)"

lemma pulse_delivers:
  assumes "delivers (ts_info s) i" and "tv_is_zero (info_tv (ts_info s))" and "ts_running s" and "0 < ts_remaining_messages s"
  shows "\<exists>b. pcp_test_server_pulse i s = Some (s\<lparr>ts_remaining_messages := ts_remaining_messages s - 1,
     ts_running := ts_remaining_messages s \<noteq> 1\<rparr>, 1, Some b)"
  using assms by (auto simp: delivers_def pcp_test_server_pulse_def pcp_test_server_stop_def Let_def split: prod.split)

lemma exec_ends:
  assumes "ts_remaining_messages s = int (Suc n)" and "ts_running s" and "tv_is_zero (info_tv (ts_info s))"
    and "\<forall>i\<in>set is. delivers (ts_info s) i" and "n < length is"
  shows "\<exists>s' bs. execPCPServer is s = Some (s', 0, bs) \<and> \<not> ts_running s' \<and> length bs = Suc n"
  using assms
proof (induction n arbitrary: s "is")
  case 0
  then obtain i js where "is": "is = i # js" by (cases "is") auto
  obtain b where b: "pcp_test_server_pulse i s = Some (s\<lparr>ts_remaining_messages := 0, ts_running := False\<rparr>, 1, Some b)"
    using pulse_delivers [of s i] 0 "is" by auto
  then show ?case using 0 "is" by (cases js) auto
next
  case (Suc n)
  then obtain i js where "is": "is = i # js" by (cases "is") auto
  let ?s = "s\<lparr>ts_remaining_messages := int (Suc n), ts_running := True\<rparr>"
  obtain b where b: "pcp_test_server_pulse i s = Some (?s, 1, Some b)"
    using pulse_delivers [of s i] Suc.prems "is" by auto
  obtain s' bs where "execPCPServer js ?s = Some (s', 0, bs)" "\<not> ts_running s'" "length bs = Suc n"
    using Suc.IH [of ?s js] Suc.prems "is" by auto
  then show ?case using b "is" Suc.prems(2) by auto
qed

text \<open>Property C36: a server that is to end after a number of messages does. Without a time limit, and as long as
  requests come in that it can check, it answers exactly that many and then stops.\<close>

theorem test_server_ends:
  assumes "end_after_recv info = of_nat n" and "0 < n" and "n < 256" and "tv_is_zero (info_tv info)"
    and "\<forall>i\<in>set is. delivers info i" and "n \<le> length is"
  shows "\<exists>s replies. execPCPServer is (pcp_test_server_start tod info) = Some (s, 0, replies) \<and> \<not> ts_running s \<and> length replies = n"
proof -
  have u: "uint (of_nat n :: u8) = int n" using assms(3) by (simp add: unsigned_of_nat take_bit_nat_eq_self)
  moreover have "(of_nat n :: u8) \<noteq> 0" using u assms(2) by (metis of_nat_0_eq_iff unsigned_0 less_irrefl)
  ultimately show ?thesis
    using exec_ends [of "pcp_test_server_start tod info" "n - 1" "is"] assms by (simp add: pcp_test_server_start_def Let_def)
qed

definition demo_info :: server_info where
  "demo_info = \<lparr>server_version = 2, end_after_recv = 1, default_result_code = 255, ext_ip = v4mapped 0x01020304, app_bit = 0,
     ret_dscp = 0, info_tv = Timeval 0 0, epoch_time_start = 0\<rparr>"

definition demo_pulse :: pulse_input where
  "demo_pulse = \<lparr>pi_tod = Timeval 1000 0, pi_select = 1, pi_tod_after = Timeval 1000 0, pi_recv = Some [], pi_time = 1000\<rparr>"

theorem test_server_ends_witness:
  "\<exists>s replies. execPCPServer [demo_pulse] (pcp_test_server_start (Timeval 1000 0) demo_info) = Some (s, 0, replies) \<and>
    \<not> ts_running s \<and> length replies = 1"
proof -
  have "delivers demo_info demo_pulse" by (simp add: delivers_def demo_pulse_def demo_info_def serve_def printPCPreq_def Let_def)
  then show ?thesis
    using test_server_ends [of demo_info 1 "[demo_pulse]" "Timeval 1000 0"] by (simp add: demo_info_def tv_is_zero_def)
qed

section \<open>Options that are accepted\<close>

text \<open>The options the server knows, with the sizes it expects; two of them belong to MAP requests only.\<close>

definition option_fits :: "u8 \<Rightarrow> u8 \<Rightarrow> bytes \<Rightarrow> bool" where
  "option_fits oper code payload \<longleftrightarrow> length payload mod 4 = 0 \<and>
     (if code = PCP_OPTION_3RD_PARTY then length payload = 16
      else if code = PCP_OPTION_PREF_FAIL then payload = [] \<and> oper = PCP_OPCODE_MAP
      else if code = PCP_OPTION_FILTER then length payload = 20 \<and> oper = PCP_OPCODE_MAP
      else if code = PCP_OPTION_FLOW_PRIORITY then length payload = 4
      else if code = PCP_OPTION_METADATA then 4 \<le> length payload \<and> length payload \<le> PCP_MAX_LEN
      else if code = PCP_OPTION_LOCATION then length payload = MAX_GEO_STR
      else if code = PCP_OPTION_USERID then length payload = MAX_USER_ID
      else code = PCP_OPTION_DEVICEID \<and> length payload = MAX_DEVICE_ID)"

lemma option_accepted:
  assumes "option_fits (get_u8 1 buf AND 0x7F) code payload" and buf: "buf = pre @ tlv code payload @ rest"
    and "code = PCP_OPTION_METADATA \<Longrightarrow> 4 \<le> length rest"
    and "code = PCP_OPTION_3RD_PARTY \<Longrightarrow> \<not> third_party_occur occ" and "code = PCP_OPTION_PREF_FAIL \<Longrightarrow> \<not> pfailure_occur occ"
  shows "print_PCP_options buf remain (length pre) occ =
    Some (0, remain - int (4 + length payload), length pre + (4 + length payload),
      occ\<lparr>third_party_occur := third_party_occur occ \<or> code = PCP_OPTION_3RD_PARTY,
          pfailure_occur := pfailure_occur occ \<or> code = PCP_OPTION_PREF_FAIL\<rparr>)"
proof -
  have c: "get_u8 (length pre) buf = code" by (simp add: buf tlv_def get_u8_def nth_append)
  have l: "get_u16 (Suc (Suc (length pre))) buf = of_nat (length payload)" by (simp add: buf tlv_def get_cells)
  have "length payload < 2 ^ 16" using assms(1) by (auto simp: option_fits_def split: if_splits)
  then have u: "unat (of_nat (length payload) :: u16) = length payload" by (simp add: unsigned_of_nat take_bit_nat_eq_self)
  have b: "length buf = length pre + (4 + length payload) + length rest" by (simp add: buf)
  have "code \<in> {PCP_OPTION_3RD_PARTY, PCP_OPTION_PREF_FAIL, PCP_OPTION_FILTER, PCP_OPTION_FLOW_PRIORITY, PCP_OPTION_METADATA,
      PCP_OPTION_LOCATION, PCP_OPTION_USERID, PCP_OPTION_DEVICEID}"
    using assms(1) by (auto simp: option_fits_def split: if_splits)
  then show ?thesis using assms(1,3-5) by (elim insertE) (simp_all add: print_PCP_options_def option_fits_def Let_def c l u b)
qed

lemma options_accepted:
  assumes "buf = pre @ tlvs os @ rest" and "\<forall>(code, payload)\<in>set os. option_fits (get_u8 1 buf AND 0x7F) code payload"
    and "PCP_OPTION_METADATA \<in> fst ` set os \<Longrightarrow> 4 \<le> length rest"
    and "distinct (filter (\<lambda>c. c \<in> {PCP_OPTION_3RD_PARTY, PCP_OPTION_PREF_FAIL}) (map fst os))"
    and "third_party_occur occ \<Longrightarrow> PCP_OPTION_3RD_PARTY \<notin> fst ` set os" and "pfailure_occur occ \<Longrightarrow> PCP_OPTION_PREF_FAIL \<notin> fst ` set os"
  shows "options_loop buf occ (int (length (tlvs os))) (length pre) 0 = Some 0"
  using assms
proof (induction os arbitrary: pre occ)
  case Nil
  then show ?case by (simp add: options_loop_done)
next
  case (Cons opt os)
  obtain code payload where opt: "opt = (code, payload)" by (cases opt)
  let ?occ = "occ\<lparr>third_party_occur := third_party_occur occ \<or> code = PCP_OPTION_3RD_PARTY,
    pfailure_occur := pfailure_occur occ \<or> code = PCP_OPTION_PREF_FAIL\<rparr>" and ?n = "length (tlvs (opt # os))"
  have "print_PCP_options buf (int ?n) (length pre) occ =
      Some (0, int ?n - int (4 + length payload), length pre + (4 + length payload), ?occ)"
    by (rule option_accepted [where rest = "tlvs os @ rest"]) (use Cons.prems opt in auto)
  moreover have "options_loop buf ?occ (int (length (tlvs os))) (length (pre @ tlv code payload)) 0 = Some 0"
    by (rule Cons.IH) (use Cons.prems opt in \<open>auto simp: image_iff split: if_splits\<close>)
  ultimately show ?case using opt by (subst options_loop.simps) simp
qed


text \<open>The options of a request of the library are such options, each but the metadata at most once.\<close>

lemma md_fit_fits: "\<forall>(code, payload)\<in>set (md_fit pos mds). option_fits oper code payload"
proof (induction mds arbitrary: pos)
  case (Cons md mds)
  have "option_fits oper PCP_OPTION_METADATA (md_payload md)" if "pos + (4 + length (md_payload md)) \<le> PCP_MAX_LEN"
    using that md_aligned [of md] by (simp add: option_fits_def) (simp add: md_payload_def)
  then show ?case using Cons [of pos] Cons [of "pos + (4 + length (md_payload md))"] by simp
qed simp

lemma opt_if_all: "(\<forall>(code, payload)\<in>set (opt_if b c p). Q code payload) \<longleftrightarrow> (b \<longrightarrow> Q c p)"
  by (simp add: opt_if_def)

lemma options_fit:
  assumes "flow_wf f" and "oper = PCP_OPCODE_MAP \<or> \<not> f_filter_option_present f \<and> \<not> f_pfailure_option_present f"
  shows "\<forall>(code, payload)\<in>set (options_of pos f). option_fits oper code payload"
proof -
  have "\<forall>(code, payload)\<in>set (fixed_options f). option_fits oper code payload"
    unfolding fixed_options_def set_append ball_Un opt_if_all using assms by (simp add: option_fits_def flow_wf_def) blast
  then show ?thesis using md_fit_fits by (simp add: options_of_def ball_Un)
qed

lemma options_once:
  "distinct (filter (\<lambda>c. c \<in> {PCP_OPTION_3RD_PARTY, PCP_OPTION_PREF_FAIL}) (map fst (options_of pos f)))"
proof -
  have "filter (\<lambda>c. c \<in> {PCP_OPTION_3RD_PARTY, PCP_OPTION_PREF_FAIL}) (map fst (md_fit p mds)) = []" for p mds
    by (induction mds arbitrary: p) simp_all
  then show ?thesis by (simp add: options_of_def fixed_options_def opt_if_def)
qed

lemma options_without_md: "f_md_vals f = [] \<Longrightarrow> PCP_OPTION_METADATA \<notin> fst ` set (options_of pos f)"
  by (auto simp: options_of_def fixed_options_def opt_if_def)

lemma tlvs_aligned: "\<forall>(code, payload)\<in>set os. option_fits oper code payload \<Longrightarrow> length (tlvs os) mod 4 = 0"
  by (induction os) (auto simp: option_fits_def)

lemma request_options_accepted:
  assumes "flow_wf f" and "buf = pre @ tlvs (options_of pos f) @ replicate n 0" and "f_md_vals f = [] \<or> 4 \<le> n"
    and "get_u8 1 buf AND 0x7F = PCP_OPCODE_MAP \<or> \<not> f_filter_option_present f \<and> \<not> f_pfailure_option_present f"
  shows "options_loop buf reset_option_occur (int (length (tlvs (options_of pos f)))) (length pre) 0 = Some 0"
  by (rule options_accepted [OF assms(2) options_fit [OF assms(1,4)] _ options_once])
    (use assms(3) options_without_md in \<open>auto simp: reset_option_occur_def\<close>)

end
