(* ===== verification/Pcp_Test_Main.thy ===== *)
theory Pcp_Test_Main
  imports Pcp_Test_Server Pcp_Getopt
begin

text \<open>
  The options of the test server, \<^verbatim>\<open>test-server/main.c\<close>. \<^verbatim>\<open>inet_pton\<close> for IPv6 addresses is an argument, and
  so is the garbage in the address the server reports when none is given. A
  program that ends by \<^verbatim>\<open>exit\<close> is \<open>Inl\<close> of its status.
\<close>

section \<open>Options\<close>

definition server_long_options :: "long_option list" where
  "server_long_options = map (\<lambda>(nm, ha). \<lparr>lo_name = nm, lo_has_arg = ha, lo_flag = None, lo_val = 0\<rparr>)
     [(''ear'', required_argument), (''help'', no_argument), (''ip'', required_argument), (''ext-ip'', required_argument),
      (''timeout'', required_argument), (''app-bit'', no_argument), (''ret-dscp'', required_argument), (''log-file'', required_argument)]"

definition server_letters :: string where
  "server_letters = ''hr:v:p:''"

record server_opts =
  so_port :: string
  so_version :: u8
  so_end_after_recv :: u8
  so_result_code :: u8
  so_timeout_us :: int
  so_server_ip :: string
  so_ext_ip :: "in6_addr option"
  so_app_bit :: u8
  so_ret_dscp :: u8
  so_log_file :: "string option"

definition server_opts_start :: server_opts where
  "server_opts_start = \<lparr>so_port = ''5351'', so_version = 2, so_end_after_recv = 0, so_result_code = 255, so_timeout_us = 0,
     so_server_ip = ''0.0.0.0'', so_ext_ip = None, so_app_bit = 0, so_ret_dscp = 0, so_log_file = None\<rparr>"

text \<open>The long option that was found, by its name.\<close>

definition server_long :: "(string \<Rightarrow> in6_addr option) \<Rightarrow> string \<Rightarrow> string option \<Rightarrow> server_opts \<Rightarrow> (int + server_opts) option" where
  "server_long inet_pton6 nm a s =
     (if nm = ''ear'' then do { v \<leftarrow> a; Some (Inr (s\<lparr>so_end_after_recv := word_of_int (atoi v)\<rparr>)) }
      else if nm = ''timeout'' then
        do { v \<leftarrow> a; Some (if atoi v < 0 then Inl 1 else Inr (s\<lparr>so_timeout_us := atoi v\<rparr>)) }
      else if nm = ''app-bit'' then Some (Inr (s\<lparr>so_app_bit := 1\<rparr>))
      else if nm = ''ret-dscp'' then do { v \<leftarrow> a; Some (Inr (s\<lparr>so_ret_dscp := word_of_int (atoi v)\<rparr>)) }
      else if nm = ''log-file'' then Some (Inr (s\<lparr>so_log_file := a\<rparr>))
      else if nm = ''ip'' then do { v \<leftarrow> a; Some (Inr (s\<lparr>so_server_ip := v\<rparr>)) }
      else if nm = ''ext-ip'' then
        do { v \<leftarrow> a; Some (Inr (case inet_pton6 v of None \<Rightarrow> s | Some ip \<Rightarrow> s\<lparr>so_ext_ip := Some ip\<rparr>)) }
      else if nm = ''help'' then Some (Inl 1)
      else Some (Inr s))"

definition server_body :: "(string \<Rightarrow> in6_addr option) \<Rightarrow> (int, server_opts) option_body" where
  "server_body inet_pton6 c option_index a s =
     (if c = 0 then server_long inet_pton6 (lo_name (server_long_options ! option_index)) a s
      else if c = code (CHR ''h'') then Some (Inl 1)
      else if c = code (CHR ''p'') then
        do { v \<leftarrow> a; Some (Inr (if atoi v < 1 \<or> atoi v > 65535 then s else s\<lparr>so_port := v\<rparr>)) }
      else if c = code (CHR ''r'') then
        do { v \<leftarrow> a;
             let s = s\<lparr>so_result_code := word_of_int (atoi v)\<rparr>;
             Some (if so_result_code s > 13 \<and> so_result_code s \<noteq> 255 then Inl 1 else Inr s) }
      else if c = code (CHR ''v'') then
        do { v \<leftarrow> a;
             let s = s\<lparr>so_version := word_of_int (atoi v)\<rparr>;
             Some (if so_version s < 1 \<or> so_version s > 2 then Inl 1 else Inr s) }
      else Some (Inl 1))"

definition server_options :: "(string \<Rightarrow> in6_addr option) \<Rightarrow> string list \<Rightarrow> (int + server_opts) option" where
  "server_options inet_pton6 argv =
     option_loop argv server_letters server_long_options (server_body inet_pton6) getopt_start server_opts_start"

section \<open>The socket of the server\<close>

text \<open>An address \<^verbatim>\<open>getaddrinfo\<close> found: the descriptor \<^verbatim>\<open>socket\<close> returns for it, the length of the address, and
  whether \<^verbatim>\<open>bind\<close> succeeds.\<close>

record bind_address =
  sa_socket :: "nat option"
  sa_addrlen :: nat
  sa_bind :: bool

fun bind_first :: "bind_address list \<Rightarrow> nat option" where
  "bind_first [] = None"
| "bind_first (p # ps) =
     (case sa_socket p of
        None \<Rightarrow> bind_first ps
      | Some sockfd \<Rightarrow>
          if sa_addrlen p > 2147483647 then bind_first ps
          else if \<not> sa_bind p then bind_first ps
          else Some sockfd)"

text \<open>A program that ends here is \<open>Inl\<close> of its status.\<close>

definition createPCPsocket :: "bind_address list option \<Rightarrow> int + nat" where
  "createPCPsocket servinfo =
     (case servinfo of
        None \<Rightarrow> Inr 1
      | Some ps \<Rightarrow> (case bind_first ps of None \<Rightarrow> Inl 2 | Some sockfd \<Rightarrow> Inr sockfd))"

text \<open>The server uses the first address it can bind. When the name cannot be resolved it uses descriptor 1, which is
  the standard output.\<close>

lemma createPCPsocket_first:
  "createPCPsocket servinfo = (case servinfo of None \<Rightarrow> Inr 1 | Some ps \<Rightarrow>
     (case find (\<lambda>p. sa_socket p \<noteq> None \<and> sa_addrlen p \<le> 2147483647 \<and> sa_bind p) ps of
        None \<Rightarrow> Inl 2 | Some p \<Rightarrow> Inr (the (sa_socket p))))"
proof -
  have "bind_first ps = map_option (the \<circ> sa_socket) (find (\<lambda>p. sa_socket p \<noteq> None \<and> sa_addrlen p \<le> 2147483647 \<and> sa_bind p) ps)" for ps
    by (induction ps) (auto split: option.split)
  then show ?thesis by (simp add: createPCPsocket_def split: option.split)
qed

section \<open>The program\<close>

definition server_info_of :: "in6_addr \<Rightarrow> int \<Rightarrow> server_opts \<Rightarrow> server_info" where
  "server_info_of garbage now s =
     \<lparr>server_version = so_version s, end_after_recv = so_end_after_recv s, default_result_code = so_result_code s,
      ext_ip = (case so_ext_ip s of None \<Rightarrow> garbage | Some ip \<Rightarrow> ip), app_bit = so_app_bit s, ret_dscp = so_ret_dscp s,
      info_tv = Timeval (so_timeout_us s sdiv 1000) (so_timeout_us s smod 1000 * 1000), epoch_time_start = now\<rparr>"

text \<open>\<^verbatim>\<open>main\<close>: the options, then the server on the inputs of its pulses. The result is the exit status and the
  responses.\<close>

definition server_main ::
  "(string \<Rightarrow> in6_addr option) \<Rightarrow> in6_addr \<Rightarrow> int \<Rightarrow> timeval \<Rightarrow> pulse_input list \<Rightarrow> string list \<Rightarrow> (int \<times> bytes list) option" where
  "server_main inet_pton6 garbage now tod is argv =
     do { r \<leftarrow> server_options inet_pton6 argv;
          case r of
            Inl e \<Rightarrow> Some (e, [])
          | Inr s \<Rightarrow>
              do { (_, status, replies) \<leftarrow> execPCPServer is (pcp_test_server_start tod (server_info_of garbage now s));
                   Some (status, replies) } }"

section \<open>The options are sound\<close>

definition opts_ok :: "server_opts \<Rightarrow> bool" where
  "opts_ok s \<longleftrightarrow> so_version s \<noteq> 0 \<and> so_version s \<le> 2 \<and> (so_result_code s \<le> 13 \<or> so_result_code s = 255) \<and>
     0 \<le> so_timeout_us s \<and> so_app_bit s \<le> 1 \<and> 1 \<le> atoi (so_port s) \<and> atoi (so_port s) \<le> 65535"

lemma server_letters_ok: "letters_ok server_letters" "plain_table server_long_options"
  by (simp_all add: letters_ok_def server_letters_def plain_table_def server_long_options_def)

lemma server_letter_args: "takes_arg server_letters (CHR ''p'')" "takes_arg server_letters (CHR ''r'')" "takes_arg server_letters (CHR ''v'')"
  by (simp_all add: takes_arg_def server_letters_def)

lemma server_long_keeps:
  assumes "opts_ok s" and "i < length server_long_options"
    and "lo_has_arg (server_long_options ! i) = required_argument \<Longrightarrow> a \<noteq> None"
  shows "yields (server_long pt (lo_name (server_long_options ! i)) a s) (\<lambda>r. case r of Inl e \<Rightarrow> e = 1 | Inr s \<Rightarrow> opts_ok s)"
proof -
  have "i \<in> {0, 1, 2, 3, 4, 5, 6, 7}" using assms(2) by (auto simp: server_long_options_def)
  then show ?thesis using assms(1,3)
    by (auto simp: server_long_options_def server_long_def opts_ok_def split: option.splits)
qed

lemma server_body_keeps:
  assumes s: "opts_ok s" and d: "delivered server_letters server_long_options c i a"
  shows "yields (server_body pt c i a s) (\<lambda>r. case r of Inl e \<Rightarrow> e = 1 | Inr s \<Rightarrow> opts_ok s)"
proof (cases "c = 0")
  case True
  then show ?thesis using server_long_keeps [OF s, of i a pt] d by (auto simp: server_body_def delivered_def)
next
  case False
  have arg: "c = code ch \<Longrightarrow> takes_arg server_letters ch \<Longrightarrow> \<exists>v. a = Some v" for ch using d by (auto simp: delivered_def)
  consider "c = code (CHR ''p'')" | "c = code (CHR ''r'')" | "c = code (CHR ''v'')" | "c \<notin> code ` {CHR ''p'', CHR ''r'', CHR ''v''}" by blast
  then show ?thesis
    by cases (use s False arg [OF _ server_letter_args(1)] arg [OF _ server_letter_args(2)] arg [OF _ server_letter_args(3)]
      in \<open>auto simp: server_body_def opts_ok_def Let_def not_less\<close>)
qed

interpretation server_program: option_program server_letters server_long_options "server_body pt" "\<lambda>e. e = 1" opts_ok for pt
  by unfold_locales (fact server_letters_ok server_body_keeps)+


definition info_ok :: "server_info \<Rightarrow> bool" where
  "info_ok info \<longleftrightarrow> (server_version info = 1 \<or> server_version info = 2) \<and>
     (default_result_code info \<le> 13 \<or> default_result_code info = 255) \<and> app_bit info \<le> 1 \<and>
     0 \<le> tv_sec (info_tv info) \<and> 0 \<le> tv_usec (info_tv info) \<and> tv_usec (info_tv info) < 1000000"

lemma opts_ok_port: "opts_ok s \<Longrightarrow> 1 \<le> atoi (so_port s)" "opts_ok s \<Longrightarrow> atoi (so_port s) \<le> 65535"
  by (simp_all add: opts_ok_def)

lemma u8_cases_2: "(v :: u8) \<noteq> 0 \<Longrightarrow> v \<le> 2 \<Longrightarrow> v = 1 \<or> v = 2"
  by (auto simp: word_le_nat_alt unat_eq_0 [symmetric] word_unat_eq_iff)

lemma info_of_opts: "opts_ok s \<Longrightarrow> info_ok (server_info_of garbage now s)"
proof -
  assume s: "opts_ok s"
  then have "so_timeout_us s sdiv 1000 = so_timeout_us s div 1000" "so_timeout_us s smod 1000 = so_timeout_us s mod 1000"
    by (simp_all add: opts_ok_def signed_divide_int_eq_divide_int signed_modulo_int_eq_modulo_int sgn_if)
  moreover have "so_timeout_us s mod 1000 < 1000" by simp
  ultimately show ?thesis
    using s u8_cases_2 [of "so_version s"]
    by (auto simp: opts_ok_def info_ok_def server_info_of_def pos_imp_zdiv_nonneg_iff simp del: pos_mod_bound)
qed

section \<open>Properties\<close>

text \<open>Property C37: the options of the test server. Every command line is read to its end: either the program
  stops with status 1, or the server is started for version 1 or 2, with a result code of the
  protocol or none, a normalised timeout and a port between 1 and 65535.\<close>

theorem server_options_sound:
  "\<exists>r. server_options inet_pton6 argv = Some r \<and>
     (case r of Inl e \<Rightarrow> e = 1
      | Inr s \<Rightarrow> info_ok (server_info_of garbage now s) \<and> 1 \<le> atoi (so_port s) \<and> atoi (so_port s) \<le> 65535)"
proof -
  have "opts_ok server_opts_start"
    by (simp add: opts_ok_def server_opts_start_def atoi_def isspace_def digit_val_def)
  from server_program.loop_ends [OF this, of argv inet_pton6] show ?thesis
    unfolding server_options_def
  proof (rule yieldsE)
    fix r
    assume "option_loop argv server_letters server_long_options (server_body inet_pton6) getopt_start server_opts_start = Some r"
      and "case r of Inl e \<Rightarrow> e = 1 | Inr s \<Rightarrow> opts_ok s"
    then show "\<exists>r. option_loop argv server_letters server_long_options (server_body inet_pton6) getopt_start server_opts_start = Some r \<and>
      (case r of Inl e \<Rightarrow> e = 1
       | Inr s \<Rightarrow> info_ok (server_info_of garbage now s) \<and> 1 \<le> atoi (so_port s) \<and> atoi (so_port s) \<le> 65535)"
      by (intro exI [of _ r]) (auto simp: info_of_opts opts_ok_port split: sum.splits)
  qed
qed

end
