(* ===== verification/Spec2Isabelle.thy ===== *)
theory Spec2Isabelle
  imports Pcp_Session Pcp_Layout Pcp_Socket_Vt Pcp_Debug Pcp_Gateway Pcp_Logger Pcp_Cli Pcp_Portability Pcp_Test_Main
begin

text \<open>
  Verification of libpcpnatpmp, a client library for the Port Control Protocol (PCP, RFC 6887,
  versions 1 and 2) and NAT-PMP (version 0), from the C sources under \<^verbatim>\<open>src/lib\<close>, with the
  command line client, the example program and the server it is tested against.

  \<^bold>\<open>The program.\<close> An application creates a context (\<^verbatim>\<open>pcp_init\<close>), registers servers or lets the
  library find them, and asks for mappings (\<^verbatim>\<open>pcp_new_flow\<close>). A flow is made for every suitable
  server. The application calls \<^verbatim>\<open>pcp_pulse\<close> or \<^verbatim>\<open>pcp_wait\<close> again and again; each turn reads at most one
  datagram, matches it with a server and a flow, and runs the state machine of every server
  whose timeout has come, which in turn runs the state machines of its flows. The parts are

  \<^item> the client database (\<^verbatim>\<open>pcp_client_db.c\<close>): a hash table of flows chained in buckets, and an
    array of servers;
  \<^item> the messages (\<^verbatim>\<open>pcp_msg.c\<close>): building requests and parsing responses;
  \<^item> the state machines of flows and of servers and the event loop (\<^verbatim>\<open>pcp_event_handler.c\<close>);
  \<^item> server discovery and source address selection (\<^verbatim>\<open>pcp_server_discovery.c\<close>,
    \<^verbatim>\<open>findsaddr-udp.c\<close>);
  \<^item> the public interface (\<^verbatim>\<open>pcp_api.c\<close>);
  \<^item> helpers (\<^verbatim>\<open>pcp_utils.h\<close>, the address conversions of \<^verbatim>\<open>pcp_socket.c\<close>, addresses as text in \<^verbatim>\<open>sock_ntop.c\<close>,
    the logger \<^verbatim>\<open>pcp_logger.c\<close>) and the gateways of the system (\<^verbatim>\<open>gateway.c\<close>);
  \<^item> three programs, the command line client (\<^verbatim>\<open>cli-client\<close>), the test server (\<^verbatim>\<open>test-server\<close>) and the example
    (\<^verbatim>\<open>example/pcp-example.c\<close>), with the scanners for options (\<^verbatim>\<open>win_utils/getopt_long.c\<close>, \<^verbatim>\<open>getopt.c\<close>).

  \<^bold>\<open>The model.\<close> A context is the record \<open>pcp_ctx\<close> of \<open>Pcp_State\<close>, with the members of \<^verbatim>\<open>struct pcp_ctx_s\<close>. Flows
  live in an explicit heap, \<open>c_heap\<close>, because they are linked twice (\<^verbatim>\<open>next\<close> in a bucket,
  \<^verbatim>\<open>next_child\<close> in the chain of one request) and shared with the servers (\<^verbatim>\<open>ping_flow_msg\<close>); a server is
  named by its position in the array, which is what the code stores. An operation takes the
  context and returns \<open>Some\<close> of the new one and its result, and \<open>None\<close> stands for undefined
  behaviour (a dangling or null pointer, an index outside an array, an overflow of a signed
  number) and, in a loop defined by \<open>partial_function (option)\<close>, for not returning. So every
  theorem that an operation yields a result is also a theorem that it returns and touches no bad
  pointer. Integers are words of their C width, except times, which are integers without a width
  (\<^verbatim>\<open>time_t\<close> has 64 bits). Fields in network byte order are the numbers they denote; message buffers
  are lists of bytes with the offsets of the packed structs.

  The system is the record \<open>env\<close>: clocks, random numbers, the allocator, the socket, the source address
  the kernel picks, and the gateways found, each as a function of the number \<open>c_tick\<close> of calls made so far.
  The theorems hold for every environment, or for those with a named property:
  \<open>sendto_bounded\<close> (a send never reports more bytes than it was given), \<open>recv_inet\<close> (datagrams come from
  IPv4 or IPv6 addresses) and, for the loops over timeouts to return, \<open>clock_from E N now\<close> (the clock may
  jump as it likes before its \<open>N\<close>th reading and rests at \<open>now\<close> from then on: a server whose timeout keeps coming due as
  the clock moves is served for ever by the code).

  \<^bold>\<open>Theories, in the order they build on each other.\<close>

  \<^item> \<open>Pcp_Prelude\<close>: byte buffers, the calculus of computations that yield a result, chains of
    pointers. \<open>Pcp_Types\<close>, \<open>Pcp_State\<close>: constants, enumerations, structs, the environment, reading
    and writing of flows and servers.
  \<^item> \<open>Pcp_Utils\<close>: times, the epoch rule that detects restarts of a server, nonces, and the conversion
    of addresses: order and difference of times, the bounds of the epoch rule, round trip.
  \<^item> \<open>Pcp_Client_Db\<close>: \<open>db_rep c bs\<close> says that the buckets of the table are the chains \<open>bs\<close>. The locale
    \<open>flow_index\<close> is the contract of the table as a map from keys to lists of flows, interpreted for
    the operations of the code; \<open>table_walk\<close> is the walk of \<^verbatim>\<open>pcp_db_foreach_flow\<close> with a callback that keeps
    the table, interpreted for each callback. \<open>ctx_wf\<close> is the invariant of a context.
  \<^item> \<open>Pcp_Msg\<close>: builders and parsers; the builders write exactly a reference encoding and never
    outside the buffer, the parsers read back what the protocol puts on the wire and depend on
    the received bytes only.
    \<open>Pcp_Layout\<close>: the packed structures of \<^verbatim>\<open>pcp_msg_structs.h\<close> as types; the messages built are values of
    them, and the offsets of the model are those of the declarations.
  \<^item> \<open>Pcp_Flow_Sm\<close>: both tables of the flow state machine, the handlers, the dispatch loop: safety,
    termination, what a flow does on a response, on timeouts and on renewal.
  \<^item> \<open>Pcp_Server_Sm\<close>: the table and the handlers of the server state machine; every handler keeps \<open>ctx_wf\<close>
    in every environment; \<open>reachable\<close> is the step relation of everything that can happen to a context.
    \<open>Pcp_Later\<close>: no operation of the machines frees a flow or turns the count of calls back; the locale \<open>ctx_kept\<close> is a relation between
    contexts that the primitive steps keep, and it is interpreted for this one. \<open>Pcp_Rounds\<close>: the rounds over a server whose timeout has come end.
    \<open>Pcp_Pulse\<close>: the event loop, version negotiation, giving up a server. \<open>Pcp_Debug\<close>: the names for the debug log; what is
    logged lies inside the tables of names.
  \<^item> \<open>Pcp_Discovery\<close>: source addresses, gateways, registering a server. \<open>Pcp_Gateway\<close>: the three ways to read the
    routing table (netlink, \<^verbatim>\<open>sysctl\<close>, Windows): which gateways are found, and that they agree.
  \<^item> \<open>Pcp_Api\<close>: the public interface. The locale \<open>flow_visitor\<close> is what a loop over the children of a flow
    may do to each, \<open>flow_setter\<close> the special case of the option setters.
    \<open>Pcp_Flow_Life\<close>: creating, chaining and deleting flows, changing the nonce, ending. \<open>Pcp_Wait\<close>: \<^verbatim>\<open>pcp_wait\<close> returns by
    its deadline. \<open>Pcp_Session\<close>: \<^verbatim>\<open>pcp_init\<close> with the servers it finds, and the example program from its start to
    its exit status.
  \<^item> \<open>Pcp_Socket\<close>: the default socket functions (\<^verbatim>\<open>pcp_socket.c\<close>) over the system calls they make: which
    port is bound and when the search ends, what is sent and received and how errors are reported.
    \<open>Pcp_Socket_Vt\<close>: the table of socket functions and the calls through it, the functions for Windows, where they agree with
    the others, and a turn of the event loop on the default table.
  \<^item> \<open>Pcp_Text\<close>: addresses as text (\<^verbatim>\<open>sock_ntop.c\<close>), with the functions of the C library it uses on
    strings and the resolver as a parameter, and the nonce option of the command line client
    (\<^verbatim>\<open>pcp_cli_nonce.c\<close>): round trips, and which texts are refused. \<open>Pcp_Logger\<close>: the level and the growing buffer
    of the logger.
  \<^item> \<open>Pcp_Getopt\<close>: the scanner of command lines. The locale \<open>option_program\<close> is a program that loops over its options with
    a body that keeps an invariant; it is interpreted for the client and for the test server.
    \<open>Pcp_Portability\<close>: the second scanner, which agrees with the first on single letters, the clock for Windows, and \<^verbatim>\<open>pcp_strndup\<close>.
    \<open>Pcp_Cli\<close>: the client, from its arguments over the operations of the library to its exit status.
  \<^item> \<open>Pcp_Test_Server\<close>: the server of the tests (\<^verbatim>\<open>test-server/pcp-server.c\<close>): checking a request, the response, the
    pulses; where it leaves its buffer, that it ends, and that it accepts the options of the library. \<open>Pcp_Test_Main\<close>: its command line (\<^verbatim>\<open>test-server/main.c\<close>)
    and the choice of its socket.
  \<^item> This theory: a response, from its bytes to the state of the flow it answers, and the
    client and the test server together, from the request to the granting response.

  \<^bold>\<open>Configuration.\<close> The model has \<^verbatim>\<open>PCP_USE_IPV6_SOCKET\<close>, \<^verbatim>\<open>PCP_EXPERIMENTAL\<close>, \<^verbatim>\<open>PCP_FLOW_PRIORITY\<close>,
  \<^verbatim>\<open>PCP_SADSCP\<close> and NAT-PMP support on, as in the default build with these options. Loops have no
  fuel: the recursive functions terminate by their structure or are partial functions proved to
  return.

  \<^bold>\<open>Not modelled.\<close> The system calls on sockets and on the routing tables are arguments or belong to
  the environment; in the state machines a send and a receive are each one call of the environment, which \<open>socket_env\<close> of
  \<open>Pcp_Socket_Vt\<close> makes from a table of socket functions. Texts that are printed (usage, tables of results, the
  log file of the test server) and the seed of the random numbers are output or chance only. The part of \<^verbatim>\<open>gateway.c\<close> under
  \<^verbatim>\<open>#if 0\<close> is never compiled, and the configuration in which a socket is a pointer has default functions that only
  fail. The tests and the scapy layer are no part of the library and its programs.
\<close>

section \<open>A response reaches its flow\<close>

text \<open>The answer of a server to a flow, with the external address and port it assigns.\<close>

definition answer :: "u8 \<Rightarrow> u8 \<Rightarrow> u32 \<Rightarrow> u32 \<Rightarrow> in6_addr \<Rightarrow> u16 \<Rightarrow> bytes \<Rightarrow> pcp_flow \<Rightarrow> bytes" where
  "answer v res lifetime epoch ip port rest f =
     (let g = f\<lparr>f_u := U_map_peer ip port\<rparr> in
      pcp_response v (kd_operation (f_kd f)) res lifetime epoch
        (nonce_if v g @ (if kd_operation (f_kd f) = PCP_OPCODE_PEER then peer_data g else map_data g) @ rest))"

text \<open>The part of the key a response repeats or the server record supplies: a mapping has no destination.\<close>

definition answerable :: "pcp_server \<Rightarrow> pcp_flow \<Rightarrow> bool" where
  "answerable s f \<longleftrightarrow> mapping_op (kd_operation (f_kd f)) \<and> kd_pcp_server_ip (f_kd f) = s_pcp_ip s \<and> kd_nonce (f_kd f) = s_nonce s \<and>
     \<not> IPV6_IS_ADDR_ANY (kd_src_ip (f_kd f)) \<and>
     (kd_operation (f_kd f) = PCP_OPCODE_MAP \<longrightarrow> kd_dst_ip (f_kd f) = in6_zero \<and> kd_dst_port (f_kd f) = 0)"

lemma completed_key:
  assumes "answerable s f" and "v = 1 \<or> v = 2"
  shows "m_kd (complete_msg s scope (m\<lparr>m_recv_version := ucast (v :: u8), m_kd := response_kd v f, m_rcvd_to_addr := Sockaddr_in6 (kd_src_ip (f_kd f)) p (kd_scope_id (f_kd f))\<rparr>)) = f_kd f"
  using assms by (intro flow_key_data.equality) (auto simp: complete_msg_def answerable_def mapping_op_def response_kd_def zero_kd_def Let_def)

lemma complete_msg_sel [simp]:
  "m_recv_result (complete_msg s sc m) = m_recv_result m" "m_recv_lifetime (complete_msg s sc m) = m_recv_lifetime m"
  "m_received_time (complete_msg s sc m) = m_received_time m" "m_recv_dscp (complete_msg s sc m) = m_recv_dscp m"
  "m_assigned_ext_ip (complete_msg s sc m) = m_assigned_ext_ip m" "m_assigned_ext_port (complete_msg s sc m) = m_assigned_ext_port m"
  "m_recv_version (complete_msg s sc m) = m_recv_version m"
  by (simp_all add: complete_msg_def Let_def split: prod.split)

lemma on_response_cong:
  assumes "m_recv_result m = m_recv_result n" and "m_recv_lifetime m = m_recv_lifetime n" and "m_received_time m = m_received_time n"
    and "m_recv_dscp m = m_recv_dscp n" and "m_assigned_ext_ip m = m_assigned_ext_ip n" and "m_assigned_ext_port m = m_assigned_ext_port n"
  shows "on_response now m f = on_response now n f"
  using assms by (simp add: on_response_def)

lemma pcp_get_flow_msg: "ctx_wf c \<Longrightarrow> pcp_get_flow k s (c\<lparr>c_msg := m\<rparr>) = pcp_get_flow k s c"
proof -
  let ?c = "c\<lparr>c_msg := m\<rparr>"
  assume "ctx_wf c"
  then obtain bs where rep: "db_rep c bs" by (auto simp: ctx_wf_def)
  then have rep': "db_rep ?c bs" using db_rep_cong [of ?c c bs] by (simp add: fnext_def fbucket_def fun_eq_iff)
  have "flow_matches k (s_index s) ?c = flow_matches k (s_index s) c" by (simp add: flow_matches_def fun_eq_iff)
  then show ?thesis using pcp_get_flow_refines [OF rep', of k s] pcp_get_flow_refines [OF rep, of k s] by simp
qed

text \<open>Property C2: a response reaches its flow. The answer of a server, parsed from the bytes of the
  datagram and completed with what is known of the server, is matched with the flow it answers
  through the hash table and handled by the state machine of that flow, and of no other: on success the flow
  is granted with the assigned address and port, on an error it waits or fails as its result
  code demands.\<close>

theorem answer_reaches_flow:
  assumes wf: "ctx_wf c" and i: "in_use c i" and f: "c_heap c a = Some f" and st: "f_state f = pfs_wait_resp"
    and found: "pcp_get_flow (f_kd f) (c_pcp_servers c ! i) c = Some (Some a)"
    and kd: "answerable (c_pcp_servers c ! i) f" and v: "v = 1 \<or> v = 2"
    and buf: "m_pcp_msg_buffer m = answer v res lifetime epoch ip port rest f"
    and len: "length (answer v res lifetime epoch ip port [] f) \<le> unat (m_pcp_msg_len m)"
    and rcvd_to: "m_rcvd_to_addr m = Sockaddr_in6 (kd_src_ip (f_kd f)) p (kd_scope_id (f_kd f))"
  shows "\<exists>m' c'. parse_response m = (m', PCP_ERR_SUCCESS) \<and>
    server_process_rcvd_pcp_msg E i (c\<lparr>c_msg := complete_msg (c_pcp_servers c ! i) scope m'\<rparr>) = Some (c', Some a) \<and>
    c_heap c' = (c_heap c)(a \<mapsto> on_response (gettimeofday E c) (m\<lparr>m_recv_result := ucast res, m_recv_lifetime := lifetime,
        m_assigned_ext_ip := ip, m_assigned_ext_port := port\<rparr>) f)"
proof -
  let ?s = "c_pcp_servers c ! i"
  let ?g = "f\<lparr>f_u := U_map_peer ip port\<rparr>"
  let ?m = "m\<lparr>m_recv_version := ucast v, m_recv_result := ucast res, m_recv_lifetime := lifetime, m_recv_epoch := epoch,
    m_kd := response_kd v f, m_assigned_ext_ip := ip, m_assigned_ext_port := port\<rparr>"
  let ?M = "complete_msg ?s scope ?m"
  let ?c = "c\<lparr>c_msg := ?M\<rparr>"
  let ?data = "if kd_operation (f_kd f) = PCP_OPCODE_PEER then peer_data ?g else map_data ?g"
  have op: "kd_operation (f_kd f) = PCP_OPCODE_MAP \<or> kd_operation (f_kd f) = PCP_OPCODE_PEER" using kd by (simp add: answerable_def mapping_op_def)
  have rk: "response_kd v ?g = response_kd v f" by (simp add: response_kd_def)
  have parse: "parse_response m = (?m, PCP_ERR_SUCCESS)"
    using response_decoded [OF v, of ?g ?data m res lifetime epoch rest] op buf len
    by (auto simp: answer_def pcp_response_def Let_def rk)
  have key: "m_kd ?M = f_kd f"
    using completed_key [OF kd v, where scope = scope and p = p and m = "m\<lparr>m_recv_result := ucast res, m_recv_lifetime := lifetime,
      m_recv_epoch := epoch, m_assigned_ext_ip := ip, m_assigned_ext_port := port\<rparr>"] rcvd_to by (simp add: complete_msg_def Let_def)
  have ver: "m_recv_version ?M = ucast v" "m_recv_result ?M = ucast res" "m_recv_version ?M \<noteq> 0"
    using v by auto
  have look: "pcp_get_flow (f_kd f) ?s ?c = Some (Some a)" using found pcp_get_flow_msg [OF wf] by simp
  have find_f: "find_response_flow i ?c = Some (?c, Some a)"
    using i look key ver(3) by (simp add: find_response_flow_def in_use_def Let_def)
  obtain xs where ch: "Chain (fchild c) (Some a) xs None" using wf f by (auto simp: ctx_wf_def children_wf_def)
  have "fchild ?c = fchild c" by (simp add: fchild_def fun_eq_iff)
  then obtain c' where c': "handle_flow_event E a (fev_of_result (m_recv_result ?M)) (Some ?M) ?c =
      Some (c', f_state (on_response (gettimeofday E ?c) ?M f))" "c_heap c' = (c_heap ?c)(a \<mapsto> on_response (gettimeofday E ?c) ?M f)"
    using handle_response [of ?c a f xs E ?M] f st ch by auto
  have same: "on_response (gettimeofday E ?c) ?M f = on_response (gettimeofday E c) (m\<lparr>m_recv_result := ucast res, m_recv_lifetime := lifetime,
        m_assigned_ext_ip := ip, m_assigned_ext_port := port\<rparr>) f"
    by (simp add: gettimeofday_def, rule on_response_cong) simp_all
  have "server_process_rcvd_pcp_msg E i ?c = Some (c', Some a)"
    unfolding server_process_rcvd_pcp_msg_def find_f using c'(1) by simp
  then show ?thesis using parse c'(2) same by auto
qed

text \<open>A context with one server and one flow of it that waits for its response.\<close>

definition demo_key :: flow_key_data where
  "demo_key = zero_kd\<lparr>kd_operation := PCP_OPCODE_MAP, kd_protocol := IPPROTO_TCP, kd_src_port := 80, kd_src_ip := v4mapped 0x0A000002\<rparr>"

definition demo_asking :: pcp_flow where
  "demo_asking = zero_flow\<lparr>f_kd := demo_key, f_state := pfs_wait_resp, f_key_bucket := compute_flow_key demo_key\<rparr>"

definition demo_asked :: pcp_ctx where
  "demo_asked = zero_ctx\<lparr>c_heap := [1 \<mapsto> demo_asking],
     c_flows := (c_flows zero_ctx)[unat (compute_flow_key demo_key) := Some 1], c_flow_cnt := 1,
     c_pcp_servers := [zero_server\<lparr>s_server_state := pss_wait_io\<rparr>]\<rparr>"

definition demo_answer :: pcp_recv_msg where
  "demo_answer = zero_msg\<lparr>m_pcp_msg_len := 60, m_pcp_msg_buffer := answer 2 0 3600 17 (v4mapped 0x01020304) 8080 (replicate 1040 0) demo_asking,
     m_rcvd_to_addr := Sockaddr_in6 (v4mapped 0x0A000002) 5350 0\<rparr>"

lemma demo_asking_sel [simp]: "f_kd demo_asking = demo_key" "f_state demo_asking = pfs_wait_resp" "f_next demo_asking = None"
  "f_next_child demo_asking = None" "f_key_bucket demo_asking = compute_flow_key demo_key" "f_pcp_server_indx demo_asking = 0"
  by (simp_all add: demo_asking_def)

lemma demo_asked_rep: "db_rep demo_asked ((replicate FLOW_HASH_SIZE [])[unat (compute_flow_key demo_key) := [1]])"
proof -
  let ?i = "unat (compute_flow_key demo_key)"
  have i: "?i < FLOW_HASH_SIZE" by (rule hash_in_table)
  have len: "length (concat ((replicate FLOW_HASH_SIZE [])[?i := [1 :: nat]])) = 1"
    using length_concat_update [of ?i "replicate FLOW_HASH_SIZE []" "[1 :: nat]"] i by simp
  show ?thesis
    using i unfolding db_rep_def len
    by (auto simp: demo_asked_def fnext_def fbucket_def nth_list_update split: if_splits)
qed

lemma demo_asked_sel [simp]: "c_heap demo_asked = [1 \<mapsto> demo_asking]" "c_pcp_servers demo_asked = [zero_server\<lparr>s_server_state := pss_wait_io\<rparr>]"
  by (simp_all add: demo_asked_def)

lemma demo_asked_wf: "ctx_wf demo_asked"
proof -
  have "children_wf demo_asked" by (auto simp: children_wf_def fchild_def intro!: exI [of _ "[1]"] split: if_splits)
  moreover have "servers_wf demo_asked" by (simp add: servers_wf_def server_ok_def zero_server_def Let_def)
  moreover have "length (m_pcp_msg_buffer (c_msg demo_asked)) = PCP_MAX_LEN" by (simp add: demo_asked_def zero_ctx_def zero_msg_def)
  moreover have "flow_wf demo_asking" by (simp add: demo_asking_def flow_wf_def zero_flow_def)
  ultimately show ?thesis using demo_asked_rep by (auto simp: ctx_wf_def split: if_splits)
qed

theorem answer_reaches_flow_witness:
  "\<exists>m' c' g. parse_response demo_answer = (m', PCP_ERR_SUCCESS) \<and>
    server_process_rcvd_pcp_msg demo_env 0 (demo_asked\<lparr>c_msg := complete_msg (zero_server\<lparr>s_server_state := pss_wait_io\<rparr>) 0 m'\<rparr>) = Some (c', Some 1) \<and>
    c_heap c' 1 = Some g \<and> f_state g = pfs_wait_for_lifetime_renew \<and> u_ext_port (f_u g) = 8080"
proof -
  let ?s = "zero_server\<lparr>s_server_state := pss_wait_io\<rparr>"
  have found: "pcp_get_flow (f_kd demo_asking) (c_pcp_servers demo_asked ! 0) demo_asked = Some (Some 1)"
    using hash_in_table [of demo_key] by (simp add: pcp_get_flow_refines [OF demo_asked_rep] flow_matches_def zero_server_def)
  have ans: "answerable (c_pcp_servers demo_asked ! 0) demo_asking"
    by (simp add: answerable_def mapping_op_def demo_key_def zero_server_def zero_kd_def IPV6_IS_ADDR_ANY_def
        IN6_IS_ADDR_UNSPECIFIED_def IN6_IS_ADDR_V4MAPPED_def v4mapped_def)
  have len: "length (answer 2 0 3600 17 (v4mapped 0x01020304) 8080 [] demo_asking) \<le> unat (m_pcp_msg_len demo_answer)"
    by (simp add: answer_def demo_answer_def pcp_response_def nonce_if_def map_data_def demo_key_def Let_def)
  have src: "m_rcvd_to_addr demo_answer = Sockaddr_in6 (kd_src_ip (f_kd demo_asking)) 5350 (kd_scope_id (f_kd demo_asking))"
    by (simp add: demo_answer_def demo_key_def zero_kd_def)
  have "m_pcp_msg_buffer demo_answer = answer 2 0 3600 17 (v4mapped 0x01020304) 8080 (replicate 1040 0) demo_asking"
    by (simp add: demo_answer_def)
  from answer_reaches_flow [OF demo_asked_wf _ _ _ found ans _ this len src, of demo_env 0]
  show ?thesis by (auto simp: in_use_def on_response_def Let_def demo_key_def)
qed

section \<open>Client and test server together\<close>

text \<open>The requests the server takes: MAP in both versions with any options, PEER in version 2 without the options that
  only mappings have.\<close>

definition grantable :: "u8 \<Rightarrow> pcp_flow \<Rightarrow> bool" where
  "grantable v f \<longleftrightarrow>
     kd_operation (f_kd f) = PCP_OPCODE_MAP \<and> (v = 1 \<or> v = 2) \<or>
     kd_operation (f_kd f) = PCP_OPCODE_PEER \<and> v = 2 \<and> \<not> f_filter_option_present f \<and> \<not> f_pfailure_option_present f"

definition flow_data :: "u8 \<Rightarrow> pcp_flow \<Rightarrow> bytes" where
  "flow_data v f = nonce_if v f @ (if kd_operation (f_kd f) = PCP_OPCODE_PEER then peer_data f else map_data f)"

lemma grantable_request:
  assumes "grantable v f"
  shows "pcp_request v f = Some (request_header v f @ flow_data v f @ tlvs (options_of (24 + length (flow_data v f)) f))"
  using assms by (auto simp: grantable_def pcp_request_def opcode_data_def flow_data_def Let_def)

lemma request_accepted:
  assumes g: "grantable v f" and "v \<le> version" and "flow_wf f" and md: "f_md_vals f = [] \<or> 4 \<le> n"
    and m: "m = request_header v f @ flow_data v f @ tlvs (options_of pos f)" and "length m \<le> PCP_MAX_LEN"
  shows "printPCPreq (m @ replicate n 0) (int (length m)) version = Some 0"
proof -
  let ?buf = "m @ replicate n 0" and ?os = "tlvs (options_of pos f)"
  have op: "get_u8 0 ?buf = v" "get_u8 1 ?buf AND 0x7F = kd_operation (f_kd f)"
    using g by (auto simp: m request_header_def get_u8_def grantable_def)
  have "options_loop ?buf reset_option_occur (int (length ?os)) (length (request_header v f @ flow_data v f)) 0 = Some 0"
    by (rule request_options_accepted [OF assms(3) _ md]) (use g op(2) in \<open>auto simp: m grantable_def\<close>)
  moreover obtain k where "length ?os = 4 * k"
    using tlvs_aligned [OF options_fit [OF assms(3), of "kd_operation (f_kd f)"], of pos] g by (auto simp: grantable_def)
  ultimately show ?thesis using g assms(2,6) op by (auto simp: printPCPreq_def Let_def m flow_data_def grantable_def)
qed

lemma granted:
  assumes g: "grantable v f" and m: "m = request_header v f @ flow_data v f @ rest"
  shows "create_response now (m @ z) 0 info =
    answer v 0 (f_lifetime f) (word_of_int (now - epoch_time_start info))
      (if kd_operation (f_kd f) = PCP_OPCODE_MAP then ext_ip info else u_ext_ip (f_u f)) (u_ext_port (f_u f)) rest f @ z"
proof -
  obtain a b c d where src: "in6_bytes (kd_src_ip (f_kd f)) = be32 a @ be32 b @ be32 c @ be32 d" by (auto simp: in6_bytes_def)
  have z: "replicate 12 0 = be32 0 @ be32 0 @ be32 0" by (simp add: be32_def numeral_eq_Suc)
  consider "kd_operation (f_kd f) = PCP_OPCODE_MAP" "v = 1" | "kd_operation (f_kd f) = PCP_OPCODE_MAP" "v = 2"
    | "kd_operation (f_kd f) = PCP_OPCODE_PEER" "v = 2" using g by (auto simp: grantable_def)
  then show ?thesis
    by cases (simp_all add: m flow_data_def request_header_def src create_response_def answer_def pcp_response_def nonce_if_def
        peer_data_def map_data_def Let_def put_bytes_def get_u8_def z)
qed

lemma served_request:
  assumes "grantable v f" and "v \<le> server_version info" and "default_result_code info = 255" and "flow_wf f" and "f_md_vals f = [] \<or> 4 \<le> n"
    and m: "m = request_header v f @ flow_data v f @ tlvs (options_of pos f)" and "length m \<le> PCP_MAX_LEN"
  shows "serve now info (m @ replicate n 0) (length m) =
    Some (answer v 0 (f_lifetime f) (word_of_int (now - epoch_time_start info))
      (if kd_operation (f_kd f) = PCP_OPCODE_MAP then ext_ip info else u_ext_ip (f_u f)) (u_ext_port (f_u f)) (tlvs (options_of pos f)) f)"
proof -
  have "length (answer v 0 (f_lifetime f) e ip p r f) = length (request_header v f @ flow_data v f @ r)" for e ip p r
    using assms(1) by (auto simp: answer_def pcp_response_def flow_data_def grantable_def Let_def)
  then show ?thesis
    using request_accepted [OF assms(1,2,4,5,6,7)] granted [OF assms(1) m, of now "replicate n 0" info] assms(3) by (simp add: serve_def m)
qed



end
